(* ===== verification/Prelude.thy ===== *)
theory Prelude
  imports Main "HOL-Library.Word" "HOL-Library.Monad_Syntax"
begin

unbundle bit_operations_syntax

text \<open>
  Shared vocabulary of the development: C integers and casts, shifts with the C operand
  conventions, bit lists in transmission order (most significant bit first), checked array
  access, and the theorem collections the component proofs use.

  Conventions.
  \<^item> A C value of type \<open>int\<close>, \<open>short\<close> or \<open>unsigned char\<close> is an \<open>int\<close>; a cast to a narrower type is
    written out (\<open>u8\<close>, \<open>u16\<close>, \<open>s16\<close>, \<open>s32\<close>). Where code computes on the bits of an
    \<open>unsigned int\<close> the value is a \<open>32 word\<close>.
  \<^item> \<open>None\<close> of an option-typed operation means that the C program has no defined result there: an
    array access out of bounds, or a loop that does not end. Error codes the code returns are
    ordinary values.
  \<^item> A shift whose count is outside \<open>0..31\<close> is undefined in C; \<open>shl32\<close> and \<open>shr32\<close> give 0, what a
    barrel shifter with a wide count gives.
\<close>

named_theorems bits_simps \<open>laws of a bit source: one read, written as rewriting of its bit list\<close>
named_theorems option_run \<open>successful runs of checked operations\<close>

section \<open>Casts\<close>

definition u8 :: "int \<Rightarrow> int" where "u8 x = take_bit 8 x"
definition u16 :: "int \<Rightarrow> int" where "u16 x = take_bit 16 x"
definition u32 :: "int \<Rightarrow> int" where "u32 x = take_bit 32 x"
definition s16 :: "int \<Rightarrow> int" where "s16 x = signed_take_bit 15 x"
definition s32 :: "int \<Rightarrow> int" where "s32 x = signed_take_bit 31 x"
definition s64 :: "int \<Rightarrow> int" where "s64 x = signed_take_bit 63 x"

lemma u8_id [simp]: "0 \<le> x \<Longrightarrow> x < 256 \<Longrightarrow> u8 x = x"
  by (simp add: u8_def take_bit_int_eq_self_iff)

lemma u16_id [simp]: "0 \<le> x \<Longrightarrow> x < 65536 \<Longrightarrow> u16 x = x"
  by (simp add: u16_def take_bit_int_eq_self_iff)

lemma u8_range [simp]: "0 \<le> u8 x" "u8 x < 256"
  using take_bit_int_less_exp [of 8 x] by (simp_all add: u8_def)

lemma s32_id: "- (2 ^ 31) \<le> x \<Longrightarrow> x < 2 ^ 31 \<Longrightarrow> s32 x = x"
  by (simp add: s32_def signed_take_bit_int_eq_self_iff)

lemma s32_range: "- (2 ^ 31) \<le> s32 x" "s32 x < 2 ^ 31"
  using signed_take_bit_int_greater_eq_minus_exp [of 31 x]
    signed_take_bit_int_less_exp [of 31 x]
  by (simp_all add: s32_def)

section \<open>Shifts\<close>

definition shl32 :: "32 word \<Rightarrow> int \<Rightarrow> 32 word" where
  "shl32 x s = (if 0 \<le> s \<and> s < 32 then push_bit (nat s) x else 0)"

definition shr32 :: "32 word \<Rightarrow> int \<Rightarrow> 32 word" where
  "shr32 x s = (if 0 \<le> s \<and> s < 32 then drop_bit (nat s) x else 0)"

lemma bit_shl32: "bit (shl32 x s) i \<longleftrightarrow> 0 \<le> s \<and> i < 32 \<and> s \<le> int i \<and> bit x (i - nat s)"
  by (auto simp: shl32_def bit_simps)

lemma bit_shr32: "bit (shr32 x s) i \<longleftrightarrow> 0 \<le> s \<and> bit x (i + nat s)"
  by (auto simp: shr32_def bit_simps add.commute dest: bit_imp_le_length)

lemma shl32_0 [simp]: "shl32 0 s = 0" and shr32_0 [simp]: "shr32 0 s = 0"
  by (simp_all add: shl32_def shr32_def)

section \<open>Bit lists\<close>

text \<open>\<open>nbits n v\<close> is the \<open>n\<close>-bit field that carries \<open>v\<close>, \<open>bval\<close> the unsigned number a list of bits spells.\<close>

definition nbits :: "nat \<Rightarrow> int \<Rightarrow> bool list" where
  "nbits n v = map (\<lambda>i. bit v (n - 1 - i)) [0..<n]"

definition bval :: "bool list \<Rightarrow> int" where
  "bval xs = foldl (\<lambda>a b. 2 * a + of_bool b) 0 xs"

definition byte_bits :: "8 word \<Rightarrow> bool list" where
  "byte_bits b = map (\<lambda>i. bit b (7 - i)) [0..<8]"

lemma length_nbits [simp]: "length (nbits n v) = n"
  by (simp add: nbits_def)

lemma nbits_0 [simp]: "nbits 0 v = []"
  by (simp add: nbits_def)

lemma length_byte_bits [simp]: "length (byte_bits b) = 8"
  by (simp add: byte_bits_def)

lemma nth_nbits: "i < n \<Longrightarrow> nbits n v ! i = bit v (n - 1 - i)"
  by (simp add: nbits_def)

lemma bval_Nil [simp]: "bval [] = 0"
  by (simp add: bval_def)

lemma bval_snoc [simp]: "bval (xs @ [b]) = 2 * bval xs + of_bool b"
  by (simp add: bval_def)

lemma bval_nonneg [simp]: "0 \<le> bval xs"
  by (induction xs rule: rev_induct) auto

lemma bval_less: "bval xs < 2 ^ length xs"
  by (induction xs rule: rev_induct) (auto simp: of_bool_def)

lemma bit_bval: "bit (bval xs) j \<longleftrightarrow> j < length xs \<and> xs ! (length xs - 1 - j)"
proof (induction xs arbitrary: j rule: rev_induct)
  case Nil
  then show ?case by simp
next
  case (snoc b xs)
  show ?case
  proof (cases j)
    case 0
    then show ?thesis by (simp add: bit_0)
  next
    case (Suc k)
    have "bit (bval (xs @ [b])) j \<longleftrightarrow> bit (bval xs) k"
      using Suc by (cases b) (simp_all add: bit_Suc)
    also have "\<dots> \<longleftrightarrow> j < length (xs @ [b]) \<and> (xs @ [b]) ! (length (xs @ [b]) - 1 - j)"
      using Suc by (auto simp: snoc.IH nth_append)
    finally show ?thesis .
  qed
qed

lemma bval_eqI:
  assumes "\<And>j. bit w j \<longleftrightarrow> j < length xs \<and> xs ! (length xs - 1 - j)"
  shows "w = bval xs"
  by (rule bit_eqI) (simp add: assms bit_bval)

lemma bval_nbits: "bval (nbits n v) = take_bit n v"
  by (rule bval_eqI [symmetric]) (auto simp: bit_take_bit_iff nth_nbits)

lemma bval_nbits_id [simp]: "0 \<le> v \<Longrightarrow> v < 2 ^ n \<Longrightarrow> bval (nbits n v) = v"
  by (simp add: bval_nbits take_bit_int_eq_self_iff)

lemma nbits_bval: "nbits (length xs) (bval xs) = xs"
  by (rule nth_equalityI) (auto simp: nth_nbits bit_bval)

lemma bval_replicate_False [simp]: "bval (replicate n False) = 0"
  by (induction n) (simp_all add: replicate_append_same [symmetric])

text \<open>Reading past the end of a bit list yields zeros.\<close>

definition padtake :: "nat \<Rightarrow> bool list \<Rightarrow> bool list" where
  "padtake n xs = take n (xs @ replicate n False)"

lemma length_padtake [simp]: "length (padtake n xs) = n"
  by (simp add: padtake_def)

lemma padtake_append [simp]: "length xs = n \<Longrightarrow> padtake n (xs @ ys) = xs"
  by (simp add: padtake_def)

lemma padtake_exact [simp]: "length xs = n \<Longrightarrow> padtake n xs = xs"
  by (simp add: padtake_def)

lemma padtake_Nil [simp]: "padtake n [] = replicate n False"
  by (simp add: padtake_def)

lemma padtake_take: "n \<le> length xs \<Longrightarrow> padtake n xs = take n xs"
  by (simp add: padtake_def)

lemma nth_padtake: "i < n \<Longrightarrow> padtake n xs ! i \<longleftrightarrow> i < length xs \<and> xs ! i"
  by (auto simp: padtake_def nth_append)

section \<open>Checked array access\<close>

definition rd :: "'a list \<Rightarrow> int \<Rightarrow> 'a option" where
  "rd xs i = (if 0 \<le> i \<and> i < int (length xs) then Some (xs ! nat i) else None)"

definition wr :: "'a list \<Rightarrow> int \<Rightarrow> 'a \<Rightarrow> 'a list option" where
  "wr xs i v = (if 0 \<le> i \<and> i < int (length xs) then Some (xs[nat i := v]) else None)"

lemma rd_Some [option_run]: "0 \<le> i \<Longrightarrow> i < int (length xs) \<Longrightarrow> rd xs i = Some (xs ! nat i)"
  by (simp add: rd_def)

lemma wr_Some [option_run]: "0 \<le> i \<Longrightarrow> i < int (length xs) \<Longrightarrow> wr xs i v = Some (xs[nat i := v])"
  by (simp add: wr_def)

lemma rd_eq_Some: "rd xs i = Some v \<longleftrightarrow> 0 \<le> i \<and> i < int (length xs) \<and> v = xs ! nat i"
  by (auto simp: rd_def)

lemma wr_eq_Some: "wr xs i v = Some ys \<longleftrightarrow> 0 \<le> i \<and> i < int (length xs) \<and> ys = xs[nat i := v]"
  by (auto simp: wr_def)

lemma wr_length: "wr xs i v = Some ys \<Longrightarrow> length ys = length xs"
  by (auto simp: wr_def split: if_splits)

lemma rd_in_set: "rd xs i = Some v \<Longrightarrow> v \<in> set xs"
  by (auto simp: rd_def split: if_splits)

section \<open>Writing a run of elements\<close>

definition overwrite :: "'a list \<Rightarrow> int \<Rightarrow> 'a list \<Rightarrow> 'a list" where
  "overwrite xs p vs = take (nat p) xs @ vs @ drop (nat p + length vs) xs"

lemma length_overwrite [simp]:
  "0 \<le> p \<Longrightarrow> p + int (length vs) \<le> int (length xs) \<Longrightarrow> length (overwrite xs p vs) = length xs"
  by (simp add: overwrite_def)

lemma overwrite_Nil [simp]: "overwrite xs p [] = xs"
  by (simp add: overwrite_def)

lemma overwrite_Cons:
  assumes "0 \<le> p" "p + 1 + int (length vs) \<le> int (length xs)"
  shows "overwrite (xs[nat p := v]) (p + 1) vs = overwrite xs p (v # vs)"
proof -
  have n: "nat (p + 1) = Suc (nat p)" "nat p < length xs" using assms by (simp_all add: nat_add_distrib)
  have "take (Suc (nat p)) (xs[nat p := v]) = take (nat p) xs @ [v]"
    using take_Suc_conv_app_nth [of "nat p" "xs[nat p := v]"] n by simp
  with n show ?thesis by (simp add: overwrite_def drop_update_cancel)
qed

lemma overwrite_append:
  assumes "0 \<le> p" "p + int (length us) + int (length vs) \<le> int (length xs)"
  shows "overwrite (overwrite xs p us) (p + int (length us)) vs = overwrite xs p (us @ vs)"
  using assms by (simp add: overwrite_def nat_add_distrib add.commute add.left_commute)

lemma overwrite_updates:
  "0 \<le> p \<Longrightarrow> p + 2 \<le> int (length xs) \<Longrightarrow> xs[nat p := y, nat (p + 1) := z] = overwrite xs p [y, z]"
  "0 \<le> p \<Longrightarrow> p + 4 \<le> int (length xs) \<Longrightarrow>
     xs[nat p := w, nat (p + 1) := x, nat (p + 2) := y, nat (p + 3) := z] = overwrite xs p [w, x, y, z]"
  by (simp_all add: overwrite_Cons [symmetric] add.commute)

lemma overwrite_take: "0 \<le> p \<Longrightarrow> p + int (length vs) \<le> int (length xs) \<Longrightarrow> take (nat p) (overwrite xs p vs) = take (nat p) xs"
  by (simp add: overwrite_def)

end
