(* ===== verification/BitSource.thy ===== *)
theory BitSource
  imports Prelude
begin

text \<open>
  The interface between the parsers and the bit readers: an operation that takes the next \<open>n\<close> bits of
  a list of remaining bits and returns the number they spell. The parsers' lemmas about runs of
  fields are proved from these laws alone; the bit readers of the AAC decoder and of the player base
  library provide them.
\<close>

section \<open>Runs of equal fields\<close>

text \<open>\<open>for (i = 0; i < k; i++) x[i] = GetBits(bs, w);\<close> and the bits such a loop consumes.\<close>

fun get_array :: "('s \<Rightarrow> nat \<Rightarrow> int \<times> 's) \<Rightarrow> nat \<Rightarrow> nat \<Rightarrow> 's \<Rightarrow> int list \<times> 's" where
  "get_array get w 0 s = ([], s)"
| "get_array get w (Suc k) s =
     (let (v, s) = get s w; (vs, s) = get_array get w k s in (v # vs, s))"

definition put_array :: "nat \<Rightarrow> int list \<Rightarrow> bool list" where
  "put_array w vs = concat (map (nbits w) vs)"

lemma put_array_simps [simp]:
  "put_array w [] = []"
  "put_array w (v # vs) = nbits w v @ put_array w vs"
  "put_array w (vs @ us) = put_array w vs @ put_array w us"
  by (simp_all add: put_array_def)

lemma length_put_array [simp]: "length (put_array w vs) = w * length vs"
  by (induction vs) auto

section \<open>The interface\<close>

locale bit_source =
  fixes get :: "'s \<Rightarrow> nat \<Rightarrow> int \<times> 's"
    and rest :: "'s \<Rightarrow> bool list"
    and inv :: "'s \<Rightarrow> bool"
    and can :: "'s \<Rightarrow> nat \<Rightarrow> bool"
  assumes get_value: "inv s \<Longrightarrow> can s n \<Longrightarrow> fst (get s n) = bval (padtake n (rest s))"
    and get_rest: "inv s \<Longrightarrow> can s n \<Longrightarrow> rest (snd (get s n)) = drop n (rest s)"
    and get_inv: "inv s \<Longrightarrow> can s n \<Longrightarrow> inv (snd (get s n))"
begin

lemma get_range: "inv s \<Longrightarrow> can s n \<Longrightarrow> 0 \<le> fst (get s n) \<and> fst (get s n) < 2 ^ n"
  using bval_less [of "padtake n (rest s)"] by (simp add: get_value)

lemma get_field:
  assumes "inv s" "can s n" "rest s = nbits n v @ r" "0 \<le> v" "v < 2 ^ n"
  shows "fst (get s n) = v" "rest (snd (get s n)) = r" "inv (snd (get s n))"
  using assms by (simp_all add: get_value get_rest get_inv)

end

text \<open>A source every width \<open>0 < n \<le> 32\<close> can be read from, past its end too.\<close>

locale padded_source = bit_source +
  assumes can_iff: "can s n \<longleftrightarrow> 0 < n \<and> n \<le> 32"
begin

lemma array_length: "length (fst (get_array get w k s)) = k"
  by (induction k arbitrary: s) (auto simp: split_beta Let_def)

lemma array_inv: "inv s \<Longrightarrow> 0 < w \<Longrightarrow> w \<le> 32 \<Longrightarrow> inv (snd (get_array get w k s))"
  by (induction k arbitrary: s) (auto simp: split_beta Let_def get_inv can_iff)

lemma array_rest:
  "inv s \<Longrightarrow> 0 < w \<Longrightarrow> w \<le> 32 \<Longrightarrow> rest (snd (get_array get w k s)) = drop (k * w) (rest s)"
  by (induction k arbitrary: s) (auto simp: split_beta Let_def get_inv get_rest can_iff add.commute)

lemma array_range:
  "inv s \<Longrightarrow> 0 < w \<Longrightarrow> w \<le> 32 \<Longrightarrow> v \<in> set (fst (get_array get w k s)) \<Longrightarrow> 0 \<le> v \<and> v < 2 ^ w"
proof (induction k arbitrary: s)
  case 0
  then show ?case by simp
next
  case (Suc k)
  have "inv (snd (get s w))" using Suc.prems by (simp add: get_inv can_iff)
  note IH = Suc.IH [OF this Suc.prems(2,3)]
  show ?case
    using Suc.prems IH get_range [of s w] by (auto simp: split_beta Let_def can_iff)
qed

lemma array_fields:
  assumes "inv s" "0 < w" "w \<le> 32" "rest s = put_array w vs @ r" "\<forall>v \<in> set vs. 0 \<le> v \<and> v < 2 ^ w"
  shows "fst (get_array get w (length vs) s) = vs"
  using assms
proof (induction vs arbitrary: s)
  case Nil
  then show ?case by simp
next
  case (Cons v vs)
  then show ?case
    using get_field [of s w v "put_array w vs @ r"] by (auto simp: split_beta Let_def can_iff)
qed

end

end
