(* ===== verification/BitStream.thy ===== *)
theory BitStream
  imports BitSource
begin

unbundle bit_operations_syntax

text \<open>
  The bit reader of the AAC decoder, \<^verbatim>\<open>codec/gk/aacdec/inc/bitstream.h\<close>: its record, its operations
  and what they do to the list of bits that are still to be read.
\<close>

section \<open>State and operations\<close>

text \<open>
  \<open>bytePtr\<close> is an address; \<open>bsmem\<close> is the memory it points into, a total function, so that a read
  beyond the buffer gives whatever byte lies there.
\<close>

record BitStream =
  bytePtr :: nat
  iCache :: "32 word"
  cachedBits :: int
  nBytes :: int
  noBytes :: int
  bsmem :: "nat \<Rightarrow> 8 word"

definition BitStreamInit :: "(nat \<Rightarrow> 8 word) \<Rightarrow> int \<Rightarrow> nat \<Rightarrow> BitStream" where
  "BitStreamInit mem len buf =
     \<lparr>bytePtr = buf, iCache = 0, cachedBits = 0, nBytes = len, noBytes = 0, bsmem = mem\<rparr>"

fun refill_loop :: "(nat \<Rightarrow> 8 word) \<Rightarrow> nat \<Rightarrow> nat \<Rightarrow> 32 word \<Rightarrow> nat \<times> 32 word" where
  "refill_loop mem 0 p c = (p, c)"
| "refill_loop mem (Suc n) p c = refill_loop mem n (p + 1) (shl32 (c OR ucast (mem p)) 8)"

definition RefillBitstreamCache :: "BitStream \<Rightarrow> BitStream" where
  "RefillBitstreamCache bsi =
     (let n = nBytes bsi; p = bytePtr bsi; m = bsmem bsi in
      if n \<ge> 4 then
        bsi\<lparr>iCache := shl32 (ucast (m p)) 24 OR shl32 (ucast (m (p + 1))) 16
                      OR shl32 (ucast (m (p + 2))) 8 OR ucast (m (p + 3)),
            bytePtr := p + 4, cachedBits := 32, nBytes := n - 4\<rparr>
      else if n \<le> 0 then
        bsi\<lparr>iCache := 0, cachedBits := 32, noBytes := noBytes bsi + 4\<rparr>
      else
        (let (p', c) = refill_loop m (nat n) p 0 in
         bsi\<lparr>iCache := shl32 c ((3 - n) * 8), bytePtr := p', cachedBits := 8 * n, nBytes := 0\<rparr>))"

definition BitStreamGetBits :: "BitStream \<Rightarrow> nat \<Rightarrow> int \<times> BitStream" where
  "BitStreamGetBits bsi n =
     (let data = shr32 (iCache bsi) (32 - int n);
          bsi = bsi\<lparr>iCache := shl32 (iCache bsi) (int n), cachedBits := cachedBits bsi - int n\<rparr> in
      if cachedBits bsi < 0 then
        (let lowBits = - cachedBits bsi;
             bsi = RefillBitstreamCache bsi;
             data = data OR shr32 (iCache bsi) (32 - lowBits) in
         (uint data, bsi\<lparr>cachedBits := cachedBits bsi - lowBits, iCache := shl32 (iCache bsi) lowBits\<rparr>))
      else (uint data, bsi))"

definition BitStreamGetBit :: "BitStream \<Rightarrow> int \<times> BitStream" where
  "BitStreamGetBit bs = BitStreamGetBits bs 1"

function show_loop :: "BitStream \<Rightarrow> int \<Rightarrow> nat \<Rightarrow> 32 word \<Rightarrow> int \<times> 32 word" where
  "show_loop bsi lowBits buf c =
     (if lowBits > 0 then
        (if nBytes bsi \<noteq> 0
         then show_loop bsi (lowBits - 8) (buf + 1) (shl32 c 8 OR ucast (bsmem bsi buf))
         else show_loop bsi (lowBits - 8) buf (shl32 c 8))
      else (lowBits, c))"
  by pat_completeness auto
termination by (relation "measure (\<lambda>(_, l, _). nat l)") auto

declare show_loop.simps [simp del]

definition BitStreamShowBits :: "BitStream \<Rightarrow> nat \<Rightarrow> 32 word" where
  "BitStreamShowBits bsi n =
     (let data = shr32 (iCache bsi) (32 - int n);
          lowBits = int n - cachedBits bsi in
      if lowBits > 0 then
        (let (l, c) = show_loop bsi lowBits (bytePtr bsi) 0 in data OR shr32 c (- l))
      else data)"

definition BitStreamSkip :: "BitStream \<Rightarrow> int \<Rightarrow> BitStream" where
  "BitStreamSkip bsi nBits =
     (let (nBits, bsi) = (if nBits > cachedBits bsi
                          then (nBits - cachedBits bsi, RefillBitstreamCache bsi) else (nBits, bsi)) in
      bsi\<lparr>iCache := shl32 (iCache bsi) nBits, cachedBits := cachedBits bsi - nBits\<rparr>)"

definition AdvanceByBigStep :: "BitStream \<Rightarrow> int \<Rightarrow> BitStream" where
  "AdvanceByBigStep bsi nBits =
     (if nBits < cachedBits bsi then
        bsi\<lparr>iCache := shl32 (iCache bsi) nBits, cachedBits := cachedBits bsi - nBits\<rparr>
      else
        (let nBits = nBits - cachedBits bsi;
             bsi = bsi\<lparr>iCache := 0, cachedBits := 0\<rparr>;
             nSByte = drop_bit 3 nBits;
             nBits = nBits AND 7 in
         if nSByte \<le> nBytes bsi then
           (let bsi = bsi\<lparr>bytePtr := bytePtr bsi + nat nSByte, nBytes := nBytes bsi - nSByte\<rparr>;
                bsi = RefillBitstreamCache bsi in
            bsi\<lparr>iCache := shl32 (iCache bsi) nBits, cachedBits := cachedBits bsi - nBits\<rparr>)
         else bsi\<lparr>nBytes := 0\<rparr>))"

definition BitStreamByteAlign :: "BitStream \<Rightarrow> BitStream" where
  "BitStreamByteAlign bsi =
     (let bits = cachedBits bsi AND 7 in
      bsi\<lparr>cachedBits := cachedBits bsi - bits, iCache := shl32 (iCache bsi) bits\<rparr>)"

definition CalcBitsUsed :: "BitStream \<Rightarrow> nat \<Rightarrow> int \<Rightarrow> int" where
  "CalcBitsUsed bsi startBuf startOffset =
     (int (bytePtr bsi) - int startBuf) * 8 - cachedBits bsi - startOffset"

section \<open>The remaining bits\<close>

text \<open>
  \<open>sbit s i\<close> is the \<open>i\<close>-th bit still to be read: first the cached bits, from the top of the cache,
  then the bytes of the buffer. Once the reader has run dry (\<open>noBytes > 0\<close>) there are none.
\<close>

definition bslen :: "BitStream \<Rightarrow> nat" where
  "bslen s = (if noBytes s > 0 then 0 else nat (cachedBits s) + 8 * nat (nBytes s))"

definition sbit :: "BitStream \<Rightarrow> nat \<Rightarrow> bool" where
  "sbit s i = (if i < nat (cachedBits s) then bit (iCache s) (31 - i)
               else (let j = i - nat (cachedBits s) in
                     bit (bsmem s (bytePtr s + j div 8)) (7 - j mod 8)))"

definition bsbits :: "BitStream \<Rightarrow> bool list" where
  "bsbits s = map (sbit s) [0..<bslen s]"

text \<open>
  The invariant: the counters are in range, the cache holds nothing below its valid bits, and a
  reader that has run dry has an empty cache and an empty buffer.
\<close>

definition bs_inv :: "BitStream \<Rightarrow> bool" where
  "bs_inv s \<longleftrightarrow> 0 \<le> nBytes s \<and> 0 \<le> noBytes s \<and> - 24 \<le> cachedBits s \<and> cachedBits s \<le> 32
     \<and> (\<forall>i<32. bit (iCache s) i \<longrightarrow> 32 - cachedBits s \<le> int i)
     \<and> (cachedBits s < 0 \<longrightarrow> nBytes s = 0)
     \<and> (noBytes s > 0 \<longrightarrow> nBytes s = 0 \<and> iCache s = 0)"

lemma length_bsbits [simp]: "length (bsbits s) = bslen s"
  by (simp add: bsbits_def)

lemma nth_bsbits: "i < bslen s \<Longrightarrow> bsbits s ! i = sbit s i"
  by (simp add: bsbits_def)

lemma bs_inv_init [simp]: "0 \<le> len \<Longrightarrow> bs_inv (BitStreamInit mem len buf)"
  by (simp add: bs_inv_def BitStreamInit_def)

lemma bslen_init [simp]: "bslen (BitStreamInit mem len buf) = 8 * nat len"
  by (simp add: bslen_def BitStreamInit_def)

lemma bs_inv_cache_bit: "bs_inv s \<Longrightarrow> bit (iCache s) i \<Longrightarrow> i < 32 \<and> 32 - cachedBits s \<le> int i"
  using bit_imp_le_length [of "iCache s" i] by (auto simp: bs_inv_def)

lemma bs_inv_cache_0: "bs_inv s \<Longrightarrow> cachedBits s \<le> 0 \<Longrightarrow> iCache s = 0"
  by (rule bit_eqI) (auto dest: bs_inv_cache_bit)

section \<open>Refilling the cache\<close>

lemma bit_ucast_byte: "bit (ucast (b :: 8 word) :: 32 word) i \<longleftrightarrow> i < 8 \<and> bit b i"
  using bit_imp_le_length [of b i] by (auto simp: bit_simps)

definition refilled :: "(nat \<Rightarrow> 8 word) \<Rightarrow> nat \<Rightarrow> int \<Rightarrow> nat \<Rightarrow> bool" where
  "refilled m p n i \<longleftrightarrow> i < 32 \<and> int (31 - i) < 8 * n \<and> bit (m (p + (31 - i) div 8)) (7 - (31 - i) mod 8)"

lemma lane_div: "x = r + 8 * k \<Longrightarrow> r < 8 \<Longrightarrow> x div 8 = k" "x = r + 8 * k \<Longrightarrow> r < 8 \<Longrightarrow> 7 - x mod 8 = 7 - r" for x r k :: nat
  by simp_all

lemma refilled_lane:
  "i < 32 \<Longrightarrow> refilled m p n i \<longleftrightarrow>
     (if i < 8 then 4 \<le> n \<and> bit (m (p + 3)) i
      else if i < 16 then 3 \<le> n \<and> bit (m (p + 2)) (i - 8)
      else if i < 24 then 2 \<le> n \<and> bit (m (p + 1)) (i - 16)
      else 1 \<le> n \<and> bit (m p) (i - 24))"
proof -
  assume i: "i < 32"
  consider "i < 8" | "8 \<le> i" "i < 16" | "16 \<le> i" "i < 24" | "24 \<le> i" "i < 32"
    using i by linarith
  then show ?thesis
  proof cases
    case 1
    then have "31 - i = (7 - (i)) + 8 * 3" "7 - (i) < 8" by linarith+
    from lane_div [OF this] have "(31 - i) div 8 = 3" "7 - (31 - i) mod 8 = i" using 1 by simp_all
    moreover from 1 have "int (31 - i) < 8 * n \<longleftrightarrow> 4 \<le> n" by linarith
    ultimately show ?thesis using 1 by (simp add: refilled_def)
  next
    case 2
    then have "31 - i = (7 - (i - 8)) + 8 * 2" "7 - (i - 8) < 8" by linarith+
    from lane_div [OF this] have "(31 - i) div 8 = 2" "7 - (31 - i) mod 8 = i - 8" using 2 by simp_all
    moreover from 2 have "int (31 - i) < 8 * n \<longleftrightarrow> 3 \<le> n" by linarith
    ultimately show ?thesis using 2 by (simp add: refilled_def)
  next
    case 3
    then have "31 - i = (7 - (i - 16)) + 8 * 1" "7 - (i - 16) < 8" by linarith+
    from lane_div [OF this] have "(31 - i) div 8 = 1" "7 - (31 - i) mod 8 = i - 16" using 3 by simp_all
    moreover from 3 have "int (31 - i) < 8 * n \<longleftrightarrow> 2 \<le> n" by linarith
    ultimately show ?thesis using 3 by (simp add: refilled_def)
  next
    case 4
    then have "31 - i = (7 - (i - 24)) + 8 * 0" "7 - (i - 24) < 8" by linarith+
    from lane_div [OF this] have "(31 - i) div 8 = 0" "7 - (31 - i) mod 8 = i - 24" using 4 by simp_all
    moreover from 4 have "int (31 - i) < 8 * n \<longleftrightarrow> 1 \<le> n" by linarith
    ultimately show ?thesis using 4 by (simp add: refilled_def)
  qed
qed

lemma refill_cache_word:
  assumes "0 \<le> nBytes s"
  shows "iCache (RefillBitstreamCache s) =
     (let m = bsmem s; p = bytePtr s; n = nBytes s;
          lane = (\<lambda>k. if int k < n then ucast (m (p + k)) else 0) in
      shl32 (lane 0) 24 OR shl32 (lane 1) 16 OR shl32 (lane 2) 8 OR lane 3)"
proof -
  have push: "shl32 (shl32 x 8) 16 = shl32 x 24" "shl32 (shl32 x 8) 8 = shl32 x 16"
    "shl32 (shl32 x 16) 8 = shl32 x 24" "shl32 (x OR y) n = shl32 x n OR shl32 y n" "shl32 x 0 = x" for x y n
    by (simp_all add: shl32_def push_bit_or)
  consider "nBytes s = 0" | "nBytes s = 1" | "nBytes s = 2" | "nBytes s = 3" | "nBytes s \<ge> 4"
    using assms by linarith
  then show ?thesis
    by cases (simp_all add: RefillBitstreamCache_def Let_def push or.assoc numeral_2_eq_2 numeral_3_eq_3)
qed

lemma refill_cache:
  assumes "0 \<le> nBytes s"
  shows "bit (iCache (RefillBitstreamCache s)) i \<longleftrightarrow> refilled (bsmem s) (bytePtr s) (nBytes s) i"
proof (cases "i < 32")
  case False
  then show ?thesis
    using bit_imp_le_length [of "iCache (RefillBitstreamCache s)" i] by (auto simp: refilled_def)
next
  case True
  then show ?thesis
    unfolding refilled_lane [OF True] refill_cache_word [OF assms] Let_def
    by (auto simp: bit_shl32 bit_or_iff bit_ucast_byte)
qed

lemma refill_loop_ptr: "fst (refill_loop m n p c) = p + n"
  by (induction n arbitrary: p c) auto

lemma refill_fields:
  assumes "0 \<le> nBytes s"
  shows "cachedBits (RefillBitstreamCache s) = (if nBytes s \<in> {1, 2, 3} then 8 * nBytes s else 32)"
    and "bytePtr (RefillBitstreamCache s) = bytePtr s + nat (min 4 (nBytes s))"
    and "nBytes (RefillBitstreamCache s) = nBytes s - min 4 (nBytes s)"
    and "noBytes (RefillBitstreamCache s) = (if nBytes s = 0 then noBytes s + 4 else noBytes s)"
    and "bsmem (RefillBitstreamCache s) = bsmem s"
  using assms refill_loop_ptr [of "bsmem s" "nat (nBytes s)" "bytePtr s" 0]
  by (auto simp: RefillBitstreamCache_def Let_def split: prod.splits)

lemma refill_cachedBits_indep:
  "RefillBitstreamCache (s\<lparr>iCache := c, cachedBits := k\<rparr>) = RefillBitstreamCache s"
  by (cases s) (simp add: RefillBitstreamCache_def Let_def split: prod.splits)

text \<open>Taking bits off the top of the cache.\<close>

definition consume :: "int \<Rightarrow> BitStream \<Rightarrow> BitStream" where
  "consume k t = t\<lparr>iCache := shl32 (iCache t) k, cachedBits := cachedBits t - k\<rparr>"

lemma consume_fields [simp]:
  "cachedBits (consume k t) = cachedBits t - k" "nBytes (consume k t) = nBytes t"
  "noBytes (consume k t) = noBytes t" "bytePtr (consume k t) = bytePtr t" "bsmem (consume k t) = bsmem t"
  by (simp_all add: consume_def)

lemma consume_inv:
  assumes "bs_inv t" "0 \<le> k" "k > cachedBits t \<Longrightarrow> nBytes t = 0" "- 24 \<le> cachedBits t - k"
  shows "bs_inv (consume k t)"
  unfolding bs_inv_def
proof (intro conjI allI impI)
  fix i assume "i < 32" "bit (iCache (consume k t)) (i :: nat)"
  then have "k \<le> int i" "bit (iCache t) (i - nat k)" by (auto simp: consume_def bit_shl32)
  with assms(1) have "32 - cachedBits t \<le> int (i - nat k)" by (blast dest: bs_inv_cache_bit)
  with \<open>k \<le> int i\<close> assms(2) show "32 - cachedBits (consume k t) \<le> int i" by (simp add: consume_def)
qed (use assms in \<open>auto simp: consume_def bs_inv_def\<close>)

lemma consume_bits:
  assumes "bs_inv t" "0 \<le> k" "k > cachedBits t \<Longrightarrow> nBytes t = 0"
  shows "bsbits (consume k t) = drop (nat k) (bsbits t)"
proof (rule nth_equalityI)
  show len: "length (bsbits (consume k t)) = length (drop (nat k) (bsbits t))"
    using assms by (cases "k > cachedBits t") (auto simp: bslen_def consume_def nat_diff_distrib' bs_inv_def)
  fix i assume "i < length (bsbits (consume k t))"
  then have i: "i < bslen (consume k t)" "nat k + i < bslen t" using len by auto
  then have nb: "noBytes t \<le> 0" by (auto simp: bslen_def split: if_splits)
  have kc: "k \<le> cachedBits t"
  proof (rule ccontr)
    assume "\<not> k \<le> cachedBits t"
    with assms(3) i(2) show False by (auto simp: bslen_def split: if_splits)
  qed
  have "sbit (consume k t) i = sbit t (nat k + i)"
  proof (cases "i < nat (cachedBits t - k)")
    case True
    then have "nat k + i < nat (cachedBits t)" "cachedBits t \<le> 32"
      using assms(1,2) by (auto simp: bs_inv_def)
    with True assms(2) show ?thesis
      by (auto simp: sbit_def consume_def bit_shl32 add.commute)
  next
    case False
    with kc assms(2) show ?thesis
      by (auto simp: sbit_def consume_def nat_diff_distrib' add.commute)
  qed
  with i show "bsbits (consume k t) ! i = drop (nat k) (bsbits t) ! i"
    by (simp add: nth_bsbits)
qed

lemma refill_inv: "bs_inv s \<Longrightarrow> bs_inv (RefillBitstreamCache s)"
  unfolding bs_inv_def
proof (intro conjI allI impI, goal_cases)
  case (5 i)
  then have "refilled (bsmem s) (bytePtr s) (nBytes s) i" using refill_cache by blast
  with 5 show ?case by (auto simp: refill_fields refilled_def)
next
  case 8
  then have "nBytes s = 0" by (auto simp: refill_fields split: if_splits)
  then show ?case by (simp add: RefillBitstreamCache_def)
qed (auto simp: refill_fields split: if_splits)

lemma refill_bits:
  assumes "bs_inv s"
  shows "bsbits (RefillBitstreamCache s) = drop (nat (cachedBits s)) (bsbits s)"
proof (rule nth_equalityI)
  let ?t = "RefillBitstreamCache s"
  have n: "0 \<le> nBytes s" using assms by (simp add: bs_inv_def)
  show len: "length (bsbits ?t) = length (drop (nat (cachedBits s)) (bsbits s))"
    using assms by (auto simp: bslen_def refill_fields bs_inv_def)
  fix i assume "i < length (bsbits ?t)"
  then have i: "i < bslen ?t" "nat (cachedBits s) + i < bslen s" using len by auto
  have "sbit ?t i = sbit s (nat (cachedBits s) + i)"
  proof (cases "i < nat (cachedBits ?t)")
    case True
    then have "i < 32" using refill_inv [OF assms] by (auto simp: bs_inv_def)
    then have "31 - i < 32" "31 - (31 - i) = i" by linarith+
    moreover have "int i < 8 * nBytes s"
      using i(2) by (auto simp: bslen_def split: if_splits)
    ultimately show ?thesis
      using True by (simp add: sbit_def refill_cache n refilled_def Let_def)
  next
    case False
    have "int i < 8 * nBytes s" using i(2) by (auto simp: bslen_def split: if_splits)
    with False n have c: "cachedBits ?t = 32" and m: "4 \<le> nBytes s"
      by (auto simp: refill_fields split: if_splits)
    define j where "j = i - 32"
    then have j: "i = j + 32" using False c by simp
    have "(j + 32) div 8 = j div 8 + 4" "(j + 32) mod 8 = j mod 8" by presburger+
    with False c m n show ?thesis
      by (simp add: sbit_def refill_fields Let_def j ac_simps)
  qed
  with i show "bsbits ?t ! i = drop (nat (cachedBits s)) (bsbits s) ! i"
    by (simp add: nth_bsbits)
qed

section \<open>What the operations do to the bit list\<close>

lemma shift_consume:
  "t\<lparr>iCache := shl32 (iCache t) k, cachedBits := cachedBits t - k\<rparr> = consume k t"
  "t\<lparr>cachedBits := cachedBits t - k, iCache := shl32 (iCache t) k\<rparr> = consume k t"
  by (simp_all add: consume_def)

lemma refill_consume: "RefillBitstreamCache (consume k s) = RefillBitstreamCache s"
  by (simp add: consume_def refill_cachedBits_indep)

text \<open>\<open>advance\<close> is what reading and skipping share: consume from the cache, over a refill if need be.\<close>

definition advance :: "int \<Rightarrow> BitStream \<Rightarrow> BitStream" where
  "advance n s = (if n \<le> cachedBits s then consume n s
                  else consume (n - cachedBits s) (RefillBitstreamCache s))"

lemma bs_inv_nBytes [simp]: "bs_inv s \<Longrightarrow> 0 \<le> nBytes s"
  by (simp add: bs_inv_def)

lemma advance_side:
  assumes "bs_inv s" "n \<le> 32" "cachedBits s < n"
  shows "n - cachedBits s > cachedBits (RefillBitstreamCache s) \<Longrightarrow> nBytes (RefillBitstreamCache s) = 0"
    and "- 24 \<le> cachedBits (RefillBitstreamCache s) - (n - cachedBits s)"
  using assms by (auto simp: refill_fields bs_inv_def split: if_splits)

lemma advance_inv: "bs_inv s \<Longrightarrow> 0 \<le> n \<Longrightarrow> n \<le> 32 \<Longrightarrow> bs_inv (advance n s)"
  unfolding advance_def
  by (auto intro!: consume_inv refill_inv advance_side simp: bs_inv_def [of s])

lemma advance_bits:
  assumes "bs_inv s" "0 \<le> n" "n \<le> 32"
  shows "bsbits (advance n s) = drop (nat n) (bsbits s)"
proof (cases "n \<le> cachedBits s")
  case True
  then show ?thesis using assms by (simp add: advance_def consume_bits)
next
  case False
  let ?t = "RefillBitstreamCache s"
  have "bsbits (advance n s) = drop (nat (n - cachedBits s)) (bsbits ?t)"
    using False assms by (simp add: advance_def consume_bits refill_inv advance_side)
  also have "\<dots> = drop (nat (n - cachedBits s) + nat (cachedBits s)) (bsbits s)"
    by (simp add: refill_bits assms(1))
  finally have e: "bsbits (advance n s) = drop (nat (n - cachedBits s) + nat (cachedBits s)) (bsbits s)" .
  show ?thesis
  proof (cases "0 \<le> cachedBits s")
    case True
    with False have "nat (n - cachedBits s) + nat (cachedBits s) = nat n" by simp
    with e show ?thesis by simp
  next
    case neg: False
    with assms(1) have "bslen s = 0" by (auto simp: bslen_def bs_inv_def)
    with e show ?thesis by simp
  qed
qed

lemma get_advance: "0 < n \<Longrightarrow> snd (BitStreamGetBits s n) = advance (int n) s"
  by (auto simp: BitStreamGetBits_def Let_def shift_consume refill_consume advance_def
      refill_cachedBits_indep)

lemma dry_cache: "bs_inv s \<Longrightarrow> bslen s = 0 \<Longrightarrow> iCache s = 0 \<and> nBytes s = 0"
proof -
  assume s: "bs_inv s" "bslen s = 0"
  then have "noBytes s > 0 \<or> cachedBits s \<le> 0 \<and> nBytes s = 0"
    by (auto simp: bslen_def bs_inv_def split: if_splits)
  then show ?thesis using s bs_inv_cache_0 [OF s(1)] by (auto simp: bs_inv_def)
qed

text \<open>The value read: bit \<open>j\<close> of the result is bit \<open>n - 1 - j\<close> of the stream.\<close>

lemma cached_bit:
  assumes "bs_inv s" "int i < cachedBits s"
  shows "bit (iCache s) (31 - i) \<longleftrightarrow> i < bslen s \<and> bsbits s ! i"
proof (cases "noBytes s > 0")
  case True
  with assms show ?thesis by (simp add: bs_inv_def bslen_def)
next
  case False
  from assms(2) have "i < nat (cachedBits s)" by linarith
  moreover from this False have "i < bslen s" by (simp add: bslen_def)
  ultimately show ?thesis by (simp add: nth_bsbits sbit_def)
qed

lemma refilled_bit:
  assumes "bs_inv s" "0 \<le> cachedBits s" "i < 32"
  shows "bit (iCache (RefillBitstreamCache s)) (31 - i)
     \<longleftrightarrow> nat (cachedBits s) + i < bslen s \<and> bsbits s ! (nat (cachedBits s) + i)"
proof (cases "noBytes s > 0")
  case True
  with assms show ?thesis by (simp add: refill_cache refilled_def bs_inv_def bslen_def)
next
  case False
  have i: "31 - (31 - i) = i" "31 - i < 32" using assms(3) by linarith+
  have "nat (cachedBits s) + i < bslen s \<longleftrightarrow> int i < 8 * nBytes s"
    using False assms(1) by (simp add: bslen_def bs_inv_def) linarith
  with i assms show ?thesis
    by (auto simp: refill_cache refilled_def nth_bsbits sbit_def Let_def)
qed

lemma get_data_bit:
  assumes "bs_inv s" "0 < n" "n \<le> 32" "j < n"
  shows "bit (fst (BitStreamGetBits s n)) j \<longleftrightarrow> padtake n (bsbits s) ! (n - 1 - j)"
proof (cases "int n \<le> cachedBits s")
  case True
  have "bit (fst (BitStreamGetBits s n)) j \<longleftrightarrow> bit (iCache s) (j + nat (32 - int n))"
    using True assms by (simp add: BitStreamGetBits_def Let_def bit_uint_iff bit_shr32)
  also have "j + nat (32 - int n) = 31 - (n - 1 - j)" using assms by linarith
  also have "bit (iCache s) (31 - (n - 1 - j)) \<longleftrightarrow> n - 1 - j < bslen s \<and> bsbits s ! (n - 1 - j)"
    using True assms by (intro cached_bit) auto
  also have "\<dots> \<longleftrightarrow> padtake n (bsbits s) ! (n - 1 - j)"
    using assms by (simp add: nth_padtake)
  finally show ?thesis .
next
  case False
  let ?t = "RefillBitstreamCache s" and ?low = "int n - cachedBits s"
  have "bit (fst (BitStreamGetBits s n)) j \<longleftrightarrow>
      bit (iCache s) (j + nat (32 - int n)) \<or> (?low \<le> 32 \<and> bit (iCache ?t) (j + nat (32 - ?low)))"
    using False assms by (simp add: BitStreamGetBits_def Let_def bit_uint_iff bit_or_iff bit_shr32
        refill_cachedBits_indep)
  also have "\<dots> \<longleftrightarrow> n - 1 - j < bslen s \<and> bsbits s ! (n - 1 - j)"
  proof (cases "0 \<le> cachedBits s")
    case neg: False
    then have dry: "bslen s = 0" using assms(1) by (simp add: bslen_def bs_inv_def)
    with assms(1) have "iCache s = 0" "nBytes s = 0" by (auto dest: dry_cache)
    then have "iCache ?t = 0" by (simp add: RefillBitstreamCache_def)
    with \<open>iCache s = 0\<close> dry show ?thesis by simp
  next
    case c: True
    show ?thesis
    proof (cases "?low \<le> int j")
      case True
      then have idx: "j + nat (32 - int n) = 31 - (n - 1 - j)" "int (n - 1 - j) < cachedBits s"
        using assms c False by linarith+
      have "\<not> (?low \<le> 32 \<and> bit (iCache ?t) (j + nat (32 - ?low)))"
        using True bit_imp_le_length [of "iCache ?t" "j + nat (32 - ?low)"] by auto
      with idx cached_bit [OF assms(1) idx(2)] show ?thesis by simp
    next
      case lo: False
      have "\<not> bit (iCache s) (j + nat (32 - int n))"
        using bs_inv_cache_bit [OF assms(1), of "j + nat (32 - int n)"] lo assms by auto
      moreover have "?low \<le> 32" using c assms by simp
      moreover define i where "i = nat (?low - 1 - int j)"
      then have "j + nat (32 - ?low) = 31 - i" "i < 32" "nat (cachedBits s) + i = n - 1 - j"
        using lo c assms False by linarith+
      ultimately show ?thesis using refilled_bit [OF assms(1) c \<open>i < 32\<close>] by simp
    qed
  qed
  also have "\<dots> \<longleftrightarrow> padtake n (bsbits s) ! (n - 1 - j)"
    using assms by (simp add: nth_padtake)
  finally show ?thesis .
qed

lemma get_value: "bs_inv s \<Longrightarrow> 0 < n \<Longrightarrow> n \<le> 32 \<Longrightarrow> fst (BitStreamGetBits s n) = bval (padtake n (bsbits s))"
proof (rule bval_eqI)
  fix j assume s: "bs_inv s" "0 < n" "n \<le> 32"
  have "\<not> bit (fst (BitStreamGetBits s n)) j" if "n \<le> j"
  proof -
    have "\<not> bit (shr32 (iCache s) (32 - int n)) j"
      using that s bit_imp_le_length [of "iCache s" "j + nat (32 - int n)"] by (auto simp: bit_shr32)
    moreover have "\<not> bit (shr32 c (32 - (int n - cachedBits s))) j" if "0 \<le> cachedBits s" for c
      using that \<open>n \<le> j\<close> bit_imp_le_length [of c] by (fastforce simp: bit_shr32)
    moreover have "iCache (RefillBitstreamCache s) = 0" if "\<not> 0 \<le> cachedBits s"
      using that s(1) by (simp add: RefillBitstreamCache_def bs_inv_def)
    ultimately show ?thesis
      by (cases "0 \<le> cachedBits s") (auto simp: BitStreamGetBits_def Let_def bit_uint_iff bit_or_iff
          refill_cachedBits_indep)
  qed
  with get_data_bit [OF s, of j]
  show "bit (fst (BitStreamGetBits s n)) j \<longleftrightarrow> j < length (padtake n (bsbits s))
      \<and> padtake n (bsbits s) ! (length (padtake n (bsbits s)) - 1 - j)"
    by (cases "j < n") auto
qed

interpretation bs: padded_source BitStreamGetBits bsbits bs_inv "\<lambda>s n. 0 < n \<and> n \<le> 32"
  by unfold_locales (auto simp: get_value get_advance advance_bits advance_inv)

lemmas bs_get = bs.get_value bs.get_rest bs.get_inv bs.get_range

lemma skip_advance: "BitStreamSkip s n = advance n s"
  by (auto simp: BitStreamSkip_def advance_def consume_def)

lemma skip_inv: "bs_inv s \<Longrightarrow> 0 \<le> n \<Longrightarrow> n \<le> 32 \<Longrightarrow> bs_inv (BitStreamSkip s n)"
  by (simp add: skip_advance advance_inv)

lemma skip_bits: "bs_inv s \<Longrightarrow> 0 \<le> n \<Longrightarrow> n \<le> 32 \<Longrightarrow> bsbits (BitStreamSkip s n) = drop (nat n) (bsbits s)"
  by (simp add: skip_advance advance_bits)

lemma align_consume: "BitStreamByteAlign s = consume (cachedBits s mod 8) s"
proof -
  have "cachedBits s AND 7 = cachedBits s mod 8"
    using take_bit_eq_mask [of 3 "cachedBits s"] by (simp add: take_bit_eq_mod mask_eq_exp_minus_1)
  then show ?thesis by (simp add: BitStreamByteAlign_def consume_def Let_def)
qed

lemma align_side: "bs_inv s \<Longrightarrow> cachedBits s < cachedBits s mod 8 \<Longrightarrow> nBytes s = 0"
proof -
  assume "bs_inv s" "cachedBits s < cachedBits s mod 8"
  moreover from this(2) have "cachedBits s < 0" by presburger
  ultimately show "nBytes s = 0" by (simp add: bs_inv_def)
qed

lemma align_inv: "bs_inv s \<Longrightarrow> bs_inv (BitStreamByteAlign s)"
  unfolding align_consume
proof (rule consume_inv)
  assume s: "bs_inv s"
  show "nBytes s = 0" if "cachedBits s < cachedBits s mod 8"
    using s that by (rule align_side)
  have "- 24 \<le> cachedBits s" using s by (simp add: bs_inv_def)
  then show "- 24 \<le> cachedBits s - cachedBits s mod 8" by presburger
qed auto

lemma align_bits: "bs_inv s \<Longrightarrow> bsbits (BitStreamByteAlign s) = drop (nat (cachedBits s mod 8)) (bsbits s)"
  unfolding align_consume
proof (rule consume_bits)
  assume s: "bs_inv s"
  show "nBytes s = 0" if "cachedBits s < cachedBits s mod 8"
    using s that by (rule align_side)
qed auto

text \<open>After aligning, whole bytes remain.\<close>

lemma align_whole_bytes: "bs_inv s \<Longrightarrow> 8 dvd bslen (BitStreamByteAlign s)"
proof -
  let ?x = "cachedBits s - cachedBits s mod 8"
  have "(8::int) dvd int (nat ?x)"
    by (cases "0 \<le> ?x") (simp_all only: int_nat_eq if_True if_False dvd_minus_mod dvd_0_right)
  then have "8 dvd nat ?x" by (metis int_dvd_int_iff of_nat_numeral)
  then show ?thesis by (simp add: align_consume bslen_def)
qed

section \<open>Looking ahead\<close>

text \<open>
  \<open>BitStreamShowBits\<close> does not stop at the end of the buffer: as long as one byte is left it goes on
  reading memory. \<open>look s i\<close> is the bit it shows at position \<open>i\<close>; inside the buffer it is the stream's.
\<close>

definition look :: "BitStream \<Rightarrow> nat \<Rightarrow> bool" where
  "look s i = (if i < nat (cachedBits s) then bit (iCache s) (31 - i)
     else nBytes s \<noteq> 0 \<and> (let j = i - nat (cachedBits s) in
            bit (bsmem s (bytePtr s + j div 8)) (7 - j mod 8)))"

definition lookahead :: "BitStream \<Rightarrow> nat \<Rightarrow> bool list" where
  "lookahead s n = map (look s) [0..<n]"

lemma length_lookahead [simp]: "length (lookahead s n) = n"
  by (simp add: lookahead_def)

lemma look_sbit: "bs_inv s \<Longrightarrow> i < bslen s \<Longrightarrow> look s i = bsbits s ! i"
  by (auto simp: look_def sbit_def nth_bsbits bslen_def split: if_splits)

lemma take_lookahead: "bs_inv s \<Longrightarrow> m \<le> n \<Longrightarrow> m \<le> bslen s \<Longrightarrow> take m (lookahead s n) = take m (bsbits s)"
  by (rule nth_equalityI) (auto simp: lookahead_def look_sbit)

fun bytes_word :: "BitStream \<Rightarrow> nat \<Rightarrow> nat \<Rightarrow> 32 word \<Rightarrow> 32 word" where
  "bytes_word s 0 p c = c"
| "bytes_word s (Suc m) p c =
     (if nBytes s \<noteq> 0 then bytes_word s m (p + 1) (shl32 c 8 OR ucast (bsmem s p))
      else bytes_word s m p (shl32 c 8))"

lemma show_loop_bytes:
  "show_loop s low p c = (low - 8 * int (nat ((low + 7) div 8)), bytes_word s (nat ((low + 7) div 8)) p c)"
proof (induction s low p c rule: show_loop.induct)
  case (1 s low p c)
  show ?case
  proof (cases "low > 0")
    case True
    then have m: "nat ((low + 7) div 8) = Suc (nat ((low - 8 + 7) div 8))" by linarith
    with True 1 show ?thesis by (subst show_loop.simps) auto
  next
    case False
    then have "nat ((low + 7) div 8) = 0" by simp
    with False show ?thesis by (subst show_loop.simps) simp
  qed
qed

lemma bit_bytes_word:
  "bit (bytes_word s m p c) i \<longleftrightarrow> i < 32 \<and>
     (if i < 8 * m then nBytes s \<noteq> 0 \<and> bit (bsmem s (p + (8 * m - 1 - i) div 8)) (7 - (8 * m - 1 - i) mod 8)
      else bit c (i - 8 * m))"
proof (induction m arbitrary: p c)
  case 0
  then show ?case using bit_imp_le_length [of c i] by auto
next
  case (Suc m)
  define d where "d = 8 * m - Suc i"
  consider "i < 8 * m" | "8 * m \<le> i" "i < 8 * Suc m" | "8 * Suc m \<le> i" by linarith
  then show ?case
  proof cases
    case 1
    then have "8 * Suc m - 1 - i = d + 8" by (simp add: d_def)
    then have "(8 * Suc m - 1 - i) div 8 = d div 8 + 1" "(8 * Suc m - 1 - i) mod 8 = d mod 8" by simp_all
    with 1 show ?thesis by (simp add: Suc.IH d_def [symmetric])
  next
    case 2
    define r where "r = i - 8 * m"
    have "8 * Suc m - 1 - i = 7 - r" "r < 8" "i - 8 * m = r" using 2 by (simp_all add: r_def)
    then have "(8 * Suc m - 1 - i) div 8 = 0" "7 - (8 * Suc m - 1 - i) mod 8 = r" by simp_all
    with 2 \<open>r < 8\<close> show ?thesis
      by (auto simp: Suc.IH bit_or_iff bit_shl32 bit_ucast_byte r_def [symmetric])
  next
    case 3
    then have "i - 8 * m - 8 = i - 8 * Suc m" "8 \<le> i - 8 * m" by simp_all
    with 3 show ?thesis by (auto simp: Suc.IH bit_or_iff bit_shl32 bit_ucast_byte)
  qed
qed

lemma show_bit:
  assumes "bs_inv s" "n \<le> 32"
  shows "bit (BitStreamShowBits s n) j \<longleftrightarrow> j < n \<and> look s (n - 1 - j)"
proof (cases "int n \<le> cachedBits s")
  case True
  have "bit (BitStreamShowBits s n) j \<longleftrightarrow> bit (iCache s) (j + nat (32 - int n))"
    using True assms by (simp add: BitStreamShowBits_def Let_def bit_shr32)
  also have "\<dots> \<longleftrightarrow> j < n \<and> look s (n - 1 - j)"
  proof (cases "j < n")
    case j: True
    then have "j + nat (32 - int n) = 31 - (n - 1 - j)" "n - 1 - j < nat (cachedBits s)"
      using True assms by linarith+
    with j show ?thesis by (simp add: look_def)
  next
    case False
    then show ?thesis using assms bit_imp_le_length [of "iCache s" "j + nat (32 - int n)"] by auto
  qed
  finally show ?thesis .
next
  case False
  define low where "low = int n - cachedBits s"
  define m where "m = nat ((low + 7) div 8)"
  have m: "low \<le> 8 * int m" "8 * int m < low + 8" "0 < low" using False by (auto simp: m_def low_def)
  have val: "bit (BitStreamShowBits s n) j \<longleftrightarrow> bit (iCache s) (j + nat (32 - int n))
      \<or> bit (bytes_word s m (bytePtr s) 0) (j + nat (8 * int m - low))"
    using False assms m by (simp add: BitStreamShowBits_def Let_def bit_shr32 bit_or_iff
        show_loop_bytes low_def [symmetric] m_def [symmetric])
  show ?thesis
  proof (cases "0 \<le> cachedBits s")
    case c: True
    have m4: "8 * m \<le> 32" using m c assms(2) by (simp add: low_def)
    show ?thesis
    proof (cases "int j < low")
      case True
      have "\<not> bit (iCache s) (j + nat (32 - int n))"
        using bs_inv_cache_bit [OF assms(1), of "j + nat (32 - int n)"] True assms(2) by (auto simp: low_def)
      moreover have "j + nat (8 * int m - low) < 8 * m" "j < n"
        "8 * m - 1 - (j + nat (8 * int m - low)) = n - 1 - j - nat (cachedBits s)"
        "\<not> n - 1 - j < nat (cachedBits s)"
        using True m c by (auto simp: low_def)
      ultimately show ?thesis
        using m4 unfolding val bit_bytes_word look_def Let_def by simp
    next
      case hi: False
      then have "\<not> bit (bytes_word s m (bytePtr s) 0) (j + nat (8 * int m - low))"
        unfolding bit_bytes_word using m by auto
      moreover have "bit (iCache s) (j + nat (32 - int n)) \<longleftrightarrow> j < n \<and> look s (n - 1 - j)"
      proof (cases "j < n")
        case j: True
        then have "j + nat (32 - int n) = 31 - (n - 1 - j)" "n - 1 - j < nat (cachedBits s)"
          using hi c assms by (auto simp: low_def)
        with j show ?thesis by (simp add: look_def)
      next
        case False
        then show ?thesis using assms bit_imp_le_length [of "iCache s" "j + nat (32 - int n)"] by auto
      qed
      ultimately show ?thesis unfolding val by simp
    qed
  next
    case neg: False
    then have "iCache s = 0" using assms(1) by (simp add: bs_inv_cache_0)
    moreover have "nBytes s = 0" using neg assms(1) by (simp add: bs_inv_def)
    ultimately show ?thesis using neg by (simp add: val bit_bytes_word look_def)
  qed
qed

lemma show_value: "bs_inv s \<Longrightarrow> n \<le> 32 \<Longrightarrow> uint (BitStreamShowBits s n) = bval (lookahead s n)"
  by (rule bval_eqI) (auto simp: bit_uint_iff show_bit lookahead_def dest: bit_imp_le_length)

section \<open>Running dry\<close>

text \<open>
  \<open>navail\<close> counts the bits left, negative once more bits were read than the buffer held. As long as
  \<open>noBytes\<close> is 0 a read takes exactly its width from it.
\<close>

definition navail :: "BitStream \<Rightarrow> int" where
  "navail s = cachedBits s + 8 * nBytes s"

lemma advance_navail:
  "bs_inv s \<Longrightarrow> noBytes (advance n s) = 0 \<Longrightarrow> navail (advance n s) = navail s - n"
  by (auto simp: advance_def navail_def refill_fields bs_inv_def split: if_splits)

lemma advance_noBytes_mono: "bs_inv s \<Longrightarrow> noBytes s \<le> noBytes (advance n s)"
  by (auto simp: advance_def refill_fields)

lemma navail_bslen: "bs_inv s \<Longrightarrow> noBytes s = 0 \<Longrightarrow> 0 \<le> navail s \<Longrightarrow> int (bslen s) = navail s"
  by (auto simp: navail_def bslen_def bs_inv_def)

lemma navail_low: "bs_inv s \<Longrightarrow> - 24 \<le> navail s"
  by (auto simp: navail_def bs_inv_def)

end
