(* ===== verification/StreamOf.thy ===== *)
theory StreamOf
  imports BitStream
begin

unbundle bit_operations_syntax

text \<open>
  The writer's side of the bit reader: the stream that holds a given list of bits, packed into bytes
  from the most significant bit on and filled up with zeros to a whole byte.
\<close>

definition packed :: "bool list \<Rightarrow> nat \<Rightarrow> 8 word" where
  "packed xs i = word_of_int (bval (padtake 8 (drop (8 * i) xs)))"

definition stream_of :: "bool list \<Rightarrow> BitStream" where
  "stream_of xs = BitStreamInit (packed xs) (int ((length xs + 7) div 8)) 0"

definition pad_bits :: "bool list \<Rightarrow> bool list" where
  "pad_bits xs = replicate (8 * ((length xs + 7) div 8) - length xs) False"

lemma stream_of_inv [simp]: "bs_inv (stream_of xs)"
  by (simp add: stream_of_def)

lemma bit_packed: "j < 8 \<Longrightarrow> bit (packed xs i) (7 - j) \<longleftrightarrow> 8 * i + j < length xs \<and> xs ! (8 * i + j)"
  by (auto simp: packed_def bit_word_of_int_iff bit_bval nth_padtake)

lemma stream_of_bits: "bsbits (stream_of xs) = xs @ pad_bits xs"
proof (rule nth_equalityI)
  have n: "length xs \<le> 8 * ((length xs + 7) div 8)" by presburger
  show len: "length (bsbits (stream_of xs)) = length (xs @ pad_bits xs)"
    using n by (simp add: stream_of_def pad_bits_def)
  fix i assume i: "i < length (bsbits (stream_of xs))"
  have "8 * (i div 8) + i mod 8 = i" by presburger
  then have "bsbits (stream_of xs) ! i \<longleftrightarrow> i < length xs \<and> xs ! i"
    using i bit_packed [of "i mod 8" xs "i div 8"]
    by (simp add: nth_bsbits sbit_def stream_of_def BitStreamInit_def Let_def)
  also have "\<dots> \<longleftrightarrow> (xs @ pad_bits xs) ! i"
    using i len by (auto simp: nth_append pad_bits_def)
  finally show "bsbits (stream_of xs) ! i = (xs @ pad_bits xs) ! i" .
qed

lemma stream_of_whole: "8 dvd length xs \<Longrightarrow> bsbits (stream_of xs) = xs"
  by (auto simp: stream_of_bits pad_bits_def elim!: dvdE)

end
