(* ===== verification/AACTypes.thy ===== *)
theory AACTypes
  imports BitStream
begin

text \<open>
  The data of the AAC decoder, \<^verbatim>\<open>inc/struct.h\<close> and the constants of \<^verbatim>\<open>inc/global.h\<close>. A C array is a
  list of the declared length (the well-formedness predicates of the components say so), a
  \<open>TTUint8\<close> or \<open>TTUint16\<close> field an \<open>int\<close> that every store casts with \<open>u8\<close> or \<open>u16\<close>.
\<close>

section \<open>Constants\<close>

definition MAX_CHANNELS :: int where "MAX_CHANNELS = 8"
definition MAX_SAMPLES :: int where "MAX_SAMPLES = 1024"
definition NUM_SAMPLE_RATES :: int where "NUM_SAMPLE_RATES = 12"
definition CHECK_PROFILE :: int where "CHECK_PROFILE = 5"
definition MAX_LTP_SFB :: int where "MAX_LTP_SFB = 40"
definition SIZE_LONG_WIN :: int where "SIZE_LONG_WIN = 1024"
definition SIZE_SHORT_WIN :: int where "SIZE_SHORT_WIN = 128"

definition SBR_EXTENSION :: int where "SBR_EXTENSION = 0x0d"
definition SBR_EXTENSION_CRC :: int where "SBR_EXTENSION_CRC = 0x0e"

definition ZERO_HCB :: int where "ZERO_HCB = 0"
definition NOISE_HCB :: int where "NOISE_HCB = 13"
definition INTENSITY_HCB2 :: int where "INTENSITY_HCB2 = 14"
definition INTENSITY_HCB :: int where "INTENSITY_HCB = 15"

definition ONLY_LONG_SEQUENCE :: int where "ONLY_LONG_SEQUENCE = 0"
definition LONG_START_SEQUENCE :: int where "LONG_START_SEQUENCE = 1"
definition EIGHT_SHORT_SEQUENCE :: int where "EIGHT_SHORT_SEQUENCE = 2"
definition LONG_STOP_SEQUENCE :: int where "LONG_STOP_SEQUENCE = 3"

definition ID_SCE :: int where "ID_SCE = 0"
definition ID_CPE :: int where "ID_CPE = 1"
definition ID_CCE :: int where "ID_CCE = 2"
definition ID_LFE :: int where "ID_LFE = 3"
definition ID_DSE :: int where "ID_DSE = 4"
definition ID_PCE :: int where "ID_PCE = 5"
definition ID_FIL :: int where "ID_FIL = 6"
definition ID_END :: int where "ID_END = 7"

text \<open>Error codes: \<open>inc/ttAACDec1.h\<close> and \<open>GKMacrodef.h\<close>, as the \<open>int\<close> a function returns.\<close>

definition TT_AACDEC_ERR_AAC_UNSPROFILE :: int where "TT_AACDEC_ERR_AAC_UNSPROFILE = s32 0x82020011"
definition TT_AACDEC_ERR_AAC_INVADTS :: int where "TT_AACDEC_ERR_AAC_INVADTS = s32 0x82020012"
definition TT_AACDEC_ERR_AAC_INVSTREAM :: int where "TT_AACDEC_ERR_AAC_INVSTREAM = s32 0x82020013"
definition TT_AACDEC_ERR_AAC_FAILDECSBR :: int where "TT_AACDEC_ERR_AAC_FAILDECSBR = s32 0x82020015"
definition TT_AACDEC_ERR_AUDIO_UNSCHANNEL :: int where "TT_AACDEC_ERR_AUDIO_UNSCHANNEL = s32 0x82020027"
definition TT_AACDEC_ERR_AUDIO_UNSSAMPLERATE :: int where "TT_AACDEC_ERR_AUDIO_UNSSAMPLERATE = s32 0x82020028"
definition TT_AACDEC_ERR_AUDIO_UNSFEATURE :: int where "TT_AACDEC_ERR_AUDIO_UNSFEATURE = s32 0x82020029"
definition TTKErrGeneral :: int where "TTKErrGeneral = - 2"
definition TTKErrNoMemory :: int where "TTKErrNoMemory = - 4"
definition TTKErrArgument :: int where "TTKErrArgument = - 6"
definition TTKErrOverflow :: int where "TTKErrOverflow = - 9"
definition TTKErrNotReady :: int where "TTKErrNotReady = - 18"
definition TTKErrUnknown :: int where "TTKErrUnknown = - 19"
definition TTKErrUnderflow :: int where "TTKErrUnderflow = - 10"

lemma err_defs [simp]:
  "TT_AACDEC_ERR_AAC_UNSPROFILE = - 2113798127" "TT_AACDEC_ERR_AAC_INVADTS = - 2113798126"
  "TT_AACDEC_ERR_AAC_INVSTREAM = - 2113798125" "TT_AACDEC_ERR_AAC_FAILDECSBR = - 2113798123"
  "TT_AACDEC_ERR_AUDIO_UNSCHANNEL = - 2113798105" "TT_AACDEC_ERR_AUDIO_UNSSAMPLERATE = - 2113798104"
  "TT_AACDEC_ERR_AUDIO_UNSFEATURE = - 2113798103"
  by (simp_all add: TT_AACDEC_ERR_AAC_UNSPROFILE_def TT_AACDEC_ERR_AAC_INVADTS_def
      TT_AACDEC_ERR_AAC_INVSTREAM_def TT_AACDEC_ERR_AAC_FAILDECSBR_def TT_AACDEC_ERR_AUDIO_UNSCHANNEL_def
      TT_AACDEC_ERR_AUDIO_UNSSAMPLERATE_def TT_AACDEC_ERR_AUDIO_UNSFEATURE_def s32_def)

lemmas hcb_defs = ZERO_HCB_def NOISE_HCB_def INTENSITY_HCB2_def INTENSITY_HCB_def
lemmas size_defs = SIZE_LONG_WIN_def SIZE_SHORT_WIN_def EIGHT_SHORT_SEQUENCE_def
lemmas id_defs = ID_SCE_def ID_CPE_def ID_CCE_def ID_LFE_def ID_DSE_def ID_PCE_def ID_FIL_def ID_END_def

section \<open>Syntax elements\<close>

record Pulse_Data =
  number_pulse :: int
  pulse_start_sfb :: int
  pulse_offset :: "int list"
  pulse_amp :: "int list"

record TNS_Data =
  n_filt :: int
  coef_res :: int
  tns_length :: "int list"
  tns_order :: "int list"
  tns_direction :: "int list"
  coef_compress :: "int list"
  tns_coef :: "int list list"

record LTP_Data =
  last_band :: int
  data_present :: int
  lag :: int
  lag_updated :: int
  ltp_coef_idx :: int
  long_used :: "int list"
  short_used :: "int list"
  short_lag_present :: "int list"
  short_lag :: "int list"

record ICS_Data =
  ics_reserved_bit :: int
  window_sequence :: int
  window_shape :: int
  max_sfb :: int
  scale_factor_grouping :: int
  predictor_data_present :: int
  predictor_reset :: int
  predictor_reset_group_number :: int
  prediction_used :: "int list"
  num_window_groups :: int
  window_group_length :: "int list"

record program_config =
  element_instance_tag :: int
  object_type :: int
  sampling_frequency_index :: int
  num_front_channel_elements :: int
  num_side_channel_elements :: int
  num_back_channel_elements :: int
  num_lfe_channel_elements :: int
  num_assoc_data_elements :: int
  num_valid_cc_elements :: int
  mono_mixdown_present :: int
  mono_mixdown_element_number :: int
  stereo_mixdown_present :: int
  stereo_mixdown_element_number :: int
  matrix_mixdown_idx_present :: int
  matrix_mixdown_idx :: int
  pseudo_surround_enable :: int
  front_element_is_cpe :: "int list"
  front_element_tag_select :: "int list"
  side_element_is_cpe :: "int list"
  side_element_tag_select :: "int list"
  back_element_is_cpe :: "int list"
  back_element_tag_select :: "int list"
  lfe_element_tag_select :: "int list"
  assoc_data_element_tag_select :: "int list"
  cc_element_is_ind_sw :: "int list"
  valid_cc_element_tag_select :: "int list"
  comment_field_bytes :: int
  num_front_channels :: int
  num_side_channels :: int
  num_back_channels :: int
  num_lfe_channels :: int
  channels :: int

record adts_header =
  syncword :: int
  ID :: int
  layer :: int
  protection_absent :: int
  profile_ObjectType :: int
  adts_sfi :: int
  private_bit :: int
  channel_configuration :: int
  original :: int
  home :: int
  copyright_identification_bit :: int
  copyright_identification_start :: int
  frame_length :: int
  adts_buffer_fullness :: int
  number_of_raw_data_blocks_in_frame :: int
  crc_check :: int

section \<open>Updating one element of an array\<close>

text \<open>\<open>a[i] = f(a[i])\<close>, undefined out of bounds.\<close>

definition modify :: "'a list \<Rightarrow> int \<Rightarrow> ('a \<Rightarrow> 'a) \<Rightarrow> 'a list option" where
  "modify xs i f = Option.bind (rd xs i) (\<lambda>x. wr xs i (f x))"

lemma modify_Some [option_run]:
  "0 \<le> i \<Longrightarrow> i < int (length xs) \<Longrightarrow> modify xs i f = Some (xs[nat i := f (xs ! nat i)])"
  by (simp add: modify_def rd_Some wr_Some)

lemma modify_length: "modify xs i f = Some ys \<Longrightarrow> length ys = length xs"
  by (auto simp: modify_def wr_def split: Option.bind_splits if_splits)

end
