(* ===== verification/AACTables.thy ===== *)
theory AACTables
  imports AACTypes
begin

text \<open>
  The numeric tables of the syntax decoder: sample rates, scale factor band offsets
  (\<^verbatim>\<open>src/table.c\<close>) and the numbers of bands (\<^verbatim>\<open>src/lc_syntax.c\<close>).
\<close>

definition sampRateTab :: "int list" where
  "sampRateTab =
    [96000, 88200, 64000, 48000, 44100, 32000, 24000, 22050, 16000, 12000, 11025, 8000]"

definition predSFBMax :: "int list" where
  "predSFBMax =
    [33, 33, 38, 40, 40, 40, 41, 41, 37, 37, 37, 34]"

definition elementNumChans :: "int list" where
  "elementNumChans =
    [1, 2, 0, 1, 0, 0, 0, 0]"

definition sfBandTabShortOffset :: "int list" where
  "sfBandTabShortOffset =
    [0, 0, 0, 13, 13, 13, 28, 28, 44, 44, 44, 60]"

definition sfBandTabShort :: "int list" where
  "sfBandTabShort = concat [
    [0, 4, 8, 12, 16, 20, 24, 32, 40, 48, 64, 92, 128],
    [0, 4, 8, 12, 16, 20, 28, 36, 44, 56, 68, 80, 96, 112, 128],
    [0, 4, 8, 12, 16, 20, 24, 28, 36, 44, 52, 64, 76, 92, 108, 128],
    [0, 4, 8, 12, 16, 20, 24, 28, 32, 40, 48, 60, 72, 88, 108, 128],
    [0, 4, 8, 12, 16, 20, 24, 28, 36, 44, 52, 60, 72, 88, 108, 128]]"

definition sfBandTabLongOffset :: "int list" where
  "sfBandTabLongOffset =
    [0, 0, 42, 90, 90, 140, 192, 192, 240, 240, 240, 284]"

definition sfBandTabLong :: "int list" where
  "sfBandTabLong = concat [
    [0, 4, 8, 12, 16, 20, 24, 28, 32, 36, 40, 44, 48, 52, 56, 64, 72, 80, 88, 96, 108, 120, 132,
     144, 156, 172, 188, 212, 240, 276, 320, 384, 448, 512, 576, 640, 704, 768, 832, 896, 960,
     1024],
    [0, 4, 8, 12, 16, 20, 24, 28, 32, 36, 40, 44, 48, 52, 56, 64, 72, 80, 88, 100, 112, 124, 140,
     156, 172, 192, 216, 240, 268, 304, 344, 384, 424, 464, 504, 544, 584, 624, 664, 704, 744,
     784, 824, 864, 904, 944, 984, 1024],
    [0, 4, 8, 12, 16, 20, 24, 28, 32, 36, 40, 48, 56, 64, 72, 80, 88, 96, 108, 120, 132, 144,
     160, 176, 196, 216, 240, 264, 292, 320, 352, 384, 416, 448, 480, 512, 544, 576, 608, 640,
     672, 704, 736, 768, 800, 832, 864, 896, 928, 1024],
    [0, 4, 8, 12, 16, 20, 24, 28, 32, 36, 40, 48, 56, 64, 72, 80, 88, 96, 108, 120, 132, 144,
     160, 176, 196, 216, 240, 264, 292, 320, 352, 384, 416, 448, 480, 512, 544, 576, 608, 640,
     672, 704, 736, 768, 800, 832, 864, 896, 928, 960, 992, 1024],
    [0, 4, 8, 12, 16, 20, 24, 28, 32, 36, 40, 44, 52, 60, 68, 76, 84, 92, 100, 108, 116, 124,
     136, 148, 160, 172, 188, 204, 220, 240, 260, 284, 308, 336, 364, 396, 432, 468, 508, 552,
     600, 652, 704, 768, 832, 896, 960, 1024],
    [0, 8, 16, 24, 32, 40, 48, 56, 64, 72, 80, 88, 100, 112, 124, 136, 148, 160, 172, 184, 196,
     212, 228, 244, 260, 280, 300, 320, 344, 368, 396, 424, 456, 492, 532, 572, 616, 664, 716,
     772, 832, 896, 960, 1024],
    [0, 12, 24, 36, 48, 60, 72, 84, 96, 108, 120, 132, 144, 156, 172, 188, 204, 220, 236, 252,
     268, 288, 308, 328, 348, 372, 396, 420, 448, 476, 508, 544, 580, 620, 664, 712, 764, 820,
     880, 944, 1024]]"

definition sfBandTabLongNum :: "int list" where
  "sfBandTabLongNum = [42, 42, 48, 50, 50, 52, 48, 48, 44, 44, 44, 41]"

definition ttsfBandTabShortNum :: "int list" where
  "ttsfBandTabShortNum = [13, 13, 13, 15, 15, 15, 16, 16, 16, 16, 16, 16]"

section \<open>What the band tables promise\<close>

text \<open>
  The band offsets of one sample rate: they start at 0, grow strictly in multiples of four and end at
  the window length.
\<close>

definition band_offsets :: "int list \<Rightarrow> int \<Rightarrow> int \<Rightarrow> int list" where
  "band_offsets tab off n = take (nat n) (drop (nat off) tab)"

definition bands_ok :: "int list \<Rightarrow> int \<Rightarrow> int \<Rightarrow> int \<Rightarrow> bool" where
  "bands_ok tab off n final =
     (let xs = band_offsets tab off n in
      0 \<le> off \<and> 0 < n \<and> int (length xs) = n \<and> hd xs = 0 \<and> last xs = final
      \<and> list_all (\<lambda>(x, y). x < y) (zip xs (tl xs)) \<and> list_all (\<lambda>x. x mod 4 = 0) xs)"

lemma bands_long_eval:
  "list_all (\<lambda>i. bands_ok sfBandTabLong (sfBandTabLongOffset ! i) (sfBandTabLongNum ! i) 1024) [0..<12]"
  by (simp add: bands_ok_def band_offsets_def sfBandTabLong_def sfBandTabLongOffset_def sfBandTabLongNum_def upt_conv_Cons)

lemma bands_short_eval:
  "list_all (\<lambda>i. bands_ok sfBandTabShort (sfBandTabShortOffset ! i) (ttsfBandTabShortNum ! i) 128) [0..<12]"
  by (simp add: bands_ok_def band_offsets_def sfBandTabShort_def sfBandTabShortOffset_def ttsfBandTabShortNum_def upt_conv_Cons)

lemma bands_long: "i < 12 \<Longrightarrow> bands_ok sfBandTabLong (sfBandTabLongOffset ! i) (sfBandTabLongNum ! i) 1024"
  using bands_long_eval by (simp only: list_all_iff set_upt atLeastLessThan_iff) simp

lemma bands_short: "i < 12 \<Longrightarrow> bands_ok sfBandTabShort (sfBandTabShortOffset ! i) (ttsfBandTabShortNum ! i) 128"
  using bands_short_eval by (simp only: list_all_iff set_upt atLeastLessThan_iff) simp

lemma nums_eval:
  "list_all (\<lambda>i. 41 \<le> sfBandTabLongNum ! i \<and> sfBandTabLongNum ! i \<le> 52
     \<and> 13 \<le> ttsfBandTabShortNum ! i \<and> ttsfBandTabShortNum ! i \<le> 16) [0..<12]"
  by (simp add: sfBandTabLongNum_def ttsfBandTabShortNum_def upt_conv_Cons)

lemma nums:
  assumes "i < 12"
  shows "41 \<le> sfBandTabLongNum ! i" "sfBandTabLongNum ! i \<le> 52"
    "13 \<le> ttsfBandTabShortNum ! i" "ttsfBandTabShortNum ! i \<le> 16"
  using assms nums_eval by (simp_all only: list_all_iff set_upt atLeastLessThan_iff) simp_all

text \<open>Reading an offset.\<close>

definition offs :: "int list \<Rightarrow> int \<Rightarrow> int \<Rightarrow> int" where
  "offs tab off k = tab ! nat (off + k)"

lemma bands_read:
  assumes "bands_ok tab off n final" "0 \<le> k" "k < n"
  shows "rd tab (off + k) = Some (offs tab off k)"
proof -
  have "n = int (length (take (nat n) (drop (nat off) tab)))" "0 \<le> off"
    using assms(1) by (auto simp: bands_ok_def band_offsets_def Let_def)
  then have "n \<le> int (length tab) - off" using assms(2,3) by (auto simp: min_def split: if_splits)
  with assms(2,3) \<open>0 \<le> off\<close> show ?thesis by (simp add: rd_def offs_def)
qed

lemma bands_nth:
  assumes "bands_ok tab off n final" "0 \<le> k" "k < n"
  shows "offs tab off k = band_offsets tab off n ! nat k"
proof -
  have "0 \<le> off" using assms(1) by (auto simp: bands_ok_def Let_def)
  with assms(2,3) have l: "nat k < nat n" "nat (off + k) = nat off + nat k" by (auto simp: nat_add_distrib)
  have "int (length (band_offsets tab off n)) = n"
    using assms(1) by (auto simp: bands_ok_def Let_def)
  with l have "nat off \<le> length tab" by (simp add: band_offsets_def min_def split: if_splits)
  with l show ?thesis by (simp add: offs_def band_offsets_def)
qed

lemma bands_step:
  assumes "bands_ok tab off n final" "0 \<le> k" "k + 1 < n"
  shows "offs tab off k < offs tab off (k + 1)" "(offs tab off (k + 1) - offs tab off k) mod 4 = 0"
proof -
  let ?xs = "band_offsets tab off n"
  have b: "int (length ?xs) = n" "list_all (\<lambda>(x, y). x < y) (zip ?xs (tl ?xs))" "list_all (\<lambda>x. x mod 4 = 0) ?xs"
    using assms(1) by (auto simp: bands_ok_def Let_def)
  have l: "nat k < length ?xs - 1" "nat (k + 1) = Suc (nat k)" using assms b(1) by (auto simp: nat_add_distrib)
  then have "?xs ! nat k < ?xs ! Suc (nat k)"
    using b(2) by (auto simp: list_all_length nth_tl)
  moreover have "?xs ! nat k mod 4 = 0" "?xs ! Suc (nat k) mod 4 = 0"
    using b(3) l by (auto simp: list_all_length)
  ultimately show "offs tab off k < offs tab off (k + 1)" "(offs tab off (k + 1) - offs tab off k) mod 4 = 0"
    using bands_nth [OF assms(1), of k] bands_nth [OF assms(1), of "k + 1"] assms l
    by (auto simp: mod_diff_eq [symmetric])
qed

lemma bands_ends:
  assumes "bands_ok tab off n final"
  shows "offs tab off 0 = 0" "offs tab off (n - 1) = final"
proof -
  let ?xs = "band_offsets tab off n"
  have b: "int (length ?xs) = n" "0 < n" "hd ?xs = 0" "last ?xs = final"
    using assms(1) by (auto simp: bands_ok_def Let_def)
  then have "?xs \<noteq> []" by auto
  moreover have nat_last: "nat (n - 1) = length ?xs - 1" using b by linarith
  ultimately show "offs tab off 0 = 0" "offs tab off (n - 1) = final"
    using bands_nth [OF assms(1), of 0] bands_nth [OF assms(1), of "n - 1"] b
    by (simp_all add: hd_conv_nth last_conv_nth)
qed

lemma bands_mono:
  assumes "bands_ok tab off n final" "0 \<le> j" "j \<le> k" "k < n"
  shows "offs tab off j \<le> offs tab off k \<and> (offs tab off k - offs tab off j) mod 4 = 0"
  using assms(3,4)
proof (induction k rule: int_ge_induct)
  case base
  then show ?case by simp
next
  case (step k)
  have "offs tab off k < offs tab off (k + 1)" "(offs tab off (k + 1) - offs tab off k) mod 4 = 0"
    using bands_step [OF assms(1), of k] assms(2) step by auto
  moreover have "offs tab off j \<le> offs tab off k" "(offs tab off k - offs tab off j) mod 4 = 0"
    using step by auto
  ultimately show ?case by presburger
qed

lemma bands_bounds:
  assumes "bands_ok tab off n final" "0 \<le> k" "k < n"
  shows "0 \<le> offs tab off k" "offs tab off k \<le> final"
  using bands_mono [OF assms(1), of 0 k] bands_mono [OF assms(1), of k "n - 1"] bands_ends [OF assms(1)] assms
  by auto

text \<open>The whole table of long bands: its length and its sign.\<close>

lemma long_table: "length sfBandTabLong = 325" "\<forall>x \<in> set sfBandTabLong. 0 \<le> x"
  by (simp_all add: sfBandTabLong_def)

lemma long_offsets: "i < 12 \<Longrightarrow> 0 \<le> sfBandTabLongOffset ! i" "i < 11 \<Longrightarrow> sfBandTabLongOffset ! i \<le> 240"
proof -
  have "list_all (\<lambda>i. 0 \<le> sfBandTabLongOffset ! i) [0..<12]" "list_all (\<lambda>i. sfBandTabLongOffset ! i \<le> 240) [0..<11]"
    by (simp_all add: sfBandTabLongOffset_def upt_conv_Cons)
  then show "i < 12 \<Longrightarrow> 0 \<le> sfBandTabLongOffset ! i" "i < 11 \<Longrightarrow> sfBandTabLongOffset ! i \<le> 240"
    by (simp_all only: list_all_iff set_upt atLeastLessThan_iff) simp_all
qed

end
