(* ===== verification/AACState.thy ===== *)
theory AACState
  imports AACTables
begin

text \<open>
  The state of a decoder, \<open>AACDecoder\<close> of \<^verbatim>\<open>inc/struct.h\<close>. A pointer to a buffer that is allocated on demand is an
  option; \<open>sbr\<close>, whose contents the modelled code does not read, is a boolean (allocated or not). \<open>coef\<close> has a
  row of 1024 coefficients per channel of the element; \<open>rawSampleBuf\<close> holds positions in \<open>tmpBuffer\<close>.
\<close>

record FrameStream =
  fs_start :: nat
  fs_input :: nat
  this_frame :: nat
  uselength :: int
  inlen :: int
  fs_length :: int
  storelength :: int
  maxLength :: int

text \<open>The buffers of the framing are addresses; \<open>unsigned\<close> fields are kept in range with \<open>u32\<close> by the stores.\<close>

record TTAudioFormat =
  SampleRate :: int
  Channels :: int
  SampleBits :: int

record adif_header =
  adif_id :: int
  copyright_id_present :: int
  copyright_id :: "int list"
  original_copy :: int
  adif_home :: int
  bitstream_type :: int
  bitrate :: int
  num_program_config_elements :: int
  adif_buffer_fullness :: int
  adif_pce :: "program_config list"

record latm_header =
  streamId :: "int list"
  progSIndex :: "int list"
  laySIndex :: "int list"
  frameLengthTypes :: "int list"
  latmBufferFullness :: "int list"
  frameLength :: "int list"
  muxSlotLengthBytes :: "int list"
  muxSlotLengthCoded :: "int list"
  progCIndx :: "int list"
  layCIndx :: "int list"
  AuEndFlag :: "int list"
  numLayer :: int
  objTypes :: int
  audio_mux_version :: int
  audio_mux_version_A :: int
  all_same_framing :: int
  config_crc :: int
  taraFullness :: int
  other_data_bits :: int
  numProgram :: int
  numSubFrames :: int
  numChunk :: int
  samplerate :: int
  latm_channel :: int
  muxlength :: int

text \<open>The state of one predictor of the main profile; \<open>COR\<close> and \<open>VAR\<close> are 64-bit integers.\<close>

record PRED_State =
  pred_r :: "int list"
  COR :: "int list"
  VAR :: "int list"

record AACDecoder =
  pce :: program_config
  pce_set :: int
  channel_position :: "int list"
  channel_offsize :: "int list"
  ics_data :: "ICS_Data list"
  global_gain :: int
  common_window :: int
  scaleFactors :: "int list list"
  sfb_cb :: "int list list"
  pns_seed :: "32 word"
  pns_data_present :: "int list"
  pns_sfb_flag :: "int list list"
  pns_sfb_mode :: "int list"
  ms_mask_present :: int
  ms_used :: "int list list"
  intensity_used :: int
  is_used :: "int list list"
  gbCurrent :: "int list"
  pulse_data_present :: "int list"
  pulse_data :: "Pulse_Data list"
  tns_data_present :: "int list"
  tns_data :: "TNS_Data list list"
  tns_lpc :: "int list"
  ltp_data_of :: "LTP_Data list"
  ltp_lag :: "int list"
  ltp_coef :: "int list option list"
  t_est_buf :: "int list option"
  f_est_buf :: "int list option"
  pred_stat :: "PRED_State list option list"
  prevWinShape :: "int list"
  coef :: "int list list"
  tmpBuffer :: "int list"
  overlap :: "int list option list"
  rawSampleBuf :: "nat list"
  rawSampleBytes :: int
  rawSampleFBits :: int
  sbr :: bool
  ps_used :: int
  fillExtType :: int
  fillCount :: int
  fillBuf :: "int list"
  dbs :: BitStream
  adts :: adts_header
  adts_new :: adts_header
  adif :: adif_header
  latm :: "latm_header option"
  old_id_syn_ele :: int
  id_syn_ele :: int
  first_id_syn_ele :: int
  decodedChans :: int
  ChansMode :: int
  elementChans :: int
  decodedSBRChans :: int
  elementSBRChans :: int
  dec_frame_length :: int
  channelNum :: int
  sampRateIdx :: int
  sampleRate :: int
  sampleBits :: int
  profile :: int
  frametype :: int
  framenumber :: int
  profilenumber :: int
  Checknumber :: int
  sbrEnabled :: int
  chSpec :: int
  seletedChs :: int
  seletedChDecoded :: int
  seletedSBRChDecoded :: int
  disableSBR :: int
  disablePS :: int
  decoderNum :: int
  nFlushFlag :: int
  Fstream :: FrameStream
  outAudioFormat :: TTAudioFormat

text \<open>Audio object types and frame types, \<^verbatim>\<open>inc/ttAACDec1.h\<close>; channels and channel modes, \<open>TTAudio.h\<close>.\<close>

definition TTAAC_AAC_MAIN :: int where "TTAAC_AAC_MAIN = 1"
definition TTAAC_AAC_LC :: int where "TTAAC_AAC_LC = 2"
definition TTAAC_AAC_LTP :: int where "TTAAC_AAC_LTP = 4"
definition TTAAC_SBR :: int where "TTAAC_SBR = 5"
definition TTAAC_ER_AAC_LC :: int where "TTAAC_ER_AAC_LC = 17"
definition TTAAC_ER_AAC_LTP :: int where "TTAAC_ER_AAC_LTP = 19"
definition TTAAC_HE_PS :: int where "TTAAC_HE_PS = 29"
definition TTAAC_RAWDATA :: int where "TTAAC_RAWDATA = 0"
definition TTAAC_ADTS :: int where "TTAAC_ADTS = 1"
definition TTAAC_ADIF :: int where "TTAAC_ADIF = 2"
definition TTAAC_LATM :: int where "TTAAC_LATM = 3"
definition TTAAC_LOAS :: int where "TTAAC_LOAS = 4"
definition CH_CENTER :: int where "CH_CENTER = 1"
definition CH_FRONT_LEFT :: int where "CH_FRONT_LEFT = 2"
definition CH_FRONT_RIGHT :: int where "CH_FRONT_RIGHT = 4"
definition CH_SIDE_LEFT :: int where "CH_SIDE_LEFT = 8"
definition CH_SIDE_RIGHT :: int where "CH_SIDE_RIGHT = 16"
definition CH_BACK_LEFT :: int where "CH_BACK_LEFT = 32"
definition CH_BACK_RIGHT :: int where "CH_BACK_RIGHT = 64"
definition CH_BACK_CENTER :: int where "CH_BACK_CENTER = 128"
definition CH_LFE_BASS :: int where "CH_LFE_BASS = 256"
definition MODE_STEREO :: int where "MODE_STEREO = 0"
definition MODE_DUALMONO :: int where "MODE_DUALMONO = 2"
definition MODE_MONO :: int where "MODE_MONO = 3"
definition MODE_MULTICH :: int where "MODE_MULTICH = 0x7F000001"
definition CH_ALL :: int where "CH_ALL = 0xffff"
definition CHAN_DUALONE :: int where "CHAN_DUALONE = 0x02"
definition CHAN_DUALLEFT :: int where "CHAN_DUALLEFT = 0x11"
definition CHAN_DUALRIGHT :: int where "CHAN_DUALRIGHT = 0x12"
definition CHAN_STE2MONO :: int where "CHAN_STE2MONO = 0x21"
definition CHAN_MULDOWNMIX2 :: int where "CHAN_MULDOWNMIX2 = 0x31"

lemmas aot_defs = TTAAC_AAC_MAIN_def TTAAC_AAC_LC_def TTAAC_AAC_LTP_def TTAAC_SBR_def TTAAC_ER_AAC_LC_def
  TTAAC_ER_AAC_LTP_def TTAAC_HE_PS_def
lemmas channel_defs = CH_CENTER_def CH_FRONT_LEFT_def CH_FRONT_RIGHT_def CH_SIDE_LEFT_def CH_SIDE_RIGHT_def
  CH_BACK_LEFT_def CH_BACK_RIGHT_def CH_BACK_CENTER_def CH_LFE_BASS_def

section \<open>Allocation\<close>

text \<open>
  \<open>RMAACDecAlignedMalloc\<close> returns zeroed memory or \<open>NULL\<close>; \<open>malloc name\<close> says whether the allocation of that buffer
  succeeds.
\<close>

definition malloc_of :: "(string \<Rightarrow> bool) \<Rightarrow> string \<Rightarrow> 'a list \<Rightarrow> 'a list option" where
  "malloc_of malloc name xs = (if malloc name then Some xs else None)"

definition malloc_ints :: "(string \<Rightarrow> bool) \<Rightarrow> string \<Rightarrow> nat \<Rightarrow> int list option" where
  "malloc_ints malloc name n = malloc_of malloc name (replicate n 0)"

section \<open>Reading bits into the decoder\<close>

text \<open>\<open>BitStreamGetBits(bs, n)\<close> with \<open>bs = &decoder->bs\<close>; \<open>dget8\<close> with a cast to an eight-bit field.\<close>

definition dget :: "AACDecoder \<Rightarrow> nat \<Rightarrow> int \<times> AACDecoder" where
  "dget d n = (let (v, bs) = BitStreamGetBits (dbs d) n in (v, d\<lparr>dbs := bs\<rparr>))"

definition dget8 :: "AACDecoder \<Rightarrow> nat \<Rightarrow> int \<times> AACDecoder" where
  "dget8 d n = (let (v, d) = dget d n in (u8 v, d))"

lemma dget_inv: "bs_inv (dbs d) \<Longrightarrow> 0 < n \<Longrightarrow> n \<le> 32 \<Longrightarrow> bs_inv (dbs (snd (dget d n)))"
  by (simp add: dget_def split_beta bs_get)

lemma dget_range: "bs_inv (dbs d) \<Longrightarrow> 0 < n \<Longrightarrow> n \<le> 32 \<Longrightarrow> 0 \<le> fst (dget d n) \<and> fst (dget d n) < 2 ^ n"
  using bs.get_range [of "dbs d" n] by (simp add: dget_def split_beta)

lemma dget8_inv: "bs_inv (dbs d) \<Longrightarrow> 0 < n \<Longrightarrow> n \<le> 32 \<Longrightarrow> bs_inv (dbs (snd (dget8 d n)))"
  by (simp add: dget8_def split_beta dget_inv)

lemma dget8_range: "bs_inv (dbs d) \<Longrightarrow> 0 < n \<Longrightarrow> n \<le> 8 \<Longrightarrow> 0 \<le> fst (dget8 d n) \<and> fst (dget8 d n) < 2 ^ n"
proof -
  assume a: "bs_inv (dbs d)" "0 < n" "n \<le> 8"
  have "(2 :: int) ^ n \<le> 2 ^ 8" using a(3) by (intro power_increasing) auto
  with dget_range [of d n] a show ?thesis by (simp add: dget8_def split_beta)
qed

lemma dget8_byte: "0 \<le> fst (dget8 d n) \<and> fst (dget8 d n) < 256"
  by (simp add: dget8_def split_beta)

text \<open>A read changes nothing but the bit stream.\<close>

lemma dget_frame: "snd (dget d n) = d\<lparr>dbs := dbs (snd (dget d n))\<rparr>"
  by (simp add: dget_def split_beta)

lemma dget8_frame: "snd (dget8 d n) = d\<lparr>dbs := dbs (snd (dget8 d n))\<rparr>"
  by (simp add: dget8_def dget_def split_beta)

end
