(* ===== verification/HufTab.thy ===== *)
theory HufTab
  imports Prelude
begin

text \<open>
  The code books of \<^verbatim>\<open>codec/gk/aacdec/src/lc_hufftab.c\<close>: eleven spectral books and the scale factor book.
  A book is an array of 16-bit entries split into subtables whose sizes are powers of two; bits 14 to
  12 of an entry are a bit count, bit 15 marks a link to another subtable, bits 11 to 0 hold the
  offset of that subtable or the decoded value. A book is written as the sequence of its subtables, in
  the order of the source, whose comments mark them. The entries are the initialisers of the source; the
  conversion to \<open>short\<close> is made where an entry is read.
\<close>

section \<open>The tables\<close>

definition HufBook1 :: "int list" where
  "HufBook1 = concat [
     [0x1000, 0x1000, 0x1000, 0x1000, 0x1000, 0x1000, 0x1000, 0x1000,
      0x9010, 0x9012, 0x9014, 0x9016, 0xb018, 0xb020, 0xb028, 0xc030],
     [0x1200, 0x1e00], [0x1007, 0x1040], [0x1001, 0x1038], [0x1008, 0x11c0],
     [0x33c0, 0x3e40, 0x3039, 0x3078, 0x31c8, 0x300f, 0x3240, 0x303f],
     [0x3fc0, 0x31f8, 0x3238, 0x3047, 0x3e08, 0x3009, 0x3208, 0x31c1],
     [0x3048, 0x3041, 0x3e38, 0x3201, 0x3e07, 0x3207, 0x3e01, 0x31c7],
     [0x9040, 0x9042, 0x9044, 0x9046, 0x9048, 0x904a, 0x904c, 0x904e,
      0x9050, 0x9052, 0x9054, 0x9056, 0xa058, 0xa05c, 0xb060, 0xb068],
     [0x1278, 0x1e78], [0x13c8, 0x104f], [0x1079, 0x11c9], [0x11cf, 0x13f8], [0x1239, 0x107f],
     [0x1e48, 0x1e0f], [0x1fc8, 0x11f9], [0x13c1, 0x13c7], [0x1e47, 0x1ff8], [0x11ff, 0x1049],
     [0x120f, 0x1241], [0x1e41, 0x1248], [0x2fc1, 0x2e3f, 0x2247, 0x223f],
     [0x2e39, 0x2fc7, 0x2e09, 0x2209],
     [0x33cf, 0x3e79, 0x3e4f, 0x33f9, 0x3249, 0x3fc9, 0x327f, 0x3fcf],
     [0x3fff, 0x3279, 0x33c9, 0x3e49, 0x3e7f, 0x3ff9, 0x33ff, 0x324f]]"

definition HufBook2 :: "int list" where
  "HufBook2 = concat [
     [0x3000, 0x3000, 0x4200, 0x9010, 0x9012, 0x9014, 0xa016, 0xa01a,
      0xa01e, 0xa022, 0xa026, 0xa02a, 0xb02e, 0xb036, 0xc03e, 0xc04e],
     [0x1e00, 0x1001], [0x1038, 0x1007], [0x11c0, 0x1008], [0x1040, 0x1040, 0x21c8, 0x2e40],
     [0x2078, 0x200f, 0x2047, 0x2039], [0x2e07, 0x23c0, 0x2238, 0x2fc0],
     [0x203f, 0x2208, 0x2201, 0x21c1], [0x2e08, 0x2041, 0x21f8, 0x2e01],
     [0x21c7, 0x2e38, 0x2240, 0x2048],
     [0x2009, 0x2009, 0x2207, 0x2207, 0x3079, 0x3239, 0x3e78, 0x31cf],
     [0x33c8, 0x3247, 0x3209, 0x3e48, 0x31f9, 0x3248, 0x3e0f, 0x3ff8],
     [0x3e39, 0x3e39, 0x33f8, 0x33f8, 0x3278, 0x3278, 0x43c1, 0x4e47,
      0x4fc8, 0x4e09, 0x4fc1, 0x4fc7, 0x41ff, 0x420f, 0x423f, 0x407f],
     [0x4049, 0x4e41, 0x4e3f, 0x404f, 0x43c7, 0x41c9, 0x4241, 0x43cf,
      0x4e79, 0x905e, 0x9060, 0x9062, 0x9064, 0x9066, 0x9068, 0x906a],
     [0x13f9, 0x1fff], [0x1e4f, 0x1e49], [0x1249, 0x1fcf], [0x13c9, 0x1e7f], [0x1fc9, 0x127f],
     [0x13ff, 0x1ff9], [0x1279, 0x124f]]"

definition HufBook3 :: "int list" where
  "HufBook3 = concat [
     [0x1000, 0x1000, 0x1000, 0x1000, 0x1000, 0x1000, 0x1000, 0x1000,
      0x4200, 0x4001, 0x4040, 0x4008, 0x9010, 0xa012, 0xc016, 0xc026],
     [0x1240, 0x1009], [0x2048, 0x2041, 0x2208, 0x2049],
     [0x2201, 0x2201, 0x2201, 0x2201, 0x2248, 0x2248, 0x2248, 0x2248,
      0x3249, 0x3249, 0x3209, 0x3209, 0x3241, 0x3241, 0x4400, 0x4002],
     [0x400a, 0x4440, 0x4288, 0x9036, 0x9038, 0x903a, 0x903c, 0x903e,
      0x9040, 0x9042, 0xa044, 0xa048, 0xa04c, 0xa050, 0xb054, 0xc05c],
     [0x1011, 0x1051], [0x1280, 0x104a], [0x1448, 0x1010], [0x1088, 0x1050], [0x1080, 0x1042],
     [0x1408, 0x1289], [0x1089, 0x1250], [0x1251, 0x1251, 0x2281, 0x2210],
     [0x2211, 0x2081, 0x2449, 0x224a], [0x2441, 0x220a, 0x2012, 0x2052],
     [0x2488, 0x2290, 0x2202, 0x2401],
     [0x2091, 0x2091, 0x3480, 0x3291, 0x3242, 0x3409, 0x3252, 0x3489],
     [0x3090, 0x3090, 0x308a, 0x308a, 0x4212, 0x4481, 0x4450, 0x4490,
      0x4092, 0x4491, 0x4451, 0x428a, 0x4292, 0x906c, 0xa06e, 0xc072],
     [0x1082, 0x1410], [0x1282, 0x1282, 0x2411, 0x244a],
     [0x2442, 0x2442, 0x2442, 0x2442, 0x3492, 0x3492, 0x348a, 0x348a,
      0x3452, 0x3452, 0x340a, 0x340a, 0x3402, 0x3402, 0x4482, 0x4412]]"

definition HufBook4 :: "int list" where
  "HufBook4 = concat [
     [0x4249, 0x4049, 0x4241, 0x4248, 0x4209, 0x4200, 0x4240, 0x4000,
      0x4009, 0x4208, 0x9010, 0x9012, 0x9014, 0xb016, 0xc01e, 0xc02e],
     [0x1201, 0x1048], [0x1001, 0x1041], [0x1008, 0x1040],
     [0x3449, 0x3251, 0x3289, 0x324a, 0x3448, 0x3441, 0x3288, 0x3409],
     [0x3051, 0x3051, 0x404a, 0x4250, 0x4089, 0x420a, 0x4281, 0x4242,
      0x4211, 0x4440, 0x4408, 0x4280, 0x4401, 0x4042, 0x4088, 0x400a],
     [0x4050, 0x4081, 0x4202, 0x4011, 0x4210, 0x4400, 0x4002, 0x903e,
      0x9040, 0x9042, 0x9044, 0xa046, 0xa04a, 0xa04e, 0xb052, 0xc05a],
     [0x1080, 0x1010], [0x1291, 0x1489], [0x1451, 0x1252], [0x128a, 0x144a],
     [0x2290, 0x2488, 0x2450, 0x2091], [0x2052, 0x2481, 0x208a, 0x2411],
     [0x2212, 0x2491, 0x2282, 0x240a],
     [0x2442, 0x2442, 0x2292, 0x2292, 0x3452, 0x348a, 0x3090, 0x3480],
     [0x3012, 0x3012, 0x3410, 0x3410, 0x3082, 0x3082, 0x3402, 0x3402,
      0x3492, 0x3492, 0x3092, 0x3092, 0x3490, 0x3490, 0x4482, 0x4412]]"

definition HufBook5 :: "int list" where
  "HufBook5 = concat [
     [0x1000, 0x1000, 0x1000, 0x1000, 0x1000, 0x1000, 0x1000, 0x1000,
      0x43e0, 0x4020, 0x4001, 0x401f, 0x9010, 0x9012, 0xc014, 0xc024],
     [0x103f, 0x13e1], [0x13ff, 0x1021],
     [0x33c0, 0x33c0, 0x3002, 0x3002, 0x3040, 0x3040, 0x301e, 0x301e,
      0x43df, 0x4041, 0x43fe, 0x4022, 0x43c1, 0x405f, 0x43e2, 0x403e],
     [0x43a0, 0x4060, 0x401d, 0x4003, 0x9034, 0x9036, 0x9038, 0x903a,
      0x903c, 0x903e, 0xa040, 0xa044, 0xa048, 0xb04c, 0xb054, 0xc05c],
     [0x13bf, 0x1023], [0x1061, 0x13fd], [0x13a1, 0x107f], [0x103d, 0x13e3], [0x13c2, 0x1042],
     [0x13de, 0x105e], [0x23be, 0x207e, 0x23c3, 0x205d], [0x2062, 0x2043, 0x23a2, 0x23dd],
     [0x201c, 0x2380, 0x2081, 0x2080],
     [0x339f, 0x3004, 0x309f, 0x33fc, 0x3024, 0x33e4, 0x3381, 0x303c],
     [0x307d, 0x33bd, 0x33a3, 0x33c4, 0x339e, 0x3082, 0x305c, 0x3044],
     [0x3063, 0x3063, 0x3382, 0x3382, 0x43dc, 0x409e, 0x407c, 0x439d,
      0x4383, 0x4064, 0x43a4, 0x4083, 0x409d, 0x43bc, 0x906c, 0x906e],
     [0x109c, 0x1384], [0x1084, 0x139c]]"

definition HufBook6 :: "int list" where
  "HufBook6 = concat [
     [0x4000, 0x4020, 0x401f, 0x4001, 0x43e0, 0x4021, 0x43e1, 0x403f,
      0x43ff, 0xa010, 0xa014, 0xa018, 0xa01c, 0xb020, 0xc028, 0xc038],
     [0x205f, 0x2041, 0x23c1, 0x23df], [0x23c0, 0x23e2, 0x2040, 0x203e],
     [0x2022, 0x201e, 0x23fe, 0x2002], [0x205e, 0x23c2, 0x23de, 0x2042],
     [0x33a1, 0x3061, 0x307f, 0x33e3, 0x33bf, 0x3023, 0x303d, 0x33fd],
     [0x3060, 0x3060, 0x33a0, 0x33a0, 0x301d, 0x301d, 0x3003, 0x3003,
      0x3062, 0x3062, 0x43be, 0x43c3, 0x4043, 0x407e, 0x405d, 0x43dd],
     [0x43a2, 0x4063, 0x9048, 0x904a, 0x904c, 0x904e, 0x9050, 0x9052,
      0x9054, 0x9056, 0x9058, 0x905a, 0x905c, 0xa05e, 0xa062, 0xb066],
     [0x107d, 0x13bd], [0x13a3, 0x103c], [0x13fc, 0x1081], [0x1381, 0x139f], [0x1024, 0x109f],
     [0x13e4, 0x101c], [0x1382, 0x139e], [0x1044, 0x13dc], [0x1380, 0x1082], [0x109e, 0x13c4],
     [0x1080, 0x105c], [0x1004, 0x1004, 0x23bc, 0x23a4], [0x207c, 0x209d, 0x2064, 0x2083],
     [0x2383, 0x2383, 0x239d, 0x239d, 0x3084, 0x3384, 0x339c, 0x309c]]"

definition HufBook7 :: "int list" where
  "HufBook7 = concat [
     [0x1000, 0x1000, 0x1000, 0x1000, 0x1000, 0x1000, 0x1000, 0x1000,
      0x3420, 0x3420, 0x3401, 0x3401, 0x4821, 0xa010, 0xc014, 0xc024],
     [0x2841, 0x2822, 0x2440, 0x2402],
     [0x3861, 0x3861, 0x3823, 0x3823, 0x3842, 0x3842, 0x3460, 0x3460,
      0x3403, 0x3403, 0x4843, 0x4862, 0x4824, 0x4881, 0x4825, 0x48a1],
     [0x4863, 0x4844, 0x4404, 0x4480, 0x9034, 0x9036, 0x9038, 0x903a,
      0x903c, 0x903e, 0x9040, 0xa042, 0xa046, 0xa04a, 0xb04e, 0xc056],
     [0x1882, 0x1845], [0x18a2, 0x1405], [0x18c1, 0x14a0], [0x1826, 0x1883], [0x1865, 0x1864],
     [0x18a3, 0x1846], [0x18c2, 0x1827], [0x2866, 0x2406, 0x24c0, 0x2884],
     [0x28e1, 0x2885, 0x28e2, 0x28a4], [0x28c3, 0x2847, 0x28e3, 0x28c4],
     [0x28a5, 0x28a5, 0x2886, 0x2886, 0x2867, 0x2867, 0x34e0, 0x3407],
     [0x38c5, 0x38c5, 0x38a6, 0x38a6, 0x38e4, 0x38e4, 0x3887, 0x3887,
      0x38a7, 0x38a7, 0x38e5, 0x38e5, 0x48e6, 0x48c6, 0x48c7, 0x48e7]]"

definition HufBook8 :: "int list" where
  "HufBook8 = concat [
     [0x3821, 0x3821, 0x4841, 0x4420, 0x4822, 0x4401, 0x4842, 0x9010,
      0x9012, 0x9014, 0xa016, 0xa01a, 0xa01e, 0xb022, 0xc02a, 0xc03a],
     [0x1000, 0x1440], [0x1402, 0x1861], [0x1823, 0x1862], [0x1843, 0x1843, 0x2863, 0x2881],
     [0x2824, 0x2882, 0x2844, 0x2460], [0x2403, 0x2883, 0x2864, 0x28a2],
     [0x38a1, 0x3845, 0x3825, 0x38a3, 0x3865, 0x3884, 0x38a4, 0x3404],
     [0x3885, 0x3885, 0x3480, 0x3480, 0x3846, 0x3846, 0x38c2, 0x38c2,
      0x38c1, 0x38c1, 0x3826, 0x3826, 0x4866, 0x48c3, 0x48a5, 0x44a0],
     [0x48c4, 0x4405, 0x4886, 0x48e1, 0x48e2, 0x4847, 0x48c5, 0x48e3,
      0x4827, 0x48a6, 0x4867, 0x904a, 0x904c, 0x904e, 0x9050, 0xa052],
     [0x18c6, 0x18e4], [0x14c0, 0x1887], [0x1406, 0x18e5], [0x18e6, 0x18c7],
     [0x28a7, 0x24e0, 0x2407, 0x28e7]]"

definition HufBook9 :: "int list" where
  "HufBook9 = concat [
     [0x1000, 0x1000, 0x1000, 0x1000, 0x1000, 0x1000, 0x1000, 0x1000,
      0x3420, 0x3420, 0x3401, 0x3401, 0x4821, 0xa010, 0xc014, 0xc028],
     [0x2841, 0x2822, 0x2440, 0x2402],
     [0x3861, 0x3861, 0x3842, 0x3842, 0x3823, 0x3823, 0x4460, 0x4403,
      0x4843, 0x4862, 0x4824, 0x4881, 0x4844, 0x4825, 0x9024, 0x9026],
     [0x1882, 0x1863], [0x1404, 0x1480],
     [0x9038, 0x903a, 0x903c, 0xa03e, 0xa042, 0xa046, 0xa04a, 0xa04e,
      0xb052, 0xb05a, 0xb062, 0xb06a, 0xc072, 0xc082, 0xc092, 0xc0aa],
     [0x18a1, 0x1845], [0x1826, 0x1864], [0x18a2, 0x18c1], [0x1883, 0x1883, 0x2405, 0x2846],
     [0x24a0, 0x2827, 0x2865, 0x2828], [0x2901, 0x2884, 0x28a3, 0x28c2],
     [0x28e1, 0x2406, 0x2902, 0x2848], [0x2866, 0x2847, 0x2885, 0x2921],
     [0x2829, 0x2829, 0x28e2, 0x28e2, 0x34c0, 0x38a4, 0x38c3, 0x3903],
     [0x3407, 0x3922, 0x3868, 0x3886, 0x3867, 0x3408, 0x3941, 0x38c4],
     [0x3849, 0x38a5, 0x3500, 0x34e0, 0x38e3, 0x3942, 0x3923, 0x3904],
     [0x382a, 0x38e4, 0x38c5, 0x38a6, 0x3888, 0x3887, 0x3869, 0x3961],
     [0x38a8, 0x38a8, 0x3520, 0x3520, 0x3905, 0x3905, 0x4943, 0x484a,
      0x4409, 0x4962, 0x4924, 0x48c6, 0x4981, 0x4889, 0x4906, 0x482b],
     [0x4925, 0x4944, 0x48a7, 0x48e5, 0x484b, 0x482c, 0x4982, 0x4963,
      0x486a, 0x48a9, 0x48c7, 0x4907, 0x4964, 0x440a, 0x48e6, 0x4983],
     [0x4540, 0x4945, 0x488a, 0x48c8, 0x484c, 0x4926, 0x4927, 0x488b,
      0x4560, 0x48c9, 0x486b, 0x48aa, 0x90a2, 0x90a4, 0x90a6, 0x90a8],
     [0x1908, 0x18e8], [0x1985, 0x186c], [0x1965, 0x18e7], [0x1984, 0x1966],
     [0x90ba, 0x90bc, 0x90be, 0x90c0, 0x90c2, 0x90c4, 0x90c6, 0x90c8,
      0x90ca, 0x90cc, 0x90ce, 0x90d0, 0xa0d2, 0xa0d6, 0xa0da, 0xb0de],
     [0x1946, 0x188c], [0x18e9, 0x18ab], [0x140b, 0x1986], [0x18ca, 0x1580], [0x1947, 0x18ac],
     [0x18ea, 0x1928], [0x140c, 0x1967], [0x1909, 0x1929], [0x1948, 0x18eb], [0x1987, 0x18cb],
     [0x190b, 0x1968], [0x18ec, 0x18cc], [0x290a, 0x2949, 0x290c, 0x292a],
     [0x292b, 0x292c, 0x294b, 0x2989], [0x294a, 0x2969, 0x2988, 0x296a],
     [0x298a, 0x298a, 0x298b, 0x298b, 0x394c, 0x396b, 0x396c, 0x398c]]"

definition HufBook10 :: "int list" where
  "HufBook10 = concat [
     [0x4821, 0x4822, 0x4841, 0x9010, 0x9012, 0x9014, 0x9016, 0xa018,
      0xa01c, 0xa020, 0xb024, 0xb02c, 0xc034, 0xc044, 0xc054, 0xc07e],
     [0x1842, 0x1420], [0x1401, 0x1823], [0x1862, 0x1861], [0x1843, 0x1863],
     [0x2440, 0x2402, 0x2844, 0x2882], [0x2824, 0x2881, 0x2000, 0x2883],
     [0x2864, 0x2460, 0x2403, 0x2884],
     [0x2845, 0x2845, 0x28a2, 0x28a2, 0x3825, 0x38a1, 0x38a3, 0x3865],
     [0x38a4, 0x3885, 0x38c2, 0x3846, 0x38c3, 0x3480, 0x38c1, 0x3404],
     [0x3826, 0x3826, 0x3866, 0x3866, 0x38a5, 0x38a5, 0x38c4, 0x38c4,
      0x3886, 0x3886, 0x48c5, 0x48e2, 0x4867, 0x4847, 0x48a6, 0x4902],
     [0x48e3, 0x44a0, 0x48e1, 0x4405, 0x4901, 0x4827, 0x4903, 0x48e4,
      0x4887, 0x4848, 0x48c6, 0x48e5, 0x4828, 0x4868, 0x4904, 0x4888],
     [0x48a7, 0x4905, 0x48a8, 0x9064, 0x9066, 0x9068, 0x906a, 0x906c,
      0x906e, 0x9070, 0x9072, 0x9074, 0x9076, 0x9078, 0x907a, 0x907c],
     [0x18e6, 0x18c7], [0x1922, 0x14c0], [0x18c8, 0x1923], [0x1869, 0x1921], [0x1849, 0x1406],
     [0x1906, 0x1924], [0x1889, 0x1942], [0x1829, 0x18e7], [0x1907, 0x1925], [0x18e8, 0x1943],
     [0x18a9, 0x1944], [0x184a, 0x1941], [0x186a, 0x1926],
     [0x908e, 0x9090, 0xa092, 0xa096, 0xa09a, 0xa09e, 0xa0a2, 0xa0a6,
      0xa0aa, 0xa0ae, 0xa0b2, 0xa0b6, 0xb0ba, 0xb0c2, 0xb0ca, 0xc0d2],
     [0x18c9, 0x1500], [0x188a, 0x14e0], [0x1962, 0x1962, 0x28e9, 0x2963],
     [0x2946, 0x282a, 0x2961, 0x2927], [0x2407, 0x2908, 0x2945, 0x286b],
     [0x28aa, 0x2909, 0x2965, 0x2408], [0x2964, 0x284b, 0x28ea, 0x28ca],
     [0x2947, 0x288b, 0x282b, 0x2982], [0x2928, 0x2983, 0x2966, 0x28ab],
     [0x2984, 0x2967, 0x2985, 0x286c], [0x28cb, 0x2520, 0x2948, 0x2540],
     [0x2981, 0x2409, 0x288c, 0x2929],
     [0x2986, 0x2986, 0x284c, 0x284c, 0x290a, 0x290a, 0x392a, 0x382c],
     [0x3968, 0x3987, 0x38eb, 0x38ac, 0x38cc, 0x3949, 0x390b, 0x3988],
     [0x340a, 0x38ec, 0x3560, 0x394a, 0x3969, 0x396a, 0x340b, 0x396b],
     [0x392b, 0x392b, 0x394b, 0x394b, 0x3580, 0x3580, 0x390c, 0x390c,
      0x4989, 0x494c, 0x492c, 0x496c, 0x498b, 0x440c, 0x498a, 0x498c]]"

definition HufBook11 :: "int list" where
  "HufBook11 = concat [
     [0x4000, 0x4041, 0x9010, 0x9012, 0x9014, 0xa016, 0xb01a, 0xb022,
      0xc02a, 0xc03a, 0xc04a, 0xc05a, 0xc06a, 0xc08c, 0xc0bc, 0xc108],
     [0x1410, 0x1040], [0x1001, 0x1081], [0x1042, 0x1082], [0x2043, 0x20c1, 0x20c2, 0x2080],
     [0x2083, 0x2083, 0x2002, 0x2002, 0x20c3, 0x20c3, 0x3101, 0x3044],
     [0x3102, 0x3084, 0x3103, 0x30c4, 0x30c0, 0x3003, 0x3141, 0x3142],
     [0x3085, 0x3085, 0x3104, 0x3104, 0x3045, 0x3045, 0x3143, 0x3143,
      0x30c5, 0x30c5, 0x3144, 0x3144, 0x4105, 0x4182, 0x4086, 0x4181],
     [0x4183, 0x40c6, 0x4046, 0x4110, 0x40d0, 0x4405, 0x4403, 0x4404,
      0x4184, 0x4406, 0x4100, 0x4106, 0x4004, 0x4090, 0x4145, 0x4150],
     [0x4407, 0x4402, 0x4408, 0x4087, 0x41c2, 0x40c7, 0x4185, 0x4146,
      0x4190, 0x440a, 0x41c3, 0x41c1, 0x4409, 0x41d0, 0x4050, 0x4047],
     [0x4107, 0x440b, 0x41c4, 0x440c, 0x4210, 0x4401, 0x4186, 0x4250,
      0x4088, 0x4147, 0x4290, 0x440d, 0x4203, 0x4202, 0x40c8, 0x4140],
     [0x440e, 0x42d0, 0x41c5, 0x4108, 0x4187, 0x41c6, 0x4005, 0x907a,
      0x907c, 0x907e, 0x9080, 0x9082, 0x9084, 0x9086, 0x9088, 0x908a],
     [0x1204, 0x140f], [0x1310, 0x1048], [0x1201, 0x1390], [0x1148, 0x1350], [0x10c9, 0x1205],
     [0x11c7, 0x1089], [0x1206, 0x1242], [0x1243, 0x13d0], [0x1109, 0x1188],
     [0x909c, 0x909e, 0x90a0, 0x90a2, 0x90a4, 0x90a6, 0x90a8, 0x90aa,
      0x90ac, 0x90ae, 0x90b0, 0x90b2, 0x90b4, 0x90b6, 0x90b8, 0x90ba],
     [0x1180, 0x1244], [0x1149, 0x1207], [0x11c8, 0x1049], [0x1283, 0x1006], [0x1282, 0x1241],
     [0x1245, 0x110a], [0x108a, 0x1246], [0x10ca, 0x1189], [0x1284, 0x1208], [0x1285, 0x1247],
     [0x12c3, 0x104a], [0x11c0, 0x1286], [0x11c9, 0x10cb], [0x114a, 0x1281], [0x110b, 0x12c2],
     [0x1342, 0x118a],
     [0x90cc, 0x90ce, 0xa0d0, 0xa0d4, 0xa0d8, 0xa0dc, 0xa0e0, 0xa0e4,
      0xa0e8, 0xa0ec, 0xa0f0, 0xa0f4, 0xa0f8, 0xa0fc, 0xa100, 0xa104],
     [0x1343, 0x108b], [0x1400, 0x114b], [0x12c5, 0x12c5, 0x22c4, 0x2248],
     [0x21ca, 0x2209, 0x2010, 0x210d], [0x2007, 0x20cd, 0x22c6, 0x2341],
     [0x2344, 0x2303, 0x208d, 0x2345], [0x220a, 0x218b, 0x2288, 0x2287],
     [0x2382, 0x2304, 0x204b, 0x210c], [0x22c1, 0x20cc, 0x204d, 0x2302],
     [0x21cb, 0x20ce, 0x214c, 0x214d], [0x2384, 0x210e, 0x22c7, 0x2383],
     [0x2305, 0x2346, 0x2306, 0x2200], [0x22c8, 0x208c, 0x2249, 0x2385],
     [0x218d, 0x228a, 0x23c2, 0x220b], [0x224a, 0x2386, 0x2289, 0x214e],
     [0x22c9, 0x2381, 0x208e, 0x218c],
     [0xa118, 0xa11c, 0xa120, 0xa124, 0xa128, 0xa12c, 0xa130, 0xa134,
      0xa138, 0xa13c, 0xb140, 0xb148, 0xb150, 0xb158, 0xb160, 0xc168],
     [0x204c, 0x2348, 0x2008, 0x2347], [0x21cc, 0x2307, 0x21cd, 0x23c3],
     [0x2301, 0x218e, 0x208f, 0x23c5], [0x23c4, 0x204e, 0x224b, 0x210f],
     [0x2387, 0x220d, 0x2349, 0x220c], [0x214f, 0x20cf, 0x228b, 0x22ca],
     [0x2308, 0x23c6, 0x23c7, 0x220e], [0x23c1, 0x21ce, 0x2240, 0x2009],
     [0x224d, 0x224c, 0x2309, 0x2388], [0x228d, 0x2389, 0x230a, 0x218f],
     [0x21cf, 0x21cf, 0x324e, 0x33c8, 0x32cb, 0x32ce, 0x304f, 0x328c],
     [0x328e, 0x334b, 0x334a, 0x32cd, 0x32cc, 0x320f, 0x338b, 0x334c],
     [0x330d, 0x33c9, 0x338a, 0x3280, 0x330b, 0x324f, 0x300a, 0x330c],
     [0x32c0, 0x330e, 0x328f, 0x334d, 0x300d, 0x338c, 0x33ca, 0x33cb],
     [0x32cf, 0x338d, 0x3340, 0x300b, 0x334e, 0x33cc, 0x33cd, 0x330f],
     [0x3380, 0x3380, 0x338e, 0x338e, 0x334f, 0x334f, 0x3300, 0x3300,
      0x338f, 0x338f, 0x400e, 0x400c, 0x43ce, 0x43c0, 0x400f, 0x43cf]]"

definition HufTabScale :: "int list" where
  "HufTabScale = concat [
     [0x1000, 0x1000, 0x1000, 0x1000, 0x1000, 0x1000, 0x1000, 0x1000,
      0x3fff, 0x3fff, 0x4001, 0x4ffe, 0x4002, 0x9010, 0xa012, 0xc016],
     [0x1ffd, 0x1003], [0x2ffc, 0x2004, 0x2ffb, 0x2005],
     [0x3006, 0x3006, 0x3ffa, 0x3ffa, 0x3007, 0x3007, 0x4ff9, 0x4008,
      0x4ff8, 0x4009, 0x4ff7, 0x9026, 0x9028, 0xa02a, 0xb02e, 0xc036],
     [0x100a, 0x1ff6], [0x1ff5, 0x100b], [0x200c, 0x2ff4, 0x200d, 0x2ff3],
     [0x200e, 0x200e, 0x2ff2, 0x2ff2, 0x3010, 0x300f, 0x3011, 0x3012],
     [0x3ff1, 0x3ff1, 0x3fef, 0x3fef, 0x4ff0, 0x4013, 0x4fee, 0x4fed,
      0x4014, 0x4fec, 0x9046, 0x9048, 0xa04a, 0xa04e, 0xb052, 0xc05a],
     [0x1015, 0x1feb], [0x1016, 0x1fea], [0x1017, 0x1017, 0x2fe9, 0x2fe7],
     [0x2019, 0x2fe5, 0x2fe8, 0x2fe6],
     [0x2018, 0x2018, 0x2fe4, 0x2fe4, 0x301b, 0x301d, 0x3fe2, 0x3fe3],
     [0x401a, 0x4fe1, 0x4fde, 0x4fdf, 0x4fe0, 0x4fdc, 0x401c, 0x906a,
      0xa06c, 0xa070, 0xb074, 0xb07c, 0xb084, 0xb08c, 0xb094, 0xb09c],
     [0x1fdd, 0x1fda], [0x1fdb, 0x1fdb, 0x201e, 0x2fd9], [0x2fd7, 0x2fc7, 0x2fc5, 0x2fc6],
     [0x2fc4, 0x2fc4, 0x3026, 0x3027, 0x3028, 0x3029, 0x302a, 0x3039],
     [0x3025, 0x301f, 0x3020, 0x3021, 0x3022, 0x3023, 0x3024, 0x302c],
     [0x3033, 0x3034, 0x3035, 0x3036, 0x3037, 0x3038, 0x3032, 0x302d],
     [0x302e, 0x302f, 0x3030, 0x3031, 0x303a, 0x3fca, 0x3fcc, 0x3fcd],
     [0x3fce, 0x3fc9, 0x302b, 0x303c, 0x303b, 0x3fc8, 0x3fcb, 0x3fd3],
     [0x3fd4, 0x3fd6, 0x3fd8, 0x3fd5, 0x3fcf, 0x3fd0, 0x3fd2, 0x3fd1]]"

section \<open>The descriptors\<close>

text \<open>\<open>HuffInfoData\<close> of \<^verbatim>\<open>inc/lc_huff.h\<close>: a table, the longest code word, the width of the first subtable.\<close>

record HuffInfoData =
  HufTable :: "int list"
  maxBits :: nat
  startBits :: int

definition huffTabSpecInfo :: "HuffInfoData list" where
  "huffTabSpecInfo = [
     \<lparr>HufTable = HufBook1, maxBits = 11, startBits = 4\<rparr>,
     \<lparr>HufTable = HufBook2, maxBits = 9, startBits = 4\<rparr>,
     \<lparr>HufTable = HufBook3, maxBits = 16, startBits = 4\<rparr>,
     \<lparr>HufTable = HufBook4, maxBits = 12, startBits = 4\<rparr>,
     \<lparr>HufTable = HufBook5, maxBits = 13, startBits = 4\<rparr>,
     \<lparr>HufTable = HufBook6, maxBits = 11, startBits = 4\<rparr>,
     \<lparr>HufTable = HufBook7, maxBits = 12, startBits = 4\<rparr>,
     \<lparr>HufTable = HufBook8, maxBits = 10, startBits = 4\<rparr>,
     \<lparr>HufTable = HufBook9, maxBits = 15, startBits = 4\<rparr>,
     \<lparr>HufTable = HufBook10, maxBits = 12, startBits = 4\<rparr>,
     \<lparr>HufTable = HufBook11, maxBits = 12, startBits = 4\<rparr>]"

definition huffTabScaleInfo :: HuffInfoData where
  "huffTabScaleInfo = \<lparr>HufTable = HufTabScale, maxBits = 19, startBits = 4\<rparr>"

end
