(* ===== verification/Huffman.thy ===== *)
theory Huffman
  imports BitStream HufTab
begin

unbundle bit_operations_syntax

text \<open>
  Huffman decoding of the AAC decoder: the field macros and \<open>DecodeHuffmanData\<close> of
  \<^verbatim>\<open>inc/lc_huff.h\<close>, and the code trees the tables of \<^verbatim>\<open>src/lc_hufftab.c\<close> stand for.
\<close>

section \<open>The fields of a table entry\<close>

definition GET_OFFBIT :: "int \<Rightarrow> int" where "GET_OFFBIT v = drop_bit 15 v"
definition GET_OFFSET :: "int \<Rightarrow> int" where "GET_OFFSET v = v AND 0xFFF"
definition GET_VALUE :: "int \<Rightarrow> int" where "GET_VALUE v = drop_bit 20 (s32 (push_bit 20 v))"
definition GET_BITS :: "int \<Rightarrow> int" where "GET_BITS v = drop_bit 12 v AND 0x7"

definition GET_QUAD_W :: "int \<Rightarrow> int" where "GET_QUAD_W v = drop_bit 29 (s32 (push_bit 20 v))"
definition GET_QUAD_X :: "int \<Rightarrow> int" where "GET_QUAD_X v = drop_bit 29 (s32 (push_bit 23 v))"
definition GET_QUAD_Y :: "int \<Rightarrow> int" where "GET_QUAD_Y v = drop_bit 29 (s32 (push_bit 26 v))"
definition GET_QUAD_Z :: "int \<Rightarrow> int" where "GET_QUAD_Z v = drop_bit 29 (s32 (push_bit 29 v))"

definition GET_PAIR_Y :: "int \<Rightarrow> int" where "GET_PAIR_Y v = drop_bit 27 (s32 (push_bit 22 v))"
definition GET_PAIR_Z :: "int \<Rightarrow> int" where "GET_PAIR_Z v = drop_bit 27 (s32 (push_bit 27 v))"

definition GET_ESC_Y :: "int \<Rightarrow> int" where "GET_ESC_Y v = drop_bit 26 (s32 (push_bit 20 v))"
definition GET_ESC_Z :: "int \<Rightarrow> int" where "GET_ESC_Z v = drop_bit 26 (s32 (push_bit 26 v))"

text \<open>\<open>SET_SIGN(v, s)\<close>: negate \<open>v\<close> when the top bit of the \<open>unsigned int\<close> \<open>s\<close> is set.\<close>

definition SET_SIGN :: "int \<Rightarrow> 32 word \<Rightarrow> int" where
  "SET_SIGN v s = (let m = drop_bit 31 (sint s) in (v XOR m) - m)"

section \<open>The table walk\<close>

definition huff_entry :: "int list \<Rightarrow> int \<Rightarrow> int option" where
  "huff_entry tab i = map_option s16 (rd tab i)"

text \<open>
  The loop over linked subtables, \<open>while (GET_OFFBIT(HufVal))\<close>, as it stands in
  \<open>DecodeHuffmanData\<close> and in each of the spectral decoders of \<^verbatim>\<open>src/lc_huff.c\<close>.
\<close>

partial_function (option) huff_loop ::
    "int list \<Rightarrow> 32 word \<Rightarrow> int \<Rightarrow> int \<Rightarrow> int \<Rightarrow> (32 word \<times> int \<times> int) option" where
  "huff_loop tab bitCache nSkipBits nCodeBits HufVal =
     (if GET_OFFBIT HufVal \<noteq> 0 then
        (let bitCache = shl32 bitCache nSkipBits;
             nCodeBits = nCodeBits + nSkipBits;
             nSkipBits = GET_BITS HufVal in
         Option.bind (huff_entry tab (GET_OFFSET HufVal + uint (shr32 bitCache (32 - nSkipBits))))
           (\<lambda>HufVal. huff_loop tab bitCache nSkipBits nCodeBits HufVal))
      else Some (bitCache, nCodeBits, HufVal))"

definition huff_code :: "HuffInfoData \<Rightarrow> nat \<Rightarrow> BitStream \<Rightarrow> (32 word \<times> int \<times> int) option" where
  "huff_code huffInfo nBits bs =
     (let bitCache = shl32 (BitStreamShowBits bs nBits) (32 - int nBits);
          nSkipBits = startBits huffInfo in
      do { HufVal \<leftarrow> huff_entry (HufTable huffInfo) (uint (shr32 bitCache (32 - nSkipBits)));
           huff_loop (HufTable huffInfo) bitCache nSkipBits 0 HufVal })"

definition DecodeHuffmanData :: "HuffInfoData \<Rightarrow> BitStream \<Rightarrow> (int \<times> BitStream) option" where
  "DecodeHuffmanData huffInfo bs =
     do { (bitCache, nCodeBits, HufVal) \<leftarrow> huff_code huffInfo (maxBits huffInfo) bs;
          let nCodeBits = nCodeBits + GET_BITS HufVal;
          Some (GET_VALUE HufVal, BitStreamSkip bs nCodeBits) }"

section \<open>Code trees\<close>

text \<open>
  What a code book means: a binary tree whose leaves are the table entries that carry a value. The
  tree is built from the table; building it fails unless every subtable lies inside the table, every
  leaf of \<open>b\<close> bits fills exactly the entries that share its \<open>b\<close> bits, and the links are acyclic.
\<close>

datatype htree = HLeaf int | HNode htree htree

fun tree_walk :: "htree \<Rightarrow> bool list \<Rightarrow> nat \<times> int" where
  "tree_walk (HLeaf v) xs = (0, v)"
| "tree_walk (HNode l r) xs =
     (let (n, v) = tree_walk (if xs \<noteq> [] \<and> hd xs then r else l) (tl xs) in (Suc n, v))"

fun depth :: "htree \<Rightarrow> nat" where
  "depth (HLeaf v) = 0"
| "depth (HNode l r) = Suc (max (depth l) (depth r))"

fun leaves :: "htree \<Rightarrow> int list" where
  "leaves (HLeaf v) = [v]"
| "leaves (HNode l r) = leaves l @ leaves r"

text \<open>The code words of a tree, each with its entry.\<close>

fun tree_codes :: "htree \<Rightarrow> (bool list \<times> int) list" where
  "tree_codes (HLeaf v) = [([], v)]"
| "tree_codes (HNode l r) =
     map (\<lambda>(c, v). (False # c, v)) (tree_codes l) @ map (\<lambda>(c, v). (True # c, v)) (tree_codes r)"

text \<open>The entries of the subtable of width \<open>k\<close> at \<open>off\<close>.\<close>

definition subtab :: "int list \<Rightarrow> int \<Rightarrow> nat \<Rightarrow> int list option" where
  "subtab tab off k =
     (let es = take (2 ^ k) (drop (nat off) tab) in
      if 0 \<le> off \<and> length es = 2 ^ k then Some (map s16 es) else None)"

function book_tree :: "nat \<Rightarrow> int list \<Rightarrow> int \<Rightarrow> int \<Rightarrow> htree option"
  and chunk_tree :: "nat \<Rightarrow> int list \<Rightarrow> nat \<Rightarrow> int \<Rightarrow> int list \<Rightarrow> htree option" where
  "book_tree 0 tab off k = None"
| "book_tree (Suc d) tab off k =
     (if 0 < k \<and> k \<le> 8
      then Option.bind (subtab tab off (nat k)) (chunk_tree d tab (nat k) 0) else None)"
| "chunk_tree d tab 0 j es =
     (case es of [v] \<Rightarrow>
        (if GET_OFFBIT v \<noteq> 0 then book_tree d tab (GET_OFFSET v) (GET_BITS v)
         else if GET_BITS v = j then Some (HLeaf v) else None)
      | _ \<Rightarrow> None)"
| "chunk_tree d tab (Suc k) j es =
     (case es of [] \<Rightarrow> None
      | v # _ \<Rightarrow>
        if GET_OFFBIT v = 0 \<and> GET_BITS v = j
        then (if list_all (\<lambda>u. u = v) es then Some (HLeaf v) else None)
        else do { l \<leftarrow> chunk_tree d tab k (j + 1) (take (2 ^ k) es);
                  r \<leftarrow> chunk_tree d tab k (j + 1) (drop (2 ^ k) es);
                  Some (HNode l r) })"
  by pat_completeness auto
termination
  by (relation "measures [case_sum (\<lambda>(d, _). d) (\<lambda>(d, _). d), case_sum (\<lambda>_. 0) (\<lambda>(_, _, k, _). Suc k)]") auto

section \<open>The walk follows the tree\<close>

lemma tree_walk_pad: "tree_walk t (xs @ replicate n False) = tree_walk t xs"
proof (induction t arbitrary: xs n)
  case (HNode l r)
  show ?case
  proof (cases xs)
    case Nil
    then show ?thesis using HNode.IH(1) [of "[]" "n - 1"] by (cases n) auto
  next
    case (Cons b ys)
    then show ?thesis by (simp add: HNode.IH)
  qed
qed simp

lemma tree_walk_depth: "fst (tree_walk t xs) \<le> depth t"
  by (induction t arbitrary: xs) (auto simp: split_beta Let_def le_max_iff_disj)

lemma tree_walk_leaf: "snd (tree_walk t xs) \<in> set (leaves t)"
  by (induction t arbitrary: xs) (auto simp: split_beta Let_def)

text \<open>A walk reads no more than the bits it consumes.\<close>

lemma tree_walk_local:
  "fst (tree_walk t xs) \<le> m \<Longrightarrow> m \<le> length xs \<Longrightarrow> m \<le> length ys \<Longrightarrow> take m ys = take m xs
   \<Longrightarrow> tree_walk t ys = tree_walk t xs"
proof (induction t arbitrary: xs ys m)
  case (HNode l r)
  then obtain k where m: "m = Suc k" by (cases m) (auto simp: split_beta Let_def)
  with HNode.prems obtain x xs' y ys' where "xs = x # xs'" "ys = y # ys'"
    by (cases xs; cases ys; simp)
  then have xy: "xs = x # xs'" "ys = y # ys'" by simp_all
  with HNode.prems m have h: "x = y" "k \<le> length xs'" "k \<le> length ys'" "take k ys' = take k xs'"
    "fst (tree_walk (if x then r else l) xs') \<le> k"
    by (simp_all add: split_beta Let_def)
  show ?case
  proof (cases x)
    case True
    with h HNode.IH(2) [of xs' k ys'] xy show ?thesis by simp
  next
    case False
    with h HNode.IH(1) [of xs' k ys'] xy show ?thesis by simp
  qed
qed simp

lemma tree_walk_take: "depth t \<le> m \<Longrightarrow> tree_walk t (padtake m xs) = tree_walk t xs"
proof -
  assume d: "depth t \<le> m"
  have le: "fst (tree_walk t (xs @ replicate m False)) \<le> m"
    using tree_walk_depth [of t] d by (rule order_trans)
  have "tree_walk t (padtake m xs) = tree_walk t (xs @ replicate m False)"
    by (rule tree_walk_local [OF le]) (simp_all add: padtake_def)
  then show ?thesis by (simp add: tree_walk_pad)
qed

lemma tree_walk_code: "(c, v) \<in> set (tree_codes t) \<Longrightarrow> tree_walk t (c @ xs) = (length c, v)"
  by (induction t arbitrary: c) auto

lemma tree_codes_leaves: "map snd (tree_codes t) = leaves t"
  by (induction t) (auto simp: split_beta comp_def)

lemma tree_code_ex: "v \<in> set (leaves t) \<Longrightarrow> \<exists>c. (c, v) \<in> set (tree_codes t)"
  by (auto simp: tree_codes_leaves [symmetric])

lemma tree_code_length: "(c, v) \<in> set (tree_codes t) \<Longrightarrow> length c \<le> depth t"
  by (induction t arbitrary: c) (fastforce simp: le_max_iff_disj)+

text \<open>The bits of the cache word, most significant first.\<close>

definition wbits :: "32 word \<Rightarrow> bool list" where
  "wbits w = map (\<lambda>i. bit w (31 - i)) [0..<32]"

lemma length_wbits [simp]: "length (wbits w) = 32"
  by (simp add: wbits_def)

lemma nth_wbits: "i < 32 \<Longrightarrow> wbits w ! i = bit w (31 - i)"
  by (simp add: wbits_def)

lemma wbits_shl:
  assumes "0 \<le> k" "k \<le> 32"
  shows "wbits (shl32 w k) = drop (nat k) (wbits w) @ replicate (nat k) False"
proof (rule nth_equalityI)
  fix i assume "i < length (wbits (shl32 w k))"
  then have i: "i < 32" by simp
  show "wbits (shl32 w k) ! i = (drop (nat k) (wbits w) @ replicate (nat k) False) ! i"
  proof (cases "i + nat k < 32")
    case True
    then have "31 - i - nat k = 31 - (nat k + i)" by simp
    with i True assms show ?thesis by (auto simp: nth_wbits nth_append bit_shl32 add.commute)
  next
    case False
    with i assms show ?thesis by (auto simp: nth_wbits nth_append bit_shl32)
  qed
qed (use assms in simp)

lemma tree_walk_shl: "0 \<le> k \<Longrightarrow> k \<le> 32 \<Longrightarrow> tree_walk t (wbits (shl32 w k)) = tree_walk t (drop (nat k) (wbits w))"
  by (simp add: wbits_shl tree_walk_pad)

lemma shl32_shl32: "0 \<le> a \<Longrightarrow> 0 \<le> b \<Longrightarrow> shl32 (shl32 w a) b = shl32 w (a + b)"
  by (rule bit_eqI) (auto simp: bit_shl32 nat_add_distrib diff_diff_eq add.commute)

lemma shr32_wbits: "0 < k \<Longrightarrow> k \<le> 32 \<Longrightarrow> uint (shr32 w (32 - int k)) = bval (take k (wbits w))"
proof (rule bval_eqI)
  fix j assume k: "0 < k" "k \<le> 32"
  show "bit (uint (shr32 w (32 - int k))) j \<longleftrightarrow> j < length (take k (wbits w))
      \<and> take k (wbits w) ! (length (take k (wbits w)) - 1 - j)"
  proof (cases "j < k")
    case True
    with k have "31 - (k - 1 - j) = j + nat (32 - int k)" by linarith
    with k True show ?thesis by (simp add: bit_uint_iff bit_shr32 nth_wbits)
  next
    case False
    with k show ?thesis by (auto simp: bit_uint_iff bit_shr32 dest!: bit_imp_le_length)
  qed
qed

lemma bval_take_Suc:
  "n < length xs \<Longrightarrow> bval (take (Suc n) xs) = (if hd xs then 2 ^ n else 0) + bval (take n (tl xs))"
proof (induction n arbitrary: xs)
  case 0
  then show ?case by (cases xs) (auto simp: bval_def)
next
  case (Suc n)
  then obtain x ys where xs: "xs = x # ys" by (cases xs) auto
  have "take (Suc (Suc n)) xs = take (Suc n) xs @ [xs ! Suc n]" "take (Suc n) ys = take n ys @ [ys ! n]"
    using Suc.prems xs by (auto simp: take_Suc_conv_app_nth)
  with Suc xs show ?case by (simp del: take_Suc_Cons)
qed

lemma chunk_walk:
  assumes "chunk_tree d tab k j es = Some t" "length es = 2 ^ k" "k \<le> length xs"
    "v = es ! nat (bval (take k xs))"
  shows "if GET_OFFBIT v \<noteq> 0
     then \<exists>t'. book_tree d tab (GET_OFFSET v) (GET_BITS v) = Some t'
           \<and> tree_walk t xs = (k + fst (tree_walk t' (drop k xs)), snd (tree_walk t' (drop k xs)))
     else \<exists>m. tree_walk t xs = (m, v) \<and> int m + j = GET_BITS v \<and> m \<le> k"
  using assms
proof (induction k arbitrary: t j es xs)
  case 0
  then show ?case by (auto split: list.splits if_splits)
next
  case (Suc k)
  obtain x ys where xs: "xs = x # ys" "k \<le> length ys" using Suc.prems by (cases xs) auto
  define i where "i = nat (bval (take k ys))"
  have i: "i < 2 ^ k"
    using bval_less [of "take k ys"] xs by (simp add: i_def nat_less_iff min_absorb2)
  have "bval (take (Suc k) xs) = (if x then 2 ^ k else 0) + bval (take k ys)"
    using bval_take_Suc [of k xs] xs by simp
  then have ix: "nat (bval (take (Suc k) xs)) = (if x then 2 ^ k + i else i)"
    by (auto simp: i_def nat_add_distrib nat_power_eq)
  obtain v0 es' where es: "es = v0 # es'" using Suc.prems by (cases es) auto
  show ?case
  proof (cases "GET_OFFBIT v0 = 0 \<and> GET_BITS v0 = j")
    case True
    with Suc.prems es have t: "list_all (\<lambda>u. u = v0) es" "t = HLeaf v0" by (auto split: if_splits)
    have "nat (bval (take (Suc k) xs)) < length es" using i ix Suc.prems(2) by simp
    with t(1) Suc.prems(4) have "v = v0" by (simp add: list_all_length)
    with True t show ?thesis by simp
  next
    case False
    with Suc.prems(1) es obtain l r where lr: "chunk_tree d tab k (j + 1) (take (2 ^ k) es) = Some l"
      "chunk_tree d tab k (j + 1) (drop (2 ^ k) es) = Some r" "t = HNode l r"
      by (auto split: Option.bind_splits)
    have vl: "v = (if x then drop (2 ^ k) es ! i else take (2 ^ k) es ! i)"
      using Suc.prems(2,4) ix i by auto
    have "if GET_OFFBIT v \<noteq> 0
     then \<exists>t'. book_tree d tab (GET_OFFSET v) (GET_BITS v) = Some t'
           \<and> tree_walk (if x then r else l) ys = (k + fst (tree_walk t' (drop k ys)), snd (tree_walk t' (drop k ys)))
     else \<exists>m. tree_walk (if x then r else l) ys = (m, v) \<and> int m + (j + 1) = GET_BITS v \<and> m \<le> k"
    proof (cases x)
      case True
      then have "length (drop (2 ^ k) es) = 2 ^ k" "v = drop (2 ^ k) es ! nat (bval (take k ys))"
        using vl Suc.prems(2) by (simp_all add: i_def)
      from Suc.IH [OF lr(2) this(1) xs(2) this(2)] show ?thesis unfolding if_P [OF True] .
    next
      case False
      then have "length (take (2 ^ k) es) = 2 ^ k" "v = take (2 ^ k) es ! nat (bval (take k ys))"
        using vl Suc.prems(2) by (simp_all add: i_def)
      from Suc.IH [OF lr(1) this(1) xs(2) this(2)] show ?thesis unfolding if_not_P [OF False] .
    qed
    then show ?thesis using lr(3) xs(1) by (auto split: if_splits)
  qed
qed

lemma subtab_entry:
  "subtab tab off k = Some es \<Longrightarrow> length es = 2 ^ k \<and>
     (\<forall>i. 0 \<le> i \<and> i < 2 ^ k \<longrightarrow> huff_entry tab (off + i) = Some (es ! nat i))"
proof -
  assume s: "subtab tab off k = Some es"
  then have es: "0 \<le> off" "es = map s16 (take (2 ^ k) (drop (nat off) tab))" and
    len: "2 ^ k \<le> length tab - nat off" "length es = 2 ^ k"
    by (auto simp: subtab_def Let_def min_def split: if_splits)
  have "huff_entry tab (off + i) = Some (es ! nat i)" if "0 \<le> i" "i < 2 ^ k" for i
  proof -
    have "nat i < 2 ^ k" using that by (simp add: nat_less_iff)
    moreover from this len es that have "off + i < int (length tab)" by linarith
    ultimately show ?thesis
      using es that len by (simp add: huff_entry_def rd_def nat_add_distrib)
  qed
  with len show ?thesis by blast
qed

lemma book_walk:
  assumes "book_tree d tab off k = Some t" "0 \<le> n"
  shows "\<exists>w' n'. Option.bind (huff_entry tab (off + uint (shr32 w (32 - k)))) (huff_loop tab w k n)
       = Some (w', n', snd (tree_walk t (wbits w)))
     \<and> n \<le> n' \<and> n' + GET_BITS (snd (tree_walk t (wbits w))) = n + int (fst (tree_walk t (wbits w)))
     \<and> w' = shl32 w (n' - n)"
  using assms
proof (induction d arbitrary: off k t w n)
  case 0
  then show ?case by simp
next
  case (Suc d)
  then obtain es where k: "0 < k" "k \<le> 8" and es: "subtab tab off (nat k) = Some es"
    and ct: "chunk_tree d tab (nat k) 0 es = Some t" by (auto split: if_splits Option.bind_splits)
  define v where "v = es ! nat (bval (take (nat k) (wbits w)))"
  have ix: "uint (shr32 w (32 - k)) = bval (take (nat k) (wbits w))"
    using shr32_wbits [of "nat k" w] k by simp
  have "bval (take (nat k) (wbits w)) < 2 ^ nat k"
    using bval_less [of "take (nat k) (wbits w)"] k by (simp add: min_def split: if_splits)
  with subtab_entry [OF es] ix have e: "huff_entry tab (off + uint (shr32 w (32 - k))) = Some v"
    by (simp add: v_def)
  have cw: "if GET_OFFBIT v \<noteq> 0
     then \<exists>t'. book_tree d tab (GET_OFFSET v) (GET_BITS v) = Some t'
           \<and> tree_walk t (wbits w) = (nat k + fst (tree_walk t' (drop (nat k) (wbits w))), snd (tree_walk t' (drop (nat k) (wbits w))))
     else \<exists>m. tree_walk t (wbits w) = (m, v) \<and> int m + 0 = GET_BITS v \<and> m \<le> nat k"
    using subtab_entry [OF es] k by (intro chunk_walk [OF ct]) (simp_all add: v_def)
  show ?case
  proof (cases "GET_OFFBIT v = 0")
    case True
    with cw Suc.prems(2) show ?thesis by (auto simp: e huff_loop.simps [of tab w k n v] shl32_def)
  next
    case False
    with cw obtain t' where t': "book_tree d tab (GET_OFFSET v) (GET_BITS v) = Some t'"
      "tree_walk t (wbits w) = (nat k + fst (tree_walk t' (drop (nat k) (wbits w))), snd (tree_walk t' (drop (nat k) (wbits w))))"
      by auto
    have sh: "tree_walk t' (wbits (shl32 w k)) = tree_walk t' (drop (nat k) (wbits w))"
      using k by (simp add: tree_walk_shl)
    obtain w' n' where IH:
      "Option.bind (huff_entry tab (GET_OFFSET v + uint (shr32 (shl32 w k) (32 - GET_BITS v))))
         (huff_loop tab (shl32 w k) (GET_BITS v) (n + k)) = Some (w', n', snd (tree_walk t (wbits w)))"
      "n + k \<le> n'" "n' + GET_BITS (snd (tree_walk t (wbits w))) = n + int (fst (tree_walk t (wbits w)))"
      "w' = shl32 (shl32 w k) (n' - (n + k))"
      using Suc.IH [OF t'(1), of "n + k" "shl32 w k"] k Suc.prems(2) sh t'(2) by auto
    have "shl32 (shl32 w k) (n' - (n + k)) = shl32 w (n' - n)"
      using shl32_shl32 [of k "n' - (n + k)" w] k IH(2) by (simp add: algebra_simps)
    with IH False k show ?thesis
      by (intro exI [of _ w'] exI [of _ n']) (simp add: e huff_loop.simps [of tab w k n v] Let_def)
  qed
qed

section \<open>Decoding a symbol\<close>

text \<open>The tree of a code book; no book links subtables more than eight deep.\<close>

definition book :: "HuffInfoData \<Rightarrow> htree option" where
  "book info = book_tree 8 (HufTable info) 0 (startBits info)"

lemma lookahead_wbits:
  assumes "bs_inv s" "0 < n" "n \<le> 32"
  shows "wbits (shl32 (BitStreamShowBits s n) (32 - int n)) = lookahead s n @ replicate (32 - n) False"
proof (rule nth_equalityI)
  fix i assume "i < length (wbits (shl32 (BitStreamShowBits s n) (32 - int n)))"
  then have i: "i < 32" by simp
  show "wbits (shl32 (BitStreamShowBits s n) (32 - int n)) ! i = (lookahead s n @ replicate (32 - n) False) ! i"
  proof (cases "i < n")
    case True
    then have "31 - i - nat (32 - int n) = n - 1 - i" "n - 1 - (n - 1 - i) = i" using assms by linarith+
    with True assms i show ?thesis
      by (auto simp: nth_wbits nth_append bit_shl32 show_bit lookahead_def)
  next
    case False
    with assms i show ?thesis by (auto simp: nth_wbits nth_append bit_shl32)
  qed
qed (use assms in simp)

lemma huff_code_walk:
  assumes "bs_inv s" "0 < n" "n \<le> 32" "book info = Some t" "depth t \<le> n"
  defines "u \<equiv> tree_walk t (lookahead s n)"
  shows "\<exists>k \<ge> 0. huff_code info n s = Some (shl32 (shl32 (BitStreamShowBits s n) (32 - int n)) k, k, snd u)
     \<and> k + GET_BITS (snd u) = int (fst u)"
proof -
  let ?w = "shl32 (BitStreamShowBits s n) (32 - int n)"
  have "tree_walk t (wbits ?w) = u"
    using assms by (simp add: lookahead_wbits tree_walk_pad)
  with book_walk [OF assms(4) [unfolded book_def], of 0 ?w] show ?thesis
    by (auto simp: huff_code_def Let_def)
qed

text \<open>
  \<open>tree_next t s\<close> is what the code book \<open>t\<close> spells at the front of the stream: the length of the code
  word and its entry. When the stream ends before the code word does, the bits beyond the end
  are whatever the look-ahead finds.
\<close>

definition tree_next :: "htree \<Rightarrow> BitStream \<Rightarrow> nat \<times> int" where
  "tree_next t s = tree_walk t (lookahead s (depth t))"

lemma lookahead_take: "m \<le> n \<Longrightarrow> take m (lookahead s n) = lookahead s m"
  by (simp add: lookahead_def take_map)

lemma tree_next_look: "depth t \<le> n \<Longrightarrow> tree_walk t (lookahead s n) = tree_next t s"
  unfolding tree_next_def
  by (rule tree_walk_local [where m = "depth t"]) (auto simp: tree_walk_depth lookahead_take)

lemma tree_next_bits:
  assumes "bs_inv s" "fst (tree_walk t (bsbits s)) \<le> bslen s"
  shows "tree_next t s = tree_walk t (bsbits s)"
proof -
  let ?m = "fst (tree_walk t (bsbits s))"
  have "?m \<le> depth t" by (rule tree_walk_depth)
  moreover have "take ?m (lookahead s (depth t)) = take ?m (bsbits s)"
    using assms tree_walk_depth by (intro take_lookahead) auto
  ultimately show ?thesis unfolding tree_next_def
    using assms(2) by (intro tree_walk_local [OF order_refl]) auto
qed

lemma tree_next_code:
  assumes "bs_inv s" "bsbits s = c @ r" "(c, v) \<in> set (tree_codes t)"
  shows "tree_next t s = (length c, v)"
proof -
  have w: "tree_walk t (bsbits s) = (length c, v)"
    using tree_walk_code [OF assms(3), of r] assms(2) by simp
  have "length c \<le> bslen s" using assms(2) length_bsbits [of s] by simp
  with w tree_next_bits [OF assms(1), of t] show ?thesis by simp
qed

lemma tree_next_depth: "fst (tree_next t s) \<le> depth t"
  by (simp add: tree_next_def tree_walk_depth)

lemma tree_next_leaf: "snd (tree_next t s) \<in> set (leaves t)"
  by (simp add: tree_next_def tree_walk_leaf)

lemma DecodeHuffmanData_run:
  assumes "bs_inv s" "book info = Some t" "depth t \<le> maxBits info" "0 < maxBits info" "maxBits info \<le> 32"
  shows "DecodeHuffmanData info s
     = Some (GET_VALUE (snd (tree_next t s)), BitStreamSkip s (int (fst (tree_next t s))))"
  using huff_code_walk [OF assms(1,4,5,2,3)]
  by (auto simp: DecodeHuffmanData_def tree_next_look [OF assms(3)])

section \<open>Evaluating the books\<close>

text \<open>
  The subtables of a book as rewrite rules: \<open>subtabs\<close> turns the definition of a table into one equation
  per subtable, with which the simplifier builds the tree without unfolding the table.
\<close>

definition width :: "int list \<Rightarrow> nat" where
  "width es = (if length es = 2 then 1 else if length es = 4 then 2 else if length es = 8 then 3 else 4)"

fun scan :: "int \<Rightarrow> int list list \<Rightarrow> (int \<times> int list) list" where
  "scan off [] = []"
| "scan off (p # ps) = (off, p) # scan (off + int (length p)) ps"

lemma scan_subtab:
  "list_all (\<lambda>(off, es). length es = 2 ^ width es \<longrightarrow> subtab (pre @ concat ps) off (width es) = Some (map s16 es))
     (scan (int (length pre)) ps)"
proof (induction ps arbitrary: pre)
  case Nil
  then show ?case by simp
next
  case (Cons p ps)
  from Cons.IH [of "pre @ p"] show ?case by (simp add: subtab_def)
qed

lemma subtabs:
  assumes "tab = concat ps"
  shows "list_all (\<lambda>(off, es). length es = 2 ^ width es \<longrightarrow> subtab tab off (width es) = Some (map s16 es)) (scan 0 ps)"
  using scan_subtab [of "[]" ps] assms by simp

lemma book_tree_num:
  "book_tree (numeral d) tab off k =
     (if 0 < k \<and> k \<le> 8
      then Option.bind (subtab tab off (nat k)) (chunk_tree (pred_numeral d) tab (nat k) 0) else None)"
  by (simp add: numeral_eq_Suc)

lemma chunk_tree_num:
  "chunk_tree d tab (numeral k) j es =
     (case es of [] \<Rightarrow> None
      | v # _ \<Rightarrow>
        if GET_OFFBIT v = 0 \<and> GET_BITS v = j
        then (if list_all (\<lambda>u. u = v) es then Some (HLeaf v) else None)
        else do { l \<leftarrow> chunk_tree d tab (pred_numeral k) (j + 1) (take (2 ^ pred_numeral k) es);
                  r \<leftarrow> chunk_tree d tab (pred_numeral k) (j + 1) (drop (2 ^ pred_numeral k) es);
                  Some (HNode l r) })"
  by (simp add: numeral_eq_Suc)

lemmas book_eval = book_tree_num chunk_tree_num width_def s16_def GET_OFFBIT_def GET_BITS_def GET_OFFSET_def

end
