(* ===== verification/Codebooks.thy ===== *)
theory Codebooks
  imports Huffman
begin

unbundle bit_operations_syntax

text \<open>
  The twelve code books of \<^verbatim>\<open>src/lc_hufftab.c\<close>, evaluated: each table is a complete prefix code whose
  code words are no longer than the \<open>maxBits\<close> the decoder looks ahead, and each symbol of the alphabet
  the standard gives the book has exactly one code word.
\<close>

section \<open>Alphabets\<close>

definition dec_quad :: "int \<Rightarrow> int \<times> int \<times> int \<times> int" where
  "dec_quad v = (GET_QUAD_W v, GET_QUAD_X v, GET_QUAD_Y v, GET_QUAD_Z v)"

definition dec_pair :: "int \<Rightarrow> int \<times> int" where
  "dec_pair v = (GET_PAIR_Y v, GET_PAIR_Z v)"

definition dec_esc :: "int \<Rightarrow> int \<times> int" where
  "dec_esc v = (GET_ESC_Y v, GET_ESC_Z v)"

definition pairs_upto :: "int \<Rightarrow> int \<Rightarrow> (int \<times> int) list" where
  "pairs_upto lo hi = List.product [lo..hi] [lo..hi]"

definition quads_upto :: "int \<Rightarrow> int \<Rightarrow> (int \<times> int \<times> int \<times> int) list" where
  "quads_upto lo hi = map (\<lambda>((w, x), (y, z)). (w, x, y, z)) (List.product (pairs_upto lo hi) (pairs_upto lo hi))"

definition the_book :: "HuffInfoData \<Rightarrow> htree" where
  "the_book info = (case book info of Some t \<Rightarrow> t | None \<Rightarrow> HLeaf 0)"

definition book_ok :: "HuffInfoData \<Rightarrow> (int \<Rightarrow> 'a) \<Rightarrow> 'a list \<Rightarrow> bool" where
  "book_ok info dec box =
     (case book info of None \<Rightarrow> False
      | Some t \<Rightarrow> depth t \<le> maxBits info \<and> length (leaves t) = length box
                  \<and> list_all (\<lambda>x. x \<in> set (map dec (leaves t))) box)"

text \<open>The code word a book gives a symbol.\<close>

definition book_encode :: "(int \<Rightarrow> 'a) \<Rightarrow> htree \<Rightarrow> 'a \<Rightarrow> bool list" where
  "book_encode dec t x =
     (case filter (\<lambda>(c, v). dec v = x) (tree_codes t) of [] \<Rightarrow> [] | (c, v) # _ \<Rightarrow> c)"

section \<open>Evaluation\<close>

lemmas decs = dec_quad_def dec_pair_def dec_esc_def GET_VALUE_def GET_QUAD_W_def GET_QUAD_X_def
  GET_QUAD_Y_def GET_QUAD_Z_def GET_PAIR_Y_def GET_PAIR_Z_def GET_ESC_Y_def GET_ESC_Z_def s32_def upto.simps

lemmas book_eval_full = book_ok_def book_def book_eval huffTabSpecInfo_def huffTabScaleInfo_def decs
  quads_upto_def pairs_upto_def

lemmas entries1 = subtabs [OF HufBook1_def, simplified book_eval scan.simps, simplified]
lemma book1: "book_ok (huffTabSpecInfo ! 0) dec_quad (quads_upto (- 1) 1)"
  by (simp add: book_eval_full entries1)

lemmas entries2 = subtabs [OF HufBook2_def, simplified book_eval scan.simps, simplified]
lemma book2: "book_ok (huffTabSpecInfo ! 1) dec_quad (quads_upto (- 1) 1)"
  by (simp add: book_eval_full entries2)

lemmas entries3 = subtabs [OF HufBook3_def, simplified book_eval scan.simps, simplified]
lemma book3: "book_ok (huffTabSpecInfo ! 2) dec_quad (quads_upto 0 2)"
  by (simp add: book_eval_full entries3)

lemmas entries4 = subtabs [OF HufBook4_def, simplified book_eval scan.simps, simplified]
lemma book4: "book_ok (huffTabSpecInfo ! 3) dec_quad (quads_upto 0 2)"
  by (simp add: book_eval_full entries4)

lemmas entries5 = subtabs [OF HufBook5_def, simplified book_eval scan.simps, simplified]
lemma book5: "book_ok (huffTabSpecInfo ! 4) dec_pair (pairs_upto (- 4) 4)"
  by (simp add: book_eval_full entries5)

lemmas entries6 = subtabs [OF HufBook6_def, simplified book_eval scan.simps, simplified]
lemma book6: "book_ok (huffTabSpecInfo ! 5) dec_pair (pairs_upto (- 4) 4)"
  by (simp add: book_eval_full entries6)

lemmas entries7 = subtabs [OF HufBook7_def, simplified book_eval scan.simps, simplified]
lemma book7: "book_ok (huffTabSpecInfo ! 6) dec_pair (pairs_upto 0 7)"
  by (simp add: book_eval_full entries7)

lemmas entries8 = subtabs [OF HufBook8_def, simplified book_eval scan.simps, simplified]
lemma book8: "book_ok (huffTabSpecInfo ! 7) dec_pair (pairs_upto 0 7)"
  by (simp add: book_eval_full entries8)

lemmas entries9 = subtabs [OF HufBook9_def, simplified book_eval scan.simps, simplified]
lemma book9: "book_ok (huffTabSpecInfo ! 8) dec_pair (pairs_upto 0 12)"
  by (simp add: book_eval_full entries9)

lemmas entries10 = subtabs [OF HufBook10_def, simplified book_eval scan.simps, simplified]
lemma book10: "book_ok (huffTabSpecInfo ! 9) dec_pair (pairs_upto 0 12)"
  by (simp add: book_eval_full entries10)

lemmas entries11 = subtabs [OF HufBook11_def, simplified book_eval scan.simps, simplified]
lemma book11: "book_ok (huffTabSpecInfo ! 10) dec_esc (pairs_upto 0 16)"
  by (simp add: book_eval_full entries11)

lemmas entries_scale = subtabs [OF HufTabScale_def, simplified book_eval scan.simps, simplified]
lemma book_scale: "book_ok huffTabScaleInfo GET_VALUE [- 60..60]"
  by (simp add: book_eval_full entries_scale)

lemma distinct_pairs_upto: "distinct (pairs_upto lo hi)"
  by (simp add: pairs_upto_def distinct_product)

lemma distinct_quads_upto: "distinct (quads_upto lo hi)"
  by (auto simp: quads_upto_def distinct_map inj_on_def distinct_product distinct_pairs_upto)

lemma set_pairs_upto: "set (pairs_upto lo hi) = {lo..hi} \<times> {lo..hi}"
  by (auto simp: pairs_upto_def)

lemma set_quads_upto: "set (quads_upto lo hi) = {lo..hi} \<times> {lo..hi} \<times> {lo..hi} \<times> {lo..hi}"
  by (force simp: quads_upto_def pairs_upto_def)

section \<open>What a good book gives\<close>

lemma book_okD:
  assumes "book_ok info dec box" "distinct box"
  shows "book info = Some (the_book info)" "depth (the_book info) \<le> maxBits info"
    "dec ` set (leaves (the_book info)) = set box" "distinct (map dec (leaves (the_book info)))"
proof -
  let ?t = "the_book info" let ?ds = "map dec (leaves ?t)"
  show b: "book info = Some ?t" "depth ?t \<le> maxBits info"
    using assms(1) by (auto simp: book_ok_def the_book_def split: option.splits)
  have l: "length ?ds = length box" "set box \<subseteq> set ?ds"
    using assms(1) b by (auto simp: book_ok_def list_all_iff)
  have "card (set box) = length ?ds" using assms(2) l(1) by (simp add: distinct_card)
  moreover have "card (set box) \<le> card (set ?ds)" using l(2) by (intro card_mono) auto
  moreover have "card (set ?ds) \<le> length ?ds" by (rule card_length)
  ultimately have c: "card (set ?ds) = length ?ds" "card (set box) = card (set ?ds)" by linarith+
  show "distinct ?ds" using c(1) by (rule card_distinct)
  have "set box = set ?ds" using l(2) c(2) by (intro card_subset_eq) auto
  then show "dec ` set (leaves ?t) = set box" by simp
qed

lemma book_encode_code:
  assumes "x \<in> dec ` set (leaves t)"
  shows "\<exists>v. (book_encode dec t x, v) \<in> set (tree_codes t) \<and> dec v = x"
proof -
  obtain v c where "(c, v) \<in> set (tree_codes t)" "dec v = x"
    using assms tree_code_ex by fastforce
  then have "filter (\<lambda>(c, v). dec v = x) (tree_codes t) \<noteq> []"
    by (auto simp: filter_empty_conv)
  then obtain c' v' rest where f: "filter (\<lambda>(c, v). dec v = x) (tree_codes t) = (c', v') # rest"
    by (metis neq_Nil_conv surj_pair)
  then have "(c', v') \<in> set (filter (\<lambda>(c, v). dec v = x) (tree_codes t))" by simp
  then have "(c', v') \<in> set (tree_codes t)" "dec v' = x" by auto
  with f show ?thesis by (auto simp: book_encode_def)
qed

lemma book_encode_length: "x \<in> dec ` set (leaves t) \<Longrightarrow> length (book_encode dec t x) \<le> depth t"
proof -
  assume "x \<in> dec ` set (leaves t)"
  from book_encode_code [OF this] obtain v where "(book_encode dec t x, v) \<in> set (tree_codes t)" by auto
  then show ?thesis by (rule tree_code_length)
qed

end
