(* ===== verification/Spectral.thy ===== *)
theory Spectral
  imports Codebooks AACTables
begin

unbundle bit_operations_syntax

text \<open>
  Spectral data, \<^verbatim>\<open>src/lc_huff.c\<close>: the five Huffman decoders of the code books 1 to 11 and the
  traversal of the scale factor bands. The coefficients of a channel are one list, a C pointer into
  it is an index.
\<close>

section \<open>One code word\<close>

definition signed_quad :: "HuffInfoData \<Rightarrow> BitStream \<Rightarrow> ((int \<times> int \<times> int \<times> int) \<times> BitStream) option" where
  "signed_quad info bs =
     do { (bitCache, nCodeBits, HufVal) \<leftarrow> huff_code info (maxBits info) bs;
          let nCodeBits = nCodeBits + GET_BITS HufVal;
          Some ((GET_QUAD_W HufVal, GET_QUAD_X HufVal, GET_QUAD_Y HufVal, GET_QUAD_Z HufVal),
                BitStreamSkip bs nCodeBits) }"

text \<open>\<open>if (v) { SET_SIGN(v, bitCache); bitCache <<= 1; nCodeBits++; }\<close>\<close>

definition take_sign :: "int \<Rightarrow> 32 word \<Rightarrow> int \<Rightarrow> int \<times> 32 word \<times> int" where
  "take_sign v bitCache nCodeBits =
     (if v \<noteq> 0 then (SET_SIGN v bitCache, shl32 bitCache 1, nCodeBits + 1) else (v, bitCache, nCodeBits))"

definition unsigned_quad :: "HuffInfoData \<Rightarrow> BitStream \<Rightarrow> ((int \<times> int \<times> int \<times> int) \<times> BitStream) option" where
  "unsigned_quad info bs =
     do { (bitCache, nCodeBits, HufVal) \<leftarrow> huff_code info (maxBits info + 4) bs;
          let nSkipBits = GET_BITS HufVal;
          let nCodeBits = nCodeBits + nSkipBits;
          let bitCache = shl32 bitCache nSkipBits;
          let (w, bitCache, nCodeBits) = take_sign (GET_QUAD_W HufVal) bitCache nCodeBits;
          let (x, bitCache, nCodeBits) = take_sign (GET_QUAD_X HufVal) bitCache nCodeBits;
          let (y, bitCache, nCodeBits) = take_sign (GET_QUAD_Y HufVal) bitCache nCodeBits;
          let (z, bitCache, nCodeBits) = take_sign (GET_QUAD_Z HufVal) bitCache nCodeBits;
          Some ((w, x, y, z), BitStreamSkip bs nCodeBits) }"

definition signed_pair :: "HuffInfoData \<Rightarrow> BitStream \<Rightarrow> ((int \<times> int) \<times> BitStream) option" where
  "signed_pair info bs =
     do { (bitCache, nCodeBits, HufVal) \<leftarrow> huff_code info (maxBits info) bs;
          let nCodeBits = nCodeBits + GET_BITS HufVal;
          Some ((GET_PAIR_Y HufVal, GET_PAIR_Z HufVal), BitStreamSkip bs nCodeBits) }"

definition unsigned_pair :: "HuffInfoData \<Rightarrow> BitStream \<Rightarrow> ((int \<times> int) \<times> BitStream) option" where
  "unsigned_pair info bs =
     do { (bitCache, nCodeBits, HufVal) \<leftarrow> huff_code info (maxBits info + 2) bs;
          let nSkipBits = GET_BITS HufVal;
          let nCodeBits = nCodeBits + nSkipBits;
          let bitCache = shl32 bitCache nSkipBits;
          let (y, bitCache, nCodeBits) = take_sign (GET_PAIR_Y HufVal) bitCache nCodeBits;
          let (z, bitCache, nCodeBits) = take_sign (GET_PAIR_Z HufVal) bitCache nCodeBits;
          Some ((y, z), BitStreamSkip bs nCodeBits) }"

text \<open>\<open>n = 4; while (BitStreamGetBits(bs, 1) == 1) n++;\<close>\<close>

partial_function (option) esc_prefix :: "BitStream \<Rightarrow> int \<Rightarrow> (int \<times> BitStream) option" where
  "esc_prefix bs n =
     (let (b, bs) = BitStreamGetBits bs 1 in
      if b = 1 then esc_prefix bs (n + 1) else Some (n, bs))"

definition escape :: "int \<Rightarrow> BitStream \<Rightarrow> (int \<times> BitStream) option" where
  "escape y bs =
     (if y = 16 then
        do { (n, bs) \<leftarrow> esc_prefix bs 4;
             let (v, bs) = BitStreamGetBits bs (nat n);
             Some (s32 (uint (shl32 1 n) + v), bs) }
      else Some (y, bs))"

definition esc_pair :: "HuffInfoData \<Rightarrow> BitStream \<Rightarrow> ((int \<times> int) \<times> BitStream) option" where
  "esc_pair info bs =
     do { (bitCache, nCodeBits, HufVal) \<leftarrow> huff_code info (maxBits info + 2) bs;
          let nSkipBits = GET_BITS HufVal;
          let nCodeBits = nCodeBits + nSkipBits;
          let bitCache = shl32 bitCache nSkipBits;
          let y = GET_ESC_Y HufVal;
          let z = GET_ESC_Z HufVal;
          let nCodeBits = (if y \<noteq> 0 then nCodeBits + 1 else nCodeBits);
          let nCodeBits = (if z \<noteq> 0 then nCodeBits + 1 else nCodeBits);
          let bs = BitStreamSkip bs nCodeBits;
          (y, bs) \<leftarrow> escape y bs;
          (z, bs) \<leftarrow> escape z bs;
          let (y, bitCache) = (if y \<noteq> 0 then (SET_SIGN y bitCache, shl32 bitCache 1) else (y, bitCache));
          let (z, bitCache) = (if z \<noteq> 0 then (SET_SIGN z bitCache, shl32 bitCache 1) else (z, bitCache));
          Some ((y, z), bs) }"

section \<open>The decoders\<close>

text \<open>
  \<open>while (nSpec > 0) { ...; *coef++ = w; *coef++ = x; *coef++ = y; *coef++ = z; nSpec -= 4; }\<close> around
  the decoding of one code word, and the same for pairs.
\<close>

function quad_loop :: "(BitStream \<Rightarrow> ((int \<times> int \<times> int \<times> int) \<times> BitStream) option) \<Rightarrow>
    BitStream \<Rightarrow> int \<Rightarrow> int list \<Rightarrow> int \<Rightarrow> (int \<times> BitStream \<times> int list) option" where
  "quad_loop step bs nSpec coef p =
     (if nSpec > 0 then
        do { ((w, x, y, z), bs) \<leftarrow> step bs;
             coef \<leftarrow> wr coef p w;
             coef \<leftarrow> wr coef (p + 1) x;
             coef \<leftarrow> wr coef (p + 2) y;
             coef \<leftarrow> wr coef (p + 3) z;
             quad_loop step bs (nSpec - 4) coef (p + 4) }
      else Some (0, bs, coef))"
  by pat_completeness auto
termination by (relation "measure (\<lambda>(_, _, nSpec, _, _). nat nSpec)") auto

function pair_loop :: "(BitStream \<Rightarrow> ((int \<times> int) \<times> BitStream) option) \<Rightarrow>
    BitStream \<Rightarrow> int \<Rightarrow> int list \<Rightarrow> int \<Rightarrow> (int \<times> BitStream \<times> int list) option" where
  "pair_loop step bs nSpec coef p =
     (if nSpec > 0 then
        do { ((y, z), bs) \<leftarrow> step bs;
             coef \<leftarrow> wr coef p y;
             coef \<leftarrow> wr coef (p + 1) z;
             pair_loop step bs (nSpec - 2) coef (p + 2) }
      else Some (0, bs, coef))"
  by pat_completeness auto
termination by (relation "measure (\<lambda>(_, _, nSpec, _, _). nat nSpec)") auto

declare quad_loop.simps [simp del] pair_loop.simps [simp del]

definition HuffmanSignedQuads where
  "HuffmanSignedQuads bs cb nSpec coef p =
     do { huffInfo \<leftarrow> rd huffTabSpecInfo (cb - 1); quad_loop (signed_quad huffInfo) bs nSpec coef p }"

definition HuffmanUnSignedQuads where
  "HuffmanUnSignedQuads bs cb nSpec coef p =
     do { huffInfo \<leftarrow> rd huffTabSpecInfo (cb - 1); quad_loop (unsigned_quad huffInfo) bs nSpec coef p }"

definition HuffmanSignedPairs where
  "HuffmanSignedPairs bs cb nSpec coef p =
     do { huffInfo \<leftarrow> rd huffTabSpecInfo (cb - 1); pair_loop (signed_pair huffInfo) bs nSpec coef p }"

definition HuffmanUnSignedPairs where
  "HuffmanUnSignedPairs bs cb nSpec coef p =
     do { huffInfo \<leftarrow> rd huffTabSpecInfo (cb - 1); pair_loop (unsigned_pair huffInfo) bs nSpec coef p }"

definition HuffmanEscPairs where
  "HuffmanEscPairs bs cb nSpec coef p =
     do { huffInfo \<leftarrow> rd huffTabSpecInfo (cb - 1); pair_loop (esc_pair huffInfo) bs nSpec coef p }"

function SetZeros :: "int \<Rightarrow> int list \<Rightarrow> int \<Rightarrow> (int \<times> int list) option" where
  "SetZeros nSpec coef p =
     (if nSpec > 0 then
        do { coef \<leftarrow> wr coef p 0;
             coef \<leftarrow> wr coef (p + 1) 0;
             coef \<leftarrow> wr coef (p + 2) 0;
             coef \<leftarrow> wr coef (p + 3) 0;
             SetZeros (nSpec - 4) coef (p + 4) }
      else Some (0, coef))"
  by pat_completeness auto
termination by (relation "measure (\<lambda>(nSpec, _, _). nat nSpec)") auto

declare SetZeros.simps [simp del]

text \<open>The \<open>switch (cb)\<close> of \<open>spectral_data\<close>.\<close>

definition spectral_band :: "int \<Rightarrow> BitStream \<Rightarrow> int \<Rightarrow> int list \<Rightarrow> int \<Rightarrow> (int \<times> BitStream \<times> int list) option" where
  "spectral_band cb bs numsfb coef p =
     (if cb = 1 \<or> cb = 2 then HuffmanSignedQuads bs cb numsfb coef p
      else if cb = 3 \<or> cb = 4 then HuffmanUnSignedQuads bs cb numsfb coef p
      else if cb = 5 \<or> cb = 6 then HuffmanSignedPairs bs cb numsfb coef p
      else if cb = 7 \<or> cb = 8 \<or> cb = 9 \<or> cb = 10 then HuffmanUnSignedPairs bs cb numsfb coef p
      else if cb = 11 then HuffmanEscPairs bs cb numsfb coef p
      else do { (ret, coef) \<leftarrow> SetZeros numsfb coef p; Some (ret, bs, coef) })"

section \<open>The bands of a channel\<close>

text \<open>Long windows: the loop over the bands, the pulses.\<close>

function long_bands :: "int \<Rightarrow> int \<Rightarrow> int list \<Rightarrow> int \<Rightarrow> BitStream \<Rightarrow> int list \<Rightarrow> int \<Rightarrow>
    (int \<times> BitStream \<times> int list \<times> int) option" where
  "long_bands off msfb sfb_cb sfb bs coef spec =
     (if sfb < msfb then
        do { o1 \<leftarrow> rd sfBandTabLong (off + (sfb + 1));
             o0 \<leftarrow> rd sfBandTabLong (off + sfb);
             let numsfb = o1 - o0;
             cb \<leftarrow> rd sfb_cb sfb;
             (ret, bs, coef) \<leftarrow> spectral_band cb bs numsfb coef spec;
             if ret \<noteq> 0 then Some (- 1, bs, coef, spec)
             else long_bands off msfb sfb_cb (sfb + 1) bs coef (spec + numsfb) }
      else Some (0, bs, coef, spec))"
  by pat_completeness auto
termination by (relation "measure (\<lambda>(_, msfb, _, sfb, _, _, _). nat (msfb - sfb))") auto

declare long_bands.simps [simp del]

text \<open>\<open>for (i = 0; i < number_pulse; i++)\<close>; the first argument counts the iterations left.\<close>

fun add_pulses :: "nat \<Rightarrow> Pulse_Data \<Rightarrow> int \<Rightarrow> int \<Rightarrow> int list \<Rightarrow> (int \<times> int list) option" where
  "add_pulses 0 pulse i offset spec = Some (0, spec)"
| "add_pulses (Suc k) pulse i offset spec =
     do { po \<leftarrow> rd (pulse_offset pulse) i;
          let offset = offset + po;
          if offset \<ge> SIZE_LONG_WIN then Some (TT_AACDEC_ERR_AAC_INVSTREAM, spec)
          else do { v \<leftarrow> rd spec offset;
                    a \<leftarrow> rd (pulse_amp pulse) i;
                    spec \<leftarrow> wr spec offset (if v > 0 then v + a else v - a);
                    add_pulses k pulse (i + 1) offset spec } }"

definition spectral_long :: "int \<Rightarrow> ICS_Data \<Rightarrow> int list \<Rightarrow> int \<Rightarrow> Pulse_Data \<Rightarrow> BitStream \<Rightarrow> int list \<Rightarrow>
    (int \<times> BitStream \<times> int list) option" where
  "spectral_long sampRateIdx ics sfb_cb pulse_data_present pulse bs coef =
     do { off \<leftarrow> rd sfBandTabLongOffset sampRateIdx;
          (ret, bs, coef, spec) \<leftarrow> long_bands off (max_sfb ics) sfb_cb 0 bs coef 0;
          if ret \<noteq> 0 then Some (- 1, bs, coef)
          else do {
            top0 \<leftarrow> rd sfBandTabLong (off + max 0 (max_sfb ics));
            (_, coef) \<leftarrow> SetZeros (SIZE_LONG_WIN - top0) coef spec;
            if pulse_data_present \<noteq> 0 then
              do { offset \<leftarrow> rd sfBandTabLong (off + pulse_start_sfb pulse);
                   (ret, coef) \<leftarrow> add_pulses (nat (number_pulse pulse + 1)) pulse 0 offset coef;
                   Some (ret, bs, coef) }
            else Some (0, bs, coef) } }"

text \<open>Short windows: the windows of a group, the bands, the zeros above them, the groups.\<close>

function short_windows :: "int \<Rightarrow> int \<Rightarrow> int \<Rightarrow> int \<Rightarrow> BitStream \<Rightarrow> int list \<Rightarrow> int \<Rightarrow>
    (int \<times> BitStream \<times> int list) option" where
  "short_windows cb numsfb wgl w bs coef pos =
     (if w < wgl then
        do { (ret, bs, coef) \<leftarrow> spectral_band cb bs numsfb coef pos;
             if ret \<noteq> 0 then Some (- 1, bs, coef)
             else short_windows cb numsfb wgl (w + 1) bs coef (pos + SIZE_SHORT_WIN) }
      else Some (0, bs, coef))"
  by pat_completeness auto
termination by (relation "measure (\<lambda>(_, _, wgl, w, _, _, _). nat (wgl - w))") auto

function short_bands :: "int \<Rightarrow> int \<Rightarrow> int \<Rightarrow> int list \<Rightarrow> int \<Rightarrow> int \<Rightarrow> BitStream \<Rightarrow> int list \<Rightarrow> int \<Rightarrow>
    (int \<times> BitStream \<times> int list \<times> int \<times> int) option" where
  "short_bands off msfb wgl sfb_cb ci sfb bs coef spec =
     (if sfb < msfb then
        do { o1 \<leftarrow> rd sfBandTabShort (off + (sfb + 1));
             o0 \<leftarrow> rd sfBandTabShort (off + sfb);
             let numsfb = o1 - o0;
             cb \<leftarrow> rd sfb_cb ci;
             (ret, bs, coef) \<leftarrow> short_windows cb numsfb wgl 0 bs coef spec;
             if ret \<noteq> 0 then Some (- 1, bs, coef, spec, ci + 1)
             else short_bands off msfb wgl sfb_cb (ci + 1) (sfb + 1) bs coef (spec + numsfb) }
      else Some (0, bs, coef, spec, ci))"
  by pat_completeness auto
termination by (relation "measure (\<lambda>(_, msfb, _, _, _, sfb, _, _, _). nat (msfb - sfb))") auto

function zero_windows :: "int \<Rightarrow> int \<Rightarrow> int \<Rightarrow> int list \<Rightarrow> int \<Rightarrow> int list option" where
  "zero_windows numsfb wgl w coef pos =
     (if w < wgl then
        do { (_, coef) \<leftarrow> SetZeros numsfb coef (pos + w * SIZE_SHORT_WIN);
             zero_windows numsfb wgl (w + 1) coef pos }
      else Some coef)"
  by pat_completeness auto
termination by (relation "measure (\<lambda>(_, wgl, w, _, _). nat (wgl - w))") auto

function short_groups :: "int \<Rightarrow> ICS_Data \<Rightarrow> int list \<Rightarrow> int \<Rightarrow> int \<Rightarrow> BitStream \<Rightarrow> int list \<Rightarrow> int \<Rightarrow>
    (int \<times> BitStream \<times> int list) option" where
  "short_groups off ics sfb_cb g ci bs coef spec =
     (if g < num_window_groups ics then
        do { wgl \<leftarrow> rd (window_group_length ics) g;
             (ret, bs, coef, spec, ci) \<leftarrow> short_bands off (max_sfb ics) wgl sfb_cb ci 0 bs coef spec;
             if ret \<noteq> 0 then Some (- 1, bs, coef)
             else do {
               top0 \<leftarrow> rd sfBandTabShort (off + max 0 (max_sfb ics));
               coef \<leftarrow> zero_windows (SIZE_SHORT_WIN - top0) wgl 0 coef spec;
               short_groups off ics sfb_cb (g + 1) ci bs coef
                 (spec + (SIZE_SHORT_WIN - top0) + (wgl - 1) * SIZE_SHORT_WIN) } }
      else Some (0, bs, coef))"
  by pat_completeness auto
termination by (relation "measure (\<lambda>(_, ics, _, g, _, _, _, _). nat (num_window_groups ics - g))") auto

declare short_windows.simps [simp del] short_bands.simps [simp del] zero_windows.simps [simp del]
  short_groups.simps [simp del]

definition spectral_data :: "int \<Rightarrow> ICS_Data \<Rightarrow> int list \<Rightarrow> int \<Rightarrow> Pulse_Data \<Rightarrow> BitStream \<Rightarrow> int list \<Rightarrow>
    (int \<times> BitStream \<times> int list) option" where
  "spectral_data sampRateIdx ics sfb_cb pulse_data_present pulse bs coef =
     (if window_sequence ics \<noteq> EIGHT_SHORT_SEQUENCE
      then spectral_long sampRateIdx ics sfb_cb pulse_data_present pulse bs coef
      else do { off \<leftarrow> rd sfBandTabShortOffset sampRateIdx;
                short_groups off ics sfb_cb 0 0 bs coef 0 })"

section \<open>The loops as runs of steps\<close>

fun run :: "('s \<Rightarrow> ('v \<times> 's) option) \<Rightarrow> nat \<Rightarrow> 's \<Rightarrow> ('v list \<times> 's) option" where
  "run step 0 s = Some ([], s)"
| "run step (Suc k) s =
     do { (v, s) \<leftarrow> step s; (vs, s) \<leftarrow> run step k s; Some (v # vs, s) }"

lemma run_length: "run step k s = Some (vs, s') \<Longrightarrow> length vs = k"
  by (induction k arbitrary: s vs) (auto split: Option.bind_splits)

lemma run_total: "(\<And>s. step s \<noteq> None) \<Longrightarrow> \<exists>vs s'. run step k s = Some (vs, s')"
proof (induction k arbitrary: s)
  case (Suc k)
  obtain v s1 where "step s = Some (v, s1)" using Suc.prems [of s] by auto
  with Suc.IH [OF Suc.prems, of s1] show ?case by auto
qed simp

definition quad_list :: "int \<times> int \<times> int \<times> int \<Rightarrow> int list" where
  "quad_list = (\<lambda>(w, x, y, z). [w, x, y, z])"

definition pair_list :: "int \<times> int \<Rightarrow> int list" where
  "pair_list = (\<lambda>(y, z). [y, z])"

lemma length_quad_lists [simp]: "length (concat (map quad_list vs)) = 4 * length vs"
  by (induction vs) (auto simp: quad_list_def)

lemma length_pair_lists [simp]: "length (concat (map pair_list vs)) = 2 * length vs"
  by (induction vs) (auto simp: pair_list_def)

lemma quad_loop_run:
  "0 \<le> p \<Longrightarrow> p + 4 * int k \<le> int (length coef) \<Longrightarrow>
   quad_loop step s (4 * int k) coef p =
     map_option (\<lambda>(vs, s'). (0, s', overwrite coef p (concat (map quad_list vs)))) (run step k s)"
proof (induction k arbitrary: s coef p)
  case 0
  then show ?case by (simp add: quad_loop.simps)
next
  case (Suc k)
  show ?case
  proof (cases "step s")
    case None
    with Suc.prems show ?thesis by (subst quad_loop.simps) simp
  next
    case (Some r)
    then obtain w x y z s1 where r: "step s = Some ((w, x, y, z), s1)" by (cases r) auto
    let ?c = "coef[nat p := w, nat (p + 1) := x, nat (p + 2) := y, nat (p + 3) := z]"
    have "4 * int (Suc k) - 4 = 4 * int k" by simp
    with Suc.prems r have "quad_loop step s (4 * int (Suc k)) coef p = quad_loop step s1 (4 * int k) ?c (p + 4)"
      by (subst quad_loop.simps) (simp add: wr_Some)
    also have "\<dots> = map_option (\<lambda>(vs, s'). (0, s', overwrite ?c (p + 4) (concat (map quad_list vs)))) (run step k s1)"
      using Suc.prems by (intro Suc.IH) auto
    also have "\<dots> = map_option (\<lambda>(vs, s'). (0, s', overwrite coef p (concat (map quad_list vs)))) (run step (Suc k) s)"
    proof (cases "run step k s1")
      case (Some q)
      obtain vs s' where q: "q = (vs, s')" by (cases q)
      have len: "length vs = k" using Some q run_length [of step k s1] by simp
      let ?us = "concat (map quad_list vs)"
      have l: "length ?us = 4 * k" using len by simp
      have "overwrite ?c (p + 4) ?us = overwrite coef p ([w, x, y, z] @ ?us)"
        using overwrite_updates(2) [of p coef] overwrite_append [of p "[w, x, y, z]" ?us coef] Suc.prems l by simp
      then show ?thesis using r Some q by (simp add: quad_list_def)
    qed (use r in simp)
    finally show ?thesis .
  qed
qed

lemma pair_loop_run:
  "0 \<le> p \<Longrightarrow> p + 2 * int k \<le> int (length coef) \<Longrightarrow>
   pair_loop step s (2 * int k) coef p =
     map_option (\<lambda>(vs, s'). (0, s', overwrite coef p (concat (map pair_list vs)))) (run step k s)"
proof (induction k arbitrary: s coef p)
  case 0
  then show ?case by (simp add: pair_loop.simps)
next
  case (Suc k)
  show ?case
  proof (cases "step s")
    case None
    with Suc.prems show ?thesis by (subst pair_loop.simps) simp
  next
    case (Some r)
    then obtain y z s1 where r: "step s = Some ((y, z), s1)" by (cases r) auto
    let ?c = "coef[nat p := y, nat (p + 1) := z]"
    have "2 * int (Suc k) - 2 = 2 * int k" by simp
    with Suc.prems r have "pair_loop step s (2 * int (Suc k)) coef p = pair_loop step s1 (2 * int k) ?c (p + 2)"
      by (subst pair_loop.simps) (simp add: wr_Some)
    also have "\<dots> = map_option (\<lambda>(vs, s'). (0, s', overwrite ?c (p + 2) (concat (map pair_list vs)))) (run step k s1)"
      using Suc.prems by (intro Suc.IH) auto
    also have "\<dots> = map_option (\<lambda>(vs, s'). (0, s', overwrite coef p (concat (map pair_list vs)))) (run step (Suc k) s)"
    proof (cases "run step k s1")
      case (Some q)
      obtain vs s' where q: "q = (vs, s')" by (cases q)
      have len: "length vs = k" using Some q run_length [of step k s1] by simp
      let ?us = "concat (map pair_list vs)"
      have l: "length ?us = 2 * k" using len by simp
      have "overwrite ?c (p + 2) ?us = overwrite coef p ([y, z] @ ?us)"
        using overwrite_updates(1) [of p coef] overwrite_append [of p "[y, z]" ?us coef] Suc.prems l by simp
      then show ?thesis using r Some q by (simp add: pair_list_def)
    qed (use r in simp)
    finally show ?thesis .
  qed
qed

lemma SetZeros_run:
  "0 \<le> p \<Longrightarrow> p + 4 * int k \<le> int (length coef) \<Longrightarrow>
   SetZeros (4 * int k) coef p = Some (0, overwrite coef p (replicate (4 * k) 0))"
proof -
  assume p: "0 \<le> p" "p + 4 * int k \<le> int (length coef)"
  have eq: "SetZeros n c p = map_option (\<lambda>(ret, _, c). (ret, c)) (quad_loop (\<lambda>bs. Some ((0, 0, 0, 0), bs)) s n c p)" for n c p s
  proof (induction n c p rule: SetZeros.induct)
    case (1 n c p)
    show ?case
    proof (cases "n > 0")
      case True
      show ?thesis
        by (subst SetZeros.simps, subst quad_loop.simps) (auto simp: True "1.IH" split: Option.bind_splits)
    qed (simp add: SetZeros.simps quad_loop.simps)
  qed
  have r: "run (\<lambda>bs :: BitStream. Some ((0 :: int, 0 :: int, 0 :: int, 0 :: int), bs)) k s
      = Some (replicate k (0, 0, 0, 0), s)" for s
    by (induction k) auto
  have z: "concat (replicate k (quad_list (0, 0, 0, 0))) = replicate (4 * k) 0"
    by (induction k) (auto simp: quad_list_def numeral_eq_Suc)
  show ?thesis
    using quad_loop_run [OF p, of "\<lambda>bs. Some ((0, 0, 0, 0), bs)"] by (subst eq) (simp only: r option.map prod.case map_replicate z)
qed

section \<open>Every code word is decoded\<close>

text \<open>Whatever the state of the bit reader, the table walk stays in the table and ends.\<close>

lemma huff_code_total:
  "book info = Some t \<Longrightarrow> \<exists>c k v. huff_code info n s = Some (c, k, v) \<and> v \<in> set (leaves t)"
proof -
  assume b: "book info = Some t"
  let ?w = "shl32 (BitStreamShowBits s n) (32 - int n)"
  from book_walk [OF b [unfolded book_def], of 0 ?w] tree_walk_leaf [of t "wbits ?w"] show ?thesis
    by (auto simp: huff_code_def Let_def)
qed

lemma wf_bit_source: "wf (measures [\<lambda>s. nat (nBytes s), \<lambda>s. if iCache s = 0 \<and> nBytes s \<le> 0 then 0 else Suc (nat (cachedBits s))])"
  by (rule wf_measures)

lemma get_bit_down:
  assumes "fst (BitStreamGetBits s 1) = 1"
  shows "(snd (BitStreamGetBits s 1), s) \<in> measures [\<lambda>s. nat (nBytes s),
    \<lambda>s. if iCache s = 0 \<and> nBytes s \<le> 0 then 0 else Suc (nat (cachedBits s))]"
proof (cases "cachedBits s - 1 < 0")
  case False
  have "iCache s \<noteq> 0"
  proof
    assume "iCache s = 0"
    with assms False show False by (simp add: BitStreamGetBits_def Let_def)
  qed
  with False show ?thesis by (auto simp: BitStreamGetBits_def Let_def)
next
  case True
  show ?thesis
  proof (cases "nBytes s \<le> 0")
    case dry: True
    have "iCache s \<noteq> 0"
    proof
      assume "iCache s = 0"
      with assms True dry show False by (simp add: BitStreamGetBits_def RefillBitstreamCache_def Let_def)
    qed
    with True dry show ?thesis by (simp add: BitStreamGetBits_def RefillBitstreamCache_def Let_def)
  next
    case False
    with True show ?thesis
      by (auto simp: BitStreamGetBits_def RefillBitstreamCache_def Let_def split: prod.splits)
  qed
qed

lemma esc_prefix_total: "\<exists>n' s'. esc_prefix s n = Some (n', s') \<and> n \<le> n'"
proof (induction s arbitrary: n rule: wf_induct_rule [OF wf_bit_source])
  case (1 s)
  show ?case
  proof (cases "fst (BitStreamGetBits s 1) = 1")
    case True
    from 1 [OF get_bit_down [OF True], of "n + 1"] True show ?thesis
      by (subst esc_prefix.simps) (auto simp: Let_def split_beta)
  next
    case False
    then show ?thesis by (subst esc_prefix.simps) (auto simp: Let_def split_beta)
  qed
qed

lemma escape_total [simp]: "escape y s \<noteq> None"
  using esc_prefix_total [of s 4] by (auto simp: escape_def split_beta)

lemma spec_books:
  assumes "1 \<le> cb" "cb \<le> 11"
  shows "rd huffTabSpecInfo (cb - 1) = Some (huffTabSpecInfo ! nat (cb - 1))"
    "book (huffTabSpecInfo ! nat (cb - 1)) = Some (the_book (huffTabSpecInfo ! nat (cb - 1)))"
proof -
  show "rd huffTabSpecInfo (cb - 1) = Some (huffTabSpecInfo ! nat (cb - 1))"
    using assms by (intro rd_Some) (auto simp: huffTabSpecInfo_def)
  have "cb = 1 \<or> cb = 2 \<or> cb = 3 \<or> cb = 4 \<or> cb = 5 \<or> cb = 6 \<or> cb = 7 \<or> cb = 8 \<or> cb = 9 \<or> cb = 10 \<or> cb = 11"
    using assms by presburger
  then show "book (huffTabSpecInfo ! nat (cb - 1)) = Some (the_book (huffTabSpecInfo ! nat (cb - 1)))"
    by (elim disjE) (simp_all add:
      book_okD(1) [OF book1 distinct_quads_upto] book_okD(1) [OF book2 [unfolded One_nat_def] distinct_quads_upto]
      book_okD(1) [OF book3 distinct_quads_upto] book_okD(1) [OF book4 distinct_quads_upto]
      book_okD(1) [OF book5 distinct_pairs_upto] book_okD(1) [OF book6 distinct_pairs_upto]
      book_okD(1) [OF book7 distinct_pairs_upto] book_okD(1) [OF book8 distinct_pairs_upto]
      book_okD(1) [OF book9 distinct_pairs_upto] book_okD(1) [OF book10 distinct_pairs_upto]
      book_okD(1) [OF book11 distinct_pairs_upto])
qed

lemma steps_total:
  assumes "book info = Some t"
  shows "signed_quad info s \<noteq> None" "unsigned_quad info s \<noteq> None"
    "signed_pair info s \<noteq> None" "unsigned_pair info s \<noteq> None" "esc_pair info s \<noteq> None"
proof -
  note h = huff_code_total [OF assms]
  show "signed_quad info s \<noteq> None" "signed_pair info s \<noteq> None"
    using h [of "maxBits info" s] by (auto simp: signed_quad_def signed_pair_def)
  show "unsigned_quad info s \<noteq> None"
    using h [of "maxBits info + 4" s] by (auto simp: unsigned_quad_def split_beta Let_def)
  show "unsigned_pair info s \<noteq> None"
    using h [of "maxBits info + 2" s] by (auto simp: unsigned_pair_def split_beta Let_def)
  obtain c k v where hv: "huff_code info (Suc (Suc (maxBits info))) s = Some (c, k, v)"
    using h [of "Suc (Suc (maxBits info))" s] by blast
  show "esc_pair info s \<noteq> None"
    by (auto simp: esc_pair_def hv Let_def split_beta split: Option.bind_splits)
qed

section \<open>Bands\<close>

text \<open>The values a band of \<open>n\<close> coefficients gets, read from the stream.\<close>

definition quads_of where
  "quads_of step n s = map_option (\<lambda>(vs, s'). (concat (map quad_list vs), s')) (run step (n div 4) s)"

definition pairs_of where
  "pairs_of step n s = map_option (\<lambda>(vs, s'). (concat (map pair_list vs), s')) (run step (n div 2) s)"

definition band_vals :: "int \<Rightarrow> nat \<Rightarrow> BitStream \<Rightarrow> (int list \<times> BitStream) option" where
  "band_vals cb n s =
     (let info = huffTabSpecInfo ! nat (cb - 1) in
      if cb = 1 \<or> cb = 2 then quads_of (signed_quad info) n s
      else if cb = 3 \<or> cb = 4 then quads_of (unsigned_quad info) n s
      else if cb = 5 \<or> cb = 6 then pairs_of (signed_pair info) n s
      else if cb = 7 \<or> cb = 8 \<or> cb = 9 \<or> cb = 10 then pairs_of (unsigned_pair info) n s
      else if cb = 11 then pairs_of (esc_pair info) n s
      else Some (replicate n 0, s))"

lemma spectral_band_vals:
  assumes "0 \<le> p" "n mod 4 = 0" "p + int n \<le> int (length coef)"
  shows "spectral_band cb s (int n) coef p
     = map_option (\<lambda>(vs, s'). (0, s', overwrite coef p vs)) (band_vals cb n s)"
proof -
  have n4: "int n = 4 * int (n div 4)" "int n = 2 * int (n div 2)" using assms(2) by presburger+
  have q: "quad_loop step s (int n) coef p = map_option (\<lambda>(vs, s'). (0, s', overwrite coef p vs)) (quads_of step n s)" for step
    using assms n4(1) quad_loop_run [of p "n div 4" coef step s]
    by (cases "run step (n div 4) s") (auto simp: quads_of_def)
  have r: "pair_loop step s (int n) coef p = map_option (\<lambda>(vs, s'). (0, s', overwrite coef p vs)) (pairs_of step n s)" for step
    using assms n4(2) pair_loop_run [of p "n div 2" coef step s]
    by (cases "run step (n div 2) s") (auto simp: pairs_of_def)
  have z: "SetZeros (int n) coef p = Some (0, overwrite coef p (replicate n 0))"
  proof -
    have k: "4 * (n div 4) = n" "4 * int (n div 4) = int n" using assms(2) by presburger+
    show ?thesis using SetZeros_run [of p "n div 4" coef] assms(1,3) unfolding k by simp
  qed
  show ?thesis
  proof (cases "1 \<le> cb \<and> cb \<le> 11")
    case True
    show ?thesis
      unfolding spectral_band_def band_vals_def HuffmanSignedQuads_def HuffmanUnSignedQuads_def
        HuffmanSignedPairs_def HuffmanUnSignedPairs_def HuffmanEscPairs_def Let_def q r z
        spec_books(1) [OF conjunct1 [OF True] conjunct2 [OF True]] by simp
  next
    case False
    then show ?thesis by (auto simp: spectral_band_def band_vals_def z)
  qed
qed

lemma quads_of_total:
  assumes "\<And>s. step s \<noteq> None" "n mod 4 = 0"
  shows "\<exists>vs s'. quads_of step n s = Some (vs, s') \<and> length vs = n"
proof -
  note n = assms(2)
  from run_total [of step, OF assms(1)] obtain vs s' where r: "run step (n div 4) s = Some (vs, s')" by blast
  with run_length [OF r] n show ?thesis by (auto simp: quads_of_def)
qed

lemma pairs_of_total:
  assumes "\<And>s. step s \<noteq> None" "n mod 4 = 0"
  shows "\<exists>vs s'. pairs_of step n s = Some (vs, s') \<and> length vs = n"
proof -
  note n = assms(2)
  from run_total [of step, OF assms(1)] obtain vs s' where r: "run step (n div 2) s = Some (vs, s')" by blast
  moreover have "2 * (n div 2) = n" using n by presburger
  ultimately show ?thesis using run_length [OF r] by (auto simp: pairs_of_def)
qed

lemma band_vals_total:
  assumes "n mod 4 = 0"
  shows "\<exists>vs s'. band_vals cb n s = Some (vs, s') \<and> length vs = n"
proof (cases "1 \<le> cb \<and> cb \<le> 11")
  case True
  let ?info = "huffTabSpecInfo ! nat (cb - 1)"
  note t = steps_total [OF spec_books(2) [OF conjunct1 [OF True] conjunct2 [OF True]]]
  note q = quads_of_total [of "signed_quad ?info", OF t(1) assms, of s] quads_of_total [of "unsigned_quad ?info", OF t(2) assms, of s]
    pairs_of_total [of "signed_pair ?info", OF t(3) assms, of s] pairs_of_total [of "unsigned_pair ?info", OF t(4) assms, of s] pairs_of_total [of "esc_pair ?info", OF t(5) assms, of s]
  define Q where "Q r \<longleftrightarrow> (\<exists>vs s'. r = Some (vs, s') \<and> length vs = n)" for r :: "(int list \<times> BitStream) option"
  have z: "Q (Some (replicate n 0, s))" by (simp add: Q_def)
  have "Q (band_vals cb n s)"
    unfolding band_vals_def Let_def by (simp only: q [folded Q_def] z simp_thms split: if_split)
  then show ?thesis by (simp add: Q_def)
next
  case False
  then show ?thesis by (auto simp: band_vals_def)
qed

lemma spectral_band_total:
  assumes "0 \<le> p" "0 \<le> n" "n mod 4 = 0" "p + n \<le> int (length coef)"
  shows "\<exists>s' vs. spectral_band cb s n coef p = Some (0, s', overwrite coef p vs) \<and> int (length vs) = n"
proof -
  have "nat n mod 4 = 0" using assms by presburger
  from band_vals_total [OF this, of cb s] obtain vs s' where "band_vals cb (nat n) s = Some (vs, s')" "length vs = nat n" by blast
  with spectral_band_vals [OF assms(1) \<open>nat n mod 4 = 0\<close>, of coef cb s] assms show ?thesis by auto
qed

section \<open>Long windows\<close>

fun bands_run :: "(int \<times> nat) list \<Rightarrow> BitStream \<Rightarrow> (int list \<times> BitStream) option" where
  "bands_run [] s = Some ([], s)"
| "bands_run ((cb, n) # bs) s =
     do { (vs, s) \<leftarrow> band_vals cb n s; (us, s) \<leftarrow> bands_run bs s; Some (vs @ us, s) }"

lemma bands_run_total:
  "list_all (\<lambda>(cb, n). n mod 4 = 0) bs \<Longrightarrow>
   \<exists>vs s'. bands_run bs s = Some (vs, s') \<and> length vs = sum_list (map snd bs)"
proof (induction bs s rule: bands_run.induct)
  case (2 cb n bs s)
  obtain vs s1 where v: "band_vals cb n s = Some (vs, s1)" "length vs = n"
    using band_vals_total [of n cb s] "2.prems" by auto
  with "2.IH" [of "(vs, s1)" vs s1] "2.prems" show ?case by auto
qed simp

text \<open>The bands of a long window from \<open>sfb\<close> on: code book and width.\<close>

definition band_list :: "int list \<Rightarrow> int \<Rightarrow> int list \<Rightarrow> nat \<Rightarrow> nat \<Rightarrow> (int \<times> nat) list" where
  "band_list tab off cbs sfb k =
     map (\<lambda>i. (cbs ! i, nat (offs tab off (int i + 1) - offs tab off (int i)))) [sfb..<k]"

lemma nat_mod_4: "0 < x \<Longrightarrow> x mod 4 = 0 \<Longrightarrow> nat x mod 4 = 0"
  using nat_mod_distrib [of x 4] by simp

lemma band_list_Cons:
  "sfb < k \<Longrightarrow> band_list tab off cbs sfb k =
     (cbs ! sfb, nat (offs tab off (int sfb + 1) - offs tab off (int sfb))) # band_list tab off cbs (Suc sfb) k"
  by (simp add: band_list_def upt_conv_Cons)

lemma band_list_ok:
  assumes "bands_ok tab off n final" "int k < n"
  shows "list_all (\<lambda>(cb, w). w mod 4 = 0) (band_list tab off cbs sfb k)"
proof -
  have "nat (offs tab off (int i + 1) - offs tab off (int i)) mod 4 = 0" if "i < k" for i
    using bands_step [OF assms(1), of "int i"] that assms(2) by (intro nat_mod_4) auto
  then show ?thesis by (auto simp: band_list_def list_all_iff)
qed

lemma band_list_sum:
  assumes "bands_ok tab off n final" "int k < n" "sfb \<le> k"
  shows "int (sum_list (map snd (band_list tab off cbs sfb k))) = offs tab off (int k) - offs tab off (int sfb)"
  using assms(3)
proof (induction sfb rule: inc_induct)
  case base
  then show ?case by (simp add: band_list_def)
next
  case (step i)
  have "offs tab off (int i) < offs tab off (int i + 1)"
    using bands_step [OF assms(1), of "int i"] step assms(2) by simp
  with step show ?case by (simp add: band_list_Cons add.commute)
qed

lemma long_bands_run:
  assumes "bands_ok sfBandTabLong off n 1024" "int k < n" "sfb \<le> k" "k \<le> length cbs" "length coef = 1024"
  shows "long_bands off (int k) cbs (int sfb) s coef (offs sfBandTabLong off (int sfb)) =
    map_option (\<lambda>(vs, s'). (0, s', overwrite coef (offs sfBandTabLong off (int sfb)) vs, offs sfBandTabLong off (int k)))
      (bands_run (band_list sfBandTabLong off cbs sfb k) s)"
  using assms(3-5)
proof (induction sfb arbitrary: s coef rule: inc_induct)
  case base
  then show ?case by (simp add: long_bands.simps band_list_def)
next
  case (step i)
  let ?o = "offs sfBandTabLong off"
  let ?w = "nat (?o (int i + 1) - ?o (int i))"
  have st: "?o (int i) < ?o (int i + 1)" "(?o (int i + 1) - ?o (int i)) mod 4 = 0"
    using bands_step [OF assms(1), of "int i"] step assms(2) by simp_all
  have b: "0 \<le> ?o (int i)" "?o (int i + 1) \<le> 1024"
    using bands_bounds [OF assms(1), of "int i"] bands_bounds [OF assms(1), of "int i + 1"] step assms(2) by simp_all
  have w4: "?w mod 4 = 0" using st by (intro nat_mod_4) auto
  obtain vs s1 where v: "band_vals (cbs ! i) ?w s = Some (vs, s1)" "length vs = ?w"
    using band_vals_total [OF w4] by blast
  have sb: "spectral_band (cbs ! i) s (?o (int i + 1) - ?o (int i)) coef (?o (int i)) = Some (0, s1, overwrite coef (?o (int i)) vs)"
    using spectral_band_vals [OF b(1) w4, of coef "cbs ! i" s] v st b step by simp
  have rds: "rd sfBandTabLong (off + (int i + 1)) = Some (?o (int i + 1))" "rd sfBandTabLong (off + int i) = Some (?o (int i))"
    using bands_read [OF assms(1)] step assms(2) by auto
  have cb: "rd cbs (int i) = Some (cbs ! i)" using step by (simp add: rd_def)
  have ar: "?o (int i) + (?o (int i + 1) - ?o (int i)) = ?o (int i + 1)" by simp
  have "long_bands off (int k) cbs (int i) s coef (?o (int i))
     = long_bands off (int k) cbs (int (Suc i)) s1 (overwrite coef (?o (int i)) vs) (?o (int (Suc i)))"
    using step.hyps by (subst long_bands.simps) (simp only: rds cb sb bind.bind_lunit of_nat_less_iff if_True Let_def
        prod.case simp_thms if_False of_nat_Suc add.commute [of 1] ar)
  also have "\<dots> = map_option (\<lambda>(us, s'). (0, s', overwrite (overwrite coef (?o (int i)) vs) (?o (int (Suc i))) us, ?o (int k)))
      (bands_run (band_list sfBandTabLong off cbs (Suc i) k) s1)"
    using step.prems v b st by (intro step.IH) auto
  also have "\<dots> = map_option (\<lambda>(vs, s'). (0, s', overwrite coef (?o (int i)) vs, ?o (int k)))
      (bands_run (band_list sfBandTabLong off cbs i k) s)"
  proof -
    obtain us s' where u: "bands_run (band_list sfBandTabLong off cbs (Suc i) k) s1 = Some (us, s')"
      "int (length us) = ?o (int k) - ?o (int (Suc i))"
      using bands_run_total [OF band_list_ok [OF assms(1,2)], of cbs "Suc i" s1] band_list_sum [OF assms(1,2), of "Suc i" cbs] step.hyps
      by auto
    have "?o (int k) \<le> 1024" using bands_bounds [OF assms(1), of "int k"] assms(2) by simp
    then have "overwrite (overwrite coef (?o (int i)) vs) (?o (int i) + int (length vs)) us = overwrite coef (?o (int i)) (vs @ us)"
      using b v u st step.prems by (intro overwrite_append) (auto simp: add.commute)
    then show ?thesis using u v st step.hyps by (simp add: band_list_Cons add.commute)
  qed
  finally show ?case .
qed

lemma SetZeros_total:
  assumes "0 \<le> p" "0 \<le> n" "n mod 4 = 0" "p + n \<le> int (length coef)"
  shows "SetZeros n coef p = Some (0, overwrite coef p (replicate (nat n) 0))"
proof -
  obtain k where k: "n = 4 * int k" "nat n = 4 * k"
    using assms(2,3) by (metis nat_int nat_mult_distrib zero_le_numeral nat_numeral zdiv_int mult_div_mod_eq
        add.right_neutral of_nat_0_le_iff zero_le_imp_eq_int pos_imp_zdiv_nonneg_iff zero_less_numeral)
  show ?thesis using SetZeros_run [of p k coef] assms k by simp
qed

text \<open>The coefficients of a channel of long windows before the pulses: the bands, then zeros.\<close>

definition long_coefs :: "int \<Rightarrow> ICS_Data \<Rightarrow> int list \<Rightarrow> BitStream \<Rightarrow> (int list \<times> BitStream) option" where
  "long_coefs idx ics cbs s =
     map_option (\<lambda>(vs, s'). (vs @ replicate (1024 - length vs) 0, s'))
       (bands_run (band_list sfBandTabLong (sfBandTabLongOffset ! nat idx) cbs 0 (nat (max_sfb ics))) s)"

text \<open>What the band loop relies on: a sample rate of the table and a band count it has.\<close>

definition long_ok :: "int \<Rightarrow> ICS_Data \<Rightarrow> bool" where
  "long_ok idx ics \<longleftrightarrow> 0 \<le> idx \<and> idx < 12 \<and> 0 \<le> max_sfb ics \<and> max_sfb ics < sfBandTabLongNum ! nat idx"

lemma long_offset: "0 \<le> i \<Longrightarrow> i < 12 \<Longrightarrow> rd sfBandTabLongOffset i = Some (sfBandTabLongOffset ! nat i)"
  by (simp add: rd_def sfBandTabLongOffset_def)

lemma short_offset: "0 \<le> i \<Longrightarrow> i < 12 \<Longrightarrow> rd sfBandTabShortOffset i = Some (sfBandTabShortOffset ! nat i)"
  by (simp add: rd_def sfBandTabShortOffset_def)

lemma long_coefs_total:
  assumes "long_ok idx ics"
  shows "\<exists>vs s'. long_coefs idx ics cbs s = Some (vs, s') \<and> length vs = 1024"
proof -
  have b: "bands_ok sfBandTabLong (sfBandTabLongOffset ! nat idx) (sfBandTabLongNum ! nat idx) 1024"
    and k: "int (nat (max_sfb ics)) < sfBandTabLongNum ! nat idx"
    using assms by (auto simp: long_ok_def intro: bands_long)
  from bands_run_total [OF band_list_ok [OF b k], of cbs 0 s] obtain vs s' where
    r: "bands_run (band_list sfBandTabLong (sfBandTabLongOffset ! nat idx) cbs 0 (nat (max_sfb ics))) s = Some (vs, s')"
    "length vs = sum_list (map snd (band_list sfBandTabLong (sfBandTabLongOffset ! nat idx) cbs 0 (nat (max_sfb ics))))"
    by blast
  have "int (length vs) \<le> 1024"
    using band_list_sum [OF b k, of 0 cbs] bands_bounds(2) [OF b _ k] bands_ends(1) [OF b] r(2) by simp
  with r(1) show ?thesis by (simp add: long_coefs_def)
qed

lemma spectral_long_run:
  assumes "long_ok idx ics" "max_sfb ics \<le> int (length cbs)" "length coef = 1024"
    and v: "long_coefs idx ics cbs s = Some (vs, s')"
  shows "spectral_long idx ics cbs present pulse s coef =
    (if present \<noteq> 0 then
       Option.bind (rd sfBandTabLong (sfBandTabLongOffset ! nat idx + pulse_start_sfb pulse))
         (\<lambda>offset. map_option (\<lambda>(ret, c). (ret, s', c))
            (add_pulses (nat (number_pulse pulse + 1)) pulse 0 offset vs))
     else Some (0, s', vs))"
proof -
  let ?off = "sfBandTabLongOffset ! nat idx" and ?n = "sfBandTabLongNum ! nat idx"
  let ?k = "nat (max_sfb ics)"
  let ?o = "offs sfBandTabLong ?off"
  have b: "bands_ok sfBandTabLong ?off ?n 1024" and k: "int ?k < ?n" "int ?k = max_sfb ics"
    using assms(1) by (auto simp: long_ok_def intro: bands_long)
  have off: "rd sfBandTabLongOffset idx = Some ?off"
    using assms(1) by (simp add: long_ok_def long_offset)
  obtain us where r: "bands_run (band_list sfBandTabLong ?off cbs 0 ?k) s = Some (us, s')"
    and vs: "vs = us @ replicate (1024 - length us) 0"
    using v by (auto simp: long_coefs_def)
  obtain us' s'' where "bands_run (band_list sfBandTabLong ?off cbs 0 ?k) s = Some (us', s'')"
    "length us' = sum_list (map snd (band_list sfBandTabLong ?off cbs 0 ?k))"
    using bands_run_total [OF band_list_ok [OF b k(1)], of cbs 0 s] by blast
  then have "int (length us) = int (sum_list (map snd (band_list sfBandTabLong ?off cbs 0 ?k)))" using r by simp
  also have "\<dots> = ?o (int ?k)" using band_list_sum [OF b k(1), of 0 cbs] bands_ends(1) [OF b] by simp
  finally have len: "?o (max_sfb ics) = int (length us)" using k(2) by simp
  have le: "?o (max_sfb ics) \<le> 1024" "?o (max_sfb ics) mod 4 = 0"
    using bands_bounds(2) [OF b, of "max_sfb ics"] bands_mono [OF b, of 0 "max_sfb ics"] bands_ends(1) [OF b] k by auto
  have top: "rd sfBandTabLong (?off + max 0 (max_sfb ics)) = Some (?o (max_sfb ics))"
    using bands_read [OF b, of "max_sfb ics"] k by (simp add: max_def)
  have "long_bands ?off (max_sfb ics) cbs 0 s coef 0 = Some (0, s', overwrite coef 0 us, ?o (max_sfb ics))"
    using long_bands_run [OF b k(1), of 0 cbs coef s] assms(2,3) bands_ends(1) [OF b] k r by simp
  moreover have "SetZeros (1024 - ?o (max_sfb ics)) (overwrite coef 0 us) (?o (max_sfb ics)) = Some (0, vs)"
  proof -
    have "(1024 - ?o (max_sfb ics)) mod 4 = 0" using le by presburger
    moreover have z: "nat (1024 - ?o (max_sfb ics)) = 1024 - length us" using len by simp
    ultimately have "SetZeros (1024 - ?o (max_sfb ics)) (overwrite coef 0 us) (?o (max_sfb ics))
        = Some (0, overwrite (overwrite coef 0 us) (0 + int (length us)) (replicate (1024 - length us) 0))"
      using SetZeros_total [of "?o (max_sfb ics)" "1024 - ?o (max_sfb ics)" "overwrite coef 0 us"] le len assms(3)
      by simp
    also have "overwrite (overwrite coef 0 us) (0 + int (length us)) (replicate (1024 - length us) 0) = vs"
      using overwrite_append [of 0 us "replicate (1024 - length us) 0" coef] le len assms(3) vs
      by (simp add: overwrite_def)
    finally show ?thesis .
  qed
  ultimately show ?thesis
    by (auto simp: spectral_long_def off top SIZE_LONG_WIN_def map_option_case split_beta
        split: Option.bind_split option.split)
qed

lemma add_pulses_total:
  assumes "0 \<le> i" "i + int k \<le> int (length (pulse_offset pulse))" "i + int k \<le> int (length (pulse_amp pulse))"
    "\<forall>x \<in> set (pulse_offset pulse). 0 \<le> x" "0 \<le> offset" "length spec = 1024"
  shows "\<exists>ret c. add_pulses k pulse i offset spec = Some (ret, c) \<and> length c = 1024
     \<and> (ret = 0 \<or> ret = TT_AACDEC_ERR_AAC_INVSTREAM)"
  using assms
proof (induction k arbitrary: i offset spec)
  case (Suc k)
  let ?po = "pulse_offset pulse ! nat i"
  have po: "rd (pulse_offset pulse) i = Some ?po" "rd (pulse_amp pulse) i = Some (pulse_amp pulse ! nat i)"
    using Suc.prems by (simp_all add: rd_def)
  have nn: "0 \<le> ?po" using Suc.prems by (simp add: nat_less_iff)
  show ?case
  proof (cases "offset + ?po \<ge> SIZE_LONG_WIN")
    case True
    with po Suc.prems show ?thesis by (simp add: Let_def)
  next
    case False
    let ?v = "spec ! nat (offset + ?po)" and ?a = "pulse_amp pulse ! nat i"
    have ro: "rd spec (offset + ?po) = Some ?v"
      "wr spec (offset + ?po) w = Some (spec[nat (offset + ?po) := w])" for w
      using False nn Suc.prems by (simp_all add: rd_def wr_def SIZE_LONG_WIN_def)
    have "\<exists>ret c. add_pulses k pulse (i + 1) (offset + ?po)
        (spec[nat (offset + ?po) := (if ?v > 0 then ?v + ?a else ?v - ?a)]) = Some (ret, c) \<and> length c = 1024
        \<and> (ret = 0 \<or> ret = TT_AACDEC_ERR_AAC_INVSTREAM)"
      using Suc.prems nn by (intro Suc.IH) auto
    with False po ro show ?thesis by (simp add: Let_def)
  qed
qed simp

section \<open>Short windows\<close>

lemma short_windows_total:
  assumes "0 \<le> n" "n mod 4 = 0" "0 \<le> pos" "w < wgl \<longrightarrow> pos + (wgl - 1 - w) * 128 + n \<le> int (length coef)"
  shows "\<exists>s' coef'. short_windows cb n wgl w s coef pos = Some (0, s', coef') \<and> length coef' = length coef"
  using assms(3,4)
proof (induction "nat (wgl - w)" arbitrary: w s coef pos)
  case 0
  then show ?case by (simp add: short_windows.simps)
next
  case (Suc x)
  have w: "w < wgl" "x = nat (wgl - (w + 1))" using Suc.hyps(2) by linarith+
  have "0 \<le> (wgl - 1 - w) * 128" using w by simp
  then have fit: "pos + n \<le> int (length coef)" using Suc.prems w by linarith
  obtain s1 vs where b: "spectral_band cb s n coef pos = Some (0, s1, overwrite coef pos vs)" "int (length vs) = n"
    using spectral_band_total [OF Suc.prems(1) assms(1,2) fit, of cb s] by blast
  have "\<exists>s' coef'. short_windows cb n wgl (w + 1) s1 (overwrite coef pos vs) (pos + 128) = Some (0, s', coef')
      \<and> length coef' = length (overwrite coef pos vs)"
    using Suc.prems w b fit by (intro Suc.hyps(1) [OF w(2)]) (auto simp: algebra_simps)
  then show ?case
    using w b fit Suc.prems by (subst short_windows.simps) (auto simp: SIZE_SHORT_WIN_def)
qed

lemma zero_windows_total:
  assumes "0 \<le> n" "n mod 4 = 0" "0 \<le> pos" "0 \<le> w" "w < wgl \<longrightarrow> pos + (wgl - 1) * 128 + n \<le> int (length coef)"
  shows "\<exists>coef'. zero_windows n wgl w coef pos = Some coef' \<and> length coef' = length coef"
  using assms(4,5)
proof (induction "nat (wgl - w)" arbitrary: w coef)
  case 0
  then show ?case by (simp add: zero_windows.simps)
next
  case (Suc x)
  have w: "w < wgl" "x = nat (wgl - (w + 1))" using Suc.hyps(2) by linarith+
  have "w * 128 \<le> (wgl - 1) * 128" using w by simp
  then have fit: "pos + w * 128 + n \<le> int (length coef)" using Suc.prems w by linarith
  let ?c = "overwrite coef (pos + w * 128) (replicate (nat n) 0)"
  have z: "SetZeros n coef (pos + w * 128) = Some (0, ?c)" "length ?c = length coef"
    using SetZeros_total [of "pos + w * 128" n coef] fit assms Suc.prems by simp_all
  have "\<exists>coef'. zero_windows n wgl (w + 1) ?c pos = Some coef' \<and> length coef' = length ?c"
    using Suc.prems w z by (intro Suc.hyps(1) [OF w(2)]) auto
  then show ?case using w z by (subst zero_windows.simps) (auto simp: SIZE_SHORT_WIN_def)
qed

lemma short_bands_total:
  assumes b: "bands_ok sfBandTabShort off n 128" and k: "0 \<le> msfb" "msfb < n"
    and g: "0 \<le> G" "1 \<le> wgl" "128 * (G + wgl) \<le> int (length coef)"
    and s: "0 \<le> sfb" "sfb \<le> msfb" "0 \<le> ci" "ci + (msfb - sfb) \<le> int (length cbs)"
  shows "\<exists>s' coef'. short_bands off msfb wgl cbs ci sfb s coef (128 * G + offs sfBandTabShort off sfb)
     = Some (0, s', coef', 128 * G + offs sfBandTabShort off msfb, ci + (msfb - sfb)) \<and> length coef' = length coef"
  using s g(3)
proof (induction "nat (msfb - sfb)" arbitrary: sfb ci s coef)
  case 0
  then show ?case by (simp add: short_bands.simps)
next
  case (Suc x)
  let ?o = "offs sfBandTabShort off"
  have lt: "sfb < msfb" "x = nat (msfb - (sfb + 1))" using Suc.hyps(2) by linarith+
  have st: "?o sfb < ?o (sfb + 1)" "(?o (sfb + 1) - ?o sfb) mod 4 = 0"
    using bands_step [OF b, of sfb] lt k Suc.prems by simp_all
  have bd: "0 \<le> ?o sfb" "?o (sfb + 1) \<le> 128"
    using bands_bounds [OF b, of sfb] bands_bounds [OF b, of "sfb + 1"] lt k Suc.prems by simp_all
  have rds: "rd sfBandTabShort (off + (sfb + 1)) = Some (?o (sfb + 1))" "rd sfBandTabShort (off + sfb) = Some (?o sfb)"
    using bands_read [OF b] lt k Suc.prems by auto
  have cb: "rd cbs ci = Some (cbs ! nat ci)" using Suc.prems lt by (simp add: rd_def)
  obtain s1 c1 where w: "short_windows (cbs ! nat ci) (?o (sfb + 1) - ?o sfb) wgl 0 s coef (128 * G + ?o sfb) = Some (0, s1, c1)"
    "length c1 = length coef"
    using short_windows_total [of "?o (sfb + 1) - ?o sfb" "128 * G + ?o sfb" 0 wgl coef "cbs ! nat ci" s]
      st bd g Suc.prems by (auto simp: algebra_simps)
  have "128 * G + ?o sfb + (?o (sfb + 1) - ?o sfb) = 128 * G + ?o (sfb + 1)" by simp
  moreover have "\<exists>s' coef'. short_bands off msfb wgl cbs (ci + 1) (sfb + 1) s1 c1 (128 * G + ?o (sfb + 1))
     = Some (0, s', coef', 128 * G + ?o msfb, ci + 1 + (msfb - (sfb + 1))) \<and> length coef' = length c1"
    using Suc.prems lt w by (intro Suc.hyps(1) [OF lt(2)]) auto
  ultimately show ?case
    using lt w by (subst short_bands.simps) (simp add: rds cb)
qed

text \<open>What the short-window loops rely on.\<close>

definition short_ok :: "int \<Rightarrow> ICS_Data \<Rightarrow> bool" where
  "short_ok idx ics \<longleftrightarrow> 0 \<le> idx \<and> idx < 12 \<and> 0 \<le> max_sfb ics \<and> max_sfb ics < ttsfBandTabShortNum ! nat idx
     \<and> 0 \<le> num_window_groups ics \<and> num_window_groups ics \<le> int (length (window_group_length ics))
     \<and> sum_list (take (nat (num_window_groups ics)) (window_group_length ics)) \<le> 8
     \<and> list_all (\<lambda>n. 1 \<le> n) (take (nat (num_window_groups ics)) (window_group_length ics))"

lemma sum_take_mono:
  "list_all (\<lambda>n. (1 :: int) \<le> n) (take k xs) \<Longrightarrow> j \<le> k \<Longrightarrow> sum_list (take j xs) \<le> sum_list (take k xs)"
proof -
  assume p: "list_all (\<lambda>n. (1 :: int) \<le> n) (take k xs)" "j \<le> k"
  then have "take k xs = take j xs @ drop j (take k xs)" by (metis append_take_drop_id min.absorb1 take_take)
  moreover have "0 \<le> sum_list (drop j (take k xs))"
    using p(1) by (intro sum_list_nonneg) (force simp: list_all_iff dest: in_set_dropD)
  ultimately show ?thesis by (metis le_add_same_cancel1 sum_list_append)
qed

lemma short_groups_total:
  assumes ok: "short_ok idx ics" and "length coef = 1024"
    and cbs: "num_window_groups ics * max_sfb ics \<le> int (length cbs)"
    and g: "0 \<le> g" "g \<le> num_window_groups ics"
  shows "\<exists>s' coef'. short_groups (sfBandTabShortOffset ! nat idx) ics cbs g (g * max_sfb ics) s coef
     (128 * sum_list (take (nat g) (window_group_length ics))) = Some (0, s', coef') \<and> length coef' = 1024"
  using g assms(2)
proof (induction "nat (num_window_groups ics - g)" arbitrary: g s coef)
  case 0
  then show ?case by (simp add: short_groups.simps)
next
  case (Suc x)
  let ?off = "sfBandTabShortOffset ! nat idx" and ?wgs = "window_group_length ics" and ?N = "num_window_groups ics"
  let ?o = "offs sfBandTabShort ?off" and ?m = "max_sfb ics" and ?G = "sum_list (take (nat g) ?wgs)"
  let ?wgl = "?wgs ! nat g"
  have lt: "g < ?N" "x = nat (?N - (g + 1))" using Suc.hyps(2) by linarith+
  have b: "bands_ok sfBandTabShort ?off (ttsfBandTabShortNum ! nat idx) 128"
    and m: "0 \<le> ?m" "?m < ttsfBandTabShortNum ! nat idx"
    using ok by (auto simp: short_ok_def intro: bands_short)
  have ng: "nat g < nat ?N" "nat (g + 1) = Suc (nat g)" "nat ?N \<le> length ?wgs"
    using lt Suc.prems ok by (auto simp: short_ok_def)
  have rg: "rd ?wgs g = Some ?wgl" using lt Suc.prems ok by (auto simp: rd_def short_ok_def)
  have l1: "list_all (\<lambda>n. 1 \<le> n) (take (nat ?N) ?wgs)" using ok by (simp add: short_ok_def)
  then have wg: "1 \<le> ?wgl" using ng by (auto simp: list_all_length)
  have sum: "sum_list (take (Suc (nat g)) ?wgs) = ?G + ?wgl"
    using take_Suc_conv_app_nth [of "nat g" ?wgs] ng(1,3) by simp
  have le8: "?G + ?wgl \<le> 8"
    using sum_take_mono [OF l1, of "Suc (nat g)"] ng sum ok by (simp add: short_ok_def)
  have "list_all (\<lambda>n. 1 \<le> n) (take (nat g) ?wgs)" using l1 ng by (auto simp: list_all_length)
  from sum_take_mono [OF this, of 0] have g0: "0 \<le> ?G" by simp
  have fit: "128 * (?G + ?wgl) \<le> int (length coef)" using le8 Suc.prems by simp
  have "(g + 1) * ?m \<le> ?N * ?m" using lt m by (intro mult_right_mono) auto
  then have ci: "g * ?m + (?m - 0) \<le> int (length cbs)" using cbs by (simp add: algebra_simps)
  have gm: "0 \<le> g * ?m" using m Suc.prems by simp
  obtain s1 c1 where sb: "short_bands ?off ?m ?wgl cbs (g * ?m) 0 s coef (128 * ?G)
      = Some (0, s1, c1, 128 * ?G + ?o ?m, g * ?m + ?m)" "length c1 = 1024"
    using short_bands_total [OF b m g0 wg fit order_refl m(1) gm ci, of s] bands_ends(1) [OF b] Suc.prems by auto
  have om: "0 \<le> ?o ?m" "?o ?m \<le> 128" "?o ?m mod 4 = 0"
    using bands_bounds [OF b m] bands_mono [OF b, of 0 ?m] bands_ends(1) [OF b] m by auto
  have top: "rd sfBandTabShort (?off + max 0 ?m) = Some (?o ?m)" using bands_read [OF b m] m by (simp add: max_def)
  have d4: "(128 - ?o ?m) mod 4 = 0" using om by presburger
  obtain c2 where z: "zero_windows (128 - ?o ?m) ?wgl 0 c1 (128 * ?G + ?o ?m) = Some c2" "length c2 = 1024"
    using zero_windows_total [of "128 - ?o ?m" "128 * ?G + ?o ?m" 0 ?wgl c1] om d4 g0 fit sb Suc.prems
    by (auto simp: algebra_simps)
  have pos: "128 * ?G + ?o ?m + (128 - ?o ?m) + (?wgl - 1) * 128 = 128 * sum_list (take (nat (g + 1)) ?wgs)"
    using sum ng by (simp add: algebra_simps)
  have "\<exists>s' coef'. short_groups ?off ics cbs (g + 1) ((g + 1) * ?m) s1 c2
     (128 * sum_list (take (nat (g + 1)) ?wgs)) = Some (0, s', coef') \<and> length coef' = 1024"
    using lt z(2) Suc.prems by (intro Suc.hyps(1) [OF lt(2)]) auto
  moreover have ci': "g * ?m + ?m = (g + 1) * ?m" by (simp add: algebra_simps)
  have "short_groups ?off ics cbs g (g * ?m) s coef (128 * ?G)
      = short_groups ?off ics cbs (g + 1) ((g + 1) * ?m) s1 c2 (128 * sum_list (take (nat (g + 1)) ?wgs))"
    by (subst short_groups.simps) (simp only: lt(1) if_True if_False rg bind.bind_lunit sb(1) prod.case top z(1)
        SIZE_SHORT_WIN_def pos ci' simp_thms)
  ultimately show ?case by simp
qed

section \<open>Any spectral data\<close>

text \<open>The position of the first pulse is read from the table of band offsets; it has to lie in the table.\<close>

definition pulse_fits :: "int \<Rightarrow> Pulse_Data \<Rightarrow> bool" where
  "pulse_fits idx pulse \<longleftrightarrow> length (pulse_offset pulse) = 4 \<and> length (pulse_amp pulse) = 4 \<and> number_pulse pulse \<le> 3
      \<and> (\<forall>x \<in> set (pulse_offset pulse). 0 \<le> x)
      \<and> 0 \<le> pulse_start_sfb pulse \<and> sfBandTabLongOffset ! nat idx + pulse_start_sfb pulse < 325"

lemma spectral_data_total:
  assumes "if window_sequence ics = EIGHT_SHORT_SEQUENCE
      then short_ok idx ics \<and> num_window_groups ics * max_sfb ics \<le> int (length cbs)
      else long_ok idx ics \<and> max_sfb ics \<le> int (length cbs)"
    and "present \<noteq> 0 \<longrightarrow> pulse_fits idx pulse"
    and "length coef = 1024"
  shows "\<exists>ret s' coef'. spectral_data idx ics cbs present pulse s coef = Some (ret, s', coef')
    \<and> length coef' = 1024 \<and> (ret = 0 \<or> ret = TT_AACDEC_ERR_AAC_INVSTREAM)"
proof (cases "window_sequence ics = EIGHT_SHORT_SEQUENCE")
  case True
  then have ok: "short_ok idx ics" "num_window_groups ics * max_sfb ics \<le> int (length cbs)" using assms(1) by auto
  have idx: "rd sfBandTabShortOffset idx = Some (sfBandTabShortOffset ! nat idx)" "0 \<le> num_window_groups ics"
    using ok(1) by (auto simp: short_ok_def short_offset)
  from short_groups_total [OF ok(1) assms(3) ok(2) order_refl idx(2), of s] idx(1) True show ?thesis
    by (auto simp: spectral_data_def)
next
  case False
  then have ok: "long_ok idx ics" "max_sfb ics \<le> int (length cbs)" using assms(1) by auto
  obtain vs s' where v: "long_coefs idx ics cbs s = Some (vs, s')" "length vs = 1024"
    using long_coefs_total [OF ok(1)] by blast
  note r = spectral_long_run [OF ok assms(3) v(1), of present pulse]
  show ?thesis
  proof (cases "present = 0")
    case True
    with r False show ?thesis using v by (auto simp: spectral_data_def)
  next
    case p: False
    let ?i = "sfBandTabLongOffset ! nat idx + pulse_start_sfb pulse"
    have "nat idx < 12" using ok(1) by (auto simp: long_ok_def)
    then have ps: "0 \<le> ?i" "?i < int (length sfBandTabLong)"
      using assms(2) p long_offsets(1) [of "nat idx"] by (auto simp: pulse_fits_def long_table(1))
    then have off: "rd sfBandTabLong ?i = Some (sfBandTabLong ! nat ?i)" "0 \<le> sfBandTabLong ! nat ?i"
      using long_table(2) nth_mem [of "nat ?i" sfBandTabLong] by (auto simp: rd_Some nat_less_iff)
    have n: "0 + int (nat (number_pulse pulse + 1)) \<le> int (length (pulse_offset pulse))"
      "0 + int (nat (number_pulse pulse + 1)) \<le> int (length (pulse_amp pulse))"
      "\<forall>x \<in> set (pulse_offset pulse). 0 \<le> x" using assms(2) p by (auto simp: pulse_fits_def)
    from add_pulses_total [OF order_refl n off(2) v(2)]
    obtain ret c where "add_pulses (nat (number_pulse pulse + 1)) pulse 0 (sfBandTabLong ! nat ?i) vs = Some (ret, c)"
      "length c = 1024" "ret = 0 \<or> ret = TT_AACDEC_ERR_AAC_INVSTREAM" by blast
    with r p False off(1) show ?thesis by (auto simp: spectral_data_def)
  qed
qed

end
