(* ===== verification/Syntax.thy ===== *)
theory Syntax
  imports AACState Spectral
begin

unbundle bit_operations_syntax

text \<open>
  The syntax elements of a channel, \<^verbatim>\<open>src/lc_syntax.c\<close>: window data, sections, scale factors, pulses,
  noise shaping, long term prediction, and the elements built from them. A result \<open>(ret, ...)\<close> carries
  the code the C function returns; \<open>malloc name\<close> says whether the allocation of that buffer succeeds.
\<close>

section \<open>Long term prediction data\<close>

text \<open>\<open>for (i = 0; i < n; i++) x[i] = BitStreamGetBits(bs, 1)\<close>\<close>

fun flags_loop :: "nat \<Rightarrow> int \<Rightarrow> int list \<Rightarrow> BitStream \<Rightarrow> (int list \<times> BitStream) option" where
  "flags_loop 0 i xs bs = Some (xs, bs)"
| "flags_loop (Suc k) i xs bs =
     (let (v, bs) = BitStreamGetBits bs 1 in
      do { xs \<leftarrow> wr xs i (u8 v); flags_loop k (i + 1) xs bs })"

fun ltp_short_loop :: "nat \<Rightarrow> int \<Rightarrow> LTP_Data \<Rightarrow> BitStream \<Rightarrow> (LTP_Data \<times> BitStream) option" where
  "ltp_short_loop 0 w ltp bs = Some (ltp, bs)"
| "ltp_short_loop (Suc k) w ltp bs =
     (let (v, bs) = BitStreamGetBits bs 1 in
      do { xs \<leftarrow> wr (short_used ltp) w (u8 v);
           let ltp = ltp\<lparr>short_used := xs\<rparr>;
           if u8 v \<noteq> 0 then
             (let (v, bs) = BitStreamGetBits bs 1 in
              do { xs \<leftarrow> wr (short_lag_present ltp) w (u8 v);
                   let ltp = ltp\<lparr>short_lag_present := xs\<rparr>;
                   if u8 v \<noteq> 0 then
                     (let (v, bs) = BitStreamGetBits bs 4 in
                      do { xs \<leftarrow> wr (short_lag ltp) w (u8 v);
                           ltp_short_loop k (w + 1) (ltp\<lparr>short_lag := xs\<rparr>) bs })
                   else ltp_short_loop k (w + 1) ltp bs })
           else ltp_short_loop k (w + 1) ltp bs })"

definition ltp_data :: "ICS_Data \<Rightarrow> LTP_Data \<Rightarrow> BitStream \<Rightarrow> (LTP_Data \<times> BitStream) option" where
  "ltp_data ics ltp bs =
     (let (v, bs) = BitStreamGetBits bs 11;
          ltp = ltp\<lparr>lag := u16 v\<rparr>;
          ltp = (if lag ltp > MAX_SAMPLES * 2 then ltp\<lparr>lag := MAX_SAMPLES * 2\<rparr> else ltp);
          (v, bs) = BitStreamGetBits bs 3;
          ltp = ltp\<lparr>ltp_coef_idx := u8 v\<rparr> in
      if window_sequence ics = EIGHT_SHORT_SEQUENCE then
        ltp_short_loop (nat (num_window_groups ics)) 0 ltp bs
      else
        (let ltp = ltp\<lparr>last_band := (if max_sfb ics < MAX_LTP_SFB then max_sfb ics else MAX_LTP_SFB)\<rparr> in
         do { (xs, bs) \<leftarrow> flags_loop (nat (last_band ltp)) 0 (long_used ltp) bs;
              Some (ltp\<lparr>long_used := xs\<rparr>, bs) }))"

section \<open>Window data\<close>

text \<open>The grouping loop: \<open>for (g = 0; g < 7; g++)\<close>, \<open>bitset\<close> running from 0x40 down.\<close>

fun group_loop :: "nat \<Rightarrow> int \<Rightarrow> int \<Rightarrow> int \<Rightarrow> int list \<Rightarrow> (int \<times> int list) option" where
  "group_loop 0 grouping bitset n lens = Some (n, lens)"
| "group_loop (Suc k) grouping bitset n lens =
     (if grouping AND bitset \<noteq> 0 then
        do { l \<leftarrow> rd lens (n - 1);
             lens \<leftarrow> wr lens (n - 1) (u8 (l + 1));
             group_loop k grouping (drop_bit 1 bitset) n lens }
      else
        (let n = u8 (n + 1) in
         do { lens \<leftarrow> wr lens (n - 1) 1;
              group_loop k grouping (drop_bit 1 bitset) n lens }))"

definition ics_short :: "int \<Rightarrow> ICS_Data \<Rightarrow> BitStream \<Rightarrow> (ICS_Data \<times> BitStream) option" where
  "ics_short sri ics bs =
     (let (v, bs) = BitStreamGetBits bs 4;
          ics = ics\<lparr>max_sfb := u8 v\<rparr> in
      do { n \<leftarrow> rd ttsfBandTabShortNum sri;
           let ics = (if max_sfb ics > n - 1 then ics\<lparr>max_sfb := u8 (n - 1)\<rparr> else ics);
           let (v, bs) = BitStreamGetBits bs 7;
           let ics = ics\<lparr>scale_factor_grouping := u8 v\<rparr>;
           lens \<leftarrow> wr (window_group_length ics) 0 1;
           (groups, lens) \<leftarrow> group_loop 7 (scale_factor_grouping ics) 0x40 1 lens;
           Some (ics\<lparr>num_window_groups := groups, window_group_length := lens\<rparr>, bs) })"

text \<open>The prediction side information of the Main profile.\<close>

definition ics_prediction :: "int \<Rightarrow> ICS_Data \<Rightarrow> BitStream \<Rightarrow> (ICS_Data \<times> BitStream) option" where
  "ics_prediction sri ics bs =
     do { m \<leftarrow> rd predSFBMax sri;
          let limit = min (max_sfb ics) m;
          let (v, bs) = BitStreamGetBits bs 1;
          let ics = ics\<lparr>predictor_reset := u8 v\<rparr>;
          let (ics, bs) = (if predictor_reset ics \<noteq> 0
                           then (let (v, bs) = BitStreamGetBits bs 5 in (ics\<lparr>predictor_reset_group_number := u8 v\<rparr>, bs))
                           else (ics, bs));
          (xs, bs) \<leftarrow> flags_loop (nat limit) 0 (prediction_used ics) bs;
          Some (ics\<lparr>prediction_used := xs\<rparr>, bs) }"

text \<open>One channel of the long term prediction side information, \<open>left\<close> (0) or \<open>right\<close> (1).\<close>

definition ltp_part :: "ICS_Data \<Rightarrow> int \<Rightarrow> AACDecoder \<Rightarrow> AACDecoder option" where
  "ltp_part ics i d =
     (let (v, d) = dget8 d 1 in
      do { ltps \<leftarrow> modify (ltp_data_of d) i (\<lambda>l. l\<lparr>data_present := v\<rparr>);
           let d = d\<lparr>ltp_data_of := ltps\<rparr>;
           if v \<noteq> 0 then
             do { l \<leftarrow> rd ltps i;
                  (l, bs) \<leftarrow> ltp_data ics l (dbs d);
                  ltps \<leftarrow> wr ltps i l;
                  Some (d\<lparr>ltp_data_of := ltps, dbs := bs\<rparr>) }
           else Some d })"

text \<open>The long term prediction side information; the error is the failed allocation of a buffer.\<close>

definition ics_ltp :: "(string \<Rightarrow> bool) \<Rightarrow> ICS_Data \<Rightarrow> AACDecoder \<Rightarrow> (int \<times> AACDecoder) option" where
  "ics_ltp malloc ics d =
     (let d = (if t_est_buf d = None then d\<lparr>t_est_buf := malloc_ints malloc ''t_est_buf'' 2048\<rparr> else d) in
      if t_est_buf d = None then Some (TTKErrNoMemory, d)
      else
        (let d = (if f_est_buf d = None then d\<lparr>f_est_buf := malloc_ints malloc ''f_est_buf'' 2048\<rparr> else d) in
         if f_est_buf d = None then Some (TTKErrNoMemory, d)
         else
           do { d \<leftarrow> ltp_part ics 0 d;
                if common_window d \<noteq> 0 then do { d \<leftarrow> ltp_part ics 1 d; Some (0, d) }
                else Some (0, d) }))"

definition ltp_reset :: "AACDecoder \<Rightarrow> AACDecoder option" where
  "ltp_reset d =
     do { ltps \<leftarrow> modify (ltp_data_of d) 0 (\<lambda>l. l\<lparr>data_present := 0\<rparr>);
          ltps \<leftarrow> modify ltps 1 (\<lambda>l. l\<lparr>data_present := 0\<rparr>);
          Some (d\<lparr>ltp_data_of := ltps\<rparr>) }"

definition ics_predict :: "(string \<Rightarrow> bool) \<Rightarrow> int \<Rightarrow> ICS_Data \<Rightarrow> AACDecoder \<Rightarrow> (int \<times> ICS_Data \<times> AACDecoder) option" where
  "ics_predict malloc sri ics d =
     (if predictor_data_present ics \<noteq> 0 then
        (if profile d = TTAAC_AAC_MAIN then
           do { (ics, bs) \<leftarrow> ics_prediction sri ics (dbs d); Some (0, ics, d\<lparr>dbs := bs\<rparr>) }
         else do { (ret, d) \<leftarrow> ics_ltp malloc ics d; Some (ret, ics, d) })
      else Some (0, ics, d))"

definition ics_long :: "(string \<Rightarrow> bool) \<Rightarrow> int \<Rightarrow> ICS_Data \<Rightarrow> AACDecoder \<Rightarrow> (int \<times> ICS_Data \<times> AACDecoder) option" where
  "ics_long malloc sri ics d =
     do { d \<leftarrow> ltp_reset d;
          let (v, d) = dget8 d 6;
          let ics = ics\<lparr>max_sfb := v\<rparr>;
          n \<leftarrow> rd sfBandTabLongNum (sampRateIdx d);
          let ics = (if max_sfb ics > n - 1 then ics\<lparr>max_sfb := u8 (n - 1)\<rparr> else ics);
          let (v, d) = dget8 d 1;
          let ics = ics\<lparr>predictor_data_present := v\<rparr>;
          (ret, ics, d) \<leftarrow> ics_predict malloc sri ics d;
          if ret \<noteq> 0 then Some (ret, ics, d)
          else do { lens \<leftarrow> wr (window_group_length ics) 0 1;
                    Some (0, ics\<lparr>num_window_groups := 1, window_group_length := lens\<rparr>, d) } }"

text \<open>\<open>ics_info(decoder, &decoder->ICS_Data[i], decoder->sampRateIdx)\<close>\<close>

definition ics_info :: "(string \<Rightarrow> bool) \<Rightarrow> AACDecoder \<Rightarrow> int \<Rightarrow> (int \<times> AACDecoder) option" where
  "ics_info malloc d i =
     do { ics \<leftarrow> rd (ics_data d) i;
          let (v, d) = dget8 d 1;
          let ics = ics\<lparr>ics_reserved_bit := v\<rparr>;
          let (v, d) = dget8 d 2;
          let ics = ics\<lparr>window_sequence := v\<rparr>;
          let (v, d) = dget8 d 1;
          let ics = ics\<lparr>window_shape := v\<rparr>;
          (ret, ics, d) \<leftarrow>
            (if window_sequence ics = EIGHT_SHORT_SEQUENCE then
               do { (ics, bs) \<leftarrow> ics_short (sampRateIdx d) ics (dbs d); Some (0, ics, d\<lparr>dbs := bs\<rparr>) }
             else ics_long malloc (sampRateIdx d) ics d);
          icss \<leftarrow> wr (ics_data d) i ics;
          Some (ret, d\<lparr>ics_data := icss\<rparr>) }"

section \<open>Sections\<close>

text \<open>\<open>while (sect_len_incr == sect_esc_val)\<close>\<close>

partial_function (option) sect_len_loop :: "BitStream \<Rightarrow> nat \<Rightarrow> int \<Rightarrow> int \<Rightarrow> int \<Rightarrow> (int \<times> int \<times> BitStream) option" where
  "sect_len_loop bs bits esc len incr =
     (if incr = esc
      then (let (incr, bs) = BitStreamGetBits bs bits in sect_len_loop bs bits esc (len + esc) incr)
      else Some (len, incr, bs))"

fun fill_cb :: "nat \<Rightarrow> int \<Rightarrow> int list \<Rightarrow> int \<Rightarrow> int list option" where
  "fill_cb 0 cb row p = Some row"
| "fill_cb (Suc k) cb row p = do { row \<leftarrow> wr row p cb; fill_cb k cb row (p + 1) }"

text \<open>\<open>while (k < max_sfb)\<close>, with \<open>lim\<close> the bound 8*15 or 51 and \<open>p\<close> the position of \<open>sfb_cb\<close>.\<close>

partial_function (option) sect_loop :: "nat \<Rightarrow> int \<Rightarrow> int \<Rightarrow> int \<Rightarrow> int \<Rightarrow> int list \<Rightarrow> int \<Rightarrow> BitStream \<Rightarrow>
    (int \<times> int \<times> int list \<times> int \<times> BitStream) option" where
  "sect_loop bits lim msfb k i row p bs =
     (if k < msfb then
        (let (cb, bs) = BitStreamGetBits bs 4;
             (incr, bs) = BitStreamGetBits bs bits in
         do { (len, incr, bs) \<leftarrow> sect_len_loop bs bits (2 ^ bits - 1) 0 incr;
              let len = len + incr;
              if k + len > lim then Some (- 1, k, row, p, bs)
              else if i \<ge> lim then Some (- 1, k, row, p, bs)
              else do { row \<leftarrow> fill_cb (nat len) (u8 cb) row p;
                        sect_loop bits lim msfb (k + len) (i + 1) row (p + len) bs } })
      else Some (0, k, row, p, bs))"

fun sect_groups :: "nat \<Rightarrow> nat \<Rightarrow> int \<Rightarrow> int \<Rightarrow> int list \<Rightarrow> int \<Rightarrow> BitStream \<Rightarrow> (int \<times> int list \<times> BitStream) option" where
  "sect_groups 0 bits lim msfb row p bs = Some (0, row, bs)"
| "sect_groups (Suc g) bits lim msfb row p bs =
     do { (ret, k, row, p, bs) \<leftarrow> sect_loop bits lim msfb 0 0 row p bs;
          if ret \<noteq> 0 then Some (- 1, row, bs)
          else if k \<noteq> msfb then Some (- 1, row, bs)
          else sect_groups g bits lim msfb row p bs }"

definition section_data :: "ICS_Data \<Rightarrow> int list \<Rightarrow> BitStream \<Rightarrow> (int \<times> int list \<times> BitStream) option" where
  "section_data ics row bs =
     (if window_sequence ics = EIGHT_SHORT_SEQUENCE
      then sect_groups (nat (num_window_groups ics)) 3 (8 * 15) (max_sfb ics) row 0 bs
      else sect_groups (nat (num_window_groups ics)) 5 51 (max_sfb ics) row 0 bs)"

section \<open>Scale factors\<close>

definition NOISE_OFFSET :: int where "NOISE_OFFSET = 90 + 256"

text \<open>
  \<open>while (g++ < total)\<close>: the state is the noise flag, the noise energy, the intensity position, the
  scale factor and the row that is filled.
\<close>

fun sf_loop :: "nat \<Rightarrow> int \<Rightarrow> int list \<Rightarrow> bool \<Rightarrow> int \<Rightarrow> int \<Rightarrow> int \<Rightarrow> int list \<Rightarrow> BitStream \<Rightarrow>
    (int \<times> int list \<times> BitStream) option" where
  "sf_loop 0 g cbs pcm noise ispos sf row bs = Some (0, row, bs)"
| "sf_loop (Suc k) g cbs pcm noise ispos sf row bs =
     do { cb \<leftarrow> rd cbs g;
          if cb = ZERO_HCB then
            do { row \<leftarrow> wr row g 0; sf_loop k (g + 1) cbs pcm noise ispos sf row bs }
          else if cb = NOISE_HCB then
            do { (val, bs) \<leftarrow> (if pcm then Some (BitStreamGetBits bs 9) else DecodeHuffmanData huffTabScaleInfo bs);
                 let noise = noise + val;
                 row \<leftarrow> wr row g (s16 noise);
                 sf_loop k (g + 1) cbs False noise ispos sf row bs }
          else if cb = INTENSITY_HCB \<or> cb = INTENSITY_HCB2 then
            do { (val, bs) \<leftarrow> DecodeHuffmanData huffTabScaleInfo bs;
                 let ispos = ispos + val;
                 row \<leftarrow> wr row g (s16 ispos);
                 sf_loop k (g + 1) cbs pcm noise ispos sf row bs }
          else
            do { (val, bs) \<leftarrow> DecodeHuffmanData huffTabScaleInfo bs;
                 let sf = sf + val;
                 if sf < 0 then Some (- 1, row, bs)
                 else do { row \<leftarrow> wr row g (s16 sf);
                           sf_loop k (g + 1) cbs pcm noise ispos sf row bs } } }"

definition scale_factor_data :: "int \<Rightarrow> ICS_Data \<Rightarrow> int list \<Rightarrow> int list \<Rightarrow> BitStream \<Rightarrow> (int \<times> int list \<times> BitStream) option" where
  "scale_factor_data gain ics cbs row bs =
     sf_loop (nat (num_window_groups ics * max_sfb ics)) 0 cbs True (gain - NOISE_OFFSET) 0 gain row bs"

section \<open>Pulses and noise shaping\<close>

fun pulse_loop :: "nat \<Rightarrow> int \<Rightarrow> Pulse_Data \<Rightarrow> BitStream \<Rightarrow> (Pulse_Data \<times> BitStream) option" where
  "pulse_loop 0 i pi bs = Some (pi, bs)"
| "pulse_loop (Suc k) i pi bs =
     (let (v, bs) = BitStreamGetBits bs 5 in
      do { xs \<leftarrow> wr (pulse_offset pi) i (u8 v);
           let pi = pi\<lparr>pulse_offset := xs\<rparr>;
           let (v, bs) = BitStreamGetBits bs 4;
           xs \<leftarrow> wr (pulse_amp pi) i (u8 v);
           pulse_loop k (i + 1) (pi\<lparr>pulse_amp := xs\<rparr>) bs })"

definition read_pulse_data :: "Pulse_Data \<Rightarrow> BitStream \<Rightarrow> (Pulse_Data \<times> BitStream) option" where
  "read_pulse_data pi bs =
     (let (v, bs) = BitStreamGetBits bs 2;
          pi = pi\<lparr>number_pulse := u8 v\<rparr>;
          (v, bs) = BitStreamGetBits bs 6;
          pi = pi\<lparr>pulse_start_sfb := u8 v\<rparr> in
      pulse_loop (nat (number_pulse pi + 1)) 0 pi bs)"

fun coef_loop :: "nat \<Rightarrow> int \<Rightarrow> nat \<Rightarrow> int list \<Rightarrow> BitStream \<Rightarrow> (int list \<times> BitStream) option" where
  "coef_loop 0 i bits xs bs = Some (xs, bs)"
| "coef_loop (Suc k) i bits xs bs =
     (let (v, bs) = BitStreamGetBits bs bits in
      do { xs \<leftarrow> wr xs i (u8 v); coef_loop k (i + 1) bits xs bs })"

text \<open>\<open>for (filt = 0; filt < n_filt; filt++)\<close>\<close>

fun filt_loop :: "nat \<Rightarrow> int \<Rightarrow> nat \<Rightarrow> nat \<Rightarrow> nat \<Rightarrow> TNS_Data \<Rightarrow> BitStream \<Rightarrow> (TNS_Data \<times> BitStream) option" where
  "filt_loop 0 filt lbits obits start t bs = Some (t, bs)"
| "filt_loop (Suc k) filt lbits obits start t bs =
     (let (v, bs) = BitStreamGetBits bs lbits in
      do { xs \<leftarrow> wr (tns_length t) filt (u8 v);
           let t = t\<lparr>tns_length := xs\<rparr>;
           let (v, bs) = BitStreamGetBits bs obits;
           let order = u8 v;
           xs \<leftarrow> wr (tns_order t) filt order;
           let t = t\<lparr>tns_order := xs\<rparr>;
           if order \<noteq> 0 then
             (let (v, bs) = BitStreamGetBits bs 1 in
              do { xs \<leftarrow> wr (tns_direction t) filt (u8 v);
                   let t = t\<lparr>tns_direction := xs\<rparr>;
                   let (v, bs) = BitStreamGetBits bs 1;
                   let compress = u8 v;
                   xs \<leftarrow> wr (coef_compress t) filt compress;
                   let t = t\<lparr>coef_compress := xs\<rparr>;
                   row \<leftarrow> rd (tns_coef t) filt;
                   (row, bs) \<leftarrow> coef_loop (nat order) 0 (start - nat compress) row bs;
                   rows \<leftarrow> wr (tns_coef t) filt row;
                   filt_loop k (filt + 1) lbits obits start (t\<lparr>tns_coef := rows\<rparr>) bs })
           else filt_loop k (filt + 1) lbits obits start t bs })"

fun tns_loop :: "nat \<Rightarrow> int \<Rightarrow> nat \<Rightarrow> nat \<Rightarrow> nat \<Rightarrow> TNS_Data list \<Rightarrow> BitStream \<Rightarrow> (TNS_Data list \<times> BitStream) option" where
  "tns_loop 0 w nb lbits obits ts bs = Some (ts, bs)"
| "tns_loop (Suc k) w nb lbits obits ts bs =
     (let (v, bs) = BitStreamGetBits bs nb in
      do { t \<leftarrow> rd ts w;
           let t = t\<lparr>n_filt := u8 v\<rparr>;
           let (t, bs) = (if n_filt t \<noteq> 0 then (let (c, bs) = BitStreamGetBits bs 1 in (t\<lparr>coef_res := u8 c\<rparr>, bs)) else (t, bs));
           let start = (if coef_res t \<noteq> 0 then 4 else 3);
           (t, bs) \<leftarrow> filt_loop (nat (n_filt t)) 0 lbits obits start t bs;
           ts \<leftarrow> wr ts w t;
           tns_loop k (w + 1) nb lbits obits ts bs })"

definition read_tns_data :: "int \<Rightarrow> TNS_Data list \<Rightarrow> BitStream \<Rightarrow> (TNS_Data list \<times> BitStream) option" where
  "read_tns_data wseq ts bs =
     (if wseq = EIGHT_SHORT_SEQUENCE then tns_loop 8 0 1 4 3 ts bs else tns_loop 1 0 2 6 5 ts bs)"

end
