(* ===== verification/SpectralCode.thy ===== *)
theory SpectralCode
  imports Spectral
begin

unbundle bit_operations_syntax

text \<open>
  An encoder for spectral data and the proof that the decoders of \<^verbatim>\<open>src/lc_huff.c\<close> invert it: the
  code words of the books, the sign bits, the escapes, bands and whole channels.
\<close>

section \<open>Codecs\<close>

text \<open>A step that reads one value and the bits that stand for it; runs of steps follow.\<close>

locale codec =
  fixes step :: "BitStream \<Rightarrow> ('v \<times> BitStream) option"
    and enc :: "'v \<Rightarrow> bool list"
    and good :: "'v \<Rightarrow> bool"
  assumes step_enc: "good v \<Longrightarrow> bs_inv s \<Longrightarrow> bsbits s = enc v @ r
    \<Longrightarrow> \<exists>s'. step s = Some (v, s') \<and> bs_inv s' \<and> bsbits s' = r"
begin

lemma run_enc:
  "list_all good vs \<Longrightarrow> bs_inv s \<Longrightarrow> bsbits s = concat (map enc vs) @ r
   \<Longrightarrow> \<exists>s'. run step (length vs) s = Some (vs, s') \<and> bs_inv s' \<and> bsbits s' = r"
proof (induction vs arbitrary: s)
  case (Cons v vs)
  from Cons.prems step_enc [of v s "concat (map enc vs) @ r"] obtain s1 where
    "step s = Some (v, s1)" "bs_inv s1" "bsbits s1 = concat (map enc vs) @ r" by auto
  with Cons show ?case by fastforce
qed simp

end

section \<open>Signs\<close>

lemma SET_SIGN_bit: "SET_SIGN v s = (if bit s 31 then - v else v)"
proof -
  have "drop_bit 31 (sint s) = (if bit s 31 then - 1 else 0)"
  proof (rule bit_eqI)
    fix i show "bit (drop_bit 31 (sint s)) i = bit (if bit s 31 then - 1 else (0 :: int)) i"
      by (cases i) (auto simp: bit_drop_bit_eq bit_sint_iff dest: bit_imp_le_length)
  qed
  moreover have "v XOR - 1 = - v - 1" 
  proof -
    have "v XOR - 1 = NOT v" by (rule bit_eqI) (auto simp: bit_xor_iff bit_not_iff)
    then show ?thesis by (simp add: not_int_def)
  qed
  ultimately show ?thesis by (simp add: SET_SIGN_def Let_def)
qed

definition sign_bit :: "int \<Rightarrow> bool list" where
  "sign_bit v = (if v = 0 then [] else [v < 0])"

text \<open>The cache starts with these bits.\<close>

definition pre :: "32 word \<Rightarrow> bool list \<Rightarrow> bool" where
  "pre c xs \<longleftrightarrow> length xs \<le> 32 \<and> take (length xs) (wbits c) = xs"

lemma pre_hd: "pre c (b # xs) \<Longrightarrow> bit c 31 = b"
proof -
  assume "pre c (b # xs)"
  then have "take (Suc (length xs)) (wbits c) ! 0 = (b # xs) ! 0" by (simp add: pre_def)
  then show ?thesis by (simp add: nth_wbits)
qed

lemma pre_shl: "pre c (xs @ ys) \<Longrightarrow> pre (shl32 c (int (length xs))) ys"
  by (auto simp: pre_def wbits_shl take_add)

lemma take_sign_pre:
  assumes "pre c (sign_bit v @ xs)" "m = n + int (length (sign_bit v))"
  shows "\<exists>c'. take_sign \<bar>v\<bar> c n = (v, c', m) \<and> pre c' xs"
proof (cases "v = 0")
  case False
  then have "bit c 31 = (v < 0)" using assms(1) by (auto simp: sign_bit_def dest!: pre_hd)
  moreover have "pre (shl32 c 1) xs" using pre_shl [OF assms(1)] False by (simp add: sign_bit_def)
  ultimately show ?thesis using False by (auto simp: take_sign_def SET_SIGN_bit sign_bit_def assms(2))
qed (use assms in \<open>auto simp: take_sign_def sign_bit_def\<close>)

lemma GET_BITS_nonneg: "0 \<le> GET_BITS v"
  by (simp add: GET_BITS_def)

lemma code_then_signs:
  assumes s: "bs_inv s" "bsbits s = c @ sg @ r"
    and t: "book info = Some t" "depth t \<le> maxBits info" "(c, v) \<in> set (tree_codes t)"
    and n: "0 < n" "maxBits info + length sg \<le> n" "n \<le> 32"
  shows "\<exists>cache k. huff_code info n s = Some (cache, k, v) \<and> k + GET_BITS v = int (length c)
     \<and> pre (shl32 cache (GET_BITS v)) sg"
proof -
  let ?w = "shl32 (BitStreamShowBits s n) (32 - int n)"
  have d: "depth t \<le> n" using t(2) n by simp
  have lc: "length c \<le> maxBits info" using tree_code_length [OF t(3)] t(2) by simp
  have "tree_walk t (lookahead s n) = (length c, v)"
    using tree_next_look [OF d, of s] tree_next_code [OF s t(3)] by simp
  with huff_code_walk [OF s(1) n(1,3) t(1) d] obtain k where k: "0 \<le> k" "k + GET_BITS v = int (length c)"
    "huff_code info n s = Some (shl32 ?w k, k, v)" by auto
  have "shl32 (shl32 ?w k) (GET_BITS v) = shl32 ?w (int (length c))"
    using shl32_shl32 [OF k(1) GET_BITS_nonneg] k(2) by simp
  moreover have "pre ?w (c @ sg)"
  proof -
    have le: "length (c @ sg) \<le> n" "length (c @ sg) \<le> bslen s"
      using lc n s(2) length_bsbits [of s] by auto
    then have "take (length (c @ sg)) (lookahead s n) = c @ sg"
      using take_lookahead [OF s(1) le] s(2) by simp
    with le n show ?thesis by (simp add: pre_def lookahead_wbits s(1))
  qed
  ultimately show ?thesis using k pre_shl by auto
qed

section \<open>Escapes\<close>

fun ilog2 :: "nat \<Rightarrow> nat" where
  "ilog2 n = (if n < 2 then 0 else Suc (ilog2 (n div 2)))"

declare ilog2.simps [simp del]

lemma ilog2_bounds: "0 < n \<Longrightarrow> 2 ^ ilog2 n \<le> n \<and> n < 2 * 2 ^ ilog2 n"
proof (induction n rule: ilog2.induct)
  case (1 n)
  show ?case
  proof (cases "n < 2")
    case True
    with 1 show ?thesis by (simp add: ilog2.simps)
  next
    case False
    with 1 have "2 ^ ilog2 (n div 2) \<le> n div 2 \<and> n div 2 < 2 * 2 ^ ilog2 (n div 2)" by auto
    with False show ?thesis by (subst (1 2) ilog2.simps) auto
  qed
qed

lemma ilog2_ge: "2 ^ k \<le> n \<Longrightarrow> k \<le> ilog2 n"
proof -
  assume k: "2 ^ k \<le> n"
  then have "0 < n" using zero_less_power [of "2::nat" k] by linarith
  with ilog2_bounds have "n < 2 ^ Suc (ilog2 n)" by simp
  with k have "(2::nat) ^ k < 2 ^ Suc (ilog2 n)" by linarith
  then show ?thesis by (simp only: power_strict_increasing_iff less_Suc_eq_le)
qed

lemma ilog2_less: "n < 2 ^ k \<Longrightarrow> 0 < k \<Longrightarrow> ilog2 n < k"
proof -
  assume k: "n < 2 ^ k" "0 < k"
  show ?thesis
  proof (cases "n = 0")
    case True
    with k show ?thesis by (simp add: ilog2.simps)
  next
    case False
    with ilog2_bounds k have "(2::nat) ^ ilog2 n < 2 ^ k" by (meson le_less_trans not_gr_zero)
    then show ?thesis by simp
  qed
qed

text \<open>The escape of a magnitude of at least 16: the exponent in unary, the mantissa.\<close>

definition esc_bits :: "int \<Rightarrow> bool list" where
  "esc_bits a = (if a < 16 then []
     else let n = ilog2 (nat a) in replicate (n - 4) True @ [False] @ nbits n (a - 2 ^ n))"

lemma esc_prefix_enc:
  "bs_inv s \<Longrightarrow> bsbits s = replicate k True @ False # r \<Longrightarrow>
   \<exists>s'. esc_prefix s n = Some (n + int k, s') \<and> bs_inv s' \<and> bsbits s' = r"
proof (induction k arbitrary: s n)
  case 0
  then have "bsbits s = nbits 1 0 @ r" by (simp add: nbits_def)
  from bs.get_field [OF 0(1) _ this] 0 show ?case by (subst esc_prefix.simps) (simp add: split_beta Let_def)
next
  case (Suc k)
  then have b: "bsbits s = nbits 1 1 @ (replicate k True @ False # r)" by (simp add: nbits_def)
  note f = bs.get_field [OF Suc.prems(1) _ b, simplified]
  from Suc.IH [OF f(3) f(2), of "n + 1"] f(1) show ?case
    by (subst esc_prefix.simps) (simp add: split_beta Let_def add.assoc)
qed

lemma escape_enc:
  assumes "bs_inv s" "bsbits s = esc_bits a @ r" "0 \<le> a" "a < 2 ^ 31"
  shows "\<exists>s'. escape (min 16 a) s = Some (a, s') \<and> bs_inv s' \<and> bsbits s' = r"
proof (cases "a < 16")
  case True
  with assms show ?thesis by (simp add: escape_def esc_bits_def)
next
  case False
  define n where "n = ilog2 (nat a)"
  have n: "4 \<le> n" "n < 31" using False assms(4) ilog2_ge [of 4 "nat a"] ilog2_less [of "nat a" 31]
    by (simp_all add: n_def nat_less_iff)
  have "2 ^ n \<le> nat a" "nat a < 2 * 2 ^ n" using ilog2_bounds [of "nat a"] False by (auto simp: n_def)
  then have m: "0 \<le> a - 2 ^ n" "a - 2 ^ n < 2 ^ n" using False by (simp_all add: nat_less_iff le_nat_iff)
  have b: "bsbits s = replicate (n - 4) True @ False # (nbits n (a - 2 ^ n) @ r)"
    using assms(2) False by (simp add: esc_bits_def n_def Let_def)
  obtain s1 where p: "esc_prefix s 4 = Some (int n, s1)" "bs_inv s1" "bsbits s1 = nbits n (a - 2 ^ n) @ r"
    using esc_prefix_enc [OF assms(1) b, of 4] n by auto
  have nn: "0 < n \<and> n \<le> 32" using n by simp
  note f = bs.get_field [OF p(2) nn p(3) m]
  have "uint (shl32 1 (int n)) = (2 :: int) ^ n"
    by (rule bit_eqI) (use n in \<open>auto simp: bit_uint_iff bit_shl32 bit_exp_iff bit_1_iff\<close>)
  then have "s32 (uint (shl32 1 (int n)) + (a - 2 ^ n)) = a" using assms by (simp add: s32_id)
  with False p f show ?thesis by (auto simp: escape_def split_beta Let_def min_def)
qed

section \<open>The code books\<close>

definition sinfo :: "int \<Rightarrow> HuffInfoData" where "sinfo cb = huffTabSpecInfo ! nat (cb - 1)"
definition sbook :: "int \<Rightarrow> htree" where "sbook cb = the_book (sinfo cb)"

text \<open>The largest magnitude a code book carries.\<close>

definition lav :: "int \<Rightarrow> int" where
  "lav cb = [1, 1, 2, 2, 4, 4, 7, 7, 12, 12, 2147483647] ! nat (cb - 1)"

lemmas book_alphabets = book_okD [OF book1 distinct_quads_upto] book_okD [OF book2 distinct_quads_upto]
  book_okD [OF book3 distinct_quads_upto] book_okD [OF book4 distinct_quads_upto]
  book_okD [OF book5 distinct_pairs_upto] book_okD [OF book6 distinct_pairs_upto]
  book_okD [OF book7 distinct_pairs_upto] book_okD [OF book8 distinct_pairs_upto]
  book_okD [OF book9 distinct_pairs_upto] book_okD [OF book10 distinct_pairs_upto]
  book_okD [OF book11 distinct_pairs_upto]

lemmas book_facts = book_alphabets [unfolded set_quads_upto set_pairs_upto One_nat_def]

lemma sbook:
  assumes "cb \<in> {1..11}"
  shows "book (sinfo cb) = Some (sbook cb)" "depth (sbook cb) \<le> maxBits (sinfo cb)"
    "0 < maxBits (sinfo cb)" "maxBits (sinfo cb) \<le> 16"
proof -
  have "cb = 1 \<or> cb = 2 \<or> cb = 3 \<or> cb = 4 \<or> cb = 5 \<or> cb = 6 \<or> cb = 7 \<or> cb = 8 \<or> cb = 9 \<or> cb = 10 \<or> cb = 11"
    using assms by simp presburger
  then have "book (sinfo cb) = Some (sbook cb) \<and> depth (sbook cb) \<le> maxBits (sinfo cb)
      \<and> 0 < maxBits (sinfo cb) \<and> maxBits (sinfo cb) \<le> 16"
    by (elim disjE) (simp_all add: sbook_def sinfo_def book_facts, simp_all add: huffTabSpecInfo_def)
  then show "book (sinfo cb) = Some (sbook cb)" "depth (sbook cb) \<le> maxBits (sinfo cb)"
    "0 < maxBits (sinfo cb)" "maxBits (sinfo cb) \<le> 16" by auto
qed

lemma sbook_quads:
  "cb = 1 \<or> cb = 2 \<Longrightarrow> dec_quad ` set (leaves (sbook cb)) = {- 1..1} \<times> {- 1..1} \<times> {- 1..1} \<times> {- 1..1}"
  "cb = 3 \<or> cb = 4 \<Longrightarrow> dec_quad ` set (leaves (sbook cb)) = {0..2} \<times> {0..2} \<times> {0..2} \<times> {0..2}"
  by (elim disjE, simp_all add: sbook_def sinfo_def book_facts)+

lemma sbook_pairs:
  "cb = 5 \<or> cb = 6 \<Longrightarrow> dec_pair ` set (leaves (sbook cb)) = {- 4..4} \<times> {- 4..4}"
  "cb = 7 \<or> cb = 8 \<Longrightarrow> dec_pair ` set (leaves (sbook cb)) = {0..7} \<times> {0..7}"
  "cb = 9 \<or> cb = 10 \<Longrightarrow> dec_pair ` set (leaves (sbook cb)) = {0..12} \<times> {0..12}"
  "cb = 11 \<Longrightarrow> dec_esc ` set (leaves (sbook cb)) = {0..16} \<times> {0..16}"
  by (elim disjE, simp_all add: sbook_def sinfo_def book_facts)+

section \<open>The encoders\<close>

definition quad_bits :: "int \<Rightarrow> int \<times> int \<times> int \<times> int \<Rightarrow> bool list" where
  "quad_bits cb = (\<lambda>(w, x, y, z).
     if cb = 1 \<or> cb = 2 then book_encode dec_quad (sbook cb) (w, x, y, z)
     else book_encode dec_quad (sbook cb) (\<bar>w\<bar>, \<bar>x\<bar>, \<bar>y\<bar>, \<bar>z\<bar>) @ sign_bit w @ sign_bit x @ sign_bit y @ sign_bit z)"

definition pair_bits :: "int \<Rightarrow> int \<times> int \<Rightarrow> bool list" where
  "pair_bits cb = (\<lambda>(y, z).
     if cb = 5 \<or> cb = 6 then book_encode dec_pair (sbook cb) (y, z)
     else if cb = 11 then book_encode dec_esc (sbook cb) (min 16 \<bar>y\<bar>, min 16 \<bar>z\<bar>) @ sign_bit y @ sign_bit z
        @ esc_bits \<bar>y\<bar> @ esc_bits \<bar>z\<bar>
     else book_encode dec_pair (sbook cb) (\<bar>y\<bar>, \<bar>z\<bar>) @ sign_bit y @ sign_bit z)"

definition good_quad :: "int \<Rightarrow> int \<times> int \<times> int \<times> int \<Rightarrow> bool" where
  "good_quad cb q = list_all (\<lambda>v. \<bar>v\<bar> \<le> lav cb) (quad_list q)"

definition good_pair :: "int \<Rightarrow> int \<times> int \<Rightarrow> bool" where
  "good_pair cb q = list_all (\<lambda>v. \<bar>v\<bar> \<le> lav cb) (pair_list q)"

lemma sign_bit_length: "length (sign_bit v) \<le> 1"
  by (simp add: sign_bit_def)

lemma skip_code:
  assumes "bs_inv s" "bsbits s = c @ r" "length c \<le> 32" "n = int (length c)"
  shows "bs_inv (BitStreamSkip s n)" "bsbits (BitStreamSkip s n) = r"
  using assms by (simp_all add: skip_inv skip_bits)

lemma signed_quad_enc:
  assumes cb: "cb = 1 \<or> cb = 2" and q: "good_quad cb q" and s: "bs_inv s" "bsbits s = quad_bits cb q @ r"
  shows "\<exists>s'. signed_quad (sinfo cb) s = Some (q, s') \<and> bs_inv s' \<and> bsbits s' = r"
proof -
  note b = sbook [of cb]
  let ?c = "book_encode dec_quad (sbook cb) q"
  obtain w x y z where wxyz: "q = (w, x, y, z)" by (cases q)
  have "q \<in> dec_quad ` set (leaves (sbook cb))"
    using cb q by (auto simp: sbook_quads(1) wxyz good_quad_def quad_list_def lav_def abs_le_iff)
  from book_encode_code [OF this] obtain v where v: "(?c, v) \<in> set (tree_codes (sbook cb))" "dec_quad v = q" by blast
  have bits: "bsbits s = ?c @ [] @ r" using s cb by (auto simp: quad_bits_def wxyz)
  obtain cache k where h: "huff_code (sinfo cb) (maxBits (sinfo cb)) s = Some (cache, k, v)"
    "k + GET_BITS v = int (length ?c)"
    using code_then_signs [OF s(1) bits b(1,2) v(1), of "maxBits (sinfo cb)"] b cb by auto
  have "length ?c \<le> 32" using tree_code_length [OF v(1)] b cb by auto
  with h v skip_code [OF s(1), of ?c r "k + GET_BITS v"] bits show ?thesis
    by (auto simp: signed_quad_def dec_quad_def)
qed

lemma signed_pair_enc:
  assumes cb: "cb = 5 \<or> cb = 6" and q: "good_pair cb q" and s: "bs_inv s" "bsbits s = pair_bits cb q @ r"
  shows "\<exists>s'. signed_pair (sinfo cb) s = Some (q, s') \<and> bs_inv s' \<and> bsbits s' = r"
proof -
  note b = sbook [of cb]
  let ?c = "book_encode dec_pair (sbook cb) q"
  obtain y z where yz: "q = (y, z)" by (cases q)
  have "q \<in> dec_pair ` set (leaves (sbook cb))"
    using cb q by (auto simp: sbook_pairs(1) yz good_pair_def pair_list_def lav_def abs_le_iff)
  from book_encode_code [OF this] obtain v where v: "(?c, v) \<in> set (tree_codes (sbook cb))" "dec_pair v = q" by blast
  have bits: "bsbits s = ?c @ [] @ r" using s cb by (auto simp: pair_bits_def yz)
  obtain cache k where h: "huff_code (sinfo cb) (maxBits (sinfo cb)) s = Some (cache, k, v)"
    "k + GET_BITS v = int (length ?c)"
    using code_then_signs [OF s(1) bits b(1,2) v(1), of "maxBits (sinfo cb)"] b cb by auto
  have "length ?c \<le> 32" using tree_code_length [OF v(1)] b cb by auto
  with h v skip_code [OF s(1), of ?c r "k + GET_BITS v"] bits show ?thesis
    by (auto simp: signed_pair_def dec_pair_def)
qed

lemma unsigned_quad_enc:
  assumes cb: "cb = 3 \<or> cb = 4" and q: "good_quad cb q" and s: "bs_inv s" "bsbits s = quad_bits cb q @ r"
  shows "\<exists>s'. unsigned_quad (sinfo cb) s = Some (q, s') \<and> bs_inv s' \<and> bsbits s' = r"
proof -
  note b = sbook [of cb]
  obtain w x y z where wxyz: "q = (w, x, y, z)" by (cases q)
  let ?c = "book_encode dec_quad (sbook cb) (\<bar>w\<bar>, \<bar>x\<bar>, \<bar>y\<bar>, \<bar>z\<bar>)"
  let ?sg = "sign_bit w @ sign_bit x @ sign_bit y @ sign_bit z"
  have "(\<bar>w\<bar>, \<bar>x\<bar>, \<bar>y\<bar>, \<bar>z\<bar>) \<in> dec_quad ` set (leaves (sbook cb))"
    using cb q by (auto simp: sbook_quads(2) wxyz good_quad_def quad_list_def lav_def)
  from book_encode_code [OF this] obtain v where v: "(?c, v) \<in> set (tree_codes (sbook cb))"
    "dec_quad v = (\<bar>w\<bar>, \<bar>x\<bar>, \<bar>y\<bar>, \<bar>z\<bar>)" by blast
  have bits: "bsbits s = ?c @ ?sg @ r" using s cb by (auto simp: quad_bits_def wxyz)
  have sg: "length ?sg \<le> 4"
    using sign_bit_length [of w] sign_bit_length [of x] sign_bit_length [of y] sign_bit_length [of z] by simp
  obtain cache k where h: "huff_code (sinfo cb) (maxBits (sinfo cb) + 4) s = Some (cache, k, v)"
    "k + GET_BITS v = int (length ?c)" "pre (shl32 cache (GET_BITS v)) ?sg"
    using code_then_signs [OF s(1) bits b(1,2) v(1), of "maxBits (sinfo cb) + 4"] b cb sg by auto
  obtain c1 where t1: "take_sign \<bar>w\<bar> (shl32 cache (GET_BITS v)) (k + GET_BITS v)
      = (w, c1, k + GET_BITS v + int (length (sign_bit w)))" "pre c1 (sign_bit x @ sign_bit y @ sign_bit z)"
    using take_sign_pre [OF h(3) refl] by blast
  obtain c2 where t2: "take_sign \<bar>x\<bar> c1 (k + GET_BITS v + int (length (sign_bit w)))
      = (x, c2, k + GET_BITS v + int (length (sign_bit w)) + int (length (sign_bit x)))" "pre c2 (sign_bit y @ sign_bit z)"
    using take_sign_pre [OF t1(2) refl] by blast
  obtain c3 where t3: "take_sign \<bar>y\<bar> c2 (k + GET_BITS v + int (length (sign_bit w)) + int (length (sign_bit x)))
      = (y, c3, k + GET_BITS v + int (length (sign_bit w)) + int (length (sign_bit x)) + int (length (sign_bit y)))"
    "pre c3 (sign_bit z @ [])"
    using take_sign_pre [OF t2(2) refl] by auto
  obtain c4 where t4: "take_sign \<bar>z\<bar> c3 (k + GET_BITS v + int (length (sign_bit w)) + int (length (sign_bit x)) + int (length (sign_bit y)))
      = (z, c4, int (length (?c @ ?sg)))"
    using take_sign_pre [OF t3(2), of "int (length (?c @ ?sg))"] h(2) by (auto simp: add.assoc)
  have "length (?c @ ?sg) \<le> 32" using tree_code_length [OF v(1)] b cb sg by auto
  with skip_code [OF s(1), of "?c @ ?sg" r "int (length (?c @ ?sg))"] bits h(1) v(2) show ?thesis
    by (auto simp: unsigned_quad_def dec_quad_def Let_def t1(1) t2(1) t3(1) t4 wxyz)
qed

lemma unsigned_pair_enc:
  assumes cb: "cb = 7 \<or> cb = 8 \<or> cb = 9 \<or> cb = 10" and q: "good_pair cb q"
    and s: "bs_inv s" "bsbits s = pair_bits cb q @ r"
  shows "\<exists>s'. unsigned_pair (sinfo cb) s = Some (q, s') \<and> bs_inv s' \<and> bsbits s' = r"
proof -
  note b = sbook [of cb]
  obtain y z where yz: "q = (y, z)" by (cases q)
  let ?c = "book_encode dec_pair (sbook cb) (\<bar>y\<bar>, \<bar>z\<bar>)"
  let ?sg = "sign_bit y @ sign_bit z"
  have "(\<bar>y\<bar>, \<bar>z\<bar>) \<in> dec_pair ` set (leaves (sbook cb))"
    using cb q by (auto simp: sbook_pairs(2,3) yz good_pair_def pair_list_def lav_def)
  from book_encode_code [OF this] obtain v where v: "(?c, v) \<in> set (tree_codes (sbook cb))"
    "dec_pair v = (\<bar>y\<bar>, \<bar>z\<bar>)" by blast
  have bits: "bsbits s = ?c @ ?sg @ r" using s cb by (auto simp: pair_bits_def yz)
  have sg: "length ?sg \<le> 2" using sign_bit_length [of y] sign_bit_length [of z] by simp
  obtain cache k where h: "huff_code (sinfo cb) (maxBits (sinfo cb) + 2) s = Some (cache, k, v)"
    "k + GET_BITS v = int (length ?c)" "pre (shl32 cache (GET_BITS v)) ?sg"
    using code_then_signs [OF s(1) bits b(1,2) v(1), of "maxBits (sinfo cb) + 2"] b cb sg by auto
  obtain c1 where t1: "take_sign \<bar>y\<bar> (shl32 cache (GET_BITS v)) (k + GET_BITS v)
      = (y, c1, k + GET_BITS v + int (length (sign_bit y)))" "pre c1 (sign_bit z @ [])"
    using take_sign_pre [OF h(3) refl] by auto
  obtain c2 where t2: "take_sign \<bar>z\<bar> c1 (k + GET_BITS v + int (length (sign_bit y)))
      = (z, c2, int (length (?c @ ?sg)))"
    using take_sign_pre [OF t1(2), of "int (length (?c @ ?sg))"] h(2) by auto
  have "length (?c @ ?sg) \<le> 32" using tree_code_length [OF v(1)] b cb sg by auto
  with skip_code [OF s(1), of "?c @ ?sg" r "int (length (?c @ ?sg))"] bits h(1) v(2) show ?thesis
    by (auto simp: unsigned_pair_def dec_pair_def Let_def t1(1) t2 yz)
qed

lemma esc_pair_enc:
  assumes cb: "cb = 11" and q: "good_pair cb q" and s: "bs_inv s" "bsbits s = pair_bits cb q @ r"
  shows "\<exists>s'. esc_pair (sinfo cb) s = Some (q, s') \<and> bs_inv s' \<and> bsbits s' = r"
proof -
  note b = sbook [of cb]
  obtain y z where yz: "q = (y, z)" by (cases q)
  have mag: "0 \<le> \<bar>y\<bar>" "\<bar>y\<bar> < 2 ^ 31" "0 \<le> \<bar>z\<bar>" "\<bar>z\<bar> < 2 ^ 31"
    using q cb by (auto simp: good_pair_def pair_list_def lav_def yz)
  let ?c = "book_encode dec_esc (sbook cb) (min 16 \<bar>y\<bar>, min 16 \<bar>z\<bar>)"
  let ?sg = "sign_bit y @ sign_bit z"
  have "(min 16 \<bar>y\<bar>, min 16 \<bar>z\<bar>) \<in> dec_esc ` set (leaves (sbook cb))"
    using cb by (auto simp: sbook_pairs(4))
  from book_encode_code [OF this] obtain v where v: "(?c, v) \<in> set (tree_codes (sbook cb))"
    "dec_esc v = (min 16 \<bar>y\<bar>, min 16 \<bar>z\<bar>)" by blast
  have bits: "bsbits s = ?c @ ?sg @ esc_bits \<bar>y\<bar> @ esc_bits \<bar>z\<bar> @ r" using s cb by (auto simp: pair_bits_def yz)
  have sg: "length ?sg \<le> 2" using sign_bit_length [of y] sign_bit_length [of z] by simp
  obtain cache k where h: "huff_code (sinfo cb) (maxBits (sinfo cb) + 2) s = Some (cache, k, v)"
    "k + GET_BITS v = int (length ?c)" "pre (shl32 cache (GET_BITS v)) ?sg"
    using code_then_signs [OF s(1) bits b(1,2) v(1), of "maxBits (sinfo cb) + 2"] b cb sg by auto
  let ?n = "int (length (?c @ ?sg))"
  have l: "length (?c @ ?sg) \<le> 32" using tree_code_length [OF v(1)] b cb sg by auto
  note sk = skip_code [OF s(1) _ l refl, of "esc_bits \<bar>y\<bar> @ esc_bits \<bar>z\<bar> @ r", simplified bits append_assoc, OF refl]
  obtain s1 where e1: "escape (min 16 \<bar>y\<bar>) (BitStreamSkip s ?n) = Some (\<bar>y\<bar>, s1)" "bs_inv s1" "bsbits s1 = esc_bits \<bar>z\<bar> @ r"
    using escape_enc [OF sk mag(1,2)] by blast
  obtain s2 where e2: "escape (min 16 \<bar>z\<bar>) s1 = Some (\<bar>z\<bar>, s2)" "bs_inv s2" "bsbits s2 = r"
    using escape_enc [OF e1(2,3) mag(3,4)] by blast
  obtain c1 where t1: "take_sign \<bar>y\<bar> (shl32 cache (GET_BITS v)) 0 = (y, c1, 0 + int (length (sign_bit y)))" "pre c1 (sign_bit z @ [])"
    using take_sign_pre [OF h(3) refl, of 0] by auto
  obtain c2 where t2: "take_sign \<bar>z\<bar> c1 0 = (z, c2, 0 + int (length (sign_bit z)))"
    using take_sign_pre [OF t1(2) refl, of 0] by blast
  have gy: "GET_ESC_Y v = min 16 \<bar>y\<bar>" "GET_ESC_Z v = min 16 \<bar>z\<bar>" using v(2) by (simp_all add: dec_esc_def)
  have zero: "min 16 \<bar>y\<bar> \<noteq> 0 \<longleftrightarrow> y \<noteq> 0" "min 16 \<bar>z\<bar> \<noteq> 0 \<longleftrightarrow> z \<noteq> 0" by auto
  have n: "(if z \<noteq> 0 then (if y \<noteq> 0 then k + GET_BITS v + 1 else k + GET_BITS v) + 1
      else (if y \<noteq> 0 then k + GET_BITS v + 1 else k + GET_BITS v)) = ?n"
    using h(2) by (simp add: sign_bit_def)
  show ?thesis
    unfolding esc_pair_def yz
    by (simp only: h(1) bind.bind_lunit prod.case Let_def gy zero n e1(1) e2(1))
      (use t1(1) t2 e2 in \<open>auto simp: take_sign_def split: if_splits\<close>)
qed

section \<open>Bands and channels\<close>

interpretation signed_quads: codec "signed_quad (sinfo cb)" "quad_bits cb" "\<lambda>q. (cb = 1 \<or> cb = 2) \<and> good_quad cb q" for cb
  by unfold_locales (blast intro: signed_quad_enc)

interpretation unsigned_quads: codec "unsigned_quad (sinfo cb)" "quad_bits cb" "\<lambda>q. (cb = 3 \<or> cb = 4) \<and> good_quad cb q" for cb
  by unfold_locales (blast intro: unsigned_quad_enc)

interpretation signed_pairs: codec "signed_pair (sinfo cb)" "pair_bits cb" "\<lambda>q. (cb = 5 \<or> cb = 6) \<and> good_pair cb q" for cb
  by unfold_locales (blast intro: signed_pair_enc)

interpretation unsigned_pairs: codec "unsigned_pair (sinfo cb)" "pair_bits cb"
    "\<lambda>q. (cb = 7 \<or> cb = 8 \<or> cb = 9 \<or> cb = 10) \<and> good_pair cb q" for cb
  by unfold_locales (blast intro: unsigned_pair_enc)

interpretation esc_pairs: codec "esc_pair (sinfo cb)" "pair_bits cb" "\<lambda>q. cb = 11 \<and> good_pair cb q" for cb
  by unfold_locales (blast intro: esc_pair_enc)

fun quads :: "int list \<Rightarrow> (int \<times> int \<times> int \<times> int) list" where
  "quads (w # x # y # z # vs) = (w, x, y, z) # quads vs"
| "quads vs = []"

fun pairs :: "int list \<Rightarrow> (int \<times> int) list" where
  "pairs (y # z # vs) = (y, z) # pairs vs"
| "pairs vs = []"

text \<open>The bits of a band.\<close>

definition band_bits :: "int \<Rightarrow> int list \<Rightarrow> bool list" where
  "band_bits cb vs =
     (if 1 \<le> cb \<and> cb \<le> 4 then concat (map (quad_bits cb) (quads vs))
      else if 5 \<le> cb \<and> cb \<le> 11 then concat (map (pair_bits cb) (pairs vs))
      else [])"

definition good_band :: "int \<Rightarrow> int list \<Rightarrow> bool" where
  "good_band cb vs = (length vs mod 4 = 0
     \<and> (if 1 \<le> cb \<and> cb \<le> 11 then list_all (\<lambda>v. \<bar>v\<bar> \<le> lav cb) vs else list_all (\<lambda>v. v = 0) vs))"

lemma quads_props:
  "length vs mod 4 = 0 \<Longrightarrow> concat (map quad_list (quads vs)) = vs \<and> length (quads vs) = length vs div 4"
proof (induction vs rule: quads.induct)
  case (1 w x y z vs)
  then show ?case by (simp add: quad_list_def)
qed simp_all

lemma pairs_props:
  "length vs mod 2 = 0 \<Longrightarrow> concat (map pair_list (pairs vs)) = vs \<and> length (pairs vs) = length vs div 2"
  by (induction vs rule: pairs.induct) (simp_all add: pair_list_def)

lemma good_quads:
  "list_all (\<lambda>v. \<bar>v\<bar> \<le> lav cb) vs \<Longrightarrow> list_all (good_quad cb) (quads vs)"
  by (induction vs rule: quads.induct) (simp_all add: good_quad_def quad_list_def)

lemma good_pairs:
  "list_all (\<lambda>v. \<bar>v\<bar> \<le> lav cb) vs \<Longrightarrow> list_all (good_pair cb) (pairs vs)"
  by (induction vs rule: pairs.induct) (simp_all add: good_pair_def pair_list_def)

lemma list_all_const: "list_all (\<lambda>q. A \<and> P q) xs \<longleftrightarrow> xs = [] \<or> A \<and> list_all P xs"
  by (induction xs) auto

lemma all_eq_replicate: "list_all (\<lambda>v. v = c) vs \<Longrightarrow> replicate (length vs) c = vs"
  by (induction vs) auto

lemma band_enc:
  assumes "good_band cb vs" "bs_inv s" "bsbits s = band_bits cb vs @ r"
  shows "\<exists>s'. band_vals cb (length vs) s = Some (vs, s') \<and> bs_inv s' \<and> bsbits s' = r"
proof -
  have m4: "length vs mod 4 = 0" and m2: "length vs mod 2 = 0"
    using assms(1) by (auto simp: good_band_def)
  note q = quads_props [OF m4] and p = pairs_props [OF m2]
  have l: "list_all (\<lambda>v. \<bar>v\<bar> \<le> lav cb) vs" if "1 \<le> cb" "cb \<le> 11"
    using assms(1) that by (simp add: good_band_def)
  have "1 \<le> cb \<and> cb \<le> 11 \<Longrightarrow> cb = 1 \<or> cb = 2 \<or> cb = 3 \<or> cb = 4 \<or> cb = 5 \<or> cb = 6 \<or> cb = 7 \<or> cb = 8 \<or> cb = 9
      \<or> cb = 10 \<or> cb = 11" by presburger
  then consider "cb = 1 \<or> cb = 2" | "cb = 3 \<or> cb = 4" | "cb = 5 \<or> cb = 6" | "cb = 7 \<or> cb = 8 \<or> cb = 9 \<or> cb = 10"
    | "cb = 11" | "\<not> (1 \<le> cb \<and> cb \<le> 11)" by blast
  then show ?thesis
  proof cases
    case 1
    then have g: "list_all (\<lambda>q. (cb = 1 \<or> cb = 2) \<and> good_quad cb q) (quads vs)"
      using l good_quads by (auto simp: list_all_const)
    from 1 assms(3) have "bsbits s = concat (map (quad_bits cb) (quads vs)) @ r" by (auto simp: band_bits_def)
    from signed_quads.run_enc [OF g assms(2) this] 1 q show ?thesis
      by (auto simp: band_vals_def quads_of_def sinfo_def Let_def)
  next
    case 2
    then have g: "list_all (\<lambda>q. (cb = 3 \<or> cb = 4) \<and> good_quad cb q) (quads vs)"
      using l good_quads by (auto simp: list_all_const)
    from 2 assms(3) have "bsbits s = concat (map (quad_bits cb) (quads vs)) @ r" by (auto simp: band_bits_def)
    from unsigned_quads.run_enc [OF g assms(2) this] 2 q show ?thesis
      by (auto simp: band_vals_def quads_of_def sinfo_def Let_def)
  next
    case 3
    then have g: "list_all (\<lambda>q. (cb = 5 \<or> cb = 6) \<and> good_pair cb q) (pairs vs)"
      using l good_pairs by (auto simp: list_all_const)
    from 3 assms(3) have "bsbits s = concat (map (pair_bits cb) (pairs vs)) @ r" by (auto simp: band_bits_def)
    from signed_pairs.run_enc [OF g assms(2) this] 3 p show ?thesis
      by (auto simp: band_vals_def pairs_of_def sinfo_def Let_def)
  next
    case 4
    then have g: "list_all (\<lambda>q. (cb = 7 \<or> cb = 8 \<or> cb = 9 \<or> cb = 10) \<and> good_pair cb q) (pairs vs)"
      using l good_pairs by (auto simp: list_all_const)
    from 4 assms(3) have "bsbits s = concat (map (pair_bits cb) (pairs vs)) @ r" by (auto simp: band_bits_def)
    from unsigned_pairs.run_enc [OF g assms(2) this] 4 p show ?thesis
      by (auto simp: band_vals_def pairs_of_def sinfo_def Let_def)
  next
    case 5
    then have g: "list_all (\<lambda>q. cb = 11 \<and> good_pair cb q) (pairs vs)"
      using l good_pairs by (auto simp: list_all_const)
    from 5 assms(3) have "bsbits s = concat (map (pair_bits cb) (pairs vs)) @ r" by (auto simp: band_bits_def)
    from esc_pairs.run_enc [OF g assms(2) this] 5 p show ?thesis
      by (auto simp: band_vals_def pairs_of_def sinfo_def Let_def)
  next
    case 6
    then have "band_bits cb vs = []" "band_vals cb (length vs) s = Some (replicate (length vs) 0, s)"
      by (auto simp: band_bits_def band_vals_def)
    moreover have "replicate (length vs) 0 = vs"
      using assms(1) 6 by (intro all_eq_replicate) (auto simp: good_band_def)
    ultimately show ?thesis using assms(2,3) by simp
  qed
qed

lemma bands_enc:
  assumes "list_all2 (\<lambda>(cb, n) vs. good_band cb vs \<and> length vs = n) bands vss"
    "bs_inv s" "bsbits s = concat (map2 (\<lambda>(cb, n) vs. band_bits cb vs) bands vss) @ r"
  shows "\<exists>s'. bands_run bands s = Some (concat vss, s') \<and> bs_inv s' \<and> bsbits s' = r"
  using assms
proof (induction bands vss arbitrary: s rule: list_all2_induct)
  case (Cons b bands vs vss)
  obtain cb n where b: "b = (cb, n)" by (cases b)
  obtain s1 where "band_vals cb (length vs) s = Some (vs, s1)" "bs_inv s1"
    "bsbits s1 = concat (map2 (\<lambda>(cb, n) vs. band_bits cb vs) bands vss) @ r"
    using band_enc [of cb vs s] Cons.prems Cons.hyps(1) b by auto
  with Cons.IH [of s1] Cons.hyps(1) b show ?case by auto
qed simp

text \<open>A channel of long windows: the bits of its bands, and its coefficients.\<close>

definition long_bands_of :: "int \<Rightarrow> ICS_Data \<Rightarrow> int list \<Rightarrow> (int \<times> nat) list" where
  "long_bands_of idx ics cbs = band_list sfBandTabLong (sfBandTabLongOffset ! nat idx) cbs 0 (nat (max_sfb ics))"

definition channel_bits :: "(int \<times> nat) list \<Rightarrow> int list list \<Rightarrow> bool list" where
  "channel_bits bands vss = concat (map2 (\<lambda>(cb, n) vs. band_bits cb vs) bands vss)"

definition good_channel :: "(int \<times> nat) list \<Rightarrow> int list list \<Rightarrow> bool" where
  "good_channel bands vss = list_all2 (\<lambda>(cb, n) vs. good_band cb vs \<and> length vs = n) bands vss"

lemma long_coefs_enc:
  assumes "good_channel (long_bands_of idx ics cbs) vss" "bs_inv s"
    "bsbits s = channel_bits (long_bands_of idx ics cbs) vss @ r"
  shows "\<exists>s'. long_coefs idx ics cbs s = Some (concat vss @ replicate (1024 - length (concat vss)) 0, s')
     \<and> bs_inv s' \<and> bsbits s' = r"
  using bands_enc [of "long_bands_of idx ics cbs" vss s r] assms
  by (auto simp: long_coefs_def long_bands_of_def good_channel_def channel_bits_def)

section \<open>Completeness of the books\<close>

text \<open>The tuple an entry of book \<open>cb\<close> stands for, and the tuples the standard gives the book.\<close>

definition sym :: "int \<Rightarrow> int \<Rightarrow> int list" where
  "sym cb v = (if cb \<le> 4 then quad_list (dec_quad v) else if cb \<le> 10 then pair_list (dec_pair v) else pair_list (dec_esc v))"

definition alphabet :: "int \<Rightarrow> int list set" where
  "alphabet cb =
     (let dim = (if cb \<le> 4 then 4 else 2);
          lo = [- 1, - 1, 0, 0, - 4, - 4, 0, 0, 0, 0, 0] ! nat (cb - 1);
          hi = [1, 1, 2, 2, 4, 4, 7, 7, 12, 12, 16] ! nat (cb - 1) in
      {xs. length xs = dim \<and> (\<forall>x \<in> set xs. lo \<le> x \<and> x \<le> hi)})"

definition words_for :: "int \<Rightarrow> int list \<Rightarrow> bool list set" where
  "words_for cb xs = {c. \<exists>v. (c, v) \<in> set (tree_codes (sbook cb)) \<and> sym cb v = xs}"

lemma unique_code:
  assumes "distinct (map dec (leaves t))" "x \<in> dec ` set (leaves t)" "depth t \<le> n"
  shows "\<exists>c. {c. \<exists>v. (c, v) \<in> set (tree_codes t) \<and> dec v = x} = {c} \<and> length c \<le> n"
proof -
  from book_encode_code [OF assms(2)] obtain v where
    v: "(book_encode dec t x, v) \<in> set (tree_codes t)" "dec v = x" by blast
  have "distinct (map (\<lambda>p. dec (snd p)) (tree_codes t))"
    using assms(1) by (simp add: tree_codes_leaves [symmetric] comp_def)
  then have inj: "inj_on (\<lambda>p. dec (snd p)) (set (tree_codes t))" by (simp add: distinct_map)
  have "c = book_encode dec t x" if "(c, u) \<in> set (tree_codes t)" "dec u = x" for c u
    using inj_onD [OF inj _ that(1) v(1)] that(2) v(2) by simp
  with v have "{c. \<exists>v. (c, v) \<in> set (tree_codes t) \<and> dec v = x} = {book_encode dec t x}" by blast
  moreover have "length (book_encode dec t x) \<le> n" using tree_code_length [OF v(1)] assms(3) by simp
  ultimately show ?thesis by blast
qed

lemma quad_list_inj: "quad_list q = quad_list q' \<longleftrightarrow> q = q'"
  by (cases q; cases q') (simp add: quad_list_def)

lemma pair_list_inj: "pair_list q = pair_list q' \<longleftrightarrow> q = q'"
  by (cases q; cases q') (simp add: pair_list_def)

lemma sbook_distinct:
  "cb \<in> {1..4} \<Longrightarrow> distinct (map dec_quad (leaves (sbook cb)))"
  "cb \<in> {5..10} \<Longrightarrow> distinct (map dec_pair (leaves (sbook cb)))"
  "distinct (map dec_esc (leaves (sbook 11)))"
proof -
  show "distinct (map dec_quad (leaves (sbook cb)))" if "cb \<in> {1..4}"
  proof -
    from that have "cb = 1 \<or> cb = 2 \<or> cb = 3 \<or> cb = 4" by simp presburger
    then show ?thesis by (elim disjE) (simp_all add: sbook_def sinfo_def book_facts)
  qed
  show "distinct (map dec_pair (leaves (sbook cb)))" if "cb \<in> {5..10}"
  proof -
    from that have "cb = 5 \<or> cb = 6 \<or> cb = 7 \<or> cb = 8 \<or> cb = 9 \<or> cb = 10" by simp presburger
    then show ?thesis by (elim disjE) (simp_all add: sbook_def sinfo_def book_facts)
  qed
  show "distinct (map dec_esc (leaves (sbook 11)))" by (simp add: sbook_def sinfo_def book_facts)
qed

lemma books_words:
  assumes "cb \<in> {1..11}" "xs \<in> alphabet cb"
  shows "\<exists>c. words_for cb xs = {c} \<and> length c \<le> maxBits (sinfo cb)"
proof -
  note d = sbook(2) [OF assms(1)]
  have cases: "cb \<in> {1..4} \<or> cb \<in> {5..10} \<or> cb = 11" using assms(1) by auto
  then show ?thesis
  proof (elim disjE)
    assume cb: "cb \<in> {1..4}"
    then have "length xs = 4" using assms(2) by (auto simp: alphabet_def Let_def)
    then obtain w x y z where xs: "xs = quad_list (w, x, y, z)"
      by (auto simp: quad_list_def numeral_eq_Suc length_Suc_conv)
    have "(cb = 1 \<or> cb = 2) \<or> (cb = 3 \<or> cb = 4)" using cb by auto
    then have "(w, x, y, z) \<in> dec_quad ` set (leaves (sbook cb))"
      using assms(2) by (elim disjE) (auto simp: sbook_quads xs quad_list_def alphabet_def Let_def)
    from unique_code [OF sbook_distinct(1) [OF cb] this d] cb show ?thesis
      by (simp add: words_for_def sym_def xs quad_list_inj)
  next
    assume cb: "cb \<in> {5..10}"
    then have "length xs = 2" using assms(2) by (auto simp: alphabet_def Let_def)
    then obtain y z where xs: "xs = pair_list (y, z)"
      by (auto simp: pair_list_def numeral_eq_Suc length_Suc_conv)
    have "(cb = 5 \<or> cb = 6) \<or> (cb = 7 \<or> cb = 8) \<or> (cb = 9 \<or> cb = 10)" using cb by auto
    then have "(y, z) \<in> dec_pair ` set (leaves (sbook cb))"
      using assms(2) by (elim disjE) (auto simp: sbook_pairs xs pair_list_def alphabet_def Let_def)
    from unique_code [OF sbook_distinct(2) [OF cb] this d] cb show ?thesis
      by (simp add: words_for_def sym_def xs pair_list_inj)
  next
    assume cb: "cb = 11"
    then have "length xs = 2" using assms(2) by (auto simp: alphabet_def Let_def)
    then obtain y z where xs: "xs = pair_list (y, z)"
      by (auto simp: pair_list_def numeral_eq_Suc length_Suc_conv)
    have "(y, z) \<in> dec_esc ` set (leaves (sbook 11))"
      using assms(2) cb by (auto simp: sbook_pairs xs pair_list_def alphabet_def Let_def)
    from unique_code [OF sbook_distinct(3) this] d cb show ?thesis
      by (simp add: words_for_def sym_def xs pair_list_inj)
  qed
qed

section \<open>Scale factor differences\<close>

lemma scale_code:
  assumes "v \<in> {- 60..60}" "bs_inv s" "bsbits s = book_encode GET_VALUE (the_book huffTabScaleInfo) v @ r"
  shows "\<exists>s'. DecodeHuffmanData huffTabScaleInfo s = Some (v, s') \<and> bs_inv s' \<and> bsbits s' = r"
proof -
  note b = book_okD [OF book_scale distinct_upto, unfolded set_upto]
  let ?t = "the_book huffTabScaleInfo" and ?c = "book_encode GET_VALUE (the_book huffTabScaleInfo) v"
  have m: "maxBits huffTabScaleInfo = 19" by (simp add: huffTabScaleInfo_def)
  have "v \<in> GET_VALUE ` set (leaves ?t)" unfolding b(3) by (rule assms(1))
  from book_encode_code [OF this] obtain u where u: "(?c, u) \<in> set (tree_codes ?t)" "GET_VALUE u = v" by blast
  have n: "tree_next ?t s = (length ?c, u)" by (rule tree_next_code [OF assms(2,3) u(1)])
  have "length ?c \<le> 32" using tree_code_length [OF u(1)] b(2) m by simp
  with n u skip_code [OF assms(2,3)] DecodeHuffmanData_run [OF assms(2) b(1,2)] m show ?thesis by simp
qed

text \<open>Reading a difference always succeeds, and its value is in range.\<close>

lemma scale_range:
  assumes "bs_inv s"
  shows "\<exists>v k. DecodeHuffmanData huffTabScaleInfo s = Some (v, BitStreamSkip s k) \<and> 0 \<le> k \<and> k \<le> 19 \<and> - 60 \<le> v \<and> v \<le> 60"
proof -
  note b = book_okD [OF book_scale distinct_upto, unfolded set_upto]
  let ?t = "the_book huffTabScaleInfo"
  have m: "maxBits huffTabScaleInfo = 19" by (simp add: huffTabScaleInfo_def)
  have "GET_VALUE (snd (tree_next ?t s)) \<in> GET_VALUE ` set (leaves ?t)" using tree_next_leaf by blast
  then have "- 60 \<le> GET_VALUE (snd (tree_next ?t s)) \<and> GET_VALUE (snd (tree_next ?t s)) \<le> 60" unfolding b(3) by simp
  moreover have "int (fst (tree_next ?t s)) \<le> 19" using tree_next_depth [of ?t s] b(2) m by simp
  ultimately show ?thesis
    using DecodeHuffmanData_run [OF assms b(1,2)] m by (intro exI conjI) auto
qed

end
