(* ===== verification/Checked.thy ===== *)
theory Checked
  imports BitStream
begin

text \<open>
  Total correctness of checked operations: \<open>wp m Q\<close> says that \<open>m\<close> has a defined result and that the
  result satisfies \<open>Q\<close>. The collection \<open>option_run\<close> computes it along the operations of the model.
\<close>

definition wp :: "'a option \<Rightarrow> ('a \<Rightarrow> bool) \<Rightarrow> bool" where
  "wp m Q = (case m of None \<Rightarrow> False | Some x \<Rightarrow> Q x)"

lemma wp_Some [simp, option_run]: "wp (Some x) Q = Q x"
  and wp_None [simp, option_run]: "wp None Q = False"
  and wp_bind [simp, option_run]: "wp (Option.bind m f) Q = wp m (\<lambda>x. wp (f x) Q)"
  by (simp_all add: wp_def split: Option.bind_splits)

lemma wp_if [simp, option_run]: "wp (if b then m else m') Q = (if b then wp m Q else wp m' Q)"
  by simp

lemma wp_prod [simp, option_run]: "wp (case p of (x, y) \<Rightarrow> f x y) Q = wp (f (fst p) (snd p)) Q"
  by (simp add: split_beta)

lemma wp_rd [simp, option_run]: "0 \<le> i \<Longrightarrow> i < int (length xs) \<Longrightarrow> wp (rd xs i) Q = Q (xs ! nat i)"
  by (simp add: rd_Some)

lemma wp_wr [simp, option_run]: "0 \<le> i \<Longrightarrow> i < int (length xs) \<Longrightarrow> wp (wr xs i v) Q = Q (xs[nat i := v])"
  by (simp add: wr_Some)

lemma wp_mono: "wp m P \<Longrightarrow> (\<And>x. P x \<Longrightarrow> Q x) \<Longrightarrow> wp m Q"
  by (cases m) auto

lemma wp_conj: "wp m P \<Longrightarrow> wp m Q \<Longrightarrow> wp m (\<lambda>x. P x \<and> Q x)"
  by (cases m) auto

lemma wpD: "wp m Q \<Longrightarrow> \<exists>x. m = Some x \<and> Q x"
  by (cases m) auto

lemma wp_iff: "wp m Q \<longleftrightarrow> (\<exists>x. m = Some x \<and> Q x)"
  by (cases m) auto

section \<open>Reads in a run\<close>

lemma get_inv_n [simp]: "bs_inv s \<Longrightarrow> 0 < n \<Longrightarrow> n \<le> 32 \<Longrightarrow> bs_inv (snd (BitStreamGetBits s n))"
  by (simp add: bs_get)

lemma get_range_n: "bs_inv s \<Longrightarrow> 0 < n \<Longrightarrow> n \<le> 32 \<Longrightarrow>
    0 \<le> fst (BitStreamGetBits s n) \<and> fst (BitStreamGetBits s n) < 2 ^ n"
  using bs.get_range by blast

lemma get_u8 [simp]: "bs_inv s \<Longrightarrow> 0 < n \<Longrightarrow> n \<le> 8 \<Longrightarrow> u8 (fst (BitStreamGetBits s n)) = fst (BitStreamGetBits s n)"
proof -
  assume a: "bs_inv s" "0 < n" "n \<le> 8"
  have "(2 :: int) ^ n \<le> 2 ^ 8" using a(3) by (intro power_increasing) auto
  with get_range_n [OF a(1,2)] a show ?thesis by simp
qed

lemma get_nonneg [simp]: "bs_inv s \<Longrightarrow> 0 < n \<Longrightarrow> n \<le> 32 \<Longrightarrow> 0 \<le> fst (BitStreamGetBits s n)"
  using get_range_n by blast

lemma get_dry: "bs_inv s \<Longrightarrow> 0 < n \<Longrightarrow> n \<le> 32 \<Longrightarrow> bslen s = 0 \<Longrightarrow> fst (BitStreamGetBits s n) = 0"
proof -
  assume a: "bs_inv s" "0 < n" "n \<le> 32" "bslen s = 0"
  then have "bsbits s = []" by (metis length_bsbits length_0_conv)
  with a show ?thesis by (simp add: bs_get)
qed

lemma get_bslen: "bs_inv s \<Longrightarrow> 0 < n \<Longrightarrow> n \<le> 32 \<Longrightarrow> bslen (snd (BitStreamGetBits s n)) = bslen s - n"
  by (metis bs_get(2) length_bsbits length_drop)

section \<open>Predicates a reader keeps\<close>

text \<open>
  The parsers touch the bit stream only through its operations, so they keep every predicate these
  operations keep. The safety lemmas of the parsers are proved once for any such predicate \<open>P\<close>; the
  interpretations choose it: the invariant of the reader, the invariant together with a bound on
  the escapes that lie ahead, or the position relative to an earlier state.
\<close>

locale reader =
  fixes P :: "BitStream \<Rightarrow> bool"
  assumes P_inv: "P s \<Longrightarrow> bs_inv s"
    and P_get: "P s \<Longrightarrow> 0 < n \<Longrightarrow> n \<le> 32 \<Longrightarrow> P (snd (BitStreamGetBits s n))"
    and P_skip: "P s \<Longrightarrow> 0 \<le> k \<Longrightarrow> k \<le> 32 \<Longrightarrow> P (BitStreamSkip s k)"
    and P_align: "P s \<Longrightarrow> P (BitStreamByteAlign s)"
begin

lemma get_kept [simp]: "P s \<Longrightarrow> 0 < n \<Longrightarrow> n \<le> 32 \<Longrightarrow> P (snd (BitStreamGetBits s n))"
  by (rule P_get)

lemma P_range: "P s \<Longrightarrow> 0 < n \<Longrightarrow> n \<le> 32 \<Longrightarrow>
    0 \<le> fst (BitStreamGetBits s n) \<and> fst (BitStreamGetBits s n) < 2 ^ n"
  using get_range_n P_inv by blast

lemma P_u8 [simp]: "P s \<Longrightarrow> 0 < n \<Longrightarrow> n \<le> 8 \<Longrightarrow> u8 (fst (BitStreamGetBits s n)) = fst (BitStreamGetBits s n)"
  using get_u8 P_inv by blast

lemma P_nonneg [simp]: "P s \<Longrightarrow> 0 < n \<Longrightarrow> n \<le> 32 \<Longrightarrow> 0 \<le> fst (BitStreamGetBits s n)"
  using P_range by blast

end

interpretation any: reader bs_inv
  by unfold_locales (auto simp: skip_inv align_inv)

end
