(* ===== verification/SyntaxSafe.thy ===== *)
theory SyntaxSafe
  imports Syntax SpectralCode Checked
begin

unbundle bit_operations_syntax

text \<open>
  Safety of the operations on the parts of a channel: the loops end, the arrays keep their lengths and
  are accessed in bounds, the parsed data is in range. Everything is proved for any predicate the
  reader keeps (locale \<open>reader\<close>).
\<close>

section \<open>Loops that fill arrays\<close>

context reader begin

lemma flags_loop_ok:
  "P bs \<Longrightarrow> 0 \<le> i \<Longrightarrow> i + int k \<le> int (length xs) \<Longrightarrow>
   wp (flags_loop k i xs bs) (\<lambda>(ys, bs'). length ys = length xs \<and> P bs')"
proof (induction k arbitrary: i xs bs)
  case (Suc k)
  let ?v = "fst (BitStreamGetBits bs 1)"
  from Suc.IH [of "snd (BitStreamGetBits bs 1)" "i + 1" "xs[nat i := ?v]"] Suc.prems show ?case
    by (simp add: Let_def)
qed simp

end

definition ltp_ok :: "LTP_Data \<Rightarrow> bool" where
  "ltp_ok l \<longleftrightarrow> length (long_used l) = 128 \<and> length (short_used l) = 8
     \<and> length (short_lag_present l) = 8 \<and> length (short_lag l) = 8"

lemma ltp_ok_upd [simp]:
  "ltp_ok l \<Longrightarrow> ltp_ok (l\<lparr>lag := x\<rparr>)" "ltp_ok l \<Longrightarrow> ltp_ok (l\<lparr>ltp_coef_idx := x\<rparr>)"
  "ltp_ok l \<Longrightarrow> ltp_ok (l\<lparr>last_band := x\<rparr>)" "ltp_ok l \<Longrightarrow> ltp_ok (l\<lparr>data_present := x\<rparr>)"
  "ltp_ok l \<Longrightarrow> length xs = 128 \<Longrightarrow> ltp_ok (l\<lparr>long_used := xs\<rparr>)"
  "ltp_ok l \<Longrightarrow> length xs = 8 \<Longrightarrow> ltp_ok (l\<lparr>short_used := xs\<rparr>)"
  "ltp_ok l \<Longrightarrow> length xs = 8 \<Longrightarrow> ltp_ok (l\<lparr>short_lag_present := xs\<rparr>)"
  "ltp_ok l \<Longrightarrow> length xs = 8 \<Longrightarrow> ltp_ok (l\<lparr>short_lag := xs\<rparr>)"
  by (simp_all add: ltp_ok_def)

lemma ltp_ok_length [simp]:
  "ltp_ok l \<Longrightarrow> length (long_used l) = 128" "ltp_ok l \<Longrightarrow> length (short_used l) = 8"
  "ltp_ok l \<Longrightarrow> length (short_lag_present l) = 8" "ltp_ok l \<Longrightarrow> length (short_lag l) = 8"
  by (simp_all add: ltp_ok_def)

context reader begin

lemma ltp_short_loop_ok:
  "P bs \<Longrightarrow> 0 \<le> w \<Longrightarrow> w + int k \<le> 8 \<Longrightarrow> ltp_ok ltp \<Longrightarrow>
   wp (ltp_short_loop k w ltp bs) (\<lambda>(l, bs'). ltp_ok l \<and> P bs' \<and> lag l = lag ltp)"
proof (induction k arbitrary: w ltp bs)
  case (Suc k)
  have IH: "P bs' \<Longrightarrow> ltp_ok l \<Longrightarrow> lag l = lag ltp \<Longrightarrow>
      wp (ltp_short_loop k (w + 1) l bs') (\<lambda>(l, bs'). ltp_ok l \<and> P bs' \<and> lag l = lag ltp)" for bs' l
    using Suc.IH [of bs' "w + 1" l] Suc.prems by simp
  show ?case using Suc.prems by (auto simp: Let_def intro!: IH)
qed simp

lemma ltp_data_ok:
  assumes "P bs" "ltp_ok ltp" "window_sequence ics = EIGHT_SHORT_SEQUENCE \<longrightarrow> num_window_groups ics \<le> 8"
  shows "wp (ltp_data ics ltp bs) (\<lambda>(l, bs'). ltp_ok l \<and> P bs' \<and> 0 \<le> lag l \<and> lag l \<le> 2048)"
proof -
  have lag: "0 \<le> u16 (fst (BitStreamGetBits bs 11)) \<and> u16 (fst (BitStreamGetBits bs 11)) \<le> 2048"
    using P_range [OF assms(1), of 11] by simp
  show ?thesis
  proof (cases "window_sequence ics = EIGHT_SHORT_SEQUENCE")
    case True
    then show ?thesis
      using assms lag by (auto simp: ltp_data_def Let_def MAX_SAMPLES_def
          intro!: wp_mono [OF ltp_short_loop_ok])
  next
    case False
    then show ?thesis
      using assms lag by (auto simp: ltp_data_def Let_def MAX_SAMPLES_def MAX_LTP_SFB_def
          intro!: wp_mono [OF flags_loop_ok])
  qed
qed

end

section \<open>Window groups\<close>

text \<open>What grouping promises: groups of at least one window, eight windows in all.\<close>

definition groups_ok :: "int \<Rightarrow> int list \<Rightarrow> int \<Rightarrow> bool" where
  "groups_ok n lens t \<longleftrightarrow> length lens = 8 \<and> 1 \<le> n \<and> n \<le> 8
     \<and> sum_list (take (nat n) lens) = t \<and> list_all (\<lambda>l. 1 \<le> l) (take (nat n) lens)"

lemma groups_ok_length: "groups_ok n lens t \<Longrightarrow> length lens = 8"
  by (simp add: groups_ok_def)

lemma groups_extend:
  assumes "groups_ok n lens t" "n < 8"
  shows "groups_ok (n + 1) (lens[nat n := 1]) (t + 1)"
proof -
  have n: "nat (n + 1) = Suc (nat n)" "nat n < length lens" using assms by (auto simp: groups_ok_def)
  then have "take (Suc (nat n)) (lens[nat n := 1]) = take (nat n) lens @ [1]"
    using take_Suc_conv_app_nth [of "nat n" "lens[nat n := 1]"] by simp
  with n assms show ?thesis by (simp add: groups_ok_def)
qed

lemma groups_bump:
  assumes "groups_ok n lens t"
  shows "groups_ok n (lens[nat (n - 1) := lens ! nat (n - 1) + 1]) (t + 1)"
proof -
  define m where "m = nat (n - 1)"
  have m: "nat n = Suc m" "m < length lens" using assms by (auto simp: groups_ok_def m_def)
  then have "take (Suc m) (lens[m := lens ! m + 1]) = take m lens @ [lens ! m + 1]"
    "take (Suc m) lens = take m lens @ [lens ! m]"
    using take_Suc_conv_app_nth [of m "lens[m := lens ! m + 1]"] take_Suc_conv_app_nth [of m lens] by simp_all
  with m assms show ?thesis by (simp add: groups_ok_def m_def [symmetric])
qed

lemma groups_last:
  assumes "groups_ok n lens t"
  shows "1 \<le> lens ! nat (n - 1) \<and> lens ! nat (n - 1) \<le> t"
proof -
  define m where "m = nat (n - 1)"
  have m: "nat n = Suc m" "m < length lens" using assms by (auto simp: groups_ok_def m_def)
  then have tk: "take (nat n) lens = take m lens @ [lens ! m]" by (simp add: take_Suc_conv_app_nth)
  with assms have l: "list_all (\<lambda>l. 1 \<le> l) (take m lens)" "1 \<le> lens ! m" by (auto simp: groups_ok_def)
  have "0 \<le> sum_list (take m lens)" by (intro sum_list_nonneg) (use l in \<open>force simp: list_all_iff\<close>)
  with assms tk l m_def show ?thesis by (auto simp: groups_ok_def)
qed

lemma group_loop_ok:
  "groups_ok n lens (8 - int k) \<Longrightarrow> n + int k \<le> 8 \<Longrightarrow>
   wp (group_loop k grouping bitset n lens) (\<lambda>(n', lens'). groups_ok n' lens' 8)"
proof (induction k arbitrary: bitset n lens)
  case (Suc k)
  have g: "length lens = 8" "1 \<le> n" "n \<le> 8" using Suc.prems by (simp_all add: groups_ok_def)
  have l: "1 \<le> lens ! nat (n - 1)" "lens ! nat (n - 1) \<le> 8" using groups_last [OF Suc.prems(1)] by auto
  show ?case
  proof (cases "grouping AND bitset \<noteq> 0")
    case True
    have "groups_ok n (lens[nat (n - 1) := lens ! nat (n - 1) + 1]) (8 - int k)"
      using groups_bump [OF Suc.prems(1)] by simp
    from Suc.IH [OF this] True g l Suc.prems(2) show ?thesis by simp
  next
    case False
    have "groups_ok (n + 1) (lens[nat n := 1]) (8 - int k)"
      using groups_extend [OF Suc.prems(1)] Suc.prems(2) by simp
    from Suc.IH [OF this] False g Suc.prems(2) show ?thesis by (simp add: Let_def)
  qed
qed simp

lemma groups_start: "length lens = 8 \<Longrightarrow> groups_ok 1 (lens[0 := 1]) 1"
  by (cases lens) (auto simp: groups_ok_def)

section \<open>Window data\<close>

definition ics_wf :: "ICS_Data \<Rightarrow> bool" where
  "ics_wf ics \<longleftrightarrow> length (prediction_used ics) = 128 \<and> length (window_group_length ics) = 8"

text \<open>The window data of a channel as the rest of the decoder relies on it.\<close>

definition ics_ok :: "int \<Rightarrow> ICS_Data \<Rightarrow> bool" where
  "ics_ok idx ics \<longleftrightarrow> ics_wf ics \<and> 0 \<le> idx \<and> idx < 12 \<and> 0 \<le> max_sfb ics
     \<and> 0 \<le> window_sequence ics \<and> window_sequence ics \<le> 3
     \<and> (if window_sequence ics = EIGHT_SHORT_SEQUENCE
        then max_sfb ics < ttsfBandTabShortNum ! nat idx \<and> groups_ok (num_window_groups ics) (window_group_length ics) 8
        else max_sfb ics < sfBandTabLongNum ! nat idx \<and> groups_ok (num_window_groups ics) (window_group_length ics) 1
             \<and> num_window_groups ics = 1)"

lemma ics_ok_long: "ics_ok idx ics \<Longrightarrow> window_sequence ics \<noteq> EIGHT_SHORT_SEQUENCE \<Longrightarrow> long_ok idx ics"
  by (simp add: ics_ok_def long_ok_def)

lemma ics_ok_short: "ics_ok idx ics \<Longrightarrow> window_sequence ics = EIGHT_SHORT_SEQUENCE \<Longrightarrow> short_ok idx ics"
  by (simp add: ics_ok_def short_ok_def groups_ok_def)

text \<open>The rows of a channel have room for every band of every group.\<close>

lemma ics_ok_total: "ics_ok idx ics \<Longrightarrow> num_window_groups ics * max_sfb ics \<le> 120 \<and> 0 \<le> num_window_groups ics * max_sfb ics"
proof (cases "window_sequence ics = EIGHT_SHORT_SEQUENCE")
  case True
  assume i: "ics_ok idx ics"
  then have "nat idx < 12" by (auto simp: ics_ok_def)
  with i have "0 \<le> max_sfb ics" "max_sfb ics \<le> 15" "1 \<le> num_window_groups ics" "num_window_groups ics \<le> 8"
    using True nums(4) [of "nat idx"] by (auto simp: ics_ok_def groups_ok_def)
  then have "num_window_groups ics * max_sfb ics \<le> 8 * 15" by (intro mult_mono) auto
  with \<open>0 \<le> max_sfb ics\<close> \<open>1 \<le> num_window_groups ics\<close> show ?thesis by simp
next
  case False
  assume i: "ics_ok idx ics"
  then have "nat idx < 12" by (auto simp: ics_ok_def)
  with i show ?thesis using False nums(2) [of "nat idx"] by (auto simp: ics_ok_def)
qed

lemma rd_nums: "0 \<le> idx \<Longrightarrow> idx < 12 \<Longrightarrow> rd ttsfBandTabShortNum idx = Some (ttsfBandTabShortNum ! nat idx)"
  "0 \<le> idx \<Longrightarrow> idx < 12 \<Longrightarrow> rd sfBandTabLongNum idx = Some (sfBandTabLongNum ! nat idx)"
  "0 \<le> idx \<Longrightarrow> idx < 12 \<Longrightarrow> rd predSFBMax idx = Some (predSFBMax ! nat idx)"
  by (simp_all add: rd_def ttsfBandTabShortNum_def sfBandTabLongNum_def predSFBMax_def)

context reader begin

lemma ics_short_ok:
  assumes "P bs" "ics_wf ics" "0 \<le> idx" "idx < 12" "window_sequence ics = EIGHT_SHORT_SEQUENCE"
  shows "wp (ics_short idx ics bs) (\<lambda>(ics', bs'). ics_ok idx ics' \<and> P bs' \<and> window_sequence ics' = window_sequence ics)"
proof -
  have n: "13 \<le> ttsfBandTabShortNum ! nat idx" "ttsfBandTabShortNum ! nat idx \<le> 16"
    using nums(3,4) [of "nat idx"] assms by auto
  have m: "0 \<le> fst (BitStreamGetBits bs 4)" using assms by simp
  have g: "groups_ok 1 ((window_group_length ics)[0 := 1]) (8 - int 7)"
    using assms by (simp add: ics_wf_def groups_start)
  show ?thesis
    using assms n m by (auto simp: ics_short_def Let_def rd_nums ics_wf_def ics_ok_def size_defs dest: groups_ok_length
        intro!: wp_mono [OF group_loop_ok [OF g]])
qed

lemma ics_prediction_ok:
  assumes "P bs" "ics_wf ics" "0 \<le> idx" "idx < 12" "max_sfb ics \<le> 128"
  shows "wp (ics_prediction idx ics bs) (\<lambda>(ics', bs'). P bs' \<and> ics_wf ics' \<and> max_sfb ics' = max_sfb ics
     \<and> window_sequence ics' = window_sequence ics \<and> window_group_length ics' = window_group_length ics)"
  using assms by (auto simp: ics_prediction_def Let_def rd_nums ics_wf_def split_beta
      intro!: wp_mono [OF flags_loop_ok])

end

section \<open>Sections end and stay in their row\<close>

context reader begin

lemma sect_len_loop_ok:
  assumes "P bs" "0 < bits" "bits \<le> 8" "0 \<le> len" "0 \<le> incr" "incr < 2 ^ bits"
  shows "wp (sect_len_loop bs bits (2 ^ bits - 1) len incr)
     (\<lambda>(len', incr', bs'). P bs' \<and> len \<le> len' \<and> 0 \<le> incr' \<and> incr' < 2 ^ bits)"
  using assms
proof (induction "if incr = 2 ^ bits - 1 then Suc (bslen bs) else 0" arbitrary: bs len incr rule: less_induct)
  case less
  show ?case
  proof (cases "incr = 2 ^ bits - 1")
    case True
    let ?v = "fst (BitStreamGetBits bs bits)" and ?bs = "snd (BitStreamGetBits bs bits)"
    have esc: "(0 :: int) < 2 ^ bits - 1" using less.prems(2) one_less_power [of "2 :: int" bits] by simp
    have v: "0 \<le> ?v" "?v < 2 ^ bits" using P_range [OF less.prems(1,2)] less.prems(3) by auto
    have "bslen ?bs < bslen bs" if "?v = 2 ^ bits - 1"
      using get_dry [OF P_inv [OF less.prems(1)] less.prems(2)] get_bslen [OF P_inv [OF less.prems(1)] less.prems(2)] less.prems(2,3) that esc by fastforce
    then have "wp (sect_len_loop ?bs bits (2 ^ bits - 1) (len + (2 ^ bits - 1)) ?v)
       (\<lambda>(len', incr', bs'). P bs' \<and> len + (2 ^ bits - 1) \<le> len' \<and> 0 \<le> incr' \<and> incr' < 2 ^ bits)"
      using True less.prems v esc by (intro less.hyps) auto
    then show ?thesis
      using True esc by (subst sect_len_loop.simps) (auto simp: split_beta Let_def elim!: wp_mono)
  next
    case False
    then show ?thesis using less.prems by (subst sect_len_loop.simps) simp
  qed
qed

end

lemma fill_cb_ok: "0 \<le> p \<Longrightarrow> p + int k \<le> int (length row) \<Longrightarrow>
   fill_cb k cb row p = Some (overwrite row p (replicate k cb))"
proof (induction k arbitrary: row p)
  case (Suc k)
  then have "fill_cb k cb (row[nat p := cb]) (p + 1) = Some (overwrite (row[nat p := cb]) (p + 1) (replicate k cb))"
    by (intro Suc.IH) auto
  with Suc.prems show ?case using overwrite_Cons [of p "replicate k cb" row cb] by (simp add: wr_Some)
qed simp

context reader begin

lemma sect_loop_ok:
  assumes "P bs" "0 < bits" "bits \<le> 8" "0 \<le> k" "0 \<le> p" "k \<le> lim" "p - k + lim \<le> int (length row)"
  shows "wp (sect_loop bits lim msfb k i row p bs)
     (\<lambda>(ret, k', row', p', bs'). P bs' \<and> length row' = length row \<and> (ret = 0 \<or> ret = - 1)
        \<and> (ret = 0 \<longrightarrow> p' = p + (k' - k) \<and> k \<le> k' \<and> k' \<le> lim))"
  using assms
proof (induction "nat (lim + 1 - i)" arbitrary: k i row p bs rule: less_induct)
  case less
  show ?case
  proof (cases "k < msfb")
    case True
    let ?b1 = "snd (BitStreamGetBits bs 4)" and ?cb = "u8 (fst (BitStreamGetBits bs 4))"
    let ?v = "fst (BitStreamGetBits ?b1 bits)" and ?b2 = "snd (BitStreamGetBits ?b1 bits)"
    have b1: "P ?b1" using less.prems(1) by simp
    have b2: "P ?b2" "0 \<le> ?v" "?v < 2 ^ bits" using b1 less.prems(2,3) P_range [OF b1] by auto
    have body: "wp (if k + (len + incr) > lim then Some (- 1, k, row, p, bs3)
              else if i \<ge> lim then Some (- 1, k, row, p, bs3)
              else Option.bind (fill_cb (nat (len + incr)) ?cb row p)
                     (\<lambda>row. sect_loop bits lim msfb (k + (len + incr)) (i + 1) row (p + (len + incr)) bs3))
           (\<lambda>(ret, k', row', p', bs'). P bs' \<and> length row' = length row \<and> (ret = 0 \<or> ret = - 1)
              \<and> (ret = 0 \<longrightarrow> p' = p + (k' - k) \<and> k \<le> k' \<and> k' \<le> lim))"
      if r: "P bs3" "0 \<le> len" "0 \<le> incr" for len incr bs3
    proof (cases "k + (len + incr) > lim \<or> i \<ge> lim")
      case True
      then show ?thesis using r by auto
    next
      case False
      let ?n = "len + incr"
      have fit: "p + int (nat ?n) \<le> int (length row)" using False less.prems r by auto
      have "wp (sect_loop bits lim msfb (k + ?n) (i + 1) (overwrite row p (replicate (nat ?n) ?cb)) (p + ?n) bs3)
        (\<lambda>(ret, k', row', p', bs'). P bs' \<and> length row' = length (overwrite row p (replicate (nat ?n) ?cb))
           \<and> (ret = 0 \<or> ret = - 1) \<and> (ret = 0 \<longrightarrow> p' = p + ?n + (k' - (k + ?n)) \<and> k + ?n \<le> k' \<and> k' \<le> lim))"
        using False less.prems r fit by (intro less.hyps) auto
      with False fit less.prems r show ?thesis by (auto simp: fill_cb_ok elim!: wp_mono)
    qed
    from sect_len_loop_ok [OF b2(1) less.prems(2,3) order_refl b2(2,3)]
    obtain len incr bs3 where sl: "sect_len_loop ?b2 bits (2 ^ bits - 1) 0 ?v = Some (len, incr, bs3)"
      "P bs3" "0 \<le> len" "0 \<le> incr" by (auto simp: wp_iff)
    have "sect_loop bits lim msfb k i row p bs = (if k + (len + incr) > lim then Some (- 1, k, row, p, bs3)
              else if i \<ge> lim then Some (- 1, k, row, p, bs3)
              else Option.bind (fill_cb (nat (len + incr)) ?cb row p)
                     (\<lambda>row. sect_loop bits lim msfb (k + (len + incr)) (i + 1) row (p + (len + incr)) bs3))"
      by (subst sect_loop.simps) (simp only: True if_True Let_def split_beta fst_conv snd_conv sl(1) bind.bind_lunit)
    with body [OF sl(2-4)] show ?thesis by simp
  next
    case False
    with less.prems show ?thesis by (subst sect_loop.simps) simp
  qed
qed

lemma sect_groups_ok:
  assumes "P bs" "0 < bits" "bits \<le> 8" "0 \<le> p" "0 \<le> lim" "0 \<le> msfb"
    "g = 0 \<or> p + (int g - 1) * msfb + lim \<le> int (length row)"
  shows "wp (sect_groups g bits lim msfb row p bs)
     (\<lambda>(ret, row', bs'). P bs' \<and> length row' = length row \<and> (ret = 0 \<or> ret = - 1))"
  using assms
proof (induction g arbitrary: row p bs)
  case (Suc g)
  have "0 \<le> int g * msfb" using Suc.prems by simp
  then have fit: "p - 0 + lim \<le> int (length row)" using Suc.prems(7) by auto
  note sl = sect_loop_ok [OF Suc.prems(1-3) order_refl Suc.prems(4,5) fit, of msfb 0]
  have IH: "wp (sect_groups g bits lim msfb row' p' bs') (\<lambda>(ret, row'', bs''). P bs'' \<and> length row'' = length row \<and> (ret = 0 \<or> ret = - 1))"
    if "P bs'" "length row' = length row" "p' = p + msfb" for row' p' bs'
    using Suc.IH [OF that(1) Suc.prems(2,3), of p' row'] Suc.prems that
    by (cases g) (auto simp: algebra_simps)
  show ?case
    by (auto intro!: wp_mono [OF sl] IH)
qed simp

end

text \<open>Room for the sections: where the per-group bound of the code keeps the writes inside the row.\<close>

definition sections_fit :: "ICS_Data \<Rightarrow> bool" where
  "sections_fit ics \<longleftrightarrow>
     (num_window_groups ics - 1) * max_sfb ics
       + (if window_sequence ics = EIGHT_SHORT_SEQUENCE then 120 else 51) \<le> 128"

context reader begin

lemma section_data_ok:
  assumes "P bs" "ics_ok idx ics" "length row = 128" "sections_fit ics"
  shows "wp (section_data ics row bs) (\<lambda>(ret, row', bs'). P bs' \<and> length row' = 128 \<and> (ret = 0 \<or> ret = - 1))"
proof -
  have m: "0 \<le> max_sfb ics" "1 \<le> num_window_groups ics"
    using assms(2) by (auto simp: ics_ok_def groups_ok_def split: if_splits)
  then have n: "int (nat (num_window_groups ics)) = num_window_groups ics" by simp
  show ?thesis
    using sect_groups_ok [of bs 3 0 120 "max_sfb ics" "nat (num_window_groups ics)" row]
      sect_groups_ok [of bs 5 0 51 "max_sfb ics" "nat (num_window_groups ics)" row] assms m n
    by (auto simp: section_data_def sections_fit_def split: if_splits)
qed

end

lemma sections_fit_long: "ics_ok idx ics \<Longrightarrow> window_sequence ics \<noteq> EIGHT_SHORT_SEQUENCE \<Longrightarrow> sections_fit ics"
  by (simp add: ics_ok_def sections_fit_def)

section \<open>Scale factors\<close>

context reader begin

lemma sf_loop_ok:
  "P bs \<Longrightarrow> 0 \<le> g \<Longrightarrow> g + int k \<le> int (length cbs) \<Longrightarrow> g + int k \<le> int (length row) \<Longrightarrow>
   wp (sf_loop k g cbs pcm noise ispos sf row bs)
     (\<lambda>(ret, row', bs'). P bs' \<and> length row' = length row \<and> (ret = 0 \<or> ret = - 1))"
proof (induction k arbitrary: g pcm noise ispos sf row bs)
  case (Suc k)
  have rdg: "rd cbs g = Some (cbs ! nat g)" using Suc.prems by (simp add: rd_def)
  have IH: "wp (sf_loop k (g + 1) cbs pcm' noise' ispos' sf' (row[nat g := v]) bs')
     (\<lambda>(ret, row', bs'). P bs' \<and> length row' = length row \<and> (ret = 0 \<or> ret = - 1))"
    if "P bs'" for pcm' noise' ispos' sf' v bs'
    using Suc.IH [OF that, of "g + 1" "row[nat g := v]"] Suc.prems by simp
  have dec: "wp (DecodeHuffmanData huffTabScaleInfo bs) (\<lambda>(v, s). P s \<and> - 60 \<le> v \<and> v \<le> 60)"
    using scale_range [OF P_inv [OF Suc.prems(1)]] P_skip [OF Suc.prems(1)] by (auto simp: wp_iff)
  show ?case
    using Suc.prems IH by (auto simp: rdg Let_def intro!: wp_mono [OF dec])
qed simp

lemma scale_factor_data_ok:
  assumes "P bs" "ics_ok idx ics" "length cbs = 128" "length row = 128"
  shows "wp (scale_factor_data gain ics cbs row bs) (\<lambda>(ret, row', bs'). P bs' \<and> length row' = 128 \<and> (ret = 0 \<or> ret = - 1))"
  unfolding scale_factor_data_def
  using ics_ok_total [OF assms(2)] assms by (intro wp_mono [OF sf_loop_ok]) auto

end

end
