(* ===== verification/SectionCode.thy ===== *)
theory SectionCode
  imports SyntaxSafe
begin

text \<open>
  The section encoder of the standard and the proof that \<open>section_data\<close> inverts it; and the sections
  that make \<open>section_data\<close> write beyond the row of the channel.
\<close>

section \<open>Encoded sections\<close>

definition len_bits :: "nat \<Rightarrow> int \<Rightarrow> bool list" where
  "len_bits n len = concat (replicate (nat (len div (2 ^ n - 1))) (nbits n (2 ^ n - 1))) @ nbits n (len mod (2 ^ n - 1))"

definition section_bits :: "nat \<Rightarrow> (int \<times> int) list \<Rightarrow> bool list" where
  "section_bits n ss = concat (map (\<lambda>(cb, len). nbits 4 cb @ len_bits n len) ss)"

definition section_row :: "(int \<times> int) list \<Rightarrow> int list" where
  "section_row ss = concat (map (\<lambda>(cb, len). replicate (nat len) cb) ss)"

definition good_sections :: "(int \<times> int) list \<Rightarrow> int \<Rightarrow> bool" where
  "good_sections ss n = (list_all (\<lambda>(cb, len). 0 \<le> cb \<and> cb < 16 \<and> 1 \<le> len) ss \<and> sum_list (map snd ss) = n)"

lemma good_sections_Cons:
  "good_sections ((cb, len) # ss) n \<longleftrightarrow> 0 \<le> cb \<and> cb < 16 \<and> 1 \<le> len \<and> good_sections ss (n - len)"
  by (auto simp: good_sections_def)

lemma good_sections_nonneg: "good_sections ss n \<Longrightarrow> 0 \<le> n"
  unfolding good_sections_def
proof (elim conjE)
  assume a: "list_all (\<lambda>(cb, len). 0 \<le> cb \<and> cb < 16 \<and> 1 \<le> len) ss" "sum_list (map snd ss) = n"
  have "0 \<le> sum_list (map snd ss)"
    by (rule sum_list_nonneg) (use a(1) in \<open>fastforce simp: list_all_iff\<close>)
  with a(2) show ?thesis by simp
qed

lemma good_sections_row: "good_sections ss n \<Longrightarrow> int (length (section_row ss)) = n"
proof (induction ss arbitrary: n)
  case (Cons s ss)
  then show ?case by (cases s) (auto simp: good_sections_Cons section_row_def)
qed (simp add: good_sections_def section_row_def)

lemma len_escapes:
  assumes "0 < n" "n \<le> 8" "0 \<le> v" "v < 2 ^ n - 1"
  shows "bs_inv s \<Longrightarrow> bsbits s = concat (replicate m (nbits n (2 ^ n - 1))) @ nbits n v @ r \<Longrightarrow>
    \<exists>s'. sect_len_loop (snd (BitStreamGetBits s n)) n (2 ^ n - 1) len (fst (BitStreamGetBits s n))
       = Some (len + int m * (2 ^ n - 1), v, s') \<and> bs_inv s' \<and> bsbits s' = r"
proof (induction m arbitrary: s len)
  case 0
  have n32: "0 < n \<and> n \<le> 32" using assms by simp
  have b: "bsbits s = nbits n v @ r" using 0 by simp
  note f = bs.get_field [OF 0(1) n32 b assms(3)]
  show ?case using f assms by (subst sect_len_loop.simps) auto
next
  case (Suc m)
  have n32: "0 < n \<and> n \<le> 32" using assms by simp
  have b: "bsbits s = nbits n (2 ^ n - 1) @ (concat (replicate m (nbits n (2 ^ n - 1))) @ nbits n v @ r)"
    using Suc.prems by simp
  have e: "(0 :: int) \<le> 2 ^ n - 1" "(2 ^ n - 1 :: int) < 2 ^ n" by simp_all
  note f = bs.get_field [OF Suc.prems(1) n32 b e]
  from Suc.IH [OF f(3) f(2), of "len + (2 ^ n - 1)"] f(1) show ?case
    by (subst sect_len_loop.simps) (auto simp: split_beta Let_def algebra_simps)
qed

lemma len_enc:
  assumes "0 < n" "n \<le> 8" "1 < n" "0 \<le> len" "bs_inv s" "bsbits s = len_bits n len @ r"
  shows "\<exists>l i s'. sect_len_loop (snd (BitStreamGetBits s n)) n (2 ^ n - 1) 0 (fst (BitStreamGetBits s n))
       = Some (l, i, s') \<and> l + i = len \<and> bs_inv s' \<and> bsbits s' = r"
proof -
  let ?e = "2 ^ n - 1 :: int"
  have e: "0 < ?e" using one_less_power [of "2 :: int" n] assms(1) by simp
  have "0 \<le> len mod ?e" "len mod ?e < ?e" using e by simp_all
  from len_escapes [OF assms(1,2) this assms(5), of "nat (len div ?e)" r 0] assms(6)
  obtain s' where "sect_len_loop (snd (BitStreamGetBits s n)) n ?e 0 (fst (BitStreamGetBits s n))
      = Some (0 + int (nat (len div ?e)) * ?e, len mod ?e, s')" "bs_inv s'" "bsbits s' = r"
    by (auto simp: len_bits_def)
  moreover have "int (nat (len div ?e)) = len div ?e" using e assms(4) by (simp add: pos_imp_zdiv_nonneg_iff)
  ultimately show ?thesis by (metis add_0 div_mult_mod_eq)
qed

text \<open>Reading one section: the code book, the length, then the row is filled if it fits.\<close>

lemma sect_loop_step:
  assumes "0 < n" "n \<le> 8" "1 < n" "bs_inv s" "bsbits s = nbits 4 cb @ len_bits n len @ r"
    "0 \<le> cb" "cb < 16" "1 \<le> len" "k < msfb" "k + len \<le> lim" "i < lim"
  shows "\<exists>s'. sect_loop n lim msfb k i row p s
      = Option.bind (fill_cb (nat len) cb row p) (\<lambda>row. sect_loop n lim msfb (k + len) (i + 1) row (p + len) s')
     \<and> bs_inv s' \<and> bsbits s' = r"
proof -
  have cb16: "cb < 2 ^ 4" using assms by simp
  have f4: "(0 :: nat) < 4 \<and> (4 :: nat) \<le> 32" by simp
  note f = bs.get_field [OF assms(4) f4 assms(5) assms(6) cb16]
  have l0: "0 \<le> len" using assms by simp
  from len_enc [OF assms(1-3) l0 f(3) f(2)] obtain l j s' where
    sl: "sect_len_loop (snd (BitStreamGetBits (snd (BitStreamGetBits s 4)) n)) n (2 ^ n - 1) 0
      (fst (BitStreamGetBits (snd (BitStreamGetBits s 4)) n)) = Some (l, j, s')" "l + j = len" "bs_inv s'" "bsbits s' = r"
    by blast
  have u: "u8 cb = cb" using assms by simp
  have "\<not> k + (l + j) > lim" "\<not> i \<ge> lim" using assms sl(2) by auto
  then have "sect_loop n lim msfb k i row p s
      = Option.bind (fill_cb (nat len) cb row p) (\<lambda>row. sect_loop n lim msfb (k + len) (i + 1) row (p + len) s')"
    by (subst sect_loop.simps)
      (simp only: assms(9) if_True if_False Let_def split_beta fst_conv snd_conv sl(1) sl(2) bind.bind_lunit f(1) u)
  with sl show ?thesis by blast
qed

lemma sect_loop_enc:
  assumes "0 < n" "n \<le> 8" "1 < n"
  shows "good_sections ss (msfb - k) \<Longrightarrow> bs_inv s \<Longrightarrow> bsbits s = section_bits n ss @ r \<Longrightarrow>
    msfb \<le> lim \<Longrightarrow> i \<le> k \<Longrightarrow> 0 \<le> p \<Longrightarrow> p + (msfb - k) \<le> int (length row) \<Longrightarrow>
    \<exists>s'. sect_loop n lim msfb k i row p s = Some (0, msfb, overwrite row p (section_row ss), p + (msfb - k), s')
      \<and> bs_inv s' \<and> bsbits s' = r"
proof (induction ss arbitrary: k i row p s)
  case Nil
  then show ?case by (subst sect_loop.simps) (simp add: good_sections_def section_bits_def section_row_def)
next
  case (Cons a ss)
  obtain cb len where a: "a = (cb, len)" by (cases a)
  have g: "0 \<le> cb" "cb < 16" "1 \<le> len" "good_sections ss (msfb - (k + len))"
    using Cons.prems(1) a by (auto simp: good_sections_Cons algebra_simps)
  have nn: "0 \<le> msfb - (k + len)" using g(4) by (rule good_sections_nonneg)
  have b: "bsbits s = nbits 4 cb @ len_bits n len @ (section_bits n ss @ r)"
    using Cons.prems(3) a by (simp add: section_bits_def)
  obtain s1 where st: "sect_loop n lim msfb k i row p s
      = Option.bind (fill_cb (nat len) cb row p) (\<lambda>row. sect_loop n lim msfb (k + len) (i + 1) row (p + len) s1)"
    "bs_inv s1" "bsbits s1 = section_bits n ss @ r"
    using sect_loop_step [OF assms Cons.prems(2) b g(1-3), of k msfb lim i row p] nn g(3) Cons.prems(4,5) by auto
  have fc: "fill_cb (nat len) cb row p = Some (overwrite row p (replicate (nat len) cb))"
    using Cons.prems nn g by (intro fill_cb_ok) auto
  have "i + 1 \<le> k + len" "0 \<le> p + len" "p + len + (msfb - (k + len)) \<le> int (length (overwrite row p (replicate (nat len) cb)))"
    using Cons.prems g nn by auto
  from Cons.IH [OF g(4) st(2,3) Cons.prems(4) this] obtain s' where
    "sect_loop n lim msfb (k + len) (i + 1) (overwrite row p (replicate (nat len) cb)) (p + len) s1
     = Some (0, msfb, overwrite (overwrite row p (replicate (nat len) cb)) (p + len) (section_row ss), p + len + (msfb - (k + len)), s')"
    "bs_inv s'" "bsbits s' = r" by blast
  moreover have "overwrite (overwrite row p (replicate (nat len) cb)) (p + len) (section_row ss) = overwrite row p (section_row (a # ss))"
    using overwrite_append [of p "replicate (nat len) cb" "section_row ss" row] good_sections_row [OF g(4)] Cons.prems g
    by (simp add: a section_row_def)
  ultimately show ?case using st(1) fc by (simp add: algebra_simps)
qed

lemma sect_groups_enc:
  assumes "0 < n" "n \<le> 8" "1 < n" "0 \<le> msfb" "msfb \<le> lim"
  shows "list_all (\<lambda>ss. good_sections ss msfb) sss \<Longrightarrow> bs_inv s \<Longrightarrow>
    bsbits s = concat (map (section_bits n) sss) @ r \<Longrightarrow> 0 \<le> p \<Longrightarrow> p + int (length sss) * msfb \<le> int (length row) \<Longrightarrow>
    \<exists>s'. sect_groups (length sss) n lim msfb row p s = Some (0, overwrite row p (concat (map section_row sss)), s')
      \<and> bs_inv s' \<and> bsbits s' = r"
proof (induction sss arbitrary: row p s)
  case (Cons ss sss)
  have g: "good_sections ss (msfb - 0)" using Cons.prems(1) by simp
  have b: "bsbits s = section_bits n ss @ (concat (map (section_bits n) sss) @ r)" using Cons.prems(3) by simp
  have nn: "0 \<le> int (length sss) * msfb" using assms(4) by simp
  then have fit: "p + (msfb - 0) \<le> int (length row)" using Cons.prems(5) by (simp add: algebra_simps)
  obtain s1 where s1: "sect_loop n lim msfb 0 0 row p s = Some (0, msfb, overwrite row p (section_row ss), p + msfb, s1)"
    "bs_inv s1" "bsbits s1 = concat (map (section_bits n) sss) @ r"
    using sect_loop_enc [OF assms(1-3) g Cons.prems(2) b assms(5) order_refl Cons.prems(4) fit] by auto
  have l: "int (length (section_row ss)) = msfb" using good_sections_row [OF g] by simp
  have lo: "length (overwrite row p (section_row ss)) = length row" using fit l Cons.prems(4) by simp
  have "0 \<le> p + msfb" "p + msfb + int (length sss) * msfb \<le> int (length (overwrite row p (section_row ss)))"
    using Cons.prems(4,5) assms(4) unfolding lo by (simp_all add: algebra_simps)
  from Cons.IH [OF _ s1(2,3) this] Cons.prems(1) obtain s' where s':
    "sect_groups (length sss) n lim msfb (overwrite row p (section_row ss)) (p + msfb) s1
      = Some (0, overwrite (overwrite row p (section_row ss)) (p + msfb) (concat (map section_row sss)), s')"
    "bs_inv s'" "bsbits s' = r" by auto
  have len: "int (length (concat (map section_row sss))) = int (length sss) * msfb"
    using Cons.prems(1) good_sections_row by (induction sss) (auto simp: algebra_simps)
  have "overwrite (overwrite row p (section_row ss)) (p + msfb) (concat (map section_row sss))
      = overwrite row p (section_row ss @ concat (map section_row sss))"
    using overwrite_append [of p "section_row ss" "concat (map section_row sss)" row] l len Cons.prems(4,5)
    by (simp add: algebra_simps)
  with s1 s' show ?case by simp
qed simp

lemma fill_cb_overflow: "0 \<le> p \<Longrightarrow> int (length row) < p + int k \<Longrightarrow> p \<le> int (length row) \<Longrightarrow> fill_cb k cb row p = None"
proof (induction k arbitrary: row p)
  case (Suc k)
  show ?case
  proof (cases "p < int (length row)")
    case True
    with Suc.prems Suc.IH [of "p + 1" "row[nat p := cb]"] show ?thesis by (simp add: wr_Some)
  next
    case False
    then show ?thesis by (simp add: wr_def)
  qed
qed simp

section \<open>Section data\<close>

definition sect_width :: "ICS_Data \<Rightarrow> nat" where
  "sect_width ics = (if window_sequence ics = EIGHT_SHORT_SEQUENCE then 3 else 5)"

lemma section_data_enc:
  assumes "ics_ok idx ics" "length row = 128" "int (length sss) = num_window_groups ics"
    "list_all (\<lambda>ss. good_sections ss (max_sfb ics)) sss"
    "bs_inv s" "bsbits s = concat (map (section_bits (sect_width ics)) sss) @ r"
  shows "\<exists>s'. section_data ics row s = Some (0, overwrite row 0 (concat (map section_row sss)), s')
    \<and> bs_inv s' \<and> bsbits s' = r"
proof -
  have m: "0 \<le> max_sfb ics" "int (length sss) * max_sfb ics \<le> 128"
    using assms(1,3) ics_ok_total [OF assms(1)] by (auto simp: ics_ok_def)
  have n: "nat (num_window_groups ics) = length sss" using assms(3) by linarith
  show ?thesis
  proof (cases "window_sequence ics = EIGHT_SHORT_SEQUENCE")
    case True
    have "nat idx < 12" using assms(1) by (auto simp: ics_ok_def)
    then have "max_sfb ics \<le> 120" using assms(1) True nums(4) [of "nat idx"] by (auto simp: ics_ok_def)
    with sect_groups_enc [of 3 "max_sfb ics" 120 sss s r 0 row] assms m n True show ?thesis
      by (simp add: section_data_def sect_width_def)
  next
    case False
    have "nat idx < 12" using assms(1) by (auto simp: ics_ok_def)
    then have "max_sfb ics \<le> 51" using assms(1) False nums(2) [of "nat idx"] by (auto simp: ics_ok_def)
    with sect_groups_enc [of 5 "max_sfb ics" 51 sss s r 0 row] assms m n False show ?thesis
      by (simp add: section_data_def sect_width_def)
  qed
qed

text \<open>
  Two groups, the second with one section of 120 bands: the bound of the code is checked per group,
  the pointer runs on from the first group, and the row of 128 entries overflows.
\<close>

lemma section_data_overflow:
  assumes "window_sequence ics = EIGHT_SHORT_SEQUENCE" "num_window_groups ics = 2" "8 < max_sfb ics" "max_sfb ics \<le> 15"
    "length row = 128" "bs_inv s"
    "bsbits s = section_bits 3 [(1, max_sfb ics)] @ section_bits 3 [(1, 120)] @ r"
  shows "section_data ics row s = None"
proof -
  let ?m = "max_sfb ics"
  have g: "good_sections [(1, ?m)] (?m - 0)" using assms by (simp add: good_sections_def)
  obtain s1 where s1: "sect_loop 3 120 ?m 0 0 row 0 s = Some (0, ?m, overwrite row 0 (section_row [(1, ?m)]), ?m, s1)"
    "bs_inv s1" "bsbits s1 = section_bits 3 [(1, 120)] @ r"
    using sect_loop_enc [of 3 _ _ 0 s _ 120 0 0 row, OF _ _ _ g assms(6,7)] assms by auto
  let ?row = "overwrite row 0 (section_row [(1, ?m)])"
  have len: "length ?row = 128" using assms by (simp add: section_row_def)
  have b: "bsbits s1 = nbits 4 1 @ len_bits 3 120 @ r" using s1(3) by (simp add: section_bits_def)
  obtain s2 where "sect_loop 3 120 ?m 0 0 ?row ?m s1
      = Option.bind (fill_cb (nat 120) 1 ?row ?m) (\<lambda>row. sect_loop 3 120 ?m 120 1 row (?m + 120) s2)"
    using sect_loop_step [OF _ _ _ s1(2) b, of 0 ?m 120 0 ?row ?m] assms by auto
  moreover have "fill_cb (nat 120) 1 ?row ?m = None" using assms len by (intro fill_cb_overflow) auto
  ultimately show ?thesis using s1 assms by (simp add: section_data_def numeral_2_eq_2)
qed

end
