(* ===== verification/DownMix.thy ===== *)
theory DownMix
  imports AACState Checked "HOL-Library.Signed_Division"
begin

unbundle bit_operations_syntax

text \<open>
  The processing of the output channels, \<^verbatim>\<open>src/downMatrix.c\<close>: the down mix of six channels, the selection
  of two channels, and the conversions between mono and stereo. All of them work inside the output
  buffer: a write pointer follows a read pointer. The buffer is a list of 16-bit samples; \<open>sdiv\<close> is the
  division of C.
\<close>

section \<open>Operations\<close>

definition CLIPTOSHORT :: "int \<Rightarrow> int" where
  "CLIPTOSHORT x = (if drop_bit 31 x = drop_bit 15 x then x else drop_bit 31 x XOR 0x7fff)"

text \<open>The macros \<open>RSQRT2\<close> and \<open>DM_MUL\<close> stand right of a product: multiply, then divide.\<close>

definition mul_RSQRT2 :: "int \<Rightarrow> int" where "mul_RSQRT2 x = s32 (x * 5818) sdiv 8192"
definition mul_DM_MUL :: "int \<Rightarrow> int" where "mul_DM_MUL x = s32 (x * 5248) sdiv 16384"

text \<open>
  The loops of the file: a body that reads the frame at \<open>q\<close> and writes at \<open>p\<close>, after which \<open>p\<close> moves by \<open>w\<close>
  and \<open>q\<close> by \<open>chans\<close> samples.
\<close>

fun frame_loop :: "(int \<Rightarrow> int \<Rightarrow> int list \<Rightarrow> int list option) \<Rightarrow> int \<Rightarrow> int \<Rightarrow> nat \<Rightarrow> int \<Rightarrow> int \<Rightarrow> int list \<Rightarrow> int list option" where
  "frame_loop body w chans 0 p q buf = Some buf"
| "frame_loop body w chans (Suc k) p q buf =
     do { buf \<leftarrow> body p q buf; frame_loop body w chans k (p + w) (q + chans) buf }"

definition frame_samples :: "AACDecoder \<Rightarrow> int" where
  "frame_samples d = MAX_SAMPLES * (if sbrEnabled d \<noteq> 0 then 2 else 1)"

definition mix_body :: "int \<Rightarrow> int \<Rightarrow> int list \<Rightarrow> int list option" where
  "mix_body p q buf =
     do { c \<leftarrow> rd buf (q + 1); let C = mul_RSQRT2 c;
          ls \<leftarrow> rd buf (q + 3); let L_S = mul_RSQRT2 ls;
          l \<leftarrow> rd buf q; let tmp = mul_DM_MUL (l + C + L_S);
          rs \<leftarrow> rd buf (q + 4); let R_S = mul_RSQRT2 rs;
          r \<leftarrow> rd buf (q + 2); let tmp1 = mul_DM_MUL (r + C + R_S);
          buf \<leftarrow> wr buf p (s16 (CLIPTOSHORT tmp));
          wr buf (p + 1) (s16 (CLIPTOSHORT tmp1)) }"

definition DownMixto2Chs :: "AACDecoder \<Rightarrow> int \<Rightarrow> int list \<Rightarrow> (int \<times> int list) option" where
  "DownMixto2Chs d chans outbuf =
     do { buf \<leftarrow> frame_loop mix_body 2 chans (nat (frame_samples d)) 0 0 outbuf; Some (1, buf) }"

definition select_body :: "int \<Rightarrow> int \<Rightarrow> int list \<Rightarrow> int list option" where
  "select_body p q buf =
     do { l \<leftarrow> rd buf q; buf \<leftarrow> wr buf p l; r \<leftarrow> rd buf (q + 2); wr buf (p + 1) r }"

definition Selectto2Chs :: "AACDecoder \<Rightarrow> int \<Rightarrow> int list \<Rightarrow> (int \<times> int list) option" where
  "Selectto2Chs d chans outbuf =
     do { buf \<leftarrow> frame_loop select_body 2 chans (nat (frame_samples d - 1)) 2 chans outbuf; Some (1, buf) }"

definition mean_body :: "int \<Rightarrow> int \<Rightarrow> int list \<Rightarrow> int list option" where
  "mean_body p q buf =
     do { l \<leftarrow> rd buf q; r \<leftarrow> rd buf (q + 1); wr buf p (s16 ((l + r) sdiv 2)) }"

definition Stereo2Mono :: "int list \<Rightarrow> int \<Rightarrow> (int \<times> int list) option" where
  "Stereo2Mono outbuf sampleSize =
     do { buf \<leftarrow> frame_loop mean_body 1 2 (nat sampleSize) 0 0 outbuf; Some (0, buf) }"

definition left_body :: "int \<Rightarrow> int \<Rightarrow> int list \<Rightarrow> int list option" where
  "left_body p q buf = do { l \<leftarrow> rd buf p; wr buf (p + 1) l }"

definition right_body :: "int \<Rightarrow> int \<Rightarrow> int list \<Rightarrow> int list option" where
  "right_body p q buf = do { r \<leftarrow> rd buf (p + 1); wr buf p r }"

definition Mono2Stereo :: "int list \<Rightarrow> int \<Rightarrow> (int \<times> int list) option" where
  "Mono2Stereo outbuf sampleSize =
     do { buf \<leftarrow> frame_loop left_body 2 2 (nat sampleSize) 0 0 outbuf; Some (0, buf) }"

definition PostChannelProcess :: "AACDecoder \<Rightarrow> int list \<Rightarrow> int \<Rightarrow> (int \<times> int list) option" where
  "PostChannelProcess d outbuf sampleSize =
     (if chSpec d = CHAN_DUALLEFT then
        do { buf \<leftarrow> frame_loop left_body 2 2 (nat sampleSize) 0 0 outbuf; Some (0, buf) }
      else if chSpec d = CHAN_DUALRIGHT then
        do { buf \<leftarrow> frame_loop right_body 2 2 (nat sampleSize) 0 0 outbuf; Some (0, buf) }
      else Some (0, outbuf))"

section \<open>Working in place\<close>

lemma nat_int_mult [simp]: "nat (int a * int b) = a * b"
  by (metis nat_int of_nat_mult)

text \<open>The frame \<open>i\<close> of a buffer of interleaved channels.\<close>

definition frame_at :: "nat \<Rightarrow> 'a list \<Rightarrow> nat \<Rightarrow> 'a list" where
  "frame_at chans buf i = take chans (drop (chans * i) buf)"

lemma length_frame_at [simp]: "chans * Suc i \<le> length buf \<Longrightarrow> length (frame_at chans buf i) = chans"
  by (simp add: frame_at_def)

lemma nth_frame_at [simp]: "chans * Suc i \<le> length buf \<Longrightarrow> j < chans \<Longrightarrow> frame_at chans buf i ! j = buf ! (chans * i + j)"
  by (simp add: frame_at_def)

text \<open>
  A body works in place when it replaces the \<open>w\<close> samples at the write pointer by a function of the frame
  at the read pointer and \<open>w\<close> is at most the length of a frame: then the write pointer never catches up
  with a frame that is still to be read, and the loop computes the function of every original frame.
\<close>

locale in_place =
  fixes body :: "int \<Rightarrow> int \<Rightarrow> int list \<Rightarrow> int list option"
    and w chans :: nat
    and f :: "int list \<Rightarrow> int list"
  assumes narrow: "w \<le> chans"
    and f_length: "length fr = chans \<Longrightarrow> length (f fr) = w"
    and body_run: "chans * Suc i \<le> length buf \<Longrightarrow>
      body (int (w * i)) (int (chans * i)) buf = Some (overwrite buf (int (w * i)) (f (frame_at chans buf i)))"
begin

lemma run:
  "chans * (i + k) \<le> length buf \<Longrightarrow>
   frame_loop body (int w) (int chans) k (int (w * i)) (int (chans * i)) buf
     = Some (take (w * i) buf @ concat (map (\<lambda>j. f (frame_at chans buf j)) [i..<i + k]) @ drop (w * (i + k)) buf)"
proof (induction k arbitrary: i buf)
  case (Suc k)
  let ?v = "f (frame_at chans buf i)" and ?b = "overwrite buf (int (w * i)) (f (frame_at chans buf i))"
  have "chans * (i + k) \<le> length buf" "chans * Suc i \<le> chans * (i + Suc k)" using Suc.prems by simp_all
  then have fit: "chans * Suc i \<le> length buf" using Suc.prems by linarith
  have v: "length ?v = w" using f_length [OF length_frame_at [OF fit]] .
  have wi: "w * Suc i \<le> chans * Suc i" using narrow by (rule mult_le_mono1)
  then have len: "w * i + w \<le> length buf" using fit by simp
  have b: "?b = take (w * i) buf @ ?v @ drop (w * i + w) buf" using v by (simp add: overwrite_def del: of_nat_mult)
  have frames: "frame_at chans ?b j = frame_at chans buf j" if "i < j" for j
  proof -
    have "chans * Suc i \<le> chans * j" using that by (intro mult_le_mono2) simp
    then have "drop (chans * j) ?b = drop (chans * j) buf"
      using wi len v b by (simp add: nat_le_iff algebra_simps)
    then show ?thesis by (simp add: frame_at_def)
  qed
  have "frame_loop body (int w) (int chans) (Suc k) (int (w * i)) (int (chans * i)) buf
      = frame_loop body (int w) (int chans) k (int (w * Suc i)) (int (chans * Suc i)) ?b"
    using body_run [OF fit] by (simp add: algebra_simps)
  also have "\<dots> = Some (take (w * Suc i) ?b @ concat (map (\<lambda>j. f (frame_at chans ?b j)) [Suc i..<Suc i + k]) @ drop (w * (Suc i + k)) ?b)"
    using Suc.prems len v b by (intro Suc.IH) simp
  also have "take (w * Suc i) ?b = take (w * i) buf @ ?v" using len v b by simp
  also have "drop (w * (Suc i + k)) ?b = drop (w * (i + Suc k)) buf" using len v b by (simp add: algebra_simps)
  also have "map (\<lambda>j. f (frame_at chans ?b j)) [Suc i..<Suc i + k] = map (\<lambda>j. f (frame_at chans buf j)) [Suc i..<Suc i + k]"
    by (intro map_cong refl arg_cong [of _ _ f] frames) auto
  finally have "frame_loop body (int w) (int chans) (Suc k) (int (w * i)) (int (chans * i)) buf
      = Some (take (w * i) buf @ concat (map (\<lambda>j. f (frame_at chans buf j)) (i # [Suc i..<Suc i + k])) @ drop (w * (i + Suc k)) buf)"
    by (simp only: list.map concat.simps append_assoc)
  then show ?case using upt_conv_Cons [of i "i + Suc k"] by (simp only: add_Suc add_Suc_right less_add_Suc1 simp_thms)
qed simp

lemma run_all:
  "chans * n \<le> length buf \<Longrightarrow>
   frame_loop body (int w) (int chans) n 0 0 buf
     = Some (concat (map (\<lambda>j. f (frame_at chans buf j)) [0..<n]) @ drop (w * n) buf)"
  using run [of 0 n buf] by simp

end

section \<open>The five loops\<close>

text \<open>What each loop computes of a frame.\<close>

definition mix_frame :: "int list \<Rightarrow> int list" where
  "mix_frame fr =
     [s16 (CLIPTOSHORT (mul_DM_MUL (fr ! 0 + mul_RSQRT2 (fr ! 1) + mul_RSQRT2 (fr ! 3)))),
      s16 (CLIPTOSHORT (mul_DM_MUL (fr ! 2 + mul_RSQRT2 (fr ! 1) + mul_RSQRT2 (fr ! 4))))]"

lemma overwrite_one: "0 \<le> p \<Longrightarrow> p < int (length xs) \<Longrightarrow> xs[nat p := v] = overwrite xs p [v]"
  using overwrite_Cons [of p "[]" xs v] by simp

lemma frame_fit:
  assumes "chans * Suc i \<le> length buf" "w \<le> chans"
  shows "int (w * i) + int w \<le> int (length buf)" "int (chans * i) + int chans \<le> int (length buf)"
proof -
  have "w * Suc i \<le> chans * Suc i" using assms(2) by (rule mult_le_mono1)
  then have "w * i + w \<le> length buf" "chans * i + chans \<le> length buf" using assms(1) by simp_all
  then show "int (w * i) + int w \<le> int (length buf)" "int (chans * i) + int chans \<le> int (length buf)"
    by (simp_all flip: of_nat_add del: of_nat_mult)
qed

lemma frame_rd:
  assumes "chans * Suc i \<le> length buf" "j < chans"
  shows "rd buf (int (chans * i) + int j) = Some (frame_at chans buf i ! j)"
  using assms by (simp add: rd_def nat_add_distrib flip: of_nat_add of_nat_mult)

lemma frame_rds:
  assumes "chans * Suc i \<le> length buf"
  shows "0 < chans \<Longrightarrow> rd buf (int (chans * i)) = Some (frame_at chans buf i ! 0)"
    "1 < chans \<Longrightarrow> rd buf (int (chans * i) + 1) = Some (frame_at chans buf i ! 1)"
    "2 < chans \<Longrightarrow> rd buf (int (chans * i) + 2) = Some (frame_at chans buf i ! 2)"
    "3 < chans \<Longrightarrow> rd buf (int (chans * i) + 3) = Some (frame_at chans buf i ! 3)"
    "4 < chans \<Longrightarrow> rd buf (int (chans * i) + 4) = Some (frame_at chans buf i ! 4)"
  using frame_rd [OF assms, of 0] frame_rd [OF assms, of 1] frame_rd [OF assms, of 2] frame_rd [OF assms, of 3]
    frame_rd [OF assms, of 4] by simp_all

lemma wr_pair:
  assumes "0 \<le> p" "p + 2 \<le> int (length buf)"
  shows "Option.bind (wr buf p x) (\<lambda>b. wr b (p + 1) y) = Some (overwrite buf p [x, y])"
  using assms overwrite_updates(1) [of p buf x y] by (simp add: wr_Some)

interpretation mix: in_place mix_body 2 6 mix_frame
proof unfold_locales
  fix i :: nat and buf :: "int list"
  assume fit: "6 * Suc i \<le> length buf"
  note r = frame_rds [OF fit] and n = frame_fit [OF fit, of 2]
  show "mix_body (int (2 * i)) (int (6 * i)) buf = Some (overwrite buf (int (2 * i)) (mix_frame (frame_at 6 buf i)))"
    using n wr_pair [of "int (2 * i)" buf]
    by (simp add: mix_body_def r Let_def mix_frame_def del: of_nat_mult)
qed (simp_all add: mix_frame_def)

lemma select_in_place: "3 \<le> chans \<Longrightarrow> in_place select_body 2 chans (\<lambda>fr. [fr ! 0, fr ! 2])"
proof unfold_locales
  fix i :: nat and buf :: "int list"
  assume c: "3 \<le> chans" and fit: "chans * Suc i \<le> length buf"
  note r = frame_rds [OF fit] and n = frame_fit [OF fit, of 2]
  let ?x = "frame_at chans buf i ! 0"
  have "2 * i < chans * i + 2" using c by (simp add: mult_le_mono1 le_less_trans [of "2 * i" "chans * i"])
  then have "rd (buf[nat (int (2 * i)) := ?x]) (int (chans * i) + 2) = Some (frame_at chans buf i ! 2)"
    using r(3) c n by (auto simp: rd_def nth_list_update nat_add_distrib simp flip: of_nat_add)
  then show "select_body (int (2 * i)) (int (chans * i)) buf
      = Some (overwrite buf (int (2 * i)) [frame_at chans buf i ! 0, frame_at chans buf i ! 2])"
    using n c wr_pair [of "int (2 * i)" buf ?x] by (simp add: select_body_def r wr_Some del: of_nat_mult)
qed auto

interpretation sel: in_place select_body 2 8 "\<lambda>fr. [fr ! 0, fr ! 2]"
  by (rule select_in_place) simp

interpretation mean: in_place mean_body 1 2 "\<lambda>fr. [s16 ((fr ! 0 + fr ! 1) sdiv 2)]"
proof unfold_locales
  fix i :: nat and buf :: "int list"
  assume fit: "2 * Suc i \<le> length buf"
  note r = frame_rds [OF fit] and n = frame_fit [OF fit, of 1]
  show "mean_body (int (1 * i)) (int (2 * i)) buf
      = Some (overwrite buf (int (1 * i)) [s16 ((frame_at 2 buf i ! 0 + frame_at 2 buf i ! 1) sdiv 2)])"
    using n overwrite_one [of "int i" buf] by (simp add: mean_body_def r wr_Some del: of_nat_mult)
qed simp_all

lemma stay: "chans * Suc i \<le> length buf \<Longrightarrow> overwrite buf (int (chans * i)) (frame_at chans buf i) = buf"
  by (simp add: overwrite_def frame_at_def del: of_nat_mult)
    (metis append_take_drop_id drop_drop add.commute)

lemma pair_frame: "length fr = 2 \<Longrightarrow> fr = [fr ! 0, fr ! 1]"
  by (cases fr; cases "tl fr") auto

interpretation left: in_place left_body 2 2 "\<lambda>fr. [fr ! 0, fr ! 0]"
proof unfold_locales
  fix i :: nat and buf :: "int list"
  assume fit: "2 * Suc i \<le> length buf"
  note r = frame_rds [OF fit] and n = frame_fit [OF fit, of 2]
  let ?p = "int (2 * i)" and ?fr = "frame_at 2 buf i"
  have "buf[nat ?p := ?fr ! 0] = buf" using fit by (simp add: nth_frame_at [of 2 i buf 0] del: of_nat_mult)
  then show "left_body ?p ?p buf = Some (overwrite buf ?p [?fr ! 0, ?fr ! 0])"
    using n overwrite_updates(1) [of ?p buf "?fr ! 0" "?fr ! 0"] by (simp add: left_body_def r wr_Some del: of_nat_mult)
qed simp_all

interpretation right: in_place right_body 2 2 "\<lambda>fr. [fr ! 1, fr ! 1]"
proof unfold_locales
  fix i :: nat and buf :: "int list"
  assume fit: "2 * Suc i \<le> length buf"
  note r = frame_rds [OF fit] and n = frame_fit [OF fit, of 2]
  let ?p = "int (2 * i)" and ?fr = "frame_at 2 buf i"
  have "nat (?p + 1) = 2 * i + 1" by simp
  then have "buf[nat ?p := ?fr ! 1, nat (?p + 1) := ?fr ! 1] = buf[nat ?p := ?fr ! 1]"
    using fit by (simp add: nth_frame_at [of 2 i buf 1] list_update_same_conv del: of_nat_mult)
  then show "right_body ?p ?p buf = Some (overwrite buf ?p [?fr ! 1, ?fr ! 1])"
    using n overwrite_updates(1) [of ?p buf "?fr ! 1" "?fr ! 1"] by (simp add: right_body_def r wr_Some del: of_nat_mult)
qed simp_all

section \<open>The processed buffers\<close>

lemma clip_id: "- 32768 \<le> x \<Longrightarrow> x < 32768 \<Longrightarrow> s16 (CLIPTOSHORT x) = x"
proof -
  assume x: "- 32768 \<le> x" "x < 32768"
  have "drop_bit 31 x = drop_bit 15 x"
  proof (cases "0 \<le> x")
    case True
    with x show ?thesis by (simp add: drop_bit_eq_div)
  next
    case False
    with x have "x div 2147483648 = - 1" "x div 32768 = - 1" by (auto simp: div_eq_minus1 intro: div_pos_neg_trivial)
    then show ?thesis by (simp add: drop_bit_eq_div)
  qed
  with x show ?thesis by (simp add: CLIPTOSHORT_def s16_def signed_take_bit_int_eq_self_iff)
qed

lemma sdiv_abs: "0 < b \<Longrightarrow> \<bar>a sdiv b\<bar> = \<bar>a\<bar> div b" for a b :: int
  by (simp add: signed_divide_int_def abs_mult pos_imp_zdiv_nonneg_iff sgn_if)

definition short_range :: "int \<Rightarrow> bool" where
  "short_range x \<longleftrightarrow> - 32768 \<le> x \<and> x < 32768"

text \<open>The down mix of a frame without clipping and wrap-around.\<close>

definition mix_ref :: "int list \<Rightarrow> int list" where
  "mix_ref fr = (let half = (\<lambda>x. (x * 5818) sdiv 8192); out = (\<lambda>x. (x * 5248) sdiv 16384) in
     [out (fr ! 0 + half (fr ! 1) + half (fr ! 3)), out (fr ! 2 + half (fr ! 1) + half (fr ! 4))])"

lemma mul_RSQRT2_range:
  assumes "short_range x"
  shows "mul_RSQRT2 x = (x * 5818) sdiv 8192" "\<bar>mul_RSQRT2 x\<bar> \<le> 23272"
proof -
  have x: "\<bar>x * 5818\<bar> \<le> 190644224" using assms by (auto simp: short_range_def abs_mult)
  then show e: "mul_RSQRT2 x = (x * 5818) sdiv 8192" by (simp add: mul_RSQRT2_def s32_id abs_le_iff)
  have "\<bar>x * 5818\<bar> div 8192 \<le> 190644224 div 8192" using x by (rule zdiv_mono1) simp
  then show "\<bar>mul_RSQRT2 x\<bar> \<le> 23272" by (simp add: e sdiv_abs)
qed

lemma mul_DM_MUL_range:
  assumes "\<bar>x\<bar> \<le> 79312"
  shows "mul_DM_MUL x = (x * 5248) sdiv 16384" "\<bar>mul_DM_MUL x\<bar> \<le> 25404"
proof -
  have x: "\<bar>x * 5248\<bar> \<le> 416229376" using assms by (auto simp: abs_mult)
  then show e: "mul_DM_MUL x = (x * 5248) sdiv 16384" by (simp add: mul_DM_MUL_def s32_id abs_le_iff)
  have "\<bar>x * 5248\<bar> div 16384 \<le> 416229376 div 16384" using x by (rule zdiv_mono1) simp
  then show "\<bar>mul_DM_MUL x\<bar> \<le> 25404" by (simp add: e sdiv_abs)
qed

lemma mix_frame_ref:
  assumes "length fr = 6" "list_all short_range fr"
  shows "mix_frame fr = mix_ref fr" "list_all short_range (mix_ref fr)"
proof -
  have s: "short_range (fr ! 0)" "short_range (fr ! 1)" "short_range (fr ! 2)" "short_range (fr ! 3)" "short_range (fr ! 4)"
    using assms by (simp_all add: list_all_length)
  note m = mul_RSQRT2_range [OF s(2)] mul_RSQRT2_range [OF s(4)] mul_RSQRT2_range [OF s(5)]
  have b: "\<bar>fr ! 0 + mul_RSQRT2 (fr ! 1) + mul_RSQRT2 (fr ! 3)\<bar> \<le> 79312" "\<bar>fr ! 2 + mul_RSQRT2 (fr ! 1) + mul_RSQRT2 (fr ! 4)\<bar> \<le> 79312"
    using m s by (auto simp: short_range_def)
  note d = mul_DM_MUL_range [OF b(1)] mul_DM_MUL_range [OF b(2)]
  then have "mix_frame fr = [mul_DM_MUL (fr ! 0 + mul_RSQRT2 (fr ! 1) + mul_RSQRT2 (fr ! 3)),
      mul_DM_MUL (fr ! 2 + mul_RSQRT2 (fr ! 1) + mul_RSQRT2 (fr ! 4))]"
    by (simp add: mix_frame_def clip_id)
  moreover have e: "\<dots> = mix_ref fr" using d(1,3) m(1,3,5) by (simp add: mix_ref_def)
  ultimately show "mix_frame fr = mix_ref fr" by simp
  show "list_all short_range (mix_ref fr)" unfolding e [symmetric] using d(2,4) by (auto simp: short_range_def)
qed

lemma frame_range: "list_all P buf \<Longrightarrow> list_all P (frame_at c buf j)"
  by (auto simp: frame_at_def list_all_iff dest!: in_set_takeD in_set_dropD)

lemma down_mix:
  assumes "list_all short_range buf" "6 * n \<le> length buf" "n = nat (frame_samples d)"
  shows "DownMixto2Chs d 6 buf = Some (1, concat (map (\<lambda>j. mix_ref (frame_at 6 buf j)) [0..<n]) @ drop (2 * n) buf)"
proof -
  have "mix_frame (frame_at 6 buf j) = mix_ref (frame_at 6 buf j)" if "j < n" for j
  proof -
    have "6 * Suc j \<le> 6 * n" using that by (intro mult_le_mono2) simp
    then show ?thesis using assms(1,2) by (intro mix_frame_ref frame_range) simp_all
  qed
  then have "map (\<lambda>j. mix_frame (frame_at 6 buf j)) [0..<n] = map (\<lambda>j. mix_ref (frame_at 6 buf j)) [0..<n]" by simp
  with mix.run_all [of n buf] assms(2)
  have "frame_loop mix_body 2 6 n 0 0 buf = Some (concat (map (\<lambda>j. mix_ref (frame_at 6 buf j)) [0..<n]) @ drop (2 * n) buf)"
    by (simp only: of_nat_numeral)
  then show ?thesis by (simp add: DownMixto2Chs_def assms(3))
qed

lemma selected:
  assumes "3 \<le> chans" "chans * n \<le> length buf" "n = nat (frame_samples d)" "0 < n"
  shows "Selectto2Chs d (int chans) buf
    = Some (1, take 2 buf @ concat (map (\<lambda>j. [frame_at chans buf j ! 0, frame_at chans buf j ! 2]) [1..<n]) @ drop (2 * n) buf)"
proof -
  have "nat (frame_samples d - 1) = n - 1" "1 + (n - 1) = n" using assms(3,4) by auto
  then show ?thesis
    using in_place.run [OF select_in_place [OF assms(1)], of 1 "n - 1" buf] assms(2) by (simp add: Selectto2Chs_def)
qed

lemma to_mono:
  assumes "2 * n \<le> length buf"
  shows "Stereo2Mono buf (int n) = Some (0, map (\<lambda>j. s16 ((buf ! (2 * j) + buf ! (2 * j + 1)) sdiv 2)) [0..<n] @ drop n buf)"
proof -
  have "map (\<lambda>j. [s16 ((frame_at 2 buf j ! 0 + frame_at 2 buf j ! 1) sdiv 2)]) [0..<n]
      = map (\<lambda>j. [s16 ((buf ! (2 * j) + buf ! (2 * j + 1)) sdiv 2)]) [0..<n]"
    using assms by (intro map_cong refl) (simp add: frame_at_def)
  then have "concat (map (\<lambda>j. [s16 ((frame_at 2 buf j ! 0 + frame_at 2 buf j ! 1) sdiv 2)]) [0..<n])
      = map (\<lambda>j. s16 ((buf ! (2 * j) + buf ! (2 * j + 1)) sdiv 2)) [0..<n]"
    by (simp add: concat_map_singleton)
  with mean.run_all [OF assms] show ?thesis by (simp add: Stereo2Mono_def)
qed

lemma to_stereo:
  assumes "2 * n \<le> length buf"
  shows "Mono2Stereo buf (int n) = Some (0, concat (map (\<lambda>j. [frame_at 2 buf j ! 0, frame_at 2 buf j ! 0]) [0..<n]) @ drop (2 * n) buf)"
  using left.run_all [OF assms] by (simp add: Mono2Stereo_def)

lemma one_side:
  assumes "2 * n \<le> length buf" "side = (if chSpec d = CHAN_DUALLEFT then 0 else 1)" "chSpec d = CHAN_DUALLEFT \<or> chSpec d = CHAN_DUALRIGHT"
  shows "PostChannelProcess d buf (int n)
    = Some (0, concat (map (\<lambda>j. [frame_at 2 buf j ! side, frame_at 2 buf j ! side]) [0..<n]) @ drop (2 * n) buf)"
  using assms(2,3) left.run_all [OF assms(1)] right.run_all [OF assms(1)]
  by (auto simp: PostChannelProcess_def CHAN_DUALLEFT_def CHAN_DUALRIGHT_def)

end
