(* ===== verification/Elements.thy ===== *)
theory Elements
  imports Syntax
begin

unbundle bit_operations_syntax

text \<open>
  The elements of a raw data block, \<^verbatim>\<open>src/lc_syntax.c\<close>: a channel stream, single channel and channel
  pair elements, data and fill elements.
\<close>

section \<open>Operations\<close>

text \<open>\<open>individual_channel_stream\<close> up to the call of \<open>section_data\<close>: the gain and the window data. The
  result names the entry of \<open>ICS_Data\<close> the stream uses.\<close>

definition ics_stage :: "(string \<Rightarrow> bool) \<Rightarrow> AACDecoder \<Rightarrow> int \<Rightarrow> (int \<times> int \<times> AACDecoder) option" where
  "ics_stage malloc d ch =
     (let (v, d) = dget d 8;
          d = d\<lparr>global_gain := v\<rparr>;
          d = (if sampleBits d = 32 then d\<lparr>global_gain := global_gain d - 32\<rparr> else d) in
      if common_window d = 0 then
        do { (ret, d) \<leftarrow> ics_info malloc d ch; Some (ret, ch, d) }
      else Some (0, 0, d))"

text \<open>The calls of \<open>section_data\<close> and \<open>scale_factor_data\<close>.\<close>

definition ics_sections :: "ICS_Data \<Rightarrow> AACDecoder \<Rightarrow> int \<Rightarrow> (int \<times> AACDecoder) option" where
  "ics_sections ics d ch =
     do { row \<leftarrow> rd (sfb_cb d) ch;
          (ret, row, bs) \<leftarrow> section_data ics row (dbs d);
          rows \<leftarrow> wr (sfb_cb d) ch row;
          Some (if ret < 0 then TT_AACDEC_ERR_AAC_INVSTREAM else 0, d\<lparr>sfb_cb := rows, dbs := bs\<rparr>) }"

definition ics_scales :: "ICS_Data \<Rightarrow> AACDecoder \<Rightarrow> int \<Rightarrow> (int \<times> AACDecoder) option" where
  "ics_scales ics d ch =
     do { cbs \<leftarrow> rd (sfb_cb d) ch;
          row \<leftarrow> rd (scaleFactors d) ch;
          (ret, row, bs) \<leftarrow> scale_factor_data (global_gain d) ics cbs row (dbs d);
          rows \<leftarrow> wr (scaleFactors d) ch row;
          Some (if ret < 0 then TT_AACDEC_ERR_AAC_INVSTREAM else 0, d\<lparr>scaleFactors := rows, dbs := bs\<rparr>) }"

definition ics_codes :: "ICS_Data \<Rightarrow> AACDecoder \<Rightarrow> int \<Rightarrow> (int \<times> AACDecoder) option" where
  "ics_codes ics d ch =
     do { (ret, d) \<leftarrow> ics_sections ics d ch;
          if ret \<noteq> 0 then Some (ret, d) else ics_scales ics d ch }"

text \<open>The optional pulse data and noise shaping data, each behind its flag.\<close>

definition ics_pulse :: "AACDecoder \<Rightarrow> int \<Rightarrow> AACDecoder option" where
  "ics_pulse d ch =
     (let (v, d) = dget d 1 in
      do { ps \<leftarrow> wr (pulse_data_present d) ch v;
           let d = d\<lparr>pulse_data_present := ps\<rparr>;
           if v \<noteq> 0 then
             do { pi \<leftarrow> rd (pulse_data d) ch;
                  (pi, bs) \<leftarrow> read_pulse_data pi (dbs d);
                  pis \<leftarrow> wr (pulse_data d) ch pi;
                  Some (d\<lparr>pulse_data := pis, dbs := bs\<rparr>) }
           else Some d })"

definition ics_tns :: "int \<Rightarrow> AACDecoder \<Rightarrow> int \<Rightarrow> AACDecoder option" where
  "ics_tns wseq d ch =
     (let (v, d) = dget d 1 in
      do { ts \<leftarrow> wr (tns_data_present d) ch v;
           let d = d\<lparr>tns_data_present := ts\<rparr>;
           if v \<noteq> 0 then
             do { ts \<leftarrow> rd (tns_data d) ch;
                  (ts, bs) \<leftarrow> read_tns_data wseq ts (dbs d);
                  tss \<leftarrow> wr (tns_data d) ch ts;
                  Some (d\<lparr>tns_data := tss, dbs := bs\<rparr>) }
           else Some d })"

definition ics_spectrum :: "ICS_Data \<Rightarrow> AACDecoder \<Rightarrow> int \<Rightarrow> (int \<times> AACDecoder) option" where
  "ics_spectrum ics d ch =
     do { cbs \<leftarrow> rd (sfb_cb d) ch;
          present \<leftarrow> rd (pulse_data_present d) ch;
          pi \<leftarrow> rd (pulse_data d) ch;
          c \<leftarrow> rd (coef d) ch;
          (err, bs, c) \<leftarrow> spectral_data (sampRateIdx d) ics cbs present pi (dbs d) c;
          cs \<leftarrow> wr (coef d) ch c;
          Some (err, d\<lparr>coef := cs, dbs := bs\<rparr>) }"

text \<open>\<open>individual_channel_stream\<close> from the call of \<open>section_data\<close> on.\<close>

definition ics_body :: "ICS_Data \<Rightarrow> AACDecoder \<Rightarrow> int \<Rightarrow> (int \<times> AACDecoder) option" where
  "ics_body ics d ch =
     do { (ret, d) \<leftarrow> ics_codes ics d ch;
          if ret \<noteq> 0 then Some (ret, d)
          else do {
            d \<leftarrow> ics_pulse d ch;
            d \<leftarrow> ics_tns (window_sequence ics) d ch;
            let (v, d) = dget d 1;
            if v \<noteq> 0 then Some (TT_AACDEC_ERR_AUDIO_UNSFEATURE, d)
            else ics_spectrum ics d ch } }"

definition individual_channel_stream :: "(string \<Rightarrow> bool) \<Rightarrow> AACDecoder \<Rightarrow> int \<Rightarrow> (int \<times> AACDecoder) option" where
  "individual_channel_stream malloc d ch =
     do { (ret, ii, d) \<leftarrow> ics_stage malloc d ch;
          if ret < 0 then Some (TT_AACDEC_ERR_AAC_INVSTREAM, d)
          else do { ics \<leftarrow> rd (ics_data d) ii; ics_body ics d ch } }"

definition single_channel_element :: "(string \<Rightarrow> bool) \<Rightarrow> AACDecoder \<Rightarrow> (int \<times> AACDecoder) option" where
  "single_channel_element malloc d = (let (_, d) = dget d 4 in individual_channel_stream malloc d 0)"

text \<open>The loops over \<open>ms_used\<close>.\<close>

fun ms_loop :: "nat \<Rightarrow> int \<Rightarrow> int \<Rightarrow> int list list \<Rightarrow> BitStream \<Rightarrow> (int list list \<times> BitStream) option" where
  "ms_loop 0 g msfb rows bs = Some (rows, bs)"
| "ms_loop (Suc k) g msfb rows bs =
     do { row \<leftarrow> rd rows g;
          (row, bs) \<leftarrow> flags_loop (nat msfb) 0 row bs;
          rows \<leftarrow> wr rows g row;
          ms_loop k (g + 1) msfb rows bs }"

text \<open>\<open>channel_pair_element\<close> up to the first channel stream.\<close>

definition pair_head :: "(string \<Rightarrow> bool) \<Rightarrow> AACDecoder \<Rightarrow> (int \<times> AACDecoder) option" where
  "pair_head malloc d =
     (let (_, d) = dget d 4;
          (v, d) = dget d 1;
          d = d\<lparr>common_window := v\<rparr> in
      if common_window d \<noteq> 0 then
        do { (ret, d) \<leftarrow> ics_info malloc d 0;
             if ret < 0 then Some (TT_AACDEC_ERR_AAC_INVSTREAM, d)
             else do {
               let (v, d) = dget d 2;
               let d = d\<lparr>ms_mask_present := v\<rparr>;
               if ms_mask_present d = 3 then Some (TT_AACDEC_ERR_AUDIO_UNSFEATURE, d)
               else if ms_mask_present d = 1 then
                 do { ics \<leftarrow> rd (ics_data d) 0;
                      (rows, bs) \<leftarrow> ms_loop (nat (num_window_groups ics)) 0 (max_sfb ics) (ms_used d) (dbs d);
                      Some (0, d\<lparr>ms_used := rows, dbs := bs\<rparr>) }
               else Some (0, d) } }
      else Some (0, d))"

definition channel_pair_element :: "(string \<Rightarrow> bool) \<Rightarrow> AACDecoder \<Rightarrow> (int \<times> AACDecoder) option" where
  "channel_pair_element malloc d =
     do { (err, d) \<leftarrow> pair_head malloc d;
          if err \<noteq> 0 then Some (err, d)
          else do {
            (err, d) \<leftarrow> individual_channel_stream malloc d 0;
            if err \<noteq> 0 then Some (err, d)
            else do {
              (err, d) \<leftarrow> individual_channel_stream malloc d 1;
              if err \<noteq> 0 then Some (err, d) else Some (0, d) } } }"

text \<open>\<open>for (i = 0; i < count; i++) buf[i] = BitStreamGetBits(bs, 8)\<close>\<close>

fun bytes_loop :: "nat \<Rightarrow> int \<Rightarrow> int list \<Rightarrow> BitStream \<Rightarrow> (int list \<times> BitStream) option" where
  "bytes_loop 0 i buf bs = Some (buf, bs)"
| "bytes_loop (Suc k) i buf bs =
     (let (v, bs) = BitStreamGetBits bs 8 in
      do { buf \<leftarrow> wr buf i (u8 v); bytes_loop k (i + 1) buf bs })"

definition data_stream_element :: "AACDecoder \<Rightarrow> (int \<times> AACDecoder) option" where
  "data_stream_element d =
     (let (_, d) = dget d 4;
          (align, d) = dget d 1;
          (count, d) = dget d 8;
          (count, d) = (if count = 255 then (let (v, d) = dget d 8 in (count + v, d)) else (count, d));
          d = (if align \<noteq> 0 then d\<lparr>dbs := BitStreamByteAlign (dbs d)\<rparr> else d) in
      do { (_, bs) \<leftarrow> bytes_loop (nat count) 0 (replicate 560 0) (dbs d);
           Some (0, d\<lparr>dbs := bs\<rparr>) })"

text \<open>\<open>sbr_init\<close> of \<^verbatim>\<open>src/sbr_dec.c\<close>: allocate the SBR state once.\<close>

definition sbr_init :: "(string \<Rightarrow> bool) \<Rightarrow> AACDecoder \<Rightarrow> int \<times> AACDecoder" where
  "sbr_init malloc d =
     (if \<not> sbr d then (if malloc ''sbr_info'' then (0, d\<lparr>sbr := True, ps_used := 0\<rparr>) else (TTKErrNoMemory, d)) else (0, d))"

definition fill_count :: "AACDecoder \<Rightarrow> int \<times> AACDecoder" where
  "fill_count d =
     (let (count, d) = dget d 4 in
      if count = 15 then (let (v, d) = dget d 8 in (count + (v - 1), d)) else (count, d))"

text \<open>The check for SBR data at the end of \<open>fill_element\<close>.\<close>

definition fill_sbr :: "(string \<Rightarrow> bool) \<Rightarrow> AACDecoder \<Rightarrow> (int \<times> AACDecoder) option" where
  "fill_sbr malloc d =
     (if fillCount d > 0 \<and> disableSBR d = 0 then
        do { b \<leftarrow> rd (fillBuf d) 0;
             let d = d\<lparr>fillExtType := drop_bit 4 b AND 0x0f\<rparr>;
             if fillExtType d = SBR_EXTENSION \<or> fillExtType d = SBR_EXTENSION_CRC then
               (let d = d\<lparr>sbrEnabled := 1\<rparr> in
                if \<not> sbr d then
                  (let (r, d) = sbr_init malloc d in
                   if r \<noteq> 0 then Some (TT_AACDEC_ERR_AAC_FAILDECSBR, d\<lparr>disableSBR := 1\<rparr>)
                   else Some (0, d))
                else Some (0, d))
             else Some (0, d) }
      else Some (0, d))"

definition fill_element :: "(string \<Rightarrow> bool) \<Rightarrow> AACDecoder \<Rightarrow> (int \<times> AACDecoder) option" where
  "fill_element malloc d =
     (let (count, d) = fill_count d;
          d = d\<lparr>fillCount := count\<rparr> in
      do { (buf, bs) \<leftarrow> bytes_loop (nat count) 0 (fillBuf d) (dbs d);
           fill_sbr malloc (d\<lparr>fillBuf := buf, dbs := bs, fillExtType := 0\<rparr>) })"

end
