(* ===== verification/ElementsSafe.thy ===== *)
theory ElementsSafe
  imports Elements SyntaxSafe
begin

text \<open>
  The well-formed decoder, and the safety of data elements, fill elements, pulses and noise shaping.
\<close>

section \<open>The well-formed decoder\<close>

definition rows_ok :: "nat \<Rightarrow> nat \<Rightarrow> 'a list list \<Rightarrow> bool" where
  "rows_ok n m xs \<longleftrightarrow> length xs = n \<and> list_all (\<lambda>r. length r = m) xs"

definition pulse_wf :: "Pulse_Data \<Rightarrow> bool" where
  "pulse_wf pi \<longleftrightarrow> length (pulse_offset pi) = 4 \<and> length (pulse_amp pi) = 4
     \<and> list_all (\<lambda>x. 0 \<le> x) (pulse_offset pi)"

definition tns_wf :: "TNS_Data \<Rightarrow> bool" where
  "tns_wf t \<longleftrightarrow> length (tns_length t) = 4 \<and> length (tns_order t) = 4 \<and> length (tns_direction t) = 4
     \<and> length (coef_compress t) = 4 \<and> rows_ok 4 32 (tns_coef t)"

text \<open>Every array has its declared length, the sample rate index is one of the table.\<close>

definition dec_ok :: "AACDecoder \<Rightarrow> bool" where
  "dec_ok d \<longleftrightarrow> length (ics_data d) = 2 \<and> list_all ics_wf (ics_data d)
     \<and> length (ltp_data_of d) = 2 \<and> list_all ltp_ok (ltp_data_of d)
     \<and> rows_ok 2 128 (scaleFactors d) \<and> rows_ok 2 128 (sfb_cb d) \<and> rows_ok 8 64 (ms_used d)
     \<and> length (pulse_data_present d) = 2 \<and> length (pulse_data d) = 2 \<and> list_all pulse_wf (pulse_data d)
     \<and> length (tns_data_present d) = 2 \<and> rows_ok 2 8 (tns_data d) \<and> list_all (list_all tns_wf) (tns_data d)
     \<and> rows_ok 2 1024 (coef d) \<and> length (fillBuf d) = 269
     \<and> 0 \<le> sampRateIdx d \<and> sampRateIdx d < 12"

lemma list_all_upd: "list_all P xs \<Longrightarrow> P x \<Longrightarrow> list_all P (xs[i := x])"
  using set_update_subset_insert [of xs i x] by (auto simp: list_all_iff)

lemma list_all_rd: "list_all P xs \<Longrightarrow> i < length xs \<Longrightarrow> P (xs ! i)"
  by (simp add: list_all_length)

lemma rows_ok_upd [simp]: "rows_ok n m xs \<Longrightarrow> length r = m \<Longrightarrow> rows_ok n m (xs[i := r])"
  by (simp add: rows_ok_def list_all_upd)

lemma rows_ok_length: "rows_ok n m xs \<Longrightarrow> length xs = n"
  by (simp add: rows_ok_def)

lemma rows_ok_nth [simp]: "rows_ok n m xs \<Longrightarrow> i < n \<Longrightarrow> length (xs ! i) = m"
  by (simp add: rows_ok_def list_all_length)

lemma dec_ok_upd [simp]:
  "dec_ok (d\<lparr>dbs := b\<rparr>) = dec_ok d" "dec_ok (d\<lparr>global_gain := x\<rparr>) = dec_ok d"
  "dec_ok (d\<lparr>common_window := x\<rparr>) = dec_ok d" "dec_ok (d\<lparr>ms_mask_present := x\<rparr>) = dec_ok d"
  "dec_ok (d\<lparr>t_est_buf := ys\<rparr>) = dec_ok d" "dec_ok (d\<lparr>f_est_buf := ys\<rparr>) = dec_ok d"
  "dec_ok (d\<lparr>fillCount := x\<rparr>) = dec_ok d" "dec_ok (d\<lparr>fillExtType := x\<rparr>) = dec_ok d"
  "dec_ok (d\<lparr>sbrEnabled := x\<rparr>) = dec_ok d" "dec_ok (d\<lparr>disableSBR := x\<rparr>) = dec_ok d"
  "dec_ok (d\<lparr>sbr := y\<rparr>) = dec_ok d" "dec_ok (d\<lparr>ps_used := x\<rparr>) = dec_ok d"
  by (simp_all add: dec_ok_def)

lemma dec_ok_arrays:
  assumes "dec_ok d"
  shows "list_all ics_wf icss \<Longrightarrow> length icss = 2 \<Longrightarrow> dec_ok (d\<lparr>ics_data := icss\<rparr>)"
    "list_all ltp_ok ltps \<Longrightarrow> length ltps = 2 \<Longrightarrow> dec_ok (d\<lparr>ltp_data_of := ltps\<rparr>)"
    "rows_ok 2 128 rows \<Longrightarrow> dec_ok (d\<lparr>sfb_cb := rows\<rparr>)" "rows_ok 2 128 rows \<Longrightarrow> dec_ok (d\<lparr>scaleFactors := rows\<rparr>)"
    "rows_ok 8 64 rows \<Longrightarrow> dec_ok (d\<lparr>ms_used := rows\<rparr>)" "rows_ok 2 1024 rows \<Longrightarrow> dec_ok (d\<lparr>coef := rows\<rparr>)"
    "length ps = 2 \<Longrightarrow> dec_ok (d\<lparr>pulse_data_present := ps\<rparr>)" "length ps = 2 \<Longrightarrow> dec_ok (d\<lparr>tns_data_present := ps\<rparr>)"
    "length pis = 2 \<Longrightarrow> list_all pulse_wf pis \<Longrightarrow> dec_ok (d\<lparr>pulse_data := pis\<rparr>)"
    "rows_ok 2 8 tss \<Longrightarrow> list_all (list_all tns_wf) tss \<Longrightarrow> dec_ok (d\<lparr>tns_data := tss\<rparr>)"
    "length buf = 269 \<Longrightarrow> dec_ok (d\<lparr>fillBuf := buf\<rparr>)"
  using assms by (simp_all add: dec_ok_def)

lemma dec_okD:
  assumes "dec_ok d"
  shows "length (ics_data d) = 2" "length (ltp_data_of d) = 2" "length (sfb_cb d) = 2" "length (scaleFactors d) = 2"
    "length (pulse_data_present d) = 2" "length (pulse_data d) = 2" "length (tns_data_present d) = 2"
    "length (tns_data d) = 2" "length (coef d) = 2" "length (fillBuf d) = 269" "0 \<le> sampRateIdx d" "sampRateIdx d < 12"
    "rows_ok 2 128 (sfb_cb d)" "rows_ok 2 128 (scaleFactors d)" "rows_ok 2 1024 (coef d)" "rows_ok 8 64 (ms_used d)"
    "rows_ok 2 8 (tns_data d)" "list_all ics_wf (ics_data d)" "list_all ltp_ok (ltp_data_of d)"
    "list_all pulse_wf (pulse_data d)" "list_all (list_all tns_wf) (tns_data d)"
  using assms by (auto simp: dec_ok_def rows_ok_def)

section \<open>Reading through the decoder\<close>

lemma dget_simps:
  "fst (dget d n) = fst (BitStreamGetBits (dbs d) n)"
  "snd (dget d n) = d\<lparr>dbs := snd (BitStreamGetBits (dbs d) n)\<rparr>"
  "fst (dget8 d n) = u8 (fst (BitStreamGetBits (dbs d) n))"
  "snd (dget8 d n) = d\<lparr>dbs := snd (BitStreamGetBits (dbs d) n)\<rparr>"
  by (simp_all add: dget_def dget8_def split_beta)

context reader begin

lemma bytes_loop_ok:
  "P bs \<Longrightarrow> 0 \<le> i \<Longrightarrow> i + int k \<le> int (length xs) \<Longrightarrow>
   wp (bytes_loop k i xs bs) (\<lambda>(ys, bs'). length ys = length xs \<and> P bs')"
proof (induction k arbitrary: i xs bs)
  case (Suc k)
  from Suc.IH [of "snd (BitStreamGetBits bs 8)" "i + 1" "xs[nat i := fst (BitStreamGetBits bs 8)]"] Suc.prems show ?case
    by (simp add: Let_def)
qed simp

end

text \<open>What an element needs and keeps.\<close>

definition dec_run :: "(BitStream \<Rightarrow> bool) \<Rightarrow> AACDecoder \<Rightarrow> bool" where
  "dec_run P d \<longleftrightarrow> P (dbs d) \<and> dec_ok d"

context reader begin

lemma dec_run_dbs: "dec_run P (d\<lparr>dbs := b\<rparr>) \<longleftrightarrow> P b \<and> dec_ok d"
  by (simp add: dec_run_def)

lemma dget_run [simp]:
  assumes "dec_run P d" "0 < n" "n \<le> 32"
  shows "dec_run P (snd (dget d n))" "dec_run P (snd (dget8 d n))" "0 \<le> fst (dget d n)" "0 \<le> fst (dget8 d n)"
  using assms by (simp_all add: dget_simps dec_run_def)

lemma dget_range_run: "dec_run P d \<Longrightarrow> 0 < n \<Longrightarrow> n \<le> 32 \<Longrightarrow> fst (dget d n) < 2 ^ n"
  "dec_run P d \<Longrightarrow> 0 < n \<Longrightarrow> n \<le> 8 \<Longrightarrow> fst (dget8 d n) < 2 ^ n"
  using P_range [of "dbs d" n] by (auto simp add: dget_simps dec_run_def)

lemma data_stream_ok:
  assumes "dec_run P d"
  shows "wp (data_stream_element d) (\<lambda>(ret, d'). ret = 0 \<and> dec_run P d')"
proof -
  have go: "wp (bytes_loop (nat count) 0 (replicate 560 0) (dbs d2)) (\<lambda>p. dec_run P (d2\<lparr>dbs := snd p\<rparr>))"
    if "dec_run P d2" "count \<le> 510" for d2 count
    using that by (auto simp: dec_run_def intro!: wp_mono [OF bytes_loop_ok])
  define d1 where "d1 = snd (dget (snd (dget d 4)) 1)"
  have d1: "dec_run P d1" using assms by (simp add: d1_def)
  define d2 where "d2 = snd (dget d1 8)"
  have d2: "dec_run P d2" using d1 by (simp add: d2_def)
  note r = dget_range_run [OF d1, of 8] dget_range_run [OF d2, of 8]
  have al: "dec_run P (d\<lparr>dbs := BitStreamByteAlign (dbs d)\<rparr>)" if "dec_run P d" for d
    using that by (simp add: dec_run_def P_align)
  have "wp (data_stream_element d) (\<lambda>p. fst p = 0 \<and> dec_run P (snd p))"
  proof (cases "fst (dget d1 8) = 255")
    case True
    have d3: "dec_run P (snd (dget d2 8))" using d2 by simp
    show ?thesis using True r go [OF d3] go [OF al [OF d3]]
      by (simp add: data_stream_element_def Let_def split_beta d1_def d2_def)
  next
    case False
    show ?thesis using False r go [OF d2] go [OF al [OF d2]]
      by (simp add: data_stream_element_def Let_def split_beta d1_def d2_def)
  qed
  then show ?thesis by (simp add: case_prod_unfold)
qed

lemma dec_run_upd [simp]:
  "dec_run P (d\<lparr>global_gain := x\<rparr>) = dec_run P d"
  "dec_run P (d\<lparr>common_window := x\<rparr>) = dec_run P d" "dec_run P (d\<lparr>ms_mask_present := x\<rparr>) = dec_run P d"
  "dec_run P (d\<lparr>t_est_buf := ys\<rparr>) = dec_run P d" "dec_run P (d\<lparr>f_est_buf := ys\<rparr>) = dec_run P d"
  "dec_run P (d\<lparr>fillCount := x\<rparr>) = dec_run P d" "dec_run P (d\<lparr>fillExtType := x\<rparr>) = dec_run P d"
  "dec_run P (d\<lparr>sbrEnabled := x\<rparr>) = dec_run P d" "dec_run P (d\<lparr>disableSBR := x\<rparr>) = dec_run P d"
  "dec_run P (d\<lparr>sbr := y\<rparr>) = dec_run P d" "dec_run P (d\<lparr>ps_used := x\<rparr>) = dec_run P d"
  by (simp_all add: dec_run_def)

lemma dec_run_ok: "dec_run P d \<Longrightarrow> dec_ok d" and dec_run_inv: "dec_run P d \<Longrightarrow> P (dbs d)"
  by (simp_all add: dec_run_def)

lemma fill_count_ok: "dec_run P d \<Longrightarrow>
    dec_run P (snd (fill_count d)) \<and> 0 \<le> fst (fill_count d) \<and> fst (fill_count d) \<le> 269"
  using dget_range_run(1) [of d 4] dget_range_run(1) [of "snd (dget d 4)" 8] by (auto simp: fill_count_def split_beta)

lemma fill_sbr_ok: "dec_run P d \<Longrightarrow> wp (fill_sbr malloc d) (\<lambda>p. (fst p = 0 \<or> fst p = TT_AACDEC_ERR_AAC_FAILDECSBR)
     \<and> dec_run P (snd p) \<and> fillCount (snd p) = fillCount d)"
  using dec_okD(10) [OF dec_run_ok, of d] by (auto simp: fill_sbr_def Let_def sbr_init_def TTKErrNoMemory_def)

lemma fill_element_ok:
  assumes "dec_run P d"
  shows "wp (fill_element malloc d) (\<lambda>(ret, d'). (ret = 0 \<or> ret = TT_AACDEC_ERR_AAC_FAILDECSBR)
     \<and> dec_run P d' \<and> 0 \<le> fillCount d' \<and> fillCount d' \<le> 269)"
proof -
  obtain c d1 where c: "fill_count d = (c, d1)" by fastforce
  have d1: "dec_run P d1" "0 \<le> c" "c \<le> 269" using fill_count_ok [OF assms] by (simp_all add: c)
  define d2 where "d2 = d1\<lparr>fillCount := c\<rparr>"
  have d2: "dec_run P d2" "fillCount d2 = c" using d1 by (simp_all add: d2_def)
  have len: "length (fillBuf d2) = 269" by (rule dec_okD [OF dec_run_ok [OF d2(1)]])
  have run: "wp (fill_sbr malloc (d2\<lparr>fillBuf := buf, dbs := b, fillExtType := 0\<rparr>))
      (\<lambda>p. (fst p = 0 \<or> fst p = TT_AACDEC_ERR_AAC_FAILDECSBR) \<and> dec_run P (snd p) \<and> fillCount (snd p) = c)"
    if "length buf = 269" "P b" for buf b
  proof -
    have "dec_run P (d2\<lparr>fillBuf := buf, dbs := b, fillExtType := 0\<rparr>)"
      using that dec_ok_arrays(11) [OF dec_run_ok [OF d2(1)]] by (simp add: dec_run_def)
    from fill_sbr_ok [OF this, of malloc] show ?thesis by (simp add: d2(2))
  qed
  have b: "wp (bytes_loop (nat c) 0 (fillBuf d2) (dbs d2)) (\<lambda>(ys, bs'). length ys = length (fillBuf d2) \<and> P bs')"
    using d1 len d2 by (intro bytes_loop_ok) (auto simp: dec_run_inv)
  show ?thesis
    unfolding fill_element_def c Let_def prod.case d2_def [symmetric] wp_bind
    using d1 by (intro wp_mono [OF b]) (auto simp: len intro!: wp_mono [OF run])
qed

end

section \<open>Pulses and noise shaping\<close>

context reader begin

lemma pulse_loop_ok:
  "P bs \<Longrightarrow> pulse_wf pi \<Longrightarrow> 0 \<le> i \<Longrightarrow> i + int k \<le> 4 \<Longrightarrow>
   wp (pulse_loop k i pi bs) (\<lambda>(pi', bs'). P bs' \<and> pulse_wf pi' \<and> number_pulse pi' = number_pulse pi
      \<and> pulse_start_sfb pi' = pulse_start_sfb pi)"
proof (induction k arbitrary: i pi bs)
  case (Suc k)
  let ?b1 = "snd (BitStreamGetBits bs 5)"
  let ?po = "(pulse_offset pi)[nat i := fst (BitStreamGetBits bs 5)]" and ?pa = "(pulse_amp pi)[nat i := fst (BitStreamGetBits ?b1 4)]"
  have "pulse_wf (pi\<lparr>pulse_offset := ?po, pulse_amp := ?pa\<rparr>)"
    using Suc.prems by (auto simp: pulse_wf_def intro!: list_all_upd)
  from Suc.IH [OF _ this, of "snd (BitStreamGetBits ?b1 4)" "i + 1"] Suc.prems show ?case
    by (simp add: Let_def pulse_wf_def)
qed simp

lemma read_pulse_data_ok:
  assumes "P bs" "pulse_wf pi"
  shows "wp (read_pulse_data pi bs) (\<lambda>(pi', bs'). P bs' \<and> pulse_wf pi' \<and> 0 \<le> number_pulse pi' \<and> number_pulse pi' \<le> 3
      \<and> 0 \<le> pulse_start_sfb pi' \<and> pulse_start_sfb pi' < 64)"
proof -
  let ?b1 = "snd (BitStreamGetBits bs 2)"
  have b1: "P ?b1" using assms by simp
  have r: "fst (BitStreamGetBits bs 2) < 4" "fst (BitStreamGetBits ?b1 6) < 64"
    using P_range [OF assms(1), of 2] P_range [OF b1, of 6] by auto
  have w: "pulse_wf (pi\<lparr>number_pulse := x, pulse_start_sfb := y\<rparr>)" for x y
    using assms(2) by (simp add: pulse_wf_def)
  show ?thesis
    using r b1 assms(1) w by (auto simp: read_pulse_data_def Let_def intro!: wp_mono [OF pulse_loop_ok])
qed

lemma coef_loop_ok:
  "P bs \<Longrightarrow> 0 < bits \<Longrightarrow> bits \<le> 8 \<Longrightarrow> 0 \<le> i \<Longrightarrow> i + int k \<le> int (length xs) \<Longrightarrow>
   wp (coef_loop k i bits xs bs) (\<lambda>(ys, bs'). length ys = length xs \<and> P bs')"
proof (induction k arbitrary: i xs bs)
  case (Suc k)
  from Suc.IH [of "snd (BitStreamGetBits bs bits)" "i + 1" "xs[nat i := fst (BitStreamGetBits bs bits)]"] Suc.prems show ?case
    by (simp add: Let_def)
qed simp

end

lemma tns_wf_upd:
  assumes "tns_wf t"
  shows "length xs = 4 \<Longrightarrow> tns_wf (t\<lparr>tns_length := xs\<rparr>)" "length xs = 4 \<Longrightarrow> tns_wf (t\<lparr>tns_order := xs\<rparr>)"
    "length xs = 4 \<Longrightarrow> tns_wf (t\<lparr>tns_direction := xs\<rparr>)" "length xs = 4 \<Longrightarrow> tns_wf (t\<lparr>coef_compress := xs\<rparr>)"
    "rows_ok 4 32 rows \<Longrightarrow> tns_wf (t\<lparr>tns_coef := rows\<rparr>)" "tns_wf (t\<lparr>n_filt := x\<rparr>)" "tns_wf (t\<lparr>coef_res := x\<rparr>)"
    "length (tns_length t) = 4" "length (tns_order t) = 4" "length (tns_direction t) = 4" "length (coef_compress t) = 4"
    "rows_ok 4 32 (tns_coef t)"
  using assms by (simp_all add: tns_wf_def)

context reader begin

lemma filt_loop_ok:
  assumes "P bs" "tns_wf t" "0 \<le> filt" "filt + int k \<le> 4" "0 < lbits" "lbits \<le> 8" "0 < obits" "obits \<le> 5"
    "start = 3 \<or> start = 4"
  shows "wp (filt_loop k filt lbits obits start t bs) (\<lambda>(t', bs'). P bs' \<and> tns_wf t')"
  using assms(1-4)
proof (induction k arbitrary: filt t bs)
  case (Suc k)
  let ?b1 = "snd (BitStreamGetBits bs lbits)" let ?b2 = "snd (BitStreamGetBits ?b1 obits)"
  let ?b3 = "snd (BitStreamGetBits ?b2 1)" let ?b4 = "snd (BitStreamGetBits ?b3 1)"
  let ?ord = "fst (BitStreamGetBits ?b1 obits)" and ?cmp = "fst (BitStreamGetBits ?b3 1)"
  have inv: "P ?b1" "P ?b2" "P ?b3" "P ?b4" using Suc.prems assms(5-8) by simp_all
  have "(2 :: int) ^ obits \<le> 2 ^ 5" using assms(8) by (intro power_increasing) auto
  then have o: "0 \<le> ?ord" "?ord < 32" using P_range [OF inv(1) assms(7)] assms(8) by auto
  have c: "0 \<le> ?cmp" "?cmp < 2" using P_range [OF inv(3), of 1] by auto
  have bits: "0 < start - nat ?cmp" "start - nat ?cmp \<le> 8" using c assms(9) by auto
  note w = tns_wf_upd [OF Suc.prems(2)]
  have len: "length (tns_coef t ! nat filt) = 32" "length (tns_coef t) = 4"
    using rows_ok_nth [OF w(12)] rows_ok_length [OF w(12)] Suc.prems by auto
  let ?t0 = "t\<lparr>tns_length := (tns_length t)[nat filt := fst (BitStreamGetBits bs lbits)], tns_order := (tns_order t)[nat filt := ?ord]\<rparr>"
  have t0: "tns_wf ?t0" using w by (simp add: tns_wf_def)
  have IH: "wp (filt_loop k (filt + 1) lbits obits start t' bs') (\<lambda>(t', bs'). P bs' \<and> tns_wf t')"
    if "tns_wf t'" "P bs'" for t' bs'
    using Suc.IH [OF that(2,1), of "filt + 1"] Suc.prems by simp
  have coefs: "wp (coef_loop (nat ?ord) 0 (start - nat ?cmp) (tns_coef t ! nat filt) ?b4)
      (\<lambda>(ys, bs'). length ys = 32 \<and> P bs')"
    using coef_loop_ok [OF inv(4) bits, of 0 "nat ?ord" "tns_coef t ! nat filt"] o len by simp
  have t1: "tns_wf (?t0\<lparr>tns_direction := (tns_direction t)[nat filt := x], coef_compress := (coef_compress t)[nat filt := y],
      tns_coef := (tns_coef t)[nat filt := r]\<rparr>)" if "length r = 32" for x y r
    using w that by (simp add: tns_wf_def)
  show ?case
  proof (cases "?ord = 0")
    case True
    then show ?thesis using Suc.prems inv assms(5-8) w(8-11) IH [OF t0 inv(2)] by (simp add: Let_def)
  next
    case False
    then show ?thesis
      using Suc.prems inv assms(5-8) w(8-11) len c o by (auto simp: Let_def simp del: One_nat_def intro!: wp_mono [OF coefs] IH t1)
  qed
qed simp

lemma tns_loop_ok:
  assumes "P bs" "list_all tns_wf ts" "length ts = 8" "0 \<le> w" "w + int k \<le> 8"
    "0 < nb" "nb \<le> 2" "0 < lbits" "lbits \<le> 8" "0 < obits" "obits \<le> 5"
  shows "wp (tns_loop k w nb lbits obits ts bs) (\<lambda>(ts', bs'). P bs' \<and> length ts' = 8 \<and> list_all tns_wf ts')"
  using assms(1-5)
proof (induction k arbitrary: w ts bs)
  case (Suc k)
  let ?b1 = "snd (BitStreamGetBits bs nb)" let ?n = "fst (BitStreamGetBits bs nb)"
  have inv: "P ?b1" using Suc.prems assms(6,7) by simp
  have "(2 :: int) ^ nb \<le> 2 ^ 2" using assms(7) by (intro power_increasing) auto
  then have n: "0 \<le> ?n" "?n < 4" using P_range [OF Suc.prems(1) assms(6)] assms(7) by auto
  have t: "tns_wf (ts ! nat w)" using Suc.prems by (simp add: list_all_rd)
  have IH: "wp (tns_loop k (w + 1) nb lbits obits (ts[nat w := t']) bs') (\<lambda>(ts', bs'). P bs' \<and> length ts' = 8 \<and> list_all tns_wf ts')"
    if "tns_wf t'" "P bs'" for t' bs'
    using Suc.IH [OF that(2) list_all_upd [OF Suc.prems(2) that(1)], of "nat w" "w + 1"] Suc.prems by simp
  have f: "wp (filt_loop (nat ?n) 0 lbits obits st t' bs') (\<lambda>(t', bs'). P bs' \<and> tns_wf t')"
    if "tns_wf t'" "P bs'" "st = 3 \<or> st = 4" for t' bs' st
    using n that assms(8-11) by (intro filt_loop_ok) auto
  note w = tns_wf_upd [OF t]
  show ?case
  proof (cases "?n = 0")
    case True
    then show ?thesis using Suc.prems inv assms(6,7) w IH by (auto simp: Let_def)
  next
    case False
    have "tns_wf ((ts ! nat w)\<lparr>n_filt := ?n, coef_res := x\<rparr>)" for x using t by (simp add: tns_wf_def)
    with False show ?thesis
      using Suc.prems inv assms(6,7) n by (auto simp: Let_def split_beta simp del: One_nat_def intro!: wp_mono [OF f] IH [unfolded case_prod_unfold])
  qed
qed simp

lemma read_tns_data_ok:
  "P bs \<Longrightarrow> list_all tns_wf ts \<Longrightarrow> length ts = 8 \<Longrightarrow>
   wp (read_tns_data wseq ts bs) (\<lambda>(ts', bs'). P bs' \<and> length ts' = 8 \<and> list_all tns_wf ts')"
  unfolding read_tns_data_def by (simp add: tns_loop_ok del: tns_loop.simps)

end

end
