(* ===== verification/SpectralReader.thy ===== *)
theory SpectralReader
  imports SpectralCode Checked "HOL-Library.Sublist"
begin

text \<open>
  What the spectral decoders do to the bit stream: they keep every predicate of the reader that the
  escape sequences keep. The reader's own invariant is not one: the length of an escape is not
  bounded by the code, and a prefix of more than 28 ones reads a field wider than the cache. It is
  kept on every stream without such a prefix.
\<close>

section \<open>Code words\<close>

locale spectral_reader = reader +
  assumes P_escape: "P s \<Longrightarrow> escape y s = Some (v, s') \<Longrightarrow> P s'"
begin

lemma huff_len:
  assumes "P s" "cb \<in> {1..11}" "maxBits (sinfo cb) \<le> n" "n \<le> 32" "huff_code (sinfo cb) n s = Some (c, k, v)"
  shows "0 \<le> k + GET_BITS v \<and> k + GET_BITS v \<le> 16"
proof -
  note b = sbook [OF assms(2)]
  from huff_code_walk [OF P_inv [OF assms(1)] _ assms(4) b(1)] b assms(3,5)
  have "k + GET_BITS v = int (fst (tree_walk (sbook cb) (lookahead s n)))" by auto
  moreover have "fst (tree_walk (sbook cb) (lookahead s n)) \<le> depth (sbook cb)" by (rule tree_walk_depth)
  ultimately show ?thesis using b by auto
qed

lemma sign_len: "n \<le> snd (snd (take_sign v c n)) \<and> snd (snd (take_sign v c n)) \<le> n + 1"
  by (simp add: take_sign_def)

lemma signed_kept:
  assumes "P s" "cb \<in> {1..11}"
  shows "signed_quad (sinfo cb) s = Some (q, s') \<Longrightarrow> P s'" "signed_pair (sinfo cb) s = Some (p, s') \<Longrightarrow> P s'"
  using huff_len [OF assms order_refl] sbook(4) [OF assms(2)] P_skip [OF assms(1)]
  by (force simp: signed_quad_def signed_pair_def split: Option.bind_splits)+

lemma unsigned_quad_kept:
  assumes "P s" "cb \<in> {1..11}" "unsigned_quad (sinfo cb) s = Some (q, s')"
  shows "P s'"
proof -
  obtain c k v where h: "huff_code (sinfo cb) (maxBits (sinfo cb) + 4) s = Some (c, k, v)"
    using assms(3) by (auto simp: unsigned_quad_def split: Option.bind_splits)
  have l: "0 \<le> k + GET_BITS v" "k + GET_BITS v \<le> 16"
    using huff_len [OF assms(1,2) _ _ h] sbook(4) [OF assms(2)] by auto
  let ?n = "k + GET_BITS v" and ?c = "shl32 c (GET_BITS v)"
  define t1 where "t1 = take_sign (GET_QUAD_W v) ?c ?n"
  define t2 where "t2 = take_sign (GET_QUAD_X v) (fst (snd t1)) (snd (snd t1))"
  define t3 where "t3 = take_sign (GET_QUAD_Y v) (fst (snd t2)) (snd (snd t2))"
  define t4 where "t4 = take_sign (GET_QUAD_Z v) (fst (snd t3)) (snd (snd t3))"
  have "s' = BitStreamSkip s (snd (snd t4))"
    using assms(3) by (simp add: unsigned_quad_def h Let_def split_beta t1_def t2_def t3_def t4_def)
  moreover have "0 \<le> snd (snd t4) \<and> snd (snd t4) \<le> 32"
    using sign_len [of ?n "GET_QUAD_W v" ?c] sign_len [of "snd (snd t1)" "GET_QUAD_X v" "fst (snd t1)"]
      sign_len [of "snd (snd t2)" "GET_QUAD_Y v" "fst (snd t2)"] sign_len [of "snd (snd t3)" "GET_QUAD_Z v" "fst (snd t3)"] l
    by (simp add: t1_def [symmetric] t2_def [symmetric] t3_def [symmetric] t4_def [symmetric])
  ultimately show ?thesis using P_skip [OF assms(1)] by simp
qed

lemma unsigned_pair_kept:
  assumes "P s" "cb \<in> {1..11}" "unsigned_pair (sinfo cb) s = Some (q, s')"
  shows "P s'"
proof -
  obtain c k v where h: "huff_code (sinfo cb) (maxBits (sinfo cb) + 2) s = Some (c, k, v)"
    using assms(3) by (auto simp: unsigned_pair_def split: Option.bind_splits)
  have l: "0 \<le> k + GET_BITS v" "k + GET_BITS v \<le> 16"
    using huff_len [OF assms(1,2) _ _ h] sbook(4) [OF assms(2)] by auto
  let ?n = "k + GET_BITS v" and ?c = "shl32 c (GET_BITS v)"
  define t1 where "t1 = take_sign (GET_PAIR_Y v) ?c ?n"
  define t2 where "t2 = take_sign (GET_PAIR_Z v) (fst (snd t1)) (snd (snd t1))"
  have "s' = BitStreamSkip s (snd (snd t2))"
    using assms(3) h by (simp add: unsigned_pair_def Let_def split_beta t1_def t2_def)
  moreover have "0 \<le> snd (snd t2) \<and> snd (snd t2) \<le> 32"
    using sign_len [of ?n "GET_PAIR_Y v" ?c] sign_len [of "snd (snd t1)" "GET_PAIR_Z v" "fst (snd t1)"] l
    by (simp add: t1_def [symmetric] t2_def [symmetric])
  ultimately show ?thesis using P_skip [OF assms(1)] by simp
qed

lemma esc_pair_kept:
  assumes "P s" "cb \<in> {1..11}" "esc_pair (sinfo cb) s = Some (q, s')"
  shows "P s'"
proof -
  obtain c k v where h: "huff_code (sinfo cb) (maxBits (sinfo cb) + 2) s = Some (c, k, v)"
    using assms(3) by (auto simp: esc_pair_def split: Option.bind_splits)
  have l: "0 \<le> k + GET_BITS v" "k + GET_BITS v \<le> 16"
    using huff_len [OF assms(1,2) _ _ h] sbook(4) [OF assms(2)] by auto
  define n where "n = k + GET_BITS v + (if GET_ESC_Y v \<noteq> 0 then 1 else 0) + (if GET_ESC_Z v \<noteq> 0 then 1 else 0)"
  have "P (BitStreamSkip s n)" using l by (intro P_skip assms(1)) (auto simp: n_def)
  moreover obtain y s1 z where "escape (GET_ESC_Y v) (BitStreamSkip s n) = Some (y, s1)" "escape (GET_ESC_Z v) s1 = Some (z, s')"
    using assms(3) h by (cases "GET_ESC_Y v = 0"; cases "GET_ESC_Z v = 0")
      (auto simp: esc_pair_def Let_def split_beta n_def split: Option.bind_splits)
  ultimately show ?thesis using P_escape by blast
qed

section \<open>Loops\<close>

lemma quad_loop_kept:
  assumes "\<And>s q s'. P s \<Longrightarrow> step s = Some (q, s') \<Longrightarrow> P s'"
  shows "P bs \<Longrightarrow> quad_loop step bs n coef p = Some (r, bs', c) \<Longrightarrow> P bs'"
proof (induction "nat n" arbitrary: bs n coef p rule: less_induct)
  case less
  show ?case
  proof (cases "n > 0")
    case True
    then obtain q s1 coef1 where "step bs = Some (q, s1)" "quad_loop step s1 (n - 4) coef1 (p + 4) = Some (r, bs', c)"
      using less.prems(2) by (subst (asm) quad_loop.simps) (auto split: Option.bind_splits)
    with True less show ?thesis using assms by (metis diff_gt_0_iff_gt diff_less_eq less_add_same_cancel1 nat_less_iff nat_mono_iff zero_less_numeral)
  qed (use less.prems in \<open>simp add: quad_loop.simps\<close>)
qed

lemma pair_loop_kept:
  assumes "\<And>s q s'. P s \<Longrightarrow> step s = Some (q, s') \<Longrightarrow> P s'"
  shows "P bs \<Longrightarrow> pair_loop step bs n coef p = Some (r, bs', c) \<Longrightarrow> P bs'"
proof (induction "nat n" arbitrary: bs n coef p rule: less_induct)
  case less
  show ?case
  proof (cases "n > 0")
    case True
    then obtain q s1 coef1 where "step bs = Some (q, s1)" "pair_loop step s1 (n - 2) coef1 (p + 2) = Some (r, bs', c)"
      using less.prems(2) by (subst (asm) pair_loop.simps) (auto split: Option.bind_splits)
    moreover have "nat (n - 2) < nat n" using True by simp
    ultimately show ?thesis using less assms by blast
  qed (use less.prems in \<open>simp add: pair_loop.simps\<close>)
qed

lemma spectral_band_kept:
  assumes "P bs" "spectral_band cb bs n coef p = Some (r, bs', c)"
  shows "P bs'"
proof -
  have i: "rd huffTabSpecInfo (cb - 1) = Some (sinfo cb)" if "cb \<in> {1..11}"
    using spec_books(1) [of cb] that by (simp add: sinfo_def)
  have "(cb = 1 \<or> cb = 2) \<or> (cb = 3 \<or> cb = 4) \<or> (cb = 5 \<or> cb = 6) \<or> (cb = 7 \<or> cb = 8 \<or> cb = 9 \<or> cb = 10)
      \<or> cb = 11 \<or> cb \<notin> {1..11}" by simp presburger
  then consider "cb = 1 \<or> cb = 2" | "cb = 3 \<or> cb = 4" | "cb = 5 \<or> cb = 6" | "cb = 7 \<or> cb = 8 \<or> cb = 9 \<or> cb = 10" | "cb = 11"
    | "cb \<notin> {1..11}" by blast
  then show ?thesis
  proof cases
    case 1
    then have c: "cb \<in> {1..11}" by auto
    with assms 1 i show ?thesis
      by (auto simp: spectral_band_def HuffmanSignedQuads_def elim!: quad_loop_kept [rotated 2] intro: signed_kept(1) [OF _ c])
  next
    case 2
    then have c: "cb \<in> {1..11}" by auto
    with assms 2 i show ?thesis
      by (auto simp: spectral_band_def HuffmanUnSignedQuads_def elim!: quad_loop_kept [rotated 2] intro: unsigned_quad_kept [OF _ c])
  next
    case 3
    then have c: "cb \<in> {1..11}" by auto
    with assms 3 i show ?thesis
      by (auto simp: spectral_band_def HuffmanSignedPairs_def elim!: pair_loop_kept [rotated 2] intro: signed_kept(2) [OF _ c])
  next
    case 4
    then have c: "cb \<in> {1..11}" by auto
    with assms 4 i show ?thesis
      by (auto simp: spectral_band_def HuffmanUnSignedPairs_def elim!: pair_loop_kept [rotated 2] intro: unsigned_pair_kept [OF _ c])
  next
    case 5
    then have c: "cb \<in> {1..11}" by auto
    with assms 5 i show ?thesis
      by (auto simp: spectral_band_def HuffmanEscPairs_def elim!: pair_loop_kept [rotated 2] intro: esc_pair_kept [OF _ c])
  next
    case 6
    with assms show ?thesis by (auto simp: spectral_band_def split: Option.bind_splits if_splits)
  qed
qed

lemma long_bands_kept:
  "P bs \<Longrightarrow> long_bands off msfb cbs sfb bs coef spec = Some (r, bs', c, sp) \<Longrightarrow> P bs'"
proof (induction "nat (msfb - sfb)" arbitrary: sfb bs coef spec rule: less_induct)
  case less
  show ?case
  proof (cases "sfb < msfb")
    case True
    from less.prems(2) show ?thesis
      by (subst (asm) long_bands.simps)
        (auto simp: True Let_def split: Option.bind_splits if_splits
          dest!: spectral_band_kept [OF less.prems(1)] elim!: less.hyps [rotated 2])
  qed (use less.prems in \<open>simp add: long_bands.simps\<close>)
qed

lemma short_windows_kept:
  "P bs \<Longrightarrow> short_windows cb n wgl w bs coef pos = Some (r, bs', c) \<Longrightarrow> P bs'"
proof (induction "nat (wgl - w)" arbitrary: w bs coef pos rule: less_induct)
  case less
  show ?case
  proof (cases "w < wgl")
    case True
    from less.prems(2) show ?thesis
      by (subst (asm) short_windows.simps)
        (auto simp: True Let_def split: Option.bind_splits if_splits
          dest!: spectral_band_kept [OF less.prems(1)] elim!: less.hyps [rotated 2])
  qed (use less.prems in \<open>simp add: short_windows.simps\<close>)
qed

lemma short_bands_kept:
  "P bs \<Longrightarrow> short_bands off msfb wgl cbs ci sfb bs coef spec = Some (r, bs', c, sp, ci') \<Longrightarrow> P bs'"
proof (induction "nat (msfb - sfb)" arbitrary: ci sfb bs coef spec rule: less_induct)
  case less
  show ?case
  proof (cases "sfb < msfb")
    case True
    from less.prems(2) show ?thesis
      by (subst (asm) short_bands.simps)
        (auto simp: True Let_def split: Option.bind_splits if_splits
          dest!: short_windows_kept [OF less.prems(1)] elim!: less.hyps [rotated 2])
  qed (use less.prems in \<open>simp add: short_bands.simps\<close>)
qed

lemma short_groups_kept:
  "P bs \<Longrightarrow> short_groups off ics cbs g ci bs coef spec = Some (r, bs', c) \<Longrightarrow> P bs'"
proof (induction "nat (num_window_groups ics - g)" arbitrary: g ci bs coef spec rule: less_induct)
  case less
  show ?case
  proof (cases "g < num_window_groups ics")
    case True
    from less.prems(2) show ?thesis
      by (subst (asm) short_groups.simps)
        (auto simp: True Let_def split: Option.bind_splits if_splits
          dest!: short_bands_kept [OF less.prems(1)] elim!: less.hyps [rotated 2])
  qed (use less.prems in \<open>simp add: short_groups.simps\<close>)
qed

theorem spectral_data_kept:
  assumes "P bs" "spectral_data idx ics cbs present pulse bs coef = Some (r, bs', c)"
  shows "P bs'"
  using assms long_bands_kept [OF assms(1)] short_groups_kept [OF assms(1)]
  by (auto simp: spectral_data_def spectral_long_def split: Option.bind_splits if_splits)

end

section \<open>Streams without long escapes\<close>

text \<open>
  \<open>esc_free\<close>: nowhere 29 ones in a row. The standard allows escape prefixes of at most eight ones;
  the code accepts any number and reads as many bits.
\<close>

definition esc_free :: "bool list \<Rightarrow> bool" where
  "esc_free xs \<longleftrightarrow> \<not> sublist (replicate 29 True) xs"

definition good :: "BitStream \<Rightarrow> bool" where
  "good s \<longleftrightarrow> bs_inv s \<and> esc_free (bsbits s)"

lemma esc_free_drop: "esc_free xs \<Longrightarrow> esc_free (drop n xs)"
  unfolding esc_free_def by (meson sublist_drop sublist_order.order_trans)

lemma esc_prefix_bits:
  "bs_inv s \<Longrightarrow> esc_prefix s n = Some (n', s') \<Longrightarrow>
   \<exists>m. n' = n + int m \<and> m \<le> bslen s \<and> take m (bsbits s) = replicate m True \<and> bs_inv s' \<and> bsbits s' = drop (Suc m) (bsbits s)"
proof (induction "bslen s" arbitrary: s n rule: less_induct)
  case less
  let ?b = "fst (BitStreamGetBits s 1)" and ?s1 = "snd (BitStreamGetBits s 1)"
  have s1: "bs_inv ?s1" "bsbits ?s1 = drop 1 (bsbits s)" using less.prems(1) by (simp_all add: bs_get)
  show ?case
  proof (cases "?b = 1")
    case True
    have b: "?b = bval (padtake 1 (bsbits s))" using less.prems(1) by (simp add: bs_get)
    obtain r where r: "bsbits s = True # r"
      using b True by (cases "bsbits s") (auto simp: padtake_def bval_def)
    have len: "bslen ?s1 < bslen s" "bslen s = Suc (bslen ?s1)"
      using s1(2) r by (metis length_Cons length_bsbits drop_Suc_Cons drop0 One_nat_def lessI)+
    have "esc_prefix ?s1 (n + 1) = Some (n', s')"
      using less.prems(2) True by (subst (asm) esc_prefix.simps) (simp add: split_beta)
    from less.hyps [OF len(1) s1(1) this] obtain m where
      "n' = n + 1 + int m" "m \<le> bslen ?s1" "take m (bsbits ?s1) = replicate m True" "bs_inv s'"
      "bsbits s' = drop (Suc m) (bsbits ?s1)" by auto
    then show ?thesis using r s1 len by (intro exI [of _ "Suc m"]) auto
  next
    case False
    then have "n' = n" "s' = ?s1" using less.prems(2) by (subst (asm) esc_prefix.simps; simp add: split_beta)+
    then show ?thesis using s1 by (intro exI [of _ 0]) auto
  qed
qed

lemma good_get: "good s \<Longrightarrow> 0 < n \<Longrightarrow> n \<le> 32 \<Longrightarrow> good (snd (BitStreamGetBits s n))"
  by (simp add: good_def bs_get esc_free_drop)

lemma good_prefix:
  assumes "good s" "esc_prefix s 4 = Some (n, s1)"
  shows "good s1" "4 \<le> n" "n \<le> 32" "bslen s1 \<le> bslen s"
proof -
  from esc_prefix_bits [OF _ assms(2)] assms(1) obtain m where m: "n = 4 + int m" "take m (bsbits s) = replicate m True"
    "bs_inv s1" "bsbits s1 = drop (Suc m) (bsbits s)" by (auto simp: good_def)
  have "m < 29"
  proof (rule ccontr)
    assume "\<not> m < 29"
    then have "take 29 (bsbits s) = replicate 29 True"
      using m(2) by (metis linorder_not_less min.absorb1 take_replicate take_take)
    then have "sublist (replicate 29 True) (bsbits s)" by (metis sublist_take)
    with assms(1) show False by (simp add: good_def esc_free_def)
  qed
  then show "4 \<le> n" "n \<le> 32" using m(1) by auto
  show "good s1" using m(3,4) assms(1) by (simp add: good_def esc_free_drop)
  show "bslen s1 \<le> bslen s" using m(4) by (metis length_bsbits length_drop diff_le_self)
qed

lemma good_escape:
  assumes "good s" "escape y s = Some (v, s')"
  shows "good s'"
proof (cases "y = 16")
  case True
  obtain n s1 where e: "esc_prefix s 4 = Some (n, s1)" "s' = snd (BitStreamGetBits s1 (nat n))"
    using assms(2) True by (auto simp: escape_def split_beta split: Option.bind_splits)
  show ?thesis unfolding e(2) using good_prefix [OF assms(1) e(1)] by (intro good_get) auto
next
  case False
  with assms show ?thesis by (simp add: escape_def)
qed

interpretation esc: spectral_reader good
proof
  fix s assume g: "good s"
  then show i: "bs_inv s" by (simp add: good_def)
  show "good (snd (BitStreamGetBits s n))" if "0 < n" "n \<le> 32" for n using g that by (rule good_get)
  show "good (BitStreamSkip s k)" if "0 \<le> k" "k \<le> 32" for k
    using g i that by (simp add: good_def skip_inv skip_bits esc_free_drop)
  show "good (BitStreamByteAlign s)" using g i by (auto simp: good_def align_inv align_bits esc_free_drop)
  show "good s'" if "escape y s = Some (v, s')" for y v s' using g that by (rule good_escape)
qed

end
