(* ===== verification/Channels.thy ===== *)
theory Channels
  imports ElementsSafe SpectralReader
begin

text \<open>
  Safety of the channel streams and the elements built from them: every operation of
  \<^verbatim>\<open>src/lc_syntax.c\<close> keeps the decoder well formed, and the only undefined behaviour on any stream is
  the section overflow and the unchecked pulse position.
\<close>

section \<open>Window data\<close>

lemma wp_modify [simp]: "0 \<le> i \<Longrightarrow> i < int (length xs) \<Longrightarrow> wp (modify xs i f) Q = Q (xs[nat i := f (xs ! nat i)])"
  by (simp add: modify_Some)

text \<open>What the elements leave alone.\<close>

definition same_head :: "AACDecoder \<Rightarrow> AACDecoder \<Rightarrow> bool" where
  "same_head d d' \<longleftrightarrow> sampRateIdx d' = sampRateIdx d \<and> common_window d' = common_window d \<and> profile d' = profile d"

lemma same_head_refl [simp]: "same_head d d"
  by (simp add: same_head_def)

lemma same_head_dget [simp]: "same_head d (snd (dget d n))" "same_head d (snd (dget8 d n))"
  by (simp_all add: same_head_def dget_simps)

lemma same_head_trans: "same_head d d' \<Longrightarrow> same_head d' d'' \<Longrightarrow> same_head d d''"
  by (simp add: same_head_def)

lemma same_head_upd [simp]:
  "same_head c (d\<lparr>ltp_data_of := a\<rparr>) = same_head c d" "same_head c (d\<lparr>dbs := b\<rparr>) = same_head c d"
  "same_head c (d\<lparr>t_est_buf := e\<rparr>) = same_head c d" "same_head c (d\<lparr>f_est_buf := e\<rparr>) = same_head c d"
  "same_head c (d\<lparr>global_gain := g\<rparr>) = same_head c d" "same_head c (d\<lparr>ics_data := i\<rparr>) = same_head c d"
  by (simp_all add: same_head_def)

lemma same_head_from [simp]:
  "same_head (d\<lparr>t_est_buf := e\<rparr>) c = same_head d c" "same_head (d\<lparr>f_est_buf := e\<rparr>) c = same_head d c"
  by (simp_all add: same_head_def)

context reader begin

lemma dec_run_ltp: "dec_run P d \<Longrightarrow> ltp_ok x \<Longrightarrow> dec_run P (d\<lparr>ltp_data_of := (ltp_data_of d)[i := x]\<rparr>)"
  using dec_okD(2,19) [of d] dec_ok_arrays(2) [of d] by (simp add: dec_run_def list_all_upd)

lemma ltp_part_ok:
  assumes "dec_run P d" "i = 0 \<or> i = 1" "window_sequence ics \<noteq> EIGHT_SHORT_SEQUENCE"
  shows "wp (ltp_part ics i d) (\<lambda>d'. dec_run P d' \<and> same_head d d' \<and> ics_data d' = ics_data d)"
proof -
  define d1 where "d1 = snd (dget8 d 1)"
  have d1: "dec_run P d1" "same_head d d1" "ics_data d1 = ics_data d"
    using assms by (simp_all add: d1_def) (simp add: dget_simps)
  have len: "length (ltp_data_of d1) = 2" by (rule dec_okD [OF dec_run_ok [OF d1(1)]])
  have i: "0 \<le> i" "i < 2" "nat i < 2" using assms(2) by auto
  define v where "v = fst (dget8 d 1)"
  define l where "l = (ltp_data_of d1 ! nat i)\<lparr>data_present := v\<rparr>"
  have l: "ltp_ok l" unfolding l_def
    using list_all_rd [OF dec_okD(19) [OF dec_run_ok [OF d1(1)]]] len i by (intro ltp_ok_upd(4)) simp
  define d2 where "d2 = d1\<lparr>ltp_data_of := (ltp_data_of d1)[nat i := l]\<rparr>"
  have d2: "dec_run P d2" "same_head d d2" "ics_data d2 = ics_data d" "ltp_data_of d2 = (ltp_data_of d1)[nat i := l]"
    using d1 l by (simp_all add: d2_def dec_run_ltp)
  have run: "wp (ltp_data ics l (dbs d2)) (\<lambda>(x, b). ltp_ok x \<and> P b \<and> 0 \<le> lag x \<and> lag x \<le> 2048)"
    using l assms(3) dec_run_inv [OF d2(1)] by (intro ltp_data_ok) auto
  have "dec_run P (d2\<lparr>ltp_data_of := (ltp_data_of d2)[nat i := x], dbs := b\<rparr>)" if "ltp_ok x" "P b" for x b
    using dec_run_ltp [OF d2(1) that(1)] that(2) by (simp add: dec_run_def)
  then have "wp (do { (x, b) \<leftarrow> ltp_data ics l (dbs d2); ltps \<leftarrow> wr (ltp_data_of d2) i x;
       Some (d2\<lparr>ltp_data_of := ltps, dbs := b\<rparr>) }) (\<lambda>d'. dec_run P d' \<and> same_head d d' \<and> ics_data d' = ics_data d)"
    using run i len d2 by (auto intro!: wp_mono [OF run])
  then show ?thesis
    using i len d2 unfolding ltp_part_def Let_def split_beta d1_def [symmetric] v_def [symmetric]
    by (cases "v = 0") (simp_all add: l_def d2_def)
qed

lemma ics_ltp_ok:
  assumes "dec_run P d" "window_sequence ics \<noteq> EIGHT_SHORT_SEQUENCE"
  shows "wp (ics_ltp malloc ics d) (\<lambda>p. (fst p = 0 \<or> fst p = TTKErrNoMemory) \<and> dec_run P (snd p)
     \<and> same_head d (snd p) \<and> ics_data (snd p) = ics_data d)"
proof -
  have p: "wp (do { d' \<leftarrow> ltp_part ics 0 d1; if common_window d' \<noteq> 0 then do { d' \<leftarrow> ltp_part ics 1 d'; Some (0, d') } else Some (0, d') })
      (\<lambda>p. fst p = (0 :: int) \<and> dec_run P (snd p) \<and> same_head d1 (snd p) \<and> ics_data (snd p) = ics_data d1)"
    if "dec_run P d1" for d1
    using assms(2) that by (auto intro!: wp_mono [OF ltp_part_ok] intro: same_head_trans)
  show ?thesis using assms(1)
    by (auto simp: ics_ltp_def Let_def simp del: wp_bind intro!: wp_mono [OF p])
qed

lemma ics_prediction_part:
  assumes "dec_run P d" "ics_wf ics" "max_sfb ics \<le> 128"
  shows "wp (ics_prediction (sampRateIdx d) ics (dbs d)) (\<lambda>p. dec_run P (d\<lparr>dbs := snd p\<rparr>) \<and> ics_wf (fst p)
     \<and> max_sfb (fst p) = max_sfb ics \<and> window_sequence (fst p) = window_sequence ics)"
  using assms dec_okD(11,12) [OF dec_run_ok [OF assms(1)]]
  by (auto simp: dec_run_def intro!: wp_mono [OF ics_prediction_ok])

lemma dec_run_ltps: "dec_run P d \<Longrightarrow> list_all ltp_ok xs \<Longrightarrow> length xs = 2 \<Longrightarrow> dec_run P (d\<lparr>ltp_data_of := xs\<rparr>)"
  using dec_ok_arrays(2) [of d] by (simp add: dec_run_def)

end

lemma ics_ok_single: "ics_wf ics \<Longrightarrow> 0 \<le> idx \<Longrightarrow> idx < 12 \<Longrightarrow> 0 \<le> max_sfb ics \<Longrightarrow> max_sfb ics < sfBandTabLongNum ! nat idx \<Longrightarrow>
   0 \<le> window_sequence ics \<Longrightarrow> window_sequence ics \<le> 3 \<Longrightarrow> window_sequence ics \<noteq> EIGHT_SHORT_SEQUENCE \<Longrightarrow>
   ics_ok idx (ics\<lparr>num_window_groups := 1, window_group_length := (window_group_length ics)[0 := 1]\<rparr>)"
  by (simp add: ics_ok_def ics_wf_def groups_start)

context reader begin

lemma ltp_reset_ok:
  assumes "dec_run P d"
  shows "wp (ltp_reset d) (\<lambda>d'. dec_run P d' \<and> same_head d d' \<and> ics_data d' = ics_data d)"
proof -
  note ok = dec_okD [OF dec_run_ok [OF assms]]
  have l: "ltp_ok (ltp_data_of d ! 0)" "ltp_ok (ltp_data_of d ! Suc 0)"
    using ok(2) list_all_rd [OF ok(19), of 0] list_all_rd [OF ok(19), of "Suc 0"] by simp_all
  then have "list_all ltp_ok ((ltp_data_of d)[0 := (ltp_data_of d ! 0)\<lparr>data_present := 0\<rparr>,
      Suc 0 := (ltp_data_of d ! Suc 0)\<lparr>data_present := 0\<rparr>])"
    using ok(19) by (simp add: list_all_upd)
  with ok assms show ?thesis by (simp add: ltp_reset_def dec_run_ltps)
qed

end

definition ics_post :: "(BitStream \<Rightarrow> bool) \<Rightarrow> AACDecoder \<Rightarrow> int \<times> ICS_Data \<times> AACDecoder \<Rightarrow> bool" where
  "ics_post P d p \<longleftrightarrow> dec_run P (snd (snd p)) \<and> same_head d (snd (snd p)) \<and> ics_data (snd (snd p)) = ics_data d
     \<and> ics_wf (fst (snd p)) \<and> (fst p = 0 \<or> fst p = TTKErrNoMemory)"

context reader begin

lemma ics_predict_ok:
  assumes "dec_run P d" "ics_wf ics" "max_sfb ics \<le> 128" "window_sequence ics \<noteq> EIGHT_SHORT_SEQUENCE"
  shows "wp (ics_predict malloc (sampRateIdx d) ics d) (\<lambda>p. ics_post P d p \<and> max_sfb (fst (snd p)) = max_sfb ics
     \<and> window_sequence (fst (snd p)) = window_sequence ics)"
  using assms by (auto simp: ics_predict_def ics_post_def intro!: wp_mono [OF ics_prediction_part] wp_mono [OF ics_ltp_ok])

lemma ics_long_ok:
  assumes "dec_run P d" "ics_wf ics" "0 \<le> window_sequence ics" "window_sequence ics \<le> 3" "window_sequence ics \<noteq> EIGHT_SHORT_SEQUENCE"
  shows "wp (ics_long malloc (sampRateIdx d) ics d)
    (\<lambda>p. ics_post P d p \<and> (fst p = 0 \<longrightarrow> ics_ok (sampRateIdx d) (fst (snd p)) \<and> window_sequence (fst (snd p)) = window_sequence ics))"
proof -
  define n where "n = sfBandTabLongNum ! nat (sampRateIdx d)"
  note ok = dec_okD [OF dec_run_ok [OF assms(1)]]
  have n: "41 \<le> n" "n \<le> 52" using nums(1,2) [of "nat (sampRateIdx d)"] ok(11,12) by (auto simp: n_def)
  let ?Q = "\<lambda>p. ics_post P d p \<and> (fst p = 0 \<longrightarrow> ics_ok (sampRateIdx d) (fst (snd p)) \<and> window_sequence (fst (snd p)) = window_sequence ics)"
  have fin: "wp (do { (ret, i, d5) \<leftarrow> ics_predict malloc (sampRateIdx d) i0 d4;
        if ret \<noteq> 0 then Some (ret, i, d5)
        else do { lens \<leftarrow> wr (window_group_length i) 0 1;
                  Some (0, i\<lparr>num_window_groups := 1, window_group_length := lens\<rparr>, d5) } }) ?Q"
    if "dec_run P d4" "same_head d d4" "ics_data d4 = ics_data d" "ics_wf i0" "0 \<le> max_sfb i0" "max_sfb i0 < n"
      "window_sequence i0 = window_sequence ics" for i0 d4
  proof -
    have s: "sampRateIdx d4 = sampRateIdx d" using that(2) by (simp add: same_head_def)
    have post: "?Q (0, i\<lparr>num_window_groups := 1, window_group_length := (window_group_length i)[0 := 1]\<rparr>, d5)"
      if "ics_post P d (0, i, d5)" "max_sfb i = max_sfb i0" "window_sequence i = window_sequence ics" for i d5
      using that assms \<open>0 \<le> max_sfb i0\<close> \<open>max_sfb i0 < n\<close> n ok ics_ok_single [of i "sampRateIdx d"]
      by (simp add: ics_post_def n_def [symmetric]) (simp add: ics_wf_def)
    have wrp: "wp (wr (window_group_length i) 0 1) (\<lambda>lens. ?Q (0, i\<lparr>num_window_groups := 1, window_group_length := lens\<rparr>, d5))"
      if "ics_post P d (0, i, d5)" "max_sfb i = max_sfb i0" "window_sequence i = window_sequence ics" for i d5
      using post [OF that] that(1) by (simp add: ics_post_def) (simp add: ics_wf_def)
    have tr: "ics_post P d4 p \<Longrightarrow> ics_post P d p" for p
      using that(2,3) by (auto simp: ics_post_def intro: same_head_trans)
    have "wp (ics_predict malloc (sampRateIdx d) i0 d4) (\<lambda>p. ics_post P d4 p \<and> max_sfb (fst (snd p)) = max_sfb i0
        \<and> window_sequence (fst (snd p)) = window_sequence i0)"
      using ics_predict_ok [OF that(1,4), of malloc] that n assms(5) unfolding s by simp
    then show ?thesis
      unfolding wp_bind
    proof (rule wp_mono)
      fix p assume p: "ics_post P d4 p \<and> max_sfb (fst (snd p)) = max_sfb i0 \<and> window_sequence (fst (snd p)) = window_sequence i0"
      obtain ret i d5 where e: "p = (ret, i, d5)" by (cases p)
      have q: "ics_post P d (ret, i, d5)" using p tr by (simp add: e)
      show "wp (case p of (ret, i, d5) \<Rightarrow> if ret \<noteq> 0 then Some (ret, i, d5)
          else Option.bind (wr (window_group_length i) 0 1)
            (\<lambda>lens. Some (0, i\<lparr>num_window_groups := 1, window_group_length := lens\<rparr>, d5))) ?Q"
        using q wrp [of i d5] p that(7) by (cases "ret = 0") (simp_all add: e)
    qed
  qed
  from ltp_reset_ok [OF assms(1)] obtain d1 where r: "ltp_reset d = Some d1"
    and d1: "dec_run P d1 \<and> same_head d d1 \<and> ics_data d1 = ics_data d" by (auto simp: wp_iff)
    define d2 where "d2 = snd (dget8 d1 6)"
    define d3 where "d3 = snd (dget8 d2 1)"
    have d2: "dec_run P d2" "same_head d d2" "ics_data d2 = ics_data d"
      using d1 unfolding d2_def by (auto intro: same_head_trans) (simp_all add: dget_simps)
    have d3: "dec_run P d3" "same_head d d3" "ics_data d3 = ics_data d"
      using d2 unfolding d3_def by (auto intro: same_head_trans) (simp_all add: dget_simps)
    have s: "rd sfBandTabLongNum (sampRateIdx d2) = Some n"
      using d2(2) ok(11,12) by (simp add: same_head_def rd_nums n_def)
    show ?thesis
      using fin [OF d3, of "(if fst (dget8 d1 6) > n - 1 then ics\<lparr>max_sfb := fst (dget8 d1 6)\<rparr>\<lparr>max_sfb := u8 (n - 1)\<rparr>
          else ics\<lparr>max_sfb := fst (dget8 d1 6)\<rparr>)\<lparr>predictor_data_present := fst (dget8 d2 1)\<rparr>"] d1 n assms(2)
      unfolding ics_long_def r bind.bind_lunit Let_def split_beta d2_def [symmetric] d3_def [symmetric] s
      by (auto simp: ics_wf_def split: if_splits)
qed

lemma ics_info_ok:
  assumes "dec_run P d" "i = 0 \<or> i = 1"
  shows "wp (ics_info malloc d i) (\<lambda>(ret, d'). dec_run P d' \<and> same_head d d' \<and> (ret = 0 \<or> ret = TTKErrNoMemory)
     \<and> (ret = 0 \<longrightarrow> ics_ok (sampRateIdx d) (ics_data d' ! nat i)
        \<and> window_sequence (ics_data d' ! nat i) = fst (dget8 (snd (dget8 d 1)) 2)))"
proof -
  note ok = dec_okD [OF dec_run_ok [OF assms(1)]]
  have i: "0 \<le> i" "i < int (length (ics_data d))" "nat i < length (ics_data d)" using assms(2) ok(1) by auto
  define d1 where "d1 = snd (dget8 d 1)"
  define d2 where "d2 = snd (dget8 d1 2)"
  define d3 where "d3 = snd (dget8 d2 1)"
  have d1: "dec_run P d1" using assms(1) by (simp add: d1_def)
  have d3: "dec_run P d3" using d1 by (simp add: d2_def d3_def)
  have h: "same_head d d3" "ics_data d3 = ics_data d"
    by (simp_all add: d1_def d2_def d3_def dget_simps same_head_def)
  have sri: "sampRateIdx d3 = sampRateIdx d" using h by (simp add: same_head_def)
  define w where "w = fst (dget8 d1 2)"
  have w: "0 \<le> w" "w \<le> 3" using dget_range_run(2) [OF d1, of 2] d1 by (simp_all add: w_def)
  define ics where "ics = (ics_data d ! nat i)\<lparr>ics_reserved_bit := fst (dget8 d 1)\<rparr>\<lparr>window_sequence := w\<rparr>\<lparr>window_shape := fst (dget8 d2 1)\<rparr>"
  have ics: "ics_wf ics" "window_sequence ics = w"
    using list_all_rd [OF ok(18) i(3)] by (simp_all add: ics_def ics_wf_def)
  have fin: "wp (wr (ics_data (snd (snd p))) i (fst (snd p))) (\<lambda>icss. dec_run P (snd (snd p)\<lparr>ics_data := icss\<rparr>)
      \<and> same_head d (snd (snd p)\<lparr>ics_data := icss\<rparr>) \<and> (fst p = 0 \<or> fst p = TTKErrNoMemory)
      \<and> (fst p = 0 \<longrightarrow> ics_ok (sampRateIdx d) (icss ! nat i) \<and> window_sequence (icss ! nat i) = w))"
    if "ics_post P d3 p" "fst p = 0 \<longrightarrow> ics_ok (sampRateIdx d) (fst (snd p)) \<and> window_sequence (fst (snd p)) = w" for p
  proof -
    have q: "dec_run P (snd (snd p))" "same_head d (snd (snd p))" "ics_data (snd (snd p)) = ics_data d" "ics_wf (fst (snd p))"
      using that(1) h by (auto simp: ics_post_def intro: same_head_trans)
    have "dec_run P (snd (snd p)\<lparr>ics_data := (ics_data d)[nat i := fst (snd p)]\<rparr>)"
      using dec_ok_arrays(1) [OF dec_run_ok [OF q(1)], of "(ics_data d)[nat i := fst (snd p)]"] q ok
      by (simp add: dec_run_def list_all_upd)
    with q i that show ?thesis by (auto simp: ics_post_def)
  qed
  have "wp (if w = EIGHT_SHORT_SEQUENCE then
        do { (ics, bs) \<leftarrow> ics_short (sampRateIdx d) ics (dbs d3); Some (0, ics, d3\<lparr>dbs := bs\<rparr>) }
      else ics_long malloc (sampRateIdx d) ics d3)
     (\<lambda>p. ics_post P d3 p \<and> (fst p = 0 \<longrightarrow> ics_ok (sampRateIdx d) (fst (snd p)) \<and> window_sequence (fst (snd p)) = w))"
  proof (cases "w = EIGHT_SHORT_SEQUENCE")
    case True
    have "wp (ics_short (sampRateIdx d) ics (dbs d3))
       (\<lambda>(ics', bs'). ics_ok (sampRateIdx d) ics' \<and> P bs' \<and> window_sequence ics' = window_sequence ics)"
      using True ics ok by (intro ics_short_ok dec_run_inv d3) auto
    moreover have "ics_wf i" if "ics_ok idx i" for idx i using that by (simp add: ics_ok_def)
    ultimately show ?thesis using True ics(2) dec_run_ok [OF d3]
      by (auto simp: ics_post_def dec_run_def elim!: wp_mono)
  next
    case False
    then show ?thesis using ics_long_ok [OF d3 ics(1), of malloc] w ics by (simp add: sri)
  qed
  note main = this
  have "wp (ics_info malloc d i) (\<lambda>p. dec_run P (snd p) \<and> same_head d (snd p) \<and> (fst p = 0 \<or> fst p = TTKErrNoMemory)
     \<and> (fst p = 0 \<longrightarrow> ics_ok (sampRateIdx d) (ics_data (snd p) ! nat i) \<and> window_sequence (ics_data (snd p) ! nat i) = w))"
    unfolding ics_info_def Let_def wp_bind wp_rd [OF i(1,2)] d1_def [symmetric] split_beta d2_def [symmetric] d3_def [symmetric]
      w_def [symmetric] ics_def [symmetric] ics(2) sri
    by (rule wp_mono [OF main [unfolded split_beta]]) (use fin in \<open>simp add: wp_def\<close>)
  then show ?thesis by (simp add: case_prod_unfold w_def d1_def)
qed

end

text \<open>The two bits of the window sequence in a channel stream that starts at \<open>s\<close>.\<close>

definition window_bits :: "BitStream \<Rightarrow> int" where
  "window_bits s = fst (BitStreamGetBits (snd (BitStreamGetBits (snd (BitStreamGetBits s 8)) 1)) 2)"

context reader begin

lemma ics_stage_ok:
  assumes "dec_run P d" "ch = 0 \<or> ch = 1" "common_window d \<noteq> 0 \<longrightarrow> ics_ok (sampRateIdx d) (ics_data d ! 0)"
  shows "wp (ics_stage malloc d ch) (\<lambda>(ret, ii, d'). dec_run P d' \<and> same_head d d' \<and> (ret = 0 \<or> ret = TTKErrNoMemory)
     \<and> (ii = 0 \<or> ii = 1) \<and> (ret = 0 \<longrightarrow> ics_ok (sampRateIdx d) (ics_data d' ! nat ii))
     \<and> (common_window d \<noteq> 0 \<longrightarrow> ics_data d' = ics_data d)
     \<and> (ret = 0 \<and> common_window d = 0 \<longrightarrow> window_sequence (ics_data d' ! nat ii) = window_bits (dbs d)))"
proof -
  define d1 where "d1 = (snd (dget d 8))\<lparr>global_gain := fst (dget d 8)\<rparr>"
  define d2 where "d2 = (if sampleBits d1 = 32 then d1\<lparr>global_gain := global_gain d1 - 32\<rparr> else d1)"
  have d2: "dec_run P d2" "same_head d d2" "ics_data d2 = ics_data d"
    using assms(1) by (simp_all add: d2_def d1_def) (simp_all add: dget_simps)
  have h: "sampRateIdx d2 = sampRateIdx d" "common_window d2 = common_window d" using d2(2) by (simp_all add: same_head_def)
  have w: "fst (dget8 (snd (dget8 d2 1)) 2) = window_bits (dbs d)"
    using assms(1) by (simp add: dget_simps d2_def d1_def window_bits_def dec_run_def del: One_nat_def)
  show ?thesis
    unfolding ics_stage_def split_beta Let_def d1_def [symmetric] d2_def [symmetric]
    using assms(2,3) d2 h w by (auto intro!: wp_mono [OF ics_info_ok [OF d2(1) assms(2)]] intro: same_head_trans)
qed

end

section \<open>The parts of a channel stream\<close>

text \<open>What the parts after the window data keep.\<close>

definition kept :: "(BitStream \<Rightarrow> bool) \<Rightarrow> AACDecoder \<Rightarrow> AACDecoder \<Rightarrow> bool" where
  "kept P d d' \<longleftrightarrow> dec_run P d' \<and> same_head d d' \<and> ics_data d' = ics_data d"

context reader begin

lemma kept_trans: "kept P d d' \<Longrightarrow> kept P d' d'' \<Longrightarrow> kept P d d''"
  by (auto simp: kept_def intro: same_head_trans)

lemma kept_refl [simp]: "dec_run P d \<Longrightarrow> kept P d d"
  by (simp add: kept_def)

lemma kept_dget [simp]: "dec_run P d \<Longrightarrow> 0 < n \<Longrightarrow> n \<le> 32 \<Longrightarrow> kept P d (snd (dget d n))"
  by (simp add: kept_def) (simp add: dget_simps)

lemma kept_ics: "kept P d d' \<Longrightarrow> sampRateIdx d' = sampRateIdx d" "kept P d d' \<Longrightarrow> dec_run P d'"
  by (simp_all add: kept_def same_head_def)

lemma kept_rows:
  assumes "dec_run P d" "P b" "length r = 128"
  shows "kept P d (d\<lparr>sfb_cb := (sfb_cb d)[i := r], dbs := b\<rparr>)" "kept P d (d\<lparr>scaleFactors := (scaleFactors d)[i := r], dbs := b\<rparr>)"
  using assms dec_okD(13,14) [OF dec_run_ok [OF assms(1)]]
    dec_ok_arrays(3,4) [OF dec_run_ok [OF assms(1)]]
  by (simp_all add: kept_def dec_run_def same_head_def)

lemma kept_coef: "dec_run P d \<Longrightarrow> P b \<Longrightarrow> length r = 1024 \<Longrightarrow> kept P d (d\<lparr>coef := (coef d)[i := r], dbs := b\<rparr>)"
  using dec_okD(15) [OF dec_run_ok, of d] dec_ok_arrays(6) [OF dec_run_ok, of d]
  by (simp add: kept_def dec_run_def same_head_def)

lemma kept_flags:
  assumes "dec_run P d"
  shows "kept P d (d\<lparr>pulse_data_present := (pulse_data_present d)[i := v]\<rparr>)"
    "kept P d (d\<lparr>tns_data_present := (tns_data_present d)[i := v]\<rparr>)"
  using assms dec_okD(5,7) [OF dec_run_ok [OF assms]] dec_ok_arrays(7,8) [OF dec_run_ok [OF assms]]
  by (simp_all add: kept_def dec_run_def same_head_def)

end

definition ret_ok :: "int \<Rightarrow> bool" where
  "ret_ok ret \<longleftrightarrow> ret = 0 \<or> ret = TT_AACDEC_ERR_AAC_INVSTREAM \<or> ret = TT_AACDEC_ERR_AUDIO_UNSFEATURE"

lemma ret_ok_simps [simp]: "ret_ok 0" "ret_ok TT_AACDEC_ERR_AAC_INVSTREAM" "ret_ok TT_AACDEC_ERR_AUDIO_UNSFEATURE"
  "ret_ok (if b then TT_AACDEC_ERR_AAC_INVSTREAM else 0)"
  by (simp_all add: ret_ok_def)

context reader begin

lemma ics_sections_ok:
  assumes "dec_run P d" "ch = 0 \<or> ch = 1" "ics_ok (sampRateIdx d) ics" "sections_fit ics"
  shows "wp (ics_sections ics d ch) (\<lambda>p. kept P d (snd p) \<and> ret_ok (fst p))"
proof -
  note ok = dec_okD [OF dec_run_ok [OF assms(1)]]
  have ch: "0 \<le> ch" "ch < 2" "nat ch < 2" using assms(2) by auto
  have row: "length (sfb_cb d ! nat ch) = 128" using ok(13) ch(3) by (rule rows_ok_nth)
  show ?thesis
    unfolding ics_sections_def using ch ok(3) assms(1)
    by (auto simp del: err_defs intro!: kept_rows
        wp_mono [OF section_data_ok [OF dec_run_inv [OF assms(1)] assms(3) row assms(4)]])
qed

lemma ics_scales_ok:
  assumes "dec_run P d" "ch = 0 \<or> ch = 1" "ics_ok (sampRateIdx d) ics"
  shows "wp (ics_scales ics d ch) (\<lambda>p. kept P d (snd p) \<and> ret_ok (fst p))"
proof -
  note ok = dec_okD [OF dec_run_ok [OF assms(1)]]
  have ch: "0 \<le> ch" "ch < 2" "nat ch < 2" using assms(2) by auto
  have row: "length (sfb_cb d ! nat ch) = 128" "length (scaleFactors d ! nat ch) = 128"
    using ok(13,14) ch(3) by (auto intro: rows_ok_nth)
  show ?thesis
    unfolding ics_scales_def using ch ok(3,4) assms(1)
    by (auto simp del: err_defs intro!: kept_rows
        wp_mono [OF scale_factor_data_ok [OF dec_run_inv [OF assms(1)] assms(3) row]])
qed

lemma ics_codes_ok:
  assumes "dec_run P d" "ch = 0 \<or> ch = 1" "ics_ok (sampRateIdx d) ics" "sections_fit ics"
  shows "wp (ics_codes ics d ch) (\<lambda>p. kept P d (snd p) \<and> ret_ok (fst p))"
proof -
  have "wp (ics_scales ics e ch) (\<lambda>p. kept P d (snd p) \<and> ret_ok (fst p))" if "kept P d e" for e
    using ics_scales_ok [of e ch ics] kept_ics [OF that] assms(2,3) by (auto elim!: wp_mono intro: kept_trans [OF that])
  then show ?thesis
    unfolding ics_codes_def by (auto intro!: wp_mono [OF ics_sections_ok [OF assms]])
qed

lemma ics_pulse_ok:
  assumes "dec_run P d" "ch = 0 \<or> ch = 1"
  shows "wp (ics_pulse d ch) (\<lambda>d'. kept P d d' \<and> (pulse_data_present d' ! nat ch \<noteq> 0 \<longrightarrow>
     number_pulse (pulse_data d' ! nat ch) \<le> 3 \<and> 0 \<le> pulse_start_sfb (pulse_data d' ! nat ch)
       \<and> pulse_start_sfb (pulse_data d' ! nat ch) < 64))"
proof -
  define v where "v = fst (dget d 1)"
  define d1 where "d1 = snd (dget d 1)"
  have k1: "kept P d d1" using assms(1) by (simp add: d1_def)
  note r1 = kept_ics(2) [OF k1]
  define d2 where "d2 = d1\<lparr>pulse_data_present := (pulse_data_present d1)[nat ch := v]\<rparr>"
  have k2: "kept P d d2" unfolding d2_def using k1 kept_flags(1) [OF r1] by (rule kept_trans)
  note r2 = kept_ics(2) [OF k2]
  note ok1 = dec_okD [OF dec_run_ok [OF r1]]
  note ok2 = dec_okD [OF dec_run_ok [OF r2]]
  have ch: "0 \<le> ch" "ch < 2" "nat ch < 2" using assms(2) by auto
  have p: "pulse_wf (pulse_data d2 ! nat ch)" using list_all_rd [OF ok2(20)] ok2(6) ch by simp
  have up: "kept P d (d2\<lparr>pulse_data := (pulse_data d2)[nat ch := x], dbs := b\<rparr>)" if "pulse_wf x" "P b" for x b
    using k2 that ok2(6,20) dec_ok_arrays(9) [OF dec_run_ok [OF r2]]
    by (simp add: kept_def dec_run_def same_head_def list_all_upd)
  have v: "pulse_data_present d2 ! nat ch = v" using ch ok1(5) by (simp add: d2_def)
  have z: "kept P d (d1\<lparr>pulse_data_present := (pulse_data_present d1)[nat ch := 0]\<rparr>)" if "v = 0"
    using k2 that by (simp add: d2_def)
  show ?thesis
    unfolding ics_pulse_def split_beta Let_def v_def [symmetric] d1_def [symmetric] wp_bind
    using ch ok1(5,6) ok2(6) v r2 up z
    by (auto simp: d2_def [symmetric] simp del: d2_def intro!: wp_mono [OF read_pulse_data_ok [OF dec_run_inv [OF r2] p]])
qed

lemma ics_tns_ok:
  assumes "dec_run P d" "ch = 0 \<or> ch = 1"
  shows "wp (ics_tns w d ch) (\<lambda>d'. kept P d d' \<and> pulse_data_present d' = pulse_data_present d \<and> pulse_data d' = pulse_data d)"
proof -
  define v where "v = fst (dget d 1)"
  define d1 where "d1 = snd (dget d 1)"
  have k1: "kept P d d1" using assms(1) by (simp add: d1_def)
  note r1 = kept_ics(2) [OF k1]
  define d2 where "d2 = d1\<lparr>tns_data_present := (tns_data_present d1)[nat ch := v]\<rparr>"
  have k2: "kept P d d2" unfolding d2_def using k1 kept_flags(2) [OF r1] by (rule kept_trans)
  note r2 = kept_ics(2) [OF k2]
  note ok1 = dec_okD [OF dec_run_ok [OF r1]]
  note ok2 = dec_okD [OF dec_run_ok [OF r2]]
  have ch: "0 \<le> ch" "ch < 2" "nat ch < 2" using assms(2) by auto
  have p: "list_all tns_wf (tns_data d2 ! nat ch)" "length (tns_data d2 ! nat ch) = 8"
    using list_all_rd [OF ok2(21)] ok2(8) ch rows_ok_nth [OF ok2(17) ch(3)] by simp_all
  have up: "kept P d (d2\<lparr>tns_data := (tns_data d2)[nat ch := x], dbs := b\<rparr>)" if "list_all tns_wf x" "length x = 8" "P b" for x b
    using k2 that ok2(17,21) dec_ok_arrays(10) [OF dec_run_ok [OF r2]]
    by (simp add: kept_def dec_run_def same_head_def list_all_upd)
  have z: "kept P d (d1\<lparr>tns_data_present := (tns_data_present d1)[nat ch := 0]\<rparr>)" if "v = 0"
    using k2 that by (simp add: d2_def)
  have e: "pulse_data_present d1 = pulse_data_present d" "pulse_data d1 = pulse_data d"
    "pulse_data_present d2 = pulse_data_present d" "pulse_data d2 = pulse_data d"
    by (simp_all add: d1_def d2_def dget_simps)
  show ?thesis
    unfolding ics_tns_def split_beta Let_def v_def [symmetric] d1_def [symmetric] wp_bind
    using ch ok1(7,8) ok2(8) r2 up z e
    by (auto simp: d2_def [symmetric] simp del: d2_def intro!: wp_mono [OF read_tns_data_ok [OF dec_run_inv [OF r2] p]])
qed

end

section \<open>Channel streams\<close>

definition pulse_in :: "AACDecoder \<Rightarrow> int \<Rightarrow> bool" where
  "pulse_in d ch \<longleftrightarrow> (pulse_data_present d ! nat ch \<noteq> 0 \<longrightarrow>
     number_pulse (pulse_data d ! nat ch) \<le> 3 \<and> 0 \<le> pulse_start_sfb (pulse_data d ! nat ch)
       \<and> pulse_start_sfb (pulse_data d ! nat ch) < 64)"

context spectral_reader begin

lemma ics_spectrum_ok:
  assumes "dec_run P d" "ch = 0 \<or> ch = 1" "ics_ok (sampRateIdx d) ics" "sampRateIdx d < 11" "pulse_in d ch"
  shows "wp (ics_spectrum ics d ch) (\<lambda>p. kept P d (snd p) \<and> ret_ok (fst p))"
proof -
  note ok = dec_okD [OF dec_run_ok [OF assms(1)]]
  have ch: "0 \<le> ch" "ch < 2" "nat ch < 2" using assms(2) by auto
  have len: "length (sfb_cb d ! nat ch) = 128" "length (coef d ! nat ch) = 1024"
    using ok(13,15) ch(3) by (auto intro: rows_ok_nth)
  have tot: "num_window_groups ics * max_sfb ics \<le> 128" using ics_ok_total [OF assms(3)] by simp
  have m: "max_sfb ics \<le> 128" if "window_sequence ics \<noteq> EIGHT_SHORT_SEQUENCE"
    using assms(3) that tot by (simp add: ics_ok_def)
  have "list_all pulse_wf (pulse_data d)" "nat ch < length (pulse_data d)" using ok ch by simp_all
  then have "pulse_wf (pulse_data d ! nat ch)" by (rule list_all_rd)
  then have pf: "pulse_data_present d ! nat ch \<noteq> 0 \<longrightarrow> pulse_fits (sampRateIdx d) (pulse_data d ! nat ch)"
    using assms(4,5) ok(11) long_offsets(2) [of "nat (sampRateIdx d)", OF nat_less_iff [OF ok(11), THEN iffD2]]
    by (auto simp: pulse_fits_def pulse_wf_def pulse_in_def list_all_iff)
  have c: "if window_sequence ics = EIGHT_SHORT_SEQUENCE
      then short_ok (sampRateIdx d) ics \<and> num_window_groups ics * max_sfb ics \<le> int (length (sfb_cb d ! nat ch))
      else long_ok (sampRateIdx d) ics \<and> max_sfb ics \<le> int (length (sfb_cb d ! nat ch))"
    using ics_ok_long [OF assms(3)] ics_ok_short [OF assms(3)] tot m len by simp
  obtain ret s' c' where r: "spectral_data (sampRateIdx d) ics (sfb_cb d ! nat ch) (pulse_data_present d ! nat ch)
      (pulse_data d ! nat ch) (dbs d) (coef d ! nat ch) = Some (ret, s', c')" "length c' = 1024"
    "ret = 0 \<or> ret = TT_AACDEC_ERR_AAC_INVSTREAM"
    using spectral_data_total [OF c pf len(2), of "dbs d"] by blast
  have s': "P s'" using spectral_data_kept [OF _ r(1)] assms(1) by (simp add: dec_run_def)
  have k: "kept P d (d\<lparr>coef := (coef d)[nat ch := c'], dbs := s'\<rparr>)" using assms(1) s' r(2) by (rule kept_coef)
  show ?thesis
    using ch ok r k by (auto simp: ics_spectrum_def ret_ok_def)
qed

end

text \<open>The window data of the stream leaves room for its sections.\<close>

definition stream_fits :: "(string \<Rightarrow> bool) \<Rightarrow> AACDecoder \<Rightarrow> int \<Rightarrow> bool" where
  "stream_fits malloc d ch \<longleftrightarrow>
     (case ics_stage malloc d ch of None \<Rightarrow> False
      | Some (ret, ii, d') \<Rightarrow> ret = 0 \<longrightarrow> sections_fit (ics_data d' ! nat ii))"

definition stream_post :: "(BitStream \<Rightarrow> bool) \<Rightarrow> AACDecoder \<Rightarrow> int \<times> AACDecoder \<Rightarrow> bool" where
  "stream_post P d p \<longleftrightarrow> dec_run P (snd p) \<and> same_head d (snd p) \<and> ret_ok (fst p)
     \<and> (common_window d \<noteq> 0 \<longrightarrow> ics_data (snd p) = ics_data d)"

context spectral_reader begin

lemma channel_rest_ok:
  assumes "dec_run P d" "ch = 0 \<or> ch = 1" "ics_ok (sampRateIdx d) ics" "sections_fit ics" "sampRateIdx d < 11"
  shows "wp (ics_body ics d ch) (\<lambda>p. kept P d (snd p) \<and> ret_ok (fst p))"
proof -
  obtain ret d1 where c: "ics_codes ics d ch = Some (ret, d1)" "kept P d d1" "ret_ok ret"
    using ics_codes_ok [OF assms(1-4)] by (auto simp: wp_iff)
  obtain d2 where p: "ics_pulse d1 ch = Some d2" "kept P d1 d2" "pulse_in d2 ch"
    using ics_pulse_ok [OF kept_ics(2) [OF c(2)] assms(2)] by (auto simp: wp_iff pulse_in_def)
  obtain d3 where t: "ics_tns (window_sequence ics) d2 ch = Some d3" "kept P d2 d3" "pulse_in d3 ch"
    using ics_tns_ok [OF kept_ics(2) [OF p(2)] assms(2), of "window_sequence ics"] p(3) by (auto simp: wp_iff pulse_in_def)
  define d4 where "d4 = snd (dget d3 1)"
  have k4: "kept P d3 d4" "pulse_in d4 ch"
    using kept_dget [OF kept_ics(2) [OF t(2)], of 1] t(3) by (simp_all add: d4_def pulse_in_def) (simp add: dget_simps)
  have k: "kept P d d4" using c(2) p(2) t(2) k4(1) by (blast intro: kept_trans)
  have s: "wp (ics_spectrum ics d4 ch) (\<lambda>p. kept P d4 (snd p) \<and> ret_ok (fst p))"
    using kept_ics [OF k] assms k4(2) by (intro ics_spectrum_ok) auto
  show ?thesis
    using c p t k by (auto simp: ics_body_def split_beta d4_def [symmetric] simp del: err_defs One_nat_def intro!: wp_mono [OF s] intro: kept_trans)
qed

lemma ics_stream_ok:
  assumes "dec_run P d" "ch = 0 \<or> ch = 1" "common_window d \<noteq> 0 \<longrightarrow> ics_ok (sampRateIdx d) (ics_data d ! 0)"
    and "stream_fits malloc d ch" "sampRateIdx d < 11"
  shows "wp (individual_channel_stream malloc d ch) (stream_post P d)"
proof -
  obtain ret ii d1 where st: "ics_stage malloc d ch = Some (ret, ii, d1)" "dec_run P d1" "same_head d d1" "ii = 0 \<or> ii = 1"
      "ret = 0 \<or> ret = TTKErrNoMemory" "ret = 0 \<longrightarrow> ics_ok (sampRateIdx d) (ics_data d1 ! nat ii)"
      "common_window d \<noteq> 0 \<longrightarrow> ics_data d1 = ics_data d"
    using ics_stage_ok [OF assms(1-3), of malloc] by (auto simp: wp_iff)
  show ?thesis
  proof (cases "ret = 0")
    case False
    then show ?thesis using st by (simp add: individual_channel_stream_def stream_post_def TTKErrNoMemory_def ret_ok_def)
  next
    case True
    have len: "length (ics_data d1) = 2" by (rule dec_okD [OF dec_run_ok [OF st(2)]])
    have "wp (ics_body (ics_data d1 ! nat ii) d1 ch) (\<lambda>p. kept P d1 (snd p) \<and> ret_ok (fst p))"
      using True st assms(4,5) by (intro channel_rest_ok assms(2)) (auto simp: stream_fits_def same_head_def)
    moreover have "individual_channel_stream malloc d ch = ics_body (ics_data d1 ! nat ii) d1 ch"
      using True len st(4) by (auto simp: individual_channel_stream_def st(1) rd_Some)
    ultimately have "wp (individual_channel_stream malloc d ch) (\<lambda>p. kept P d1 (snd p) \<and> ret_ok (fst p))" by simp
    then show ?thesis
      by (rule wp_mono) (use st in \<open>auto simp: stream_post_def kept_def intro: same_head_trans\<close>)
  qed
qed

lemma single_channel_ok:
  assumes "dec_run P d" "common_window d = 0" "stream_fits malloc (snd (dget d 4)) 0" "sampRateIdx d < 11"
  shows "wp (single_channel_element malloc d) (stream_post P d)"
proof -
  have h: "dec_run P (snd (dget d 4))" "same_head d (snd (dget d 4))" using assms(1) by simp_all
  have "wp (individual_channel_stream malloc (snd (dget d 4)) 0) (stream_post P (snd (dget d 4)))"
    using h assms by (intro ics_stream_ok) (auto simp: same_head_def)
  then show ?thesis
    unfolding single_channel_element_def split_beta Let_def
    by (rule wp_mono) (use h assms(2) in \<open>auto simp: stream_post_def intro: same_head_trans [OF h(2)]\<close>)
qed

lemma ms_loop_ok:
  "P bs \<Longrightarrow> rows_ok 8 64 rows \<Longrightarrow> 0 \<le> g \<Longrightarrow> g + int k \<le> 8 \<Longrightarrow> 0 \<le> m \<Longrightarrow> m \<le> 64 \<Longrightarrow>
   wp (ms_loop k g m rows bs) (\<lambda>(rows', bs'). P bs' \<and> rows_ok 8 64 rows')"
proof (induction k arbitrary: g rows bs)
  case (Suc k)
  have len: "length rows = 8" "length (rows ! nat g) = 64" using Suc.prems by (auto intro: rows_ok_length rows_ok_nth)
  have IH: "wp (ms_loop k (g + 1) m (rows[nat g := r]) bs') (\<lambda>(rows', bs'). P bs' \<and> rows_ok 8 64 rows')"
    if "length r = 64" "P bs'" for r bs'
    using Suc.prems that by (intro Suc.IH rows_ok_upd) auto
  show ?case
    using Suc.prems len IH by (auto intro!: wp_mono [OF flags_loop_ok])
qed simp

lemma pair_head_ok:
  assumes "dec_run P d"
  shows "wp (pair_head malloc d) (\<lambda>p. dec_run P (snd p) \<and> ret_ok (fst p) \<and> sampRateIdx (snd p) = sampRateIdx d
     \<and> (fst p = 0 \<and> common_window (snd p) \<noteq> 0 \<longrightarrow> ics_ok (sampRateIdx d) (ics_data (snd p) ! 0)))"
proof -
  define d1 where "d1 = snd (dget d 4)"
  define d2 where "d2 = (snd (dget d1 1))\<lparr>common_window := fst (dget d1 1)\<rparr>"
  have d2: "dec_run P d2" "sampRateIdx d2 = sampRateIdx d" using assms unfolding d2_def d1_def
    by simp_all (simp add: dget_simps)
  obtain ret d3 where i: "ics_info malloc d2 0 = Some (ret, d3)" "dec_run P d3" "same_head d2 d3"
      "ret = 0 \<or> ret = TTKErrNoMemory" "ret = 0 \<longrightarrow> ics_ok (sampRateIdx d2) (ics_data d3 ! 0)"
    using ics_info_ok [OF d2(1), of 0 malloc] by (auto simp: wp_iff)
  define d4 where "d4 = (snd (dget d3 2))\<lparr>ms_mask_present := fst (dget d3 2)\<rparr>"
  have d4: "dec_run P d4" "sampRateIdx d4 = sampRateIdx d" "ics_data d4 = ics_data d3" "ms_mask_present d4 = fst (dget d3 2)"
    using i(2,3) d2(2) by (simp_all add: d4_def) (simp_all add: dget_simps same_head_def)
  note ok4 = dec_okD [OF dec_run_ok [OF d4(1)]]
  have ics: "0 \<le> num_window_groups (ics_data d3 ! 0)" "num_window_groups (ics_data d3 ! 0) \<le> 8"
    "0 \<le> max_sfb (ics_data d3 ! 0)" "max_sfb (ics_data d3 ! 0) \<le> 64" if "ret = 0"
  proof -
    have o: "ics_ok (sampRateIdx d2) (ics_data d3 ! 0)" using i(5) that by simp
    then have "nat (sampRateIdx d2) < 12" by (simp add: ics_ok_def nat_less_iff)
    then show "0 \<le> num_window_groups (ics_data d3 ! 0)" "num_window_groups (ics_data d3 ! 0) \<le> 8"
      "0 \<le> max_sfb (ics_data d3 ! 0)" "max_sfb (ics_data d3 ! 0) \<le> 64"
      using o nums [of "nat (sampRateIdx d2)"] by (auto simp: ics_ok_def groups_ok_def split: if_splits)
  qed
  have "wp (do { ics \<leftarrow> rd (ics_data d4) 0;
       (rows, bs) \<leftarrow> ms_loop (nat (num_window_groups ics)) 0 (max_sfb ics) (ms_used d4) (dbs d4);
       Some (0, d4\<lparr>ms_used := rows, dbs := bs\<rparr>) })
     (\<lambda>p. dec_run P (snd p) \<and> ret_ok (fst p) \<and> sampRateIdx (snd p) = sampRateIdx d
       \<and> (fst p = 0 \<and> common_window (snd p) \<noteq> 0 \<longrightarrow> ics_ok (sampRateIdx d) (ics_data (snd p) ! 0)))" if "ret = 0"
    using ics [OF that] d4 ok4 i(5) d2(2) that dec_run_inv [OF d4(1)] dec_ok_arrays(5) [OF dec_run_ok [OF d4(1)]]
    by (auto simp: dec_run_def intro!: wp_mono [OF ms_loop_ok])
  then show ?thesis
    unfolding pair_head_def split_beta Let_def d1_def [symmetric] d2_def [symmetric] i(1) bind.bind_lunit fst_conv snd_conv
      d4_def [symmetric]
    using d2 d4 i by (auto simp: ret_ok_def TTKErrNoMemory_def same_head_def simp del: wp_bind)
qed

end

text \<open>Both streams of a pair leave room for their sections.\<close>

definition pair_fits :: "(string \<Rightarrow> bool) \<Rightarrow> AACDecoder \<Rightarrow> bool" where
  "pair_fits malloc d \<longleftrightarrow>
     (case pair_head malloc d of Some (ret, d1) \<Rightarrow> ret \<noteq> 0 \<or>
        stream_fits malloc d1 0 \<and>
        (case individual_channel_stream malloc d1 0 of Some (ret, d2) \<Rightarrow> ret \<noteq> 0 \<or> stream_fits malloc d2 1
         | None \<Rightarrow> False)
      | None \<Rightarrow> False)"

context spectral_reader begin

lemma channel_pair_ok:
  assumes "dec_run P d" "pair_fits malloc d" "sampRateIdx d < 11"
  shows "wp (channel_pair_element malloc d) (\<lambda>p. dec_run P (snd p) \<and> ret_ok (fst p) \<and> sampRateIdx (snd p) = sampRateIdx d)"
proof -
  obtain ret d1 where h: "pair_head malloc d = Some (ret, d1)" "dec_run P d1" "ret_ok ret" "sampRateIdx d1 = sampRateIdx d"
      "ret = 0 \<and> common_window d1 \<noteq> 0 \<longrightarrow> ics_ok (sampRateIdx d) (ics_data d1 ! 0)"
    using pair_head_ok [OF assms(1), of malloc] by (auto simp: wp_iff)
  show ?thesis
  proof (cases "ret = 0")
    case False
    then show ?thesis using h by (simp add: channel_pair_element_def)
  next
    case True
    have f1: "stream_fits malloc d1 0" using assms(2) True by (simp add: pair_fits_def h(1))
    have "wp (individual_channel_stream malloc d1 0) (stream_post P d1)"
      using h True f1 assms(3) by (intro ics_stream_ok) auto
    then obtain ret1 d2 where s1: "individual_channel_stream malloc d1 0 = Some (ret1, d2)" "dec_run P d2" "same_head d1 d2"
      "ret_ok ret1" "common_window d1 \<noteq> 0 \<longrightarrow> ics_data d2 = ics_data d1" by (auto simp: wp_iff stream_post_def)
    show ?thesis
    proof (cases "ret1 = 0")
      case False
      then show ?thesis using h s1 True by (simp add: channel_pair_element_def same_head_def)
    next
      case r1: True
      have f2: "stream_fits malloc d2 1" using assms(2) True r1 by (simp add: pair_fits_def h(1) s1(1))
      have "wp (individual_channel_stream malloc d2 1) (stream_post P d2)"
        using h True s1 f2 assms(3) by (intro ics_stream_ok) (auto simp: same_head_def)
      then show ?thesis
        using h(1,4) s1 True r1 by (auto simp: channel_pair_element_def stream_post_def same_head_def elim!: wp_mono)
    qed
  qed
qed

end

text \<open>Long windows always leave room.\<close>

context reader begin

lemma stream_fits_long:
  assumes "dec_run P d" "ch = 0 \<or> ch = 1" "common_window d = 0" "window_bits (dbs d) \<noteq> EIGHT_SHORT_SEQUENCE"
  shows "stream_fits malloc d ch"
  using ics_stage_ok [OF assms(1,2), of malloc] assms(3,4)
  by (auto simp: wp_iff stream_fits_def TTKErrNoMemory_def intro!: sections_fit_long)

end

end
