(* ===== verification/ChannelMap.thy ===== *)
theory ChannelMap
  imports AACState Checked
begin

unbundle bit_operations_syntax

text \<open>
  The parameters of a stream and the order of its channels, \<^verbatim>\<open>src/unit.c\<close>: the check of sample rate
  and profile, the map from decoding order to output channel, and the selection of channels.
\<close>

section \<open>Sample rate and profile\<close>

fun rate_loop :: "nat \<Rightarrow> int \<Rightarrow> int \<Rightarrow> int option" where
  "rate_loop 0 idx sr = Some idx"
| "rate_loop (Suc k) idx sr = do { r \<leftarrow> rd sampRateTab idx; if sr = r then Some idx else rate_loop k (idx + 1) sr }"

definition updateSampleRate :: "AACDecoder \<Rightarrow> int \<Rightarrow> (int \<times> AACDecoder) option" where
  "updateSampleRate d sr =
     do { idx \<leftarrow> rate_loop (nat NUM_SAMPLE_RATES) 0 sr;
          let d = (if idx < NUM_SAMPLE_RATES then d\<lparr>sampRateIdx := idx\<rparr> else d);
          if idx = NUM_SAMPLE_RATES then Some (TT_AACDEC_ERR_AUDIO_UNSSAMPLERATE, d)
          else Some (0, d\<lparr>sampleRate := sr\<rparr>) }"

definition updateProfile :: "AACDecoder \<Rightarrow> int \<Rightarrow> int \<times> AACDecoder" where
  "updateProfile d p =
     (if \<not> (p = TTAAC_AAC_LC \<or> p = TTAAC_ER_AAC_LC \<or> p = TTAAC_AAC_LTP \<or> p = TTAAC_ER_AAC_LTP
           \<or> p = TTAAC_AAC_MAIN \<or> p = TTAAC_SBR \<or> p = TTAAC_HE_PS)
      then (TT_AACDEC_ERR_AAC_UNSPROFILE, d) else (0, d\<lparr>profile := p\<rparr>))"

section \<open>The channel map\<close>

text \<open>
  \<open>channel_offsize[chpos] = off; channel_position[chpos++] = pos;\<close> a state is the counter \<open>chpos\<close> with the
  decoder. \<open>chan_next\<close> is the common case \<open>off = chpos\<close>.
\<close>

definition chan_put :: "int \<Rightarrow> int \<Rightarrow> int \<Rightarrow> AACDecoder \<Rightarrow> (int \<times> AACDecoder) option" where
  "chan_put off pos chpos d =
     do { os \<leftarrow> wr (channel_offsize d) chpos off;
          ps \<leftarrow> wr (channel_position d) chpos pos;
          Some (chpos + 1, d\<lparr>channel_offsize := os, channel_position := ps\<rparr>) }"

definition chan_next :: "int \<Rightarrow> int \<Rightarrow> AACDecoder \<Rightarrow> (int \<times> AACDecoder) option" where
  "chan_next pos chpos d = chan_put chpos pos chpos d"

definition pce_front :: "program_config \<Rightarrow> int \<Rightarrow> AACDecoder \<Rightarrow> (int \<times> AACDecoder) option" where
  "pce_front c chpos d =
     (if num_front_channels c = 3 then
        do { cpe \<leftarrow> rd (front_element_is_cpe c) 0;
             if cpe AND 1 \<noteq> 0 then
               do { (chpos, d) \<leftarrow> chan_put 0 CH_FRONT_LEFT chpos d;
                    (chpos, d) \<leftarrow> chan_put 2 CH_CENTER chpos d;
                    chan_put 1 CH_FRONT_RIGHT chpos d }
             else
               do { (chpos, d) \<leftarrow> chan_put 1 CH_FRONT_LEFT chpos d;
                    (chpos, d) \<leftarrow> chan_put 0 CH_CENTER chpos d;
                    chan_put 2 CH_FRONT_RIGHT chpos d } }
      else if num_front_channels c = 2 then
        do { (chpos, d) \<leftarrow> chan_next CH_FRONT_LEFT chpos d; chan_next CH_FRONT_RIGHT chpos d }
      else if num_front_channels c = 1 then chan_next CH_CENTER chpos d
      else Some (chpos, d))"

text \<open>\<open>for (i = 0; i < n; i += 2)\<close> over a pair of positions, \<open>k\<close> rounds.\<close>

fun chan_pairs :: "nat \<Rightarrow> int \<Rightarrow> int \<Rightarrow> int \<Rightarrow> AACDecoder \<Rightarrow> (int \<times> AACDecoder) option" where
  "chan_pairs 0 l r chpos d = Some (chpos, d)"
| "chan_pairs (Suc k) l r chpos d =
     do { (chpos, d) \<leftarrow> chan_next l chpos d;
          (chpos, d) \<leftarrow> chan_next r chpos d;
          chan_pairs k l r chpos d }"

fun lfe_loop :: "nat \<Rightarrow> int \<Rightarrow> AACDecoder \<Rightarrow> (int \<times> AACDecoder) option" where
  "lfe_loop 0 chpos d = Some (chpos, d)"
| "lfe_loop (Suc k) chpos d = do { (chpos, d) \<leftarrow> chan_next CH_LFE_BASS chpos d; lfe_loop k chpos d }"

definition pce_back :: "program_config \<Rightarrow> int \<Rightarrow> AACDecoder \<Rightarrow> (int \<times> AACDecoder) option" where
  "pce_back c chpos d =
     (let center = num_back_channels c AND 1;
          chdir = (if center \<noteq> 0 then num_back_channels c - 1 else num_back_channels c) in
      do { (chpos, d) \<leftarrow> chan_pairs (nat ((chdir + 1) div 2)) CH_BACK_LEFT CH_BACK_RIGHT chpos d;
           if center \<noteq> 0 then chan_next CH_BACK_CENTER chpos d else Some (chpos, d) })"

definition pce_layout :: "program_config \<Rightarrow> AACDecoder \<Rightarrow> AACDecoder option" where
  "pce_layout c d =
     do { (chpos, d) \<leftarrow> pce_front c 0 d;
          (chpos, d) \<leftarrow> chan_pairs (nat ((num_side_channels c + 1) div 2)) CH_SIDE_LEFT CH_SIDE_RIGHT chpos d;
          (chpos, d) \<leftarrow> pce_back c chpos d;
          (chpos, d) \<leftarrow> lfe_loop (nat (num_lfe_channels c)) chpos d;
          Some d }"

text \<open>Without a program configuration: the tables of the \<open>switch\<close>, written from index 0 on.\<close>

fun wr_all :: "'a list \<Rightarrow> int \<Rightarrow> 'a list \<Rightarrow> 'a list option" where
  "wr_all xs i [] = Some xs"
| "wr_all xs i (v # vs) = do { xs \<leftarrow> wr xs i v; wr_all xs (i + 1) vs }"

definition chan_table :: "int list \<Rightarrow> int list \<Rightarrow> AACDecoder \<Rightarrow> AACDecoder option" where
  "chan_table ps os d =
     do { ps \<leftarrow> wr_all (channel_position d) 0 ps;
          os \<leftarrow> wr_all (channel_offsize d) 0 os;
          Some (d\<lparr>channel_position := ps, channel_offsize := os\<rparr>) }"

definition front_order :: "AACDecoder \<Rightarrow> int list" where
  "front_order d = (if first_id_syn_ele d = ID_SCE then [1, 0, 2] else [0, 2, 1])"

definition config_layout :: "int \<Rightarrow> AACDecoder \<Rightarrow> AACDecoder option" where
  "config_layout config d =
     (if config = 0 \<or> config = 1 \<or> config = 2 then chan_table [CH_FRONT_LEFT, CH_FRONT_RIGHT] [0, 1] d
      else if config = 3 then
        chan_table [CH_FRONT_LEFT, CH_CENTER, CH_FRONT_RIGHT] (front_order d) d
      else if config = 4 then
        chan_table [CH_FRONT_LEFT, CH_CENTER, CH_FRONT_RIGHT, CH_BACK_CENTER] (front_order d @ [3]) d
      else if config = 5 then
        chan_table [CH_FRONT_LEFT, CH_CENTER, CH_FRONT_RIGHT, CH_BACK_LEFT, CH_BACK_RIGHT] (front_order d @ [3, 4]) d
      else if config = 6 then
        chan_table [CH_FRONT_LEFT, CH_CENTER, CH_FRONT_RIGHT, CH_BACK_LEFT, CH_BACK_RIGHT, CH_LFE_BASS]
          (front_order d @ [3, 4, 5]) d
      else if config = 7 then
        chan_table [CH_FRONT_LEFT, CH_CENTER, CH_FRONT_RIGHT, CH_SIDE_LEFT, CH_SIDE_RIGHT, CH_BACK_LEFT,
            CH_BACK_RIGHT, CH_LFE_BASS] (front_order d @ [3, 4, 5, 6, 7]) d
      else Some d)"

definition Channelconfig :: "AACDecoder \<Rightarrow> AACDecoder option" where
  "Channelconfig d =
     (if channelNum d \<le> 2 then chan_table [CH_FRONT_LEFT, CH_FRONT_RIGHT] [0, 1] d
      else if pce_set d \<noteq> 0 then pce_layout (pce d) d
      else config_layout (if frametype d = TTAAC_ADTS then channel_configuration (adts d) else channelNum d) d)"

section \<open>The selection of channels\<close>

definition EnableDecodeCurrChannel :: "AACDecoder \<Rightarrow> int \<Rightarrow> int option" where
  "EnableDecodeCurrChannel d ch =
     do { nch \<leftarrow> rd (channel_offsize d) (ch + decodedChans d);
          pos \<leftarrow> rd (channel_position d) nch;
          Some (if seletedChs d AND pos \<noteq> 0 then 1 else 0) }"

definition EnableDecodeCurrSBRChannel :: "AACDecoder \<Rightarrow> int \<Rightarrow> int option" where
  "EnableDecodeCurrSBRChannel d ch =
     do { nch \<leftarrow> rd (channel_offsize d) (ch + decodedSBRChans d);
          pos \<leftarrow> rd (channel_position d) nch;
          Some (if seletedChs d AND pos \<noteq> 0 then 1 else 0) }"

text \<open>\<open>for (ch = 0; ch < channels; ch++) sum += enabled(ch)\<close>\<close>

fun count_loop :: "(int \<Rightarrow> int option) \<Rightarrow> nat \<Rightarrow> int \<Rightarrow> int \<Rightarrow> int option" where
  "count_loop en 0 ch acc = Some acc"
| "count_loop en (Suc k) ch acc = do { e \<leftarrow> en ch; count_loop en k (ch + 1) (acc + e) }"

definition UpdateSeletedChDecoded :: "AACDecoder \<Rightarrow> int \<Rightarrow> AACDecoder option" where
  "UpdateSeletedChDecoded d n =
     (if channelNum d > 2 \<or> ChansMode d = MODE_DUALMONO then
        do { s \<leftarrow> count_loop (EnableDecodeCurrChannel d) (nat n) 0 (seletedChDecoded d);
             Some (d\<lparr>seletedChDecoded := s\<rparr>) }
      else Some d)"

definition UpdateSeletedSBRChDecoded :: "AACDecoder \<Rightarrow> int \<Rightarrow> AACDecoder option" where
  "UpdateSeletedSBRChDecoded d n =
     (if channelNum d > 2 \<or> ChansMode d = MODE_DUALMONO then
        do { s \<leftarrow> count_loop (EnableDecodeCurrSBRChannel d) (nat n) 0 (seletedSBRChDecoded d);
             Some (d\<lparr>seletedSBRChDecoded := s\<rparr>) }
      else Some d)"

section \<open>Placing channels\<close>

definition chan_wf :: "AACDecoder \<Rightarrow> bool" where
  "chan_wf d \<longleftrightarrow> length (channel_offsize d) = 8 \<and> length (channel_position d) = 8"

text \<open>Nothing but the channel map has changed.\<close>

definition remap :: "AACDecoder \<Rightarrow> AACDecoder \<Rightarrow> bool" where
  "remap d d' \<longleftrightarrow> chan_wf d' \<and> (\<exists>xs ys. d' = d\<lparr>channel_offsize := xs, channel_position := ys\<rparr>)"

lemma remap_refl: "chan_wf d \<Longrightarrow> remap d d"
proof -
  have "d = d\<lparr>channel_offsize := channel_offsize d, channel_position := channel_position d\<rparr>" by simp
  then show "chan_wf d \<Longrightarrow> remap d d" unfolding remap_def by blast
qed

lemma remap_trans: "remap a b \<Longrightarrow> remap b c \<Longrightarrow> remap a c"
  by (auto simp: remap_def) blast

lemma remap_wf: "remap a b \<Longrightarrow> chan_wf b"
  by (simp add: remap_def)

text \<open>
  \<open>f\<close> places \<open>n\<close> channels: from slot \<open>chpos\<close> on it succeeds when they fit into the eight slots, and
  writes past the arrays when they do not.
\<close>

definition places :: "int \<Rightarrow> (int \<Rightarrow> AACDecoder \<Rightarrow> (int \<times> AACDecoder) option) \<Rightarrow> bool" where
  "places n f \<longleftrightarrow> 0 \<le> n \<and> (\<forall>chpos d. 0 \<le> chpos \<longrightarrow> chpos \<le> 8 \<longrightarrow> chan_wf d \<longrightarrow>
     (if chpos + n \<le> 8 then wp (f chpos d) (\<lambda>(p, d'). p = chpos + n \<and> remap d d') else f chpos d = None))"

lemma placesD:
  assumes "places n f" "0 \<le> chpos" "chpos \<le> 8" "chan_wf d"
  shows "chpos + n \<le> 8 \<Longrightarrow> \<exists>d'. f chpos d = Some (chpos + n, d') \<and> remap d d'"
    "8 < chpos + n \<Longrightarrow> f chpos d = None"
proof -
  have p: "if chpos + n \<le> 8 then wp (f chpos d) (\<lambda>(p, d'). p = chpos + n \<and> remap d d') else f chpos d = None"
    using assms by (simp add: places_def)
  show "chpos + n \<le> 8 \<Longrightarrow> \<exists>d'. f chpos d = Some (chpos + n, d') \<and> remap d d'"
    using p by (auto dest!: wpD)
  show "8 < chpos + n \<Longrightarrow> f chpos d = None"
    using p by simp
qed

lemma places_stop: "places 0 (\<lambda>chpos d. Some (chpos, d))"
  by (simp add: places_def remap_refl)

lemma chan_put_places: "0 \<le> chpos \<Longrightarrow> chan_wf d \<Longrightarrow>
    if chpos + 1 \<le> 8 then wp (chan_put off pos chpos d) (\<lambda>(p, d'). p = chpos + 1 \<and> remap d d') else chan_put off pos chpos d = None"
  by (auto simp: chan_put_def chan_wf_def wr_def remap_def)

lemma places_put: "places 1 (chan_put off pos)"
  using chan_put_places by (simp add: places_def)

lemma places_next: "places 1 (chan_next pos)"
  using chan_put_places by (simp add: places_def chan_next_def)

lemma places_then:
  assumes "places n f" "places m g"
  shows "places (n + m) (\<lambda>chpos d. Option.bind (f chpos d) (\<lambda>(p, d). g p d))"
proof -
  have nm: "0 \<le> n" "0 \<le> m" using assms by (simp_all add: places_def)
  have "if chpos + (n + m) \<le> 8 then wp (Option.bind (f chpos d) (\<lambda>(p, d). g p d)) (\<lambda>(p, d'). p = chpos + (n + m) \<and> remap d d')
      else Option.bind (f chpos d) (\<lambda>(p, d). g p d) = None" if c: "0 \<le> chpos" "chpos \<le> 8" "chan_wf d" for chpos d
  proof (cases "chpos + n \<le> 8")
    case True
    then obtain d' where f: "f chpos d = Some (chpos + n, d')" "remap d d'"
      using placesD(1) [OF assms(1) c True] by blast
    have "if chpos + n + m \<le> 8 then wp (g (chpos + n) d') (\<lambda>(p, e). p = chpos + n + m \<and> remap d' e) else g (chpos + n) d' = None"
      using assms(2) nm c True remap_wf [OF f(2)] by (simp add: places_def)
    then show ?thesis using f(1) remap_trans [OF f(2)] by (auto simp: add.assoc elim!: wp_mono)
  next
    case False
    then have "f chpos d = None" using assms(1) c by (simp add: places_def)
    then show ?thesis using False nm by simp
  qed
  with nm show ?thesis unfolding places_def by (intro conjI allI impI add_nonneg_nonneg)
qed

lemma places_pairs: "places (2 * int k) (chan_pairs k l r)"
proof (induction k)
  case 0
  then show ?case using places_stop by (simp add: fun_eq_iff places_def)
next
  case (Suc k)
  have "chan_pairs (Suc k) l r = (\<lambda>chpos d. Option.bind (chan_next l chpos d) (\<lambda>(p, d).
      (\<lambda>chpos d. Option.bind (chan_next r chpos d) (\<lambda>(p, d). chan_pairs k l r p d)) p d))"
    by (simp add: fun_eq_iff)
  with places_then [OF places_next places_then [OF places_next Suc.IH]] show ?case
    by (simp add: algebra_simps)
qed

lemma places_lfe: "places (int k) (lfe_loop k)"
proof (induction k)
  case 0
  then show ?case using places_stop by (simp add: places_def)
next
  case (Suc k)
  have "lfe_loop (Suc k) = (\<lambda>chpos d. Option.bind (chan_next CH_LFE_BASS chpos d) (\<lambda>(p, d). lfe_loop k p d))"
    by (simp add: fun_eq_iff)
  with places_then [OF places_next Suc.IH] show ?case by (simp add: algebra_simps)
qed

text \<open>The slots the layout of a program configuration takes.\<close>

definition front_slots :: "program_config \<Rightarrow> int" where
  "front_slots c = (if num_front_channels c \<in> {1, 2, 3} then num_front_channels c else 0)"

definition pce_slots :: "program_config \<Rightarrow> int" where
  "pce_slots c = front_slots c + 2 * ((num_side_channels c + 1) div 2) + num_back_channels c + num_lfe_channels c"

definition pce_counts :: "program_config \<Rightarrow> bool" where
  "pce_counts c \<longleftrightarrow> length (front_element_is_cpe c) = 16 \<and> 0 \<le> num_front_channels c \<and> 0 \<le> num_side_channels c
     \<and> 0 \<le> num_back_channels c \<and> 0 \<le> num_lfe_channels c"

lemma places_front:
  assumes "pce_counts c"
  shows "places (front_slots c) (pce_front c)"
proof -
  note three = places_then [OF places_put places_then [OF places_put places_put]]
  have rd0: "rd (front_element_is_cpe c) 0 = Some (front_element_is_cpe c ! 0)"
    using assms by (simp add: rd_def pce_counts_def)
  show ?thesis
    using three [of 0 CH_FRONT_LEFT 2 CH_CENTER 1 CH_FRONT_RIGHT] three [of 1 CH_FRONT_LEFT 0 CH_CENTER 2 CH_FRONT_RIGHT]
      places_then [OF places_next places_next, of CH_FRONT_LEFT CH_FRONT_RIGHT] places_next [of CH_CENTER] places_stop
    by (auto simp: places_def pce_front_def front_slots_def rd0)
qed

lemma places_back:
  assumes "pce_counts c"
  shows "places (num_back_channels c) (pce_back c)"
proof -
  let ?n = "num_back_channels c"
  have n: "0 \<le> ?n" using assms by (simp add: pce_counts_def)
  have a: "?n AND 1 = ?n mod 2" by (simp add: and_one_eq)
  show ?thesis
  proof (cases "?n mod 2 = 0")
    case True
    have k: "2 * int (nat ((?n + 1) div 2)) = ?n" using n True even_two_times_div_two [of ?n] by (simp add: even_iff_mod_2_eq_zero)
    have "pce_back c = chan_pairs (nat ((?n + 1) div 2)) CH_BACK_LEFT CH_BACK_RIGHT"
      using True by (auto simp: pce_back_def a fun_eq_iff case_prod_unfold)
    then show ?thesis
      using places_pairs [of "nat ((?n + 1) div 2)" CH_BACK_LEFT CH_BACK_RIGHT] by (simp only: k)
  next
    case False
    have k: "2 * int (nat (?n div 2)) + 1 = ?n" using n False by (simp add: minus_mod_eq_mult_div [symmetric])
    have "pce_back c = (\<lambda>chpos d. Option.bind (chan_pairs (nat (?n div 2)) CH_BACK_LEFT CH_BACK_RIGHT chpos d)
        (\<lambda>(p, d). chan_next CH_BACK_CENTER p d))"
      using False by (simp add: pce_back_def a fun_eq_iff)
    then show ?thesis
      using places_then [OF places_pairs [of "nat (?n div 2)" CH_BACK_LEFT CH_BACK_RIGHT] places_next [of CH_BACK_CENTER]]
      by (simp only: k)
  qed
qed

lemma layout_slots:
  assumes "pce_counts c" "chan_wf d"
  shows "if pce_slots c \<le> 8 then wp (pce_layout c d) (remap d) else pce_layout c d = None"
proof -
  let ?s = "nat ((num_side_channels c + 1) div 2)"
  have s: "2 * int ?s = 2 * ((num_side_channels c + 1) div 2)" "int (nat (num_lfe_channels c)) = num_lfe_channels c"
    using assms(1) by (simp_all add: pce_counts_def)
  let ?f = "\<lambda>chpos d. Option.bind (pce_front c chpos d) (\<lambda>(p, d). (\<lambda>chpos d. Option.bind (chan_pairs ?s CH_SIDE_LEFT CH_SIDE_RIGHT chpos d)
      (\<lambda>(p, d). (\<lambda>chpos d. Option.bind (pce_back c chpos d) (\<lambda>(p, d). lfe_loop (nat (num_lfe_channels c)) p d)) p d)) p d)"
  have "places (pce_slots c) ?f"
    using places_then [OF places_front [OF assms(1)] places_then [OF places_pairs [of ?s CH_SIDE_LEFT CH_SIDE_RIGHT]
        places_then [OF places_back [OF assms(1)] places_lfe [of "nat (num_lfe_channels c)"]]]] s by (simp add: pce_slots_def add.assoc)
  then have f: "if pce_slots c \<le> 8 then wp (?f 0 d) (\<lambda>(p, d'). p = pce_slots c \<and> remap d d') else ?f 0 d = None"
    using assms(2) by (auto simp: places_def)
  have "pce_layout c d = Option.bind (?f 0 d) (\<lambda>(p, d). Some d)"
    by (simp add: pce_layout_def case_prod_unfold)
  moreover obtain F where F: "?f 0 d = F" by simp
  ultimately have "pce_layout c d = Option.bind F (\<lambda>(p, d). Some d)" by simp
  with f [unfolded F] show ?thesis by (cases F) (auto split: if_splits)
qed

text \<open>The tables of the fixed configurations fit.\<close>

lemma wr_all_ok: "0 \<le> i \<Longrightarrow> i + int (length vs) \<le> int (length xs) \<Longrightarrow> wp (wr_all xs i vs) (\<lambda>ys. length ys = length xs)"
proof (induction vs arbitrary: xs i)
  case (Cons v vs)
  from Cons.IH [of "i + 1" "xs[nat i := v]"] Cons.prems show ?case by simp
qed simp

lemma wr_all_eq:
  "0 \<le> i \<Longrightarrow> i + int (length vs) \<le> int (length xs) \<Longrightarrow>
   wr_all xs i vs = Some (take (nat i) xs @ vs @ drop (nat i + length vs) xs)"
proof (induction vs arbitrary: xs i)
  case (Cons v vs)
  then have n: "nat (i + 1) = Suc (nat i)" "nat i < length xs" by (simp_all add: nat_add_distrib)
  have "wr_all (xs[nat i := v]) (i + 1) vs = Some (take (nat (i + 1)) (xs[nat i := v]) @ vs @ drop (nat (i + 1) + length vs) (xs[nat i := v]))"
    using Cons.prems by (intro Cons.IH) auto
  moreover have "take (Suc (nat i)) (xs[nat i := v]) = take (nat i) xs @ [v]"
    using n(2) by (simp add: take_Suc_conv_app_nth)
  ultimately show ?case using Cons.prems n by (simp add: wr_Some)
qed simp

lemma chan_table_eq:
  "chan_wf d \<Longrightarrow> length ps \<le> 8 \<Longrightarrow> length os \<le> 8 \<Longrightarrow> chan_table ps os d
     = Some (d\<lparr>channel_position := ps @ drop (length ps) (channel_position d),
               channel_offsize := os @ drop (length os) (channel_offsize d)\<rparr>)"
  by (simp add: chan_table_def chan_wf_def wr_all_eq)

text \<open>
  The order in which the standard transmits the channels of a configuration, center first or after the
  front pair: what position the \<open>k\<close>-th decoded channel must be sent to.
\<close>

definition decode_order :: "int \<Rightarrow> int \<Rightarrow> int list" where
  "decode_order config first =
     (if first = ID_SCE then [CH_CENTER, CH_FRONT_LEFT, CH_FRONT_RIGHT] else [CH_FRONT_LEFT, CH_FRONT_RIGHT, CH_CENTER])
     @ (if config = 4 then [CH_BACK_CENTER]
        else if config = 5 then [CH_BACK_LEFT, CH_BACK_RIGHT]
        else if config = 6 then [CH_BACK_LEFT, CH_BACK_RIGHT, CH_LFE_BASS]
        else if config = 7 then [CH_SIDE_LEFT, CH_SIDE_RIGHT, CH_BACK_LEFT, CH_BACK_RIGHT, CH_LFE_BASS]
        else [])"

definition mapped_order :: "AACDecoder \<Rightarrow> nat \<Rightarrow> int list" where
  "mapped_order d n = map (\<lambda>k. channel_position d ! nat (channel_offsize d ! k)) [0..<n]"

lemma config_layout_order:
  assumes "chan_wf d" "config \<in> {3..7}"
  shows "\<exists>d'. config_layout config d = Some d'
     \<and> mapped_order d' (length (decode_order config (first_id_syn_ele d))) = decode_order config (first_id_syn_ele d)"
proof -
  have "config = 3 \<or> config = 4 \<or> config = 5 \<or> config = 6 \<or> config = 7" using assms(2) by auto
  then show ?thesis
    using assms(1)
    by (elim disjE; cases "first_id_syn_ele d = ID_SCE")
      (simp_all add: config_layout_def chan_table_eq front_order_def decode_order_def mapped_order_def upt_conv_Cons)
qed

lemma chan_table_ok:
  assumes "chan_wf d" "length ps \<le> 8" "length os \<le> 8"
  shows "wp (chan_table ps os d) (remap d)"
proof -
  obtain xs ys where "wr_all (channel_position d) 0 ps = Some xs" "length xs = 8"
      "wr_all (channel_offsize d) 0 os = Some ys" "length ys = 8"
    using wr_all_ok [of 0 ps "channel_position d"] wr_all_ok [of 0 os "channel_offsize d"] assms
    by (auto simp: chan_wf_def wp_iff)
  then have "wp (chan_table ps os d) (\<lambda>d'. d' = d\<lparr>channel_offsize := ys, channel_position := xs\<rparr> \<and> chan_wf d')"
    by (simp add: chan_table_def chan_wf_def)
  then show ?thesis by (rule wp_mono) (auto simp: remap_def)
qed

lemma config_layout_ok: "chan_wf d \<Longrightarrow> wp (config_layout c d) (remap d)"
  by (simp add: config_layout_def front_order_def chan_table_ok remap_refl)

text \<open>The layout fits: there is no program configuration, or one that takes at most eight slots.\<close>

definition map_ok :: "AACDecoder \<Rightarrow> bool" where
  "map_ok d \<longleftrightarrow> chan_wf d \<and> (pce_set d \<noteq> 0 \<longrightarrow> pce_counts (pce d) \<and> pce_slots (pce d) \<le> 8)"

lemma Channelconfig_ok: "map_ok d \<Longrightarrow> wp (Channelconfig d) (remap d)"
  using layout_slots [of "pce d" d] by (auto simp: Channelconfig_def map_ok_def chan_table_ok config_layout_ok)

lemma Channelconfig_overrun:
  "chan_wf d \<Longrightarrow> channelNum d > 2 \<Longrightarrow> pce_set d \<noteq> 0 \<Longrightarrow> pce_counts (pce d) \<Longrightarrow>
   Channelconfig d = None \<longleftrightarrow> 8 < pce_slots (pce d)"
  using layout_slots [of "pce d" d] by (auto simp: Channelconfig_def wp_iff split: if_splits)

section \<open>Sample rates\<close>

lemma rate_loop_first:
  "0 \<le> idx \<Longrightarrow> idx + int k = 12 \<Longrightarrow> wp (rate_loop k idx sr) (\<lambda>i. idx \<le> i \<and> i \<le> 12
     \<and> (i < 12 \<longrightarrow> sampRateTab ! nat i = sr) \<and> (i = 12 \<longrightarrow> sr \<notin> set (drop (nat idx) sampRateTab)))"
proof (induction k arbitrary: idx)
  case 0
  then show ?case by (simp add: sampRateTab_def)
next
  case (Suc k)
  have len: "length sampRateTab = 12" by (simp add: sampRateTab_def)
  have d: "set (drop (nat idx) sampRateTab) = insert (sampRateTab ! nat idx) (set (drop (nat (idx + 1)) sampRateTab))"
    using Suc.prems len by (simp add: Cons_nth_drop_Suc [symmetric] nat_add_distrib)
  show ?case using Suc.prems Suc.IH [of "idx + 1"] len d
    by (auto simp: rd_Some intro: wp_mono)
qed

lemma updateSampleRate_spec:
  "\<exists>ret d'. updateSampleRate d sr = Some (ret, d') \<and> (ret = 0 \<longleftrightarrow> sr \<in> set sampRateTab)
    \<and> (sr \<in> set sampRateTab \<longrightarrow> sampRateIdx d' \<in> {0..<12} \<and> sampRateTab ! nat (sampRateIdx d') = sr \<and> sampleRate d' = sr)
    \<and> (sr \<notin> set sampRateTab \<longrightarrow> d' = d)"
proof -
  obtain i where i: "rate_loop 12 0 sr = Some i" "0 \<le> i" "i \<le> 12" "i < 12 \<longrightarrow> sampRateTab ! nat i = sr"
      "i = 12 \<longrightarrow> sr \<notin> set sampRateTab"
    using rate_loop_first [of 0 12 sr] by (auto simp: wp_iff)
  have len: "length sampRateTab = 12" by (simp add: sampRateTab_def)
  show ?thesis
  proof (cases "i = 12")
    case True
    then show ?thesis using i by (simp add: updateSampleRate_def NUM_SAMPLE_RATES_def)
  next
    case False
    then have "sr \<in> set sampRateTab" using i len nth_mem [of "nat i" sampRateTab] by auto
    then show ?thesis using False i by (simp add: updateSampleRate_def NUM_SAMPLE_RATES_def)
  qed
qed

text \<open>A layout without slots writes nothing.\<close>

lemma layout_empty:
  assumes "pce_counts c" "pce_slots c = 0"
  shows "pce_layout c d = Some d"
proof -
  have n: "0 \<le> num_front_channels c" "0 \<le> num_side_channels c" "0 \<le> num_back_channels c" "0 \<le> num_lfe_channels c"
    using assms(1) by (simp_all add: pce_counts_def)
  have "0 \<le> front_slots c" "0 \<le> (num_side_channels c + 1) div 2" using n by (simp_all add: front_slots_def)
  then have z: "front_slots c = 0" "(num_side_channels c + 1) div 2 = 0" "num_back_channels c = 0" "num_lfe_channels c = 0"
    using n assms(2) by (simp_all add: pce_slots_def)
  have "num_front_channels c \<notin> {1, 2, 3}" using z(1) by (auto simp: front_slots_def)
  then show ?thesis using z by (simp add: pce_layout_def pce_front_def pce_back_def)
qed

end
