(* ===== verification/Header.thy ===== *)
theory Header
  imports ChannelMap
begin

unbundle bit_operations_syntax

text \<open>
  The headers of a stream, \<^verbatim>\<open>src/Header.c\<close>: the program configuration, the ADIF header at the start of a
  file, and the ADTS header in front of every frame with the search for its syncword.
\<close>

section \<open>The program configuration\<close>

text \<open>The loops over front, side and back elements: flags, tags, the number of their channels (a byte) and the total.\<close>

fun cpe_loop :: "nat \<Rightarrow> int \<Rightarrow> int list \<Rightarrow> int list \<Rightarrow> int \<Rightarrow> int \<Rightarrow> BitStream
    \<Rightarrow> (int list \<times> int list \<times> int \<times> int \<times> BitStream) option" where
  "cpe_loop 0 i cpes tags num chs bs = Some (cpes, tags, num, chs, bs)"
| "cpe_loop (Suc k) i cpes tags num chs bs =
     (let (v, bs) = BitStreamGetBits bs 1;
          (t, bs) = BitStreamGetBits bs 4 in
      do { cpes \<leftarrow> wr cpes i (u8 v);
           tags \<leftarrow> wr tags i (u8 t);
           if u8 v AND 1 \<noteq> 0 then cpe_loop k (i + 1) cpes tags (u8 (num + 2)) (chs + 2) bs
           else cpe_loop k (i + 1) cpes tags (u8 (num + 1)) (chs + 1) bs })"

fun lfe_tags :: "nat \<Rightarrow> int \<Rightarrow> int list \<Rightarrow> int \<Rightarrow> int \<Rightarrow> BitStream \<Rightarrow> (int list \<times> int \<times> int \<times> BitStream) option" where
  "lfe_tags 0 i tags num chs bs = Some (tags, num, chs, bs)"
| "lfe_tags (Suc k) i tags num chs bs =
     (let (t, bs) = BitStreamGetBits bs 4 in
      do { tags \<leftarrow> wr tags i (u8 t); lfe_tags k (i + 1) tags (u8 (num + 1)) (chs + 1) bs })"

fun assoc_loop :: "nat \<Rightarrow> int \<Rightarrow> int list \<Rightarrow> BitStream \<Rightarrow> (int list \<times> BitStream) option" where
  "assoc_loop 0 i tags bs = Some (tags, bs)"
| "assoc_loop (Suc k) i tags bs =
     (let (t, bs) = BitStreamGetBits bs 4 in
      do { tags \<leftarrow> wr tags i (u8 t); assoc_loop k (i + 1) tags bs })"

fun cc_loop :: "nat \<Rightarrow> int \<Rightarrow> int list \<Rightarrow> int list \<Rightarrow> BitStream \<Rightarrow> (int list \<times> int list \<times> BitStream) option" where
  "cc_loop 0 i sws tags bs = Some (sws, tags, bs)"
| "cc_loop (Suc k) i sws tags bs =
     (let (v, bs) = BitStreamGetBits bs 1;
          (t, bs) = BitStreamGetBits bs 4 in
      do { sws \<leftarrow> wr sws i (u8 v);
           tags \<leftarrow> wr tags i (u8 t);
           cc_loop k (i + 1) sws tags bs })"

fun skip_bytes :: "nat \<Rightarrow> BitStream \<Rightarrow> BitStream" where
  "skip_bytes 0 bs = bs"
| "skip_bytes (Suc k) bs = skip_bytes k (snd (BitStreamGetBits bs 8))"

text \<open>The counts and mixdown data up to the element loops.\<close>

definition pce_head :: "program_config \<Rightarrow> BitStream \<Rightarrow> program_config \<times> BitStream" where
  "pce_head c bs =
     (let (v, bs) = BitStreamGetBits bs 4; c = c\<lparr>element_instance_tag := u8 v\<rparr>;
          (v, bs) = BitStreamGetBits bs 2; c = c\<lparr>object_type := u8 v\<rparr>;
          (v, bs) = BitStreamGetBits bs 4; c = c\<lparr>sampling_frequency_index := u8 v\<rparr>;
          (v, bs) = BitStreamGetBits bs 4; c = c\<lparr>num_front_channel_elements := u8 v\<rparr>;
          (v, bs) = BitStreamGetBits bs 4; c = c\<lparr>num_side_channel_elements := u8 v\<rparr>;
          (v, bs) = BitStreamGetBits bs 4; c = c\<lparr>num_back_channel_elements := u8 v\<rparr>;
          (v, bs) = BitStreamGetBits bs 2; c = c\<lparr>num_lfe_channel_elements := u8 v\<rparr>;
          (v, bs) = BitStreamGetBits bs 3; c = c\<lparr>num_assoc_data_elements := u8 v\<rparr>;
          (v, bs) = BitStreamGetBits bs 4 in
      (c\<lparr>num_valid_cc_elements := u8 v\<rparr>, bs))"

definition pce_mono :: "program_config \<Rightarrow> BitStream \<Rightarrow> program_config \<times> BitStream" where
  "pce_mono c bs =
     (let (v, bs) = BitStreamGetBits bs 1; c = c\<lparr>mono_mixdown_present := u8 v\<rparr> in
      if mono_mixdown_present c = 1 then
        (let (v, bs) = BitStreamGetBits bs 4 in (c\<lparr>mono_mixdown_element_number := u8 v\<rparr>, bs))
      else (c, bs))"

definition pce_stereo :: "program_config \<Rightarrow> BitStream \<Rightarrow> program_config \<times> BitStream" where
  "pce_stereo c bs =
     (let (v, bs) = BitStreamGetBits bs 1; c = c\<lparr>stereo_mixdown_present := u8 v\<rparr> in
      if stereo_mixdown_present c = 1 then
        (let (v, bs) = BitStreamGetBits bs 4 in (c\<lparr>stereo_mixdown_element_number := u8 v\<rparr>, bs))
      else (c, bs))"

definition pce_matrix :: "program_config \<Rightarrow> BitStream \<Rightarrow> program_config \<times> BitStream" where
  "pce_matrix c bs =
     (let (v, bs) = BitStreamGetBits bs 1; c = c\<lparr>matrix_mixdown_idx_present := u8 v\<rparr> in
      if matrix_mixdown_idx_present c = 1 then
        (let (v, bs) = BitStreamGetBits bs 2; (w, bs) = BitStreamGetBits bs 1 in
         (c\<lparr>matrix_mixdown_idx := u8 v, pseudo_surround_enable := u8 w\<rparr>, bs))
      else (c, bs))"

text \<open>The element loops, each starting with a count of zero channels; \<open>channels\<close> is their sum.\<close>

definition pce_elements :: "program_config \<Rightarrow> BitStream \<Rightarrow> (program_config \<times> BitStream) option" where
  "pce_elements c bs =
     do { (cpes, tags, num, chs, bs) \<leftarrow> cpe_loop (nat (num_front_channel_elements c)) 0
            (front_element_is_cpe c) (front_element_tag_select c) 0 0 bs;
          let c = c\<lparr>front_element_is_cpe := cpes, front_element_tag_select := tags, num_front_channels := num\<rparr>;
          (cpes, tags, num, chs, bs) \<leftarrow> cpe_loop (nat (num_side_channel_elements c)) 0
            (side_element_is_cpe c) (side_element_tag_select c) 0 chs bs;
          let c = c\<lparr>side_element_is_cpe := cpes, side_element_tag_select := tags, num_side_channels := num\<rparr>;
          (cpes, tags, num, chs, bs) \<leftarrow> cpe_loop (nat (num_back_channel_elements c)) 0
            (back_element_is_cpe c) (back_element_tag_select c) 0 chs bs;
          let c = c\<lparr>back_element_is_cpe := cpes, back_element_tag_select := tags, num_back_channels := num\<rparr>;
          (tags, num, chs, bs) \<leftarrow> lfe_tags (nat (num_lfe_channel_elements c)) 0 (lfe_element_tag_select c) 0 chs bs;
          let c = c\<lparr>lfe_element_tag_select := tags, num_lfe_channels := num\<rparr>;
          (tags, bs) \<leftarrow> assoc_loop (nat (num_assoc_data_elements c)) 0 (assoc_data_element_tag_select c) bs;
          let c = c\<lparr>assoc_data_element_tag_select := tags\<rparr>;
          (sws, tags, bs) \<leftarrow> cc_loop (nat (num_valid_cc_elements c)) 0 (cc_element_is_ind_sw c) (valid_cc_element_tag_select c) bs;
          Some (c\<lparr>cc_element_is_ind_sw := sws, valid_cc_element_tag_select := tags, channels := u8 chs\<rparr>, bs) }"

definition program_config_element :: "BitStream \<Rightarrow> program_config \<Rightarrow> (program_config \<times> BitStream) option" where
  "program_config_element bs c =
     (let (c, bs) = pce_head c bs;
          (c, bs) = pce_mono c bs;
          (c, bs) = pce_stereo c bs;
          (c, bs) = pce_matrix c bs in
      do { (c, bs) \<leftarrow> pce_elements c bs;
           let bs = BitStreamByteAlign bs;
           let (n, bs) = BitStreamGetBits bs 8;
           Some (c, skip_bytes (nat n) bs) })"

section \<open>ADIF\<close>

fun copyright_loop :: "nat \<Rightarrow> int \<Rightarrow> int list \<Rightarrow> BitStream \<Rightarrow> (int list \<times> BitStream) option" where
  "copyright_loop 0 i xs bs = Some (xs, bs)"
| "copyright_loop (Suc k) i xs bs =
     (let (v, bs) = BitStreamGetBits bs 8 in
      do { xs \<leftarrow> wr xs i (u8 v); copyright_loop k (i + 1) xs bs })"

fun adif_pces :: "nat \<Rightarrow> int \<Rightarrow> adif_header \<Rightarrow> BitStream \<Rightarrow> (adif_header \<times> BitStream) option" where
  "adif_pces 0 i a bs = Some (a, bs)"
| "adif_pces (Suc k) i a bs =
     (let (a, bs) = (if bitstream_type a = 0
                     then (let (v, bs) = BitStreamGetBits bs 20 in (a\<lparr>adif_buffer_fullness := v\<rparr>, bs))
                     else (a\<lparr>adif_buffer_fullness := 0\<rparr>, bs)) in
      do { c \<leftarrow> rd (adif_pce a) i;
           (c, bs) \<leftarrow> program_config_element bs c;
           cs \<leftarrow> wr (adif_pce a) i c;
           adif_pces k (i + 1) (a\<lparr>adif_pce := cs\<rparr>) bs })"

definition adif_frame :: "BitStream \<Rightarrow> adif_header \<Rightarrow> (adif_header \<times> BitStream) option" where
  "adif_frame bs a =
     (let (v, bs) = BitStreamGetBits bs 32; a = a\<lparr>adif_id := u8 v\<rparr>;
          (v, bs) = BitStreamGetBit bs; a = a\<lparr>copyright_id_present := u8 v\<rparr> in
      do { (xs, bs) \<leftarrow> (if copyright_id_present a \<noteq> 0 then copyright_loop 9 0 (copyright_id a) bs
                         else Some (copyright_id a, bs));
           let a = a\<lparr>copyright_id := xs\<rparr>;
           let (v, bs) = BitStreamGetBit bs; let a = a\<lparr>original_copy := u8 v\<rparr>;
           let (v, bs) = BitStreamGetBit bs; let a = a\<lparr>adif_home := u8 v\<rparr>;
           let (v, bs) = BitStreamGetBit bs; let a = a\<lparr>bitstream_type := u8 v\<rparr>;
           let (v, bs) = BitStreamGetBits bs 23; let a = a\<lparr>bitrate := u8 v\<rparr>;
           let (v, bs) = BitStreamGetBits bs 4; let a = a\<lparr>num_program_config_elements := u8 v\<rparr>;
           adif_pces (nat (num_program_config_elements a + 1)) 0 a bs })"

text \<open>A pair of mono front channels is dual mono.\<close>

definition dual_mono :: "program_config \<Rightarrow> bool option" where
  "dual_mono c =
     (if num_front_channel_elements c = 2 then
        do { a \<leftarrow> rd (front_element_is_cpe c) 0;
             if a \<noteq> 0 then Some False
             else do { b \<leftarrow> rd (front_element_is_cpe c) 1; Some (b = 0 \<and> channels c = 2) } }
      else Some False)"

text \<open>The parameters of the decoder from the first program configuration \<open>c\<close>.\<close>

definition adif_apply :: "AACDecoder \<Rightarrow> program_config \<Rightarrow> (int \<times> AACDecoder) option" where
  "adif_apply d c =
     (let n = channels c in
      if n \<le> 0 \<or> n > MAX_CHANNELS then Some (TT_AACDEC_ERR_AUDIO_UNSCHANNEL, d)
      else do {
        let d = d\<lparr>ChansMode := (if n = 1 then MODE_MONO else if n > 2 then MODE_MULTICH else MODE_STEREO)\<rparr>;
        let n = (if n > 2 \<and> n \<le> 6 then 6 else n);
        dual \<leftarrow> dual_mono c;
        let d = (if dual then d\<lparr>ChansMode := MODE_DUALMONO\<rparr> else d);
        let (err, d) = updateProfile d (object_type c + 1);
        if err \<noteq> 0 then Some (err, d)
        else if sampling_frequency_index c \<ge> NUM_SAMPLE_RATES then Some (TT_AACDEC_ERR_AUDIO_UNSSAMPLERATE, d)
        else do {
          r \<leftarrow> rd sampRateTab (sampling_frequency_index c);
          Some (0, d\<lparr>sampleRate := r, sampRateIdx := sampling_frequency_index c, channelNum := n,
                     frametype := TTAAC_ADIF\<rparr>) } })"

definition ParseADIFHeader :: "AACDecoder \<Rightarrow> (int \<times> AACDecoder) option" where
  "ParseADIFHeader d =
     do { (a, bs) \<leftarrow> adif_frame (dbs d) (adif d);
          c \<leftarrow> rd (adif_pce a) 0;
          adif_apply (d\<lparr>adif := a, dbs := bs, pce_set := 1\<rparr>) c }"

section \<open>ADTS\<close>

text \<open>
  \<open>buf[k]\<close> for a pointer \<open>buf\<close> with \<open>limit\<close> bytes left of the frame buffer: a read at or behind the end
  is outside the buffer.
\<close>

definition buf_at :: "(nat \<Rightarrow> 8 word) \<Rightarrow> nat \<Rightarrow> int \<Rightarrow> int \<Rightarrow> int option" where
  "buf_at mem buf limit k = (if 0 \<le> k \<and> k < limit then Some (uint (mem (buf + nat k))) else None)"

text \<open>\<open>(b[0] & 0xFF) == 0xFF && (b[1] & 0xF0) == 0xF0\<close> at offset \<open>k\<close>.\<close>

definition sync_at :: "(nat \<Rightarrow> 8 word) \<Rightarrow> nat \<Rightarrow> int \<Rightarrow> int \<Rightarrow> bool option" where
  "sync_at mem buf limit k =
     do { a \<leftarrow> buf_at mem buf limit k;
          if a AND 0xFF = 0xFF then do { b \<leftarrow> buf_at mem buf limit (k + 1); Some (b AND 0xF0 = 0xF0) }
          else Some False }"

text \<open>
  The loop \<open>for (i = 0; i < limit - 1; i++)\<close> of the search; the flag says that it returns because at
  most five bytes are left.
\<close>

function sync_scan :: "(nat \<Rightarrow> 8 word) \<Rightarrow> int \<Rightarrow> nat \<Rightarrow> int \<Rightarrow> (bool \<times> nat \<times> int) option" where
  "sync_scan mem i buf limit =
     (if i < limit - 1 then
        do { s \<leftarrow> sync_at mem buf limit 0;
             if s then Some (False, buf, limit)
             else if limit - 1 \<le> 5 then Some (True, buf + 1, limit - 1)
             else sync_scan mem (i + 1) (buf + 1) (limit - 1) }
      else Some (False, buf, limit))"
  by pat_completeness auto
termination by (relation "measure (\<lambda>(_, i, _, limit). nat (limit - i))") auto

declare sync_scan.simps [simp del]

lemma sync_scan_moves:
  "sync_scan mem i buf limit = Some (r, buf', limit') \<Longrightarrow> limit' \<le> limit \<and> int buf' + limit' = int buf + limit"
proof (induction mem i buf limit rule: sync_scan.induct)
  case (1 mem i buf limit)
  show ?case
    using "1.prems" "1.IH" [of False]
    by (subst (asm) sync_scan.simps) (auto split: if_splits Option.bind_splits)
qed

text \<open>The header fields the search reads from the bytes: frame length, sample rate index, profile, channels.\<close>

definition peek_header :: "(nat \<Rightarrow> 8 word) \<Rightarrow> nat \<Rightarrow> int \<Rightarrow> (int \<times> int \<times> int \<times> int) option" where
  "peek_header mem buf limit =
     do { b2 \<leftarrow> buf_at mem buf limit 2; b3 \<leftarrow> buf_at mem buf limit 3;
          b4 \<leftarrow> buf_at mem buf limit 4; b5 \<leftarrow> buf_at mem buf limit 5;
          Some (push_bit 11 (b3 AND 3) + push_bit 3 b4 + drop_bit 5 b5,
                drop_bit 2 b2 AND 0xF,
                drop_bit 6 b2 + 1,
                push_bit 2 (b2 AND 1) OR drop_bit 6 b3) }"

definition adts_note :: "adts_header \<Rightarrow> int \<Rightarrow> int \<Rightarrow> int \<Rightarrow> adts_header" where
  "adts_note new chan prof sfi =
     new\<lparr>channel_configuration := u8 chan, profile_ObjectType := u8 prof, adts_sfi := u8 sfi\<rparr>"

definition adts_same :: "adts_header \<Rightarrow> int \<Rightarrow> int \<Rightarrow> int \<Rightarrow> bool" where
  "adts_same h chan prof sfi \<longleftrightarrow>
     chan = channel_configuration h \<and> prof = profile_ObjectType h \<and> sfi = adts_sfi h"

text \<open>
  The loop \<open>do ... while (sync_err)\<close>. The result is the error code, whether the position is stored on that
  path, the position and the note of the last header seen. \<open>maxlen\<close> is \<open>framebufferlen\<close>.
\<close>

function sync_loop :: "(nat \<Rightarrow> 8 word) \<Rightarrow> int \<Rightarrow> int \<Rightarrow> adts_header \<Rightarrow> nat \<Rightarrow> int \<Rightarrow> adts_header
    \<Rightarrow> (int \<times> bool \<times> nat \<times> int \<times> adts_header) option" where
  "sync_loop mem nFrameNum maxlen h buf limit new =
     Option.bind (sync_scan mem 0 buf limit) (\<lambda>(gone, buf, limit).
       if gone then Some (TT_AACDEC_ERR_AAC_INVADTS, True, buf, limit, new)
       else if limit \<le> 5 then Some (TT_AACDEC_ERR_AAC_INVADTS, False, buf, limit, new)
       else Option.bind (peek_header mem buf limit) (\<lambda>(framelen, sfi, prof, chan).
         if framelen > maxlen \<or> sfi \<ge> NUM_SAMPLE_RATES then
           (if limit - 1 < 2 then Some (TT_AACDEC_ERR_AAC_INVADTS, True, buf + 1, limit - 1, new)
            else sync_loop mem nFrameNum maxlen h (buf + 1) (limit - 1) new)
         else if framelen = 0 then Some (TT_AACDEC_ERR_AAC_INVADTS, False, buf, limit, new)
         else Option.bind (if framelen + 2 < limit then sync_at mem buf limit framelen else Some False) (\<lambda>_.
           if nFrameNum \<noteq> 0 then
             (if adts_same h chan prof sfi then Some (0, True, buf, limit, adts_note new chan prof sfi)
              else if adts_same new chan prof sfi then Some (0, True, buf, limit, new)
              else if limit - 1 < 2 then
                Some (TT_AACDEC_ERR_AAC_INVADTS, True, buf + 1, limit - 1, adts_note new chan prof sfi)
              else sync_loop mem nFrameNum maxlen h (buf + 1) (limit - 1) (adts_note new chan prof sfi))
           else Some (0, True, buf, limit, adts_note new chan prof sfi))))"
  by pat_completeness auto
termination
  by (relation "measure (\<lambda>(_, _, _, _, _, limit, _). nat limit)") (auto dest: sync_scan_moves)

declare sync_loop.simps [simp del]

text \<open>\<open>fStream->uselength += buf - fStream->this_frame; ...\<close>\<close>

definition fs_move :: "FrameStream \<Rightarrow> nat \<Rightarrow> int \<Rightarrow> FrameStream" where
  "fs_move fs buf limit =
     fs\<lparr>uselength := u32 (uselength fs + (int buf - int (this_frame fs))), this_frame := buf, fs_length := limit\<rparr>"

text \<open>The fields of the header, read with the bit reader.\<close>

definition adts_fixed :: "BitStream \<Rightarrow> adts_header \<Rightarrow> adts_header \<times> BitStream" where
  "adts_fixed bs h =
     (let (v, bs) = BitStreamGetBits bs 12; h = h\<lparr>syncword := u16 v\<rparr>;
          (v, bs) = BitStreamGetBit bs; h = h\<lparr>ID := u8 v\<rparr>;
          (v, bs) = BitStreamGetBits bs 2; h = h\<lparr>layer := u8 v\<rparr>;
          (v, bs) = BitStreamGetBit bs; h = h\<lparr>protection_absent := u8 v\<rparr>;
          (v, bs) = BitStreamGetBits bs 2; h = h\<lparr>profile_ObjectType := u8 (u8 v + 1)\<rparr>;
          (v, bs) = BitStreamGetBits bs 4; h = h\<lparr>adts_sfi := u8 v\<rparr>;
          (v, bs) = BitStreamGetBit bs; h = h\<lparr>private_bit := u8 v\<rparr>;
          (v, bs) = BitStreamGetBits bs 3; h = h\<lparr>channel_configuration := u8 v\<rparr>;
          (v, bs) = BitStreamGetBit bs; h = h\<lparr>original := u8 v\<rparr>;
          (v, bs) = BitStreamGetBit bs in
      (h\<lparr>home := u8 v\<rparr>, bs))"

definition adts_variable :: "BitStream \<Rightarrow> adts_header \<Rightarrow> adts_header \<times> BitStream" where
  "adts_variable bs h =
     (let (v, bs) = BitStreamGetBit bs; h = h\<lparr>copyright_identification_bit := u8 v\<rparr>;
          (v, bs) = BitStreamGetBit bs; h = h\<lparr>copyright_identification_start := u8 v\<rparr>;
          (v, bs) = BitStreamGetBits bs 13; h = h\<lparr>frame_length := u16 v\<rparr>;
          (v, bs) = BitStreamGetBits bs 11; h = h\<lparr>adts_buffer_fullness := u16 v\<rparr>;
          (v, bs) = BitStreamGetBits bs 2; h = h\<lparr>number_of_raw_data_blocks_in_frame := u8 v\<rparr> in
      if protection_absent h = 0 then
        (let (v, bs) = BitStreamGetBits bs 16 in (h\<lparr>crc_check := u16 v\<rparr>, bs))
      else (h, bs))"

definition adts_fields :: "BitStream \<Rightarrow> adts_header \<Rightarrow> adts_header \<times> BitStream" where
  "adts_fields bs h =
     (let (h, bs) = adts_fixed bs h; (h, bs) = adts_variable bs h in (h, BitStreamByteAlign bs))"

definition frame_buffer_len :: "adts_header \<Rightarrow> int" where
  "frame_buffer_len h = 2048 * (if channel_configuration h \<noteq> 0 then channel_configuration h else 2)"

definition adts_frame :: "(nat \<Rightarrow> 8 word) \<Rightarrow> AACDecoder \<Rightarrow> (int \<times> AACDecoder) option" where
  "adts_frame mem d =
     (let fs = Fstream d; h = adts d in
      if fs_length fs \<le> 5 then Some (TT_AACDEC_ERR_AAC_INVADTS, d)
      else do {
        (err, store, buf, limit, new) \<leftarrow> sync_loop mem (decoderNum d) (frame_buffer_len h) h (this_frame fs) (fs_length fs) (adts_new d);
        let d = d\<lparr>adts_new := new\<rparr>;
        if err \<noteq> 0 then Some (err, if store then d\<lparr>Fstream := fs_move fs buf limit\<rparr> else d)
        else
          (let d = d\<lparr>Fstream := fs_move fs buf limit\<rparr>;
               (h, bs) = adts_fields (BitStreamInit mem limit buf) h in
           Some (0, d\<lparr>adts := h, dbs := bs\<rparr>)) })"

text \<open>\<open>ParseADTSHeader\<close> after the header has been read.\<close>

definition adts_mode :: "int \<Rightarrow> int" where
  "adts_mode chconfig =
     (if chconfig = 0 then MODE_DUALMONO else if chconfig = 1 then MODE_MONO
      else if chconfig > 2 then MODE_MULTICH else MODE_STEREO)"

definition adts_channels :: "int \<Rightarrow> int" where
  "adts_channels chconfig =
     (let n = (if chconfig = 7 then 8 else chconfig); n = (if chconfig = 0 then 2 else n) in
      if chconfig > 2 \<and> chconfig \<le> 6 then 6 else n)"

definition adts_profile :: "AACDecoder \<Rightarrow> (int \<times> AACDecoder) option" where
  "adts_profile d =
     (let p = profile_ObjectType (adts d);
          other = (p \<noteq> TTAAC_AAC_LC \<and> p \<noteq> TTAAC_AAC_LTP \<and> p \<noteq> TTAAC_AAC_MAIN);
          d = (if other then d\<lparr>profilenumber := profilenumber d + 1\<rparr> else d\<lparr>profilenumber := 0\<rparr>) in
      if other \<and> profilenumber d > CHECK_PROFILE then Some (TT_AACDEC_ERR_AAC_UNSPROFILE, d)
      else do { d \<leftarrow> Channelconfig (d\<lparr>profile := p\<rparr>); Some (0, d) })"

definition adts_apply :: "AACDecoder \<Rightarrow> (int \<times> AACDecoder) option" where
  "adts_apply d =
     (let h = adts d; chconfig = channel_configuration h;
          d = d\<lparr>ChansMode := adts_mode chconfig\<rparr> in
      if adts_sfi h \<ge> NUM_SAMPLE_RATES then Some (TT_AACDEC_ERR_AUDIO_UNSSAMPLERATE, d)
      else do {
        r \<leftarrow> rd sampRateTab (adts_sfi h);
        let d = d\<lparr>sampleRate := r, sampRateIdx := adts_sfi h, channelNum := adts_channels chconfig, frametype := TTAAC_ADTS\<rparr>;
        let len = nBytes (dbs d) + 7 + drop_bit 3 (cachedBits (dbs d));
        let len = (if protection_absent h = 0 then len + 2 else len);
        let d = (if frame_length h \<noteq> 0 then d\<lparr>dec_frame_length := frame_length h\<rparr> else d);
        if frame_length h \<noteq> 0 \<and> len < frame_length h then Some (TTKErrUnderflow, d)
        else adts_profile d })"

text \<open>\<open>fStream->uselength += n; this_frame += n; length -= n\<close>\<close>

definition fs_skip :: "FrameStream \<Rightarrow> int \<Rightarrow> FrameStream" where
  "fs_skip fs n = fs\<lparr>uselength := u32 (uselength fs + n), this_frame := this_frame fs + nat n, fs_length := fs_length fs - n\<rparr>"

definition ParseADTSHeader :: "(nat \<Rightarrow> 8 word) \<Rightarrow> AACDecoder \<Rightarrow> (int \<times> AACDecoder) option" where
  "ParseADTSHeader mem d =
     do { (err, d) \<leftarrow> adts_frame mem d;
          let fs = Fstream d;
          if err \<noteq> 0 then
            Some (err, if fs_length fs > 5 then d\<lparr>Fstream := fs_skip fs (fs_length fs - 2)\<rparr> else d)
          else if frame_length (adts d) > frame_buffer_len (adts d) then
            Some (TT_AACDEC_ERR_AAC_INVADTS, if fs_length fs \<ge> 1 then d\<lparr>Fstream := fs_skip fs 1\<rparr> else d)
          else adts_apply d }"

end
