(* ===== verification/HeaderSafe.thy ===== *)
theory HeaderSafe
  imports Header
begin

unbundle bit_operations_syntax

text \<open>
  The headers are parsed safely: every array access of the program configuration is in bounds, the
  ADTS search stays inside the frame buffer and keeps the position consistent, and a header that is
  accepted leaves usable parameters.
\<close>

section \<open>The program configuration\<close>

definition pce_wf :: "program_config \<Rightarrow> bool" where
  "pce_wf c \<longleftrightarrow> length (front_element_is_cpe c) = 16 \<and> length (front_element_tag_select c) = 16
     \<and> length (side_element_is_cpe c) = 16 \<and> length (side_element_tag_select c) = 16
     \<and> length (back_element_is_cpe c) = 16 \<and> length (back_element_tag_select c) = 16
     \<and> length (lfe_element_tag_select c) = 16 \<and> length (assoc_data_element_tag_select c) = 16
     \<and> length (cc_element_is_ind_sw c) = 16 \<and> length (valid_cc_element_tag_select c) = 16"

text \<open>The element counts are what the widths of their fields allow.\<close>

definition pce_headed :: "program_config \<Rightarrow> bool" where
  "pce_headed c \<longleftrightarrow> pce_wf c \<and> 0 \<le> object_type c \<and> object_type c < 4
     \<and> 0 \<le> sampling_frequency_index c \<and> sampling_frequency_index c < 16
     \<and> 0 \<le> num_front_channel_elements c \<and> num_front_channel_elements c < 16
     \<and> 0 \<le> num_side_channel_elements c \<and> num_side_channel_elements c < 16
     \<and> 0 \<le> num_back_channel_elements c \<and> num_back_channel_elements c < 16
     \<and> 0 \<le> num_lfe_channel_elements c \<and> num_lfe_channel_elements c < 4
     \<and> 0 \<le> num_assoc_data_elements c \<and> num_assoc_data_elements c < 8
     \<and> 0 \<le> num_valid_cc_elements c \<and> num_valid_cc_elements c < 16"

definition pce_parsed :: "program_config \<Rightarrow> bool" where
  "pce_parsed c \<longleftrightarrow> pce_headed c \<and> pce_counts c
     \<and> channels c = num_front_channels c + num_side_channels c + num_back_channels c + num_lfe_channels c
     \<and> channels c \<le> 93"

context reader begin

lemma get_below: "P s \<Longrightarrow> 0 < n \<Longrightarrow> n \<le> 32 \<Longrightarrow> fst (BitStreamGetBits s n) < 2 ^ n"
  using P_range by blast

lemma skip_bytes_kept [simp]: "P s \<Longrightarrow> P (skip_bytes k s)"
  by (induction k arbitrary: s) simp_all

lemma cpe_loop_ok:
  assumes "P bs" "0 \<le> i" "i + int k \<le> 16" "length cpes = 16" "length tags = 16" "0 \<le> num" "num + 2 * int k < 256"
  shows "wp (cpe_loop k i cpes tags num chs bs) (\<lambda>(cpes', tags', num', chs', bs').
     length cpes' = 16 \<and> length tags' = 16 \<and> num \<le> num' \<and> num' \<le> num + 2 * int k \<and> chs' - chs = num' - num \<and> P bs')"
  using assms
proof (induction k arbitrary: i cpes tags num chs bs)
  case (Suc k)
  let ?b1 = "snd (BitStreamGetBits bs 1)" let ?b2 = "snd (BitStreamGetBits ?b1 4)"
  have b: "P ?b1" "P ?b2" using Suc.prems by simp_all
  have IH: "wp (cpe_loop k (i + 1) xs ts (num + m) (chs + m) ?b2) (\<lambda>(cpes', tags', num', chs', bs').
     length cpes' = 16 \<and> length tags' = 16 \<and> num \<le> num' \<and> num' \<le> num + 2 * int (Suc k) \<and> chs' - chs = num' - num \<and> P bs')"
    if "length xs = 16" "length ts = 16" "m = 1 \<or> m = 2" for xs ts m
    by (rule wp_mono [OF Suc.IH [OF b(2)]]) (use Suc.prems that in auto)
  have u: "u8 (num + 1) = num + 1" "u8 (num + 2) = num + 2" using Suc.prems by simp_all
  show ?case using Suc.prems b IH by (simp add: Let_def case_prod_unfold u)
qed simp

lemma lfe_tags_ok:
  assumes "P bs" "0 \<le> i" "i + int k \<le> 16" "length tags = 16" "0 \<le> num" "num + int k < 256"
  shows "wp (lfe_tags k i tags num chs bs) (\<lambda>(tags', num', chs', bs').
     length tags' = 16 \<and> num' = num + int k \<and> chs' = chs + int k \<and> P bs')"
  using assms
proof (induction k arbitrary: i tags num chs bs)
  case (Suc k)
  have "wp (lfe_tags k (i + 1) ts (num + 1) (chs + 1) (snd (BitStreamGetBits bs 4))) (\<lambda>(tags', num', chs', bs').
     length tags' = 16 \<and> num' = num + int (Suc k) \<and> chs' = chs + int (Suc k) \<and> P bs')"
    if "length ts = 16" for ts
    by (rule wp_mono [OF Suc.IH]) (use Suc.prems that in auto)
  with Suc.prems show ?case by (simp add: Let_def case_prod_unfold)
qed simp

lemma assoc_loop_ok:
  "P bs \<Longrightarrow> 0 \<le> i \<Longrightarrow> i + int k \<le> 16 \<Longrightarrow> length tags = 16 \<Longrightarrow>
   wp (assoc_loop k i tags bs) (\<lambda>(tags', bs'). length tags' = 16 \<and> P bs')"
proof (induction k arbitrary: i tags bs)
  case (Suc k)
  from Suc.IH [of "snd (BitStreamGetBits bs 4)" "i + 1" "tags[nat i := fst (BitStreamGetBits bs 4)]"] Suc.prems show ?case
    by (simp add: Let_def split_beta)
qed simp

lemma cc_loop_ok:
  "P bs \<Longrightarrow> 0 \<le> i \<Longrightarrow> i + int k \<le> 16 \<Longrightarrow> length sws = 16 \<Longrightarrow> length tags = 16 \<Longrightarrow>
   wp (cc_loop k i sws tags bs) (\<lambda>(sws', tags', bs'). length sws' = 16 \<and> length tags' = 16 \<and> P bs')"
proof (induction k arbitrary: i sws tags bs)
  case (Suc k)
  let ?b1 = "snd (BitStreamGetBits bs 1)"
  from Suc.IH [of "snd (BitStreamGetBits ?b1 4)" "i + 1" "sws[nat i := fst (BitStreamGetBits bs 1)]"
      "tags[nat i := fst (BitStreamGetBits ?b1 4)]"] Suc.prems show ?case
    by (simp add: Let_def split_beta)
qed simp

lemma pce_head_ok:
  assumes "P bs" "pce_wf c"
  shows "P (snd (pce_head c bs))" "pce_headed (fst (pce_head c bs))"
proof -
  have u: "u8 (fst (BitStreamGetBits s n)) = fst (BitStreamGetBits s n) \<and> fst (BitStreamGetBits s n) < 2 ^ n"
    if "P s" "0 < n" "n \<le> 8" for s n
    using that get_below [of s n] by simp
  show "P (snd (pce_head c bs))" using assms by (simp add: pce_head_def Let_def split_beta)
  show "pce_headed (fst (pce_head c bs))"
    using assms u [where n = 2] u [where n = 3] u [where n = 4]
    by (simp add: pce_head_def pce_headed_def pce_wf_def Let_def split_beta)
qed

lemma pce_mixdown_ok:
  assumes "P bs" "pce_headed c"
  shows "P (snd (pce_mono c bs)) \<and> pce_headed (fst (pce_mono c bs))"
    "P (snd (pce_stereo c bs)) \<and> pce_headed (fst (pce_stereo c bs))"
    "P (snd (pce_matrix c bs)) \<and> pce_headed (fst (pce_matrix c bs))"
  using assms
  by (simp_all add: pce_mono_def pce_stereo_def pce_matrix_def pce_headed_def pce_wf_def Let_def split_beta)

lemma pce_elements_ok:
  assumes "P bs" "pce_headed c"
  shows "wp (pce_elements c bs) (\<lambda>(c', bs'). pce_parsed c' \<and> P bs'
     \<and> sampling_frequency_index c' = sampling_frequency_index c \<and> object_type c' = object_type c)"
proof -
  note c = assms(2) [unfolded pce_headed_def pce_wf_def]
  let ?nf = "num_front_channel_elements c" and ?ns = "num_side_channel_elements c" and ?nb = "num_back_channel_elements c"
  have cpe: "wp (cpe_loop (nat n) 0 xs ts 0 chs b) (\<lambda>p. length (fst p) = 16 \<and> length (fst (snd p)) = 16
      \<and> 0 \<le> fst (snd (snd p)) \<and> fst (snd (snd p)) \<le> 30 \<and> fst (snd (snd (snd p))) = chs + fst (snd (snd p))
      \<and> P (snd (snd (snd (snd p)))))"
    if "P b" "0 \<le> n" "n < 16" "length xs = 16" "length ts = 16" for n xs ts chs b
    by (rule wp_mono [OF cpe_loop_ok [OF that(1)]]) (use that in auto)
  have lfe: "wp (lfe_tags (nat (num_lfe_channel_elements c)) 0 (lfe_element_tag_select c) 0 chs b)
      (\<lambda>p. length (fst p) = 16 \<and> fst (snd p) = num_lfe_channel_elements c
        \<and> fst (snd (snd p)) = chs + num_lfe_channel_elements c \<and> P (snd (snd (snd p))))" if "P b" for chs b
    by (rule wp_mono [OF lfe_tags_ok [OF that]]) (use c in auto)
  have assoc: "wp (assoc_loop (nat (num_assoc_data_elements c)) 0 (assoc_data_element_tag_select c) b)
      (\<lambda>p. length (fst p) = 16 \<and> P (snd p))" if "P b" for b
    by (rule wp_mono [OF assoc_loop_ok [OF that]]) (use c in auto)
  have cc: "wp (cc_loop (nat (num_valid_cc_elements c)) 0 (cc_element_is_ind_sw c) (valid_cc_element_tag_select c) b)
      (\<lambda>p. length (fst p) = 16 \<and> length (fst (snd p)) = 16 \<and> P (snd (snd p)))" if "P b" for b
    by (rule wp_mono [OF cc_loop_ok [OF that]]) (use c in auto)
  show ?thesis
    unfolding pce_elements_def
    using assms(1) c
    by (auto simp: case_prod_unfold pce_parsed_def pce_headed_def pce_wf_def pce_counts_def
        intro!: wp_mono [OF cpe] wp_mono [OF lfe] wp_mono [OF assoc] wp_mono [OF cc])
qed

lemma program_config_ok:
  assumes "P bs" "pce_wf c"
  shows "wp (program_config_element bs c) (\<lambda>(c', bs'). pce_parsed c' \<and> P bs')"
proof -
  have mix: "P (snd (pce_mono c b)) \<and> pce_headed (fst (pce_mono c b))" "P (snd (pce_stereo c b)) \<and> pce_headed (fst (pce_stereo c b))"
    "P (snd (pce_matrix c b)) \<and> pce_headed (fst (pce_matrix c b))" if "P b" "pce_headed c" for c b
    using pce_mixdown_ok [OF that] by simp_all
  note h = pce_head_ok [OF assms]
  define c3 where "c3 = pce_matrix (fst (pce_stereo (fst (pce_mono (fst (pce_head c bs)) (snd (pce_head c bs)))) (snd (pce_mono (fst (pce_head c bs)) (snd (pce_head c bs))))))
     (snd (pce_stereo (fst (pce_mono (fst (pce_head c bs)) (snd (pce_head c bs)))) (snd (pce_mono (fst (pce_head c bs)) (snd (pce_head c bs))))))"
  have "P (snd c3)" "pce_headed (fst c3)"
    unfolding c3_def using mix h by blast+
  then have e: "wp (pce_elements (fst c3) (snd c3)) (\<lambda>p. pce_parsed (fst p) \<and> P (snd p))"
    by (intro wp_mono [OF pce_elements_ok]) auto
  have "program_config_element bs c = Option.bind (pce_elements (fst c3) (snd c3)) (\<lambda>(c, bs).
      let (n, bs) = BitStreamGetBits (BitStreamByteAlign bs) 8 in Some (c, skip_bytes (nat n) bs))"
    by (simp add: program_config_element_def c3_def Let_def case_prod_unfold)
  then show ?thesis
    by (auto simp: case_prod_unfold Let_def P_align intro!: wp_mono [OF e])
qed

end

section \<open>The ADIF header\<close>

definition adif_wf :: "adif_header \<Rightarrow> bool" where
  "adif_wf a \<longleftrightarrow> length (copyright_id a) = 9 \<and> length (adif_pce a) = 16 \<and> list_all pce_wf (adif_pce a)"

lemma dual_mono_total: "pce_wf c \<Longrightarrow> wp (dual_mono c) (\<lambda>_. True)"
  by (simp add: dual_mono_def pce_wf_def)

definition adif_post :: "AACDecoder \<Rightarrow> int \<times> AACDecoder \<Rightarrow> bool" where
  "adif_post d r = (case r of (ret, d') \<Rightarrow> dbs d' = dbs d \<and> adif d' = adif d \<and> pce d' = pce d \<and> pce_set d' = pce_set d
     \<and> channel_position d' = channel_position d \<and> channel_offsize d' = channel_offsize d
     \<and> (ret = 0 \<longrightarrow> channelNum d' \<in> {1, 2, 6, 7, 8} \<and> 0 \<le> sampRateIdx d' \<and> sampRateIdx d' < 12
         \<and> sampleRate d' = sampRateTab ! nat (sampRateIdx d') \<and> profile d' \<in> {1, 2, 4}))"

lemma adif_apply_ok:
  assumes "pce_parsed c"
  shows "wp (adif_apply d c) (adif_post d)"
proof -
  have c: "pce_wf c" "0 \<le> object_type c" "object_type c < 4" "0 \<le> sampling_frequency_index c"
    using assms by (simp_all add: pce_parsed_def pce_headed_def)
  have len: "length sampRateTab = 12" by (simp add: sampRateTab_def)
  obtain b where b: "dual_mono c = Some b" using dual_mono_total [OF c(1)] by (auto simp: wp_iff)
  show ?thesis
    using c(2-4) len
    by (auto simp: adif_apply_def adif_post_def b Let_def case_prod_unfold updateProfile_def MAX_CHANNELS_def
        NUM_SAMPLE_RATES_def aot_defs)
qed

context reader begin

lemma copyright_loop_ok:
  "P bs \<Longrightarrow> 0 \<le> i \<Longrightarrow> i + int k \<le> 9 \<Longrightarrow> length xs = 9 \<Longrightarrow>
   wp (copyright_loop k i xs bs) (\<lambda>(xs', bs'). length xs' = 9 \<and> P bs')"
proof (induction k arbitrary: i xs bs)
  case (Suc k)
  from Suc.IH [of "snd (BitStreamGetBits bs 8)" "i + 1" "xs[nat i := fst (BitStreamGetBits bs 8)]"] Suc.prems show ?case
    by (simp add: Let_def split_beta)
qed simp

lemma adif_pces_ok:
  assumes "P bs" "0 \<le> i" "i + int k \<le> 16" "adif_wf a" "\<forall>j < nat i. pce_parsed (adif_pce a ! j)"
  shows "wp (adif_pces k i a bs) (\<lambda>(a', bs'). adif_wf a' \<and> P bs' \<and> (\<forall>j < nat i + k. pce_parsed (adif_pce a' ! j)))"
  using assms
proof (induction k arbitrary: i a bs)
  case (Suc k)
  define p where "p = (if bitstream_type a = 0
     then (a\<lparr>adif_buffer_fullness := fst (BitStreamGetBits bs 20)\<rparr>, snd (BitStreamGetBits bs 20))
     else (a\<lparr>adif_buffer_fullness := 0\<rparr>, bs))"
  have p: "P (snd p)" "adif_pce (fst p) = adif_pce a" "copyright_id (fst p) = copyright_id a"
    using Suc.prems(1) by (simp_all add: p_def)
  have wf: "length (adif_pce a) = 16" "length (copyright_id a) = 9" "list_all pce_wf (adif_pce a)"
    using Suc.prems(4) by (simp_all add: adif_wf_def)
  have c: "pce_wf (adif_pce a ! nat i)" using wf Suc.prems by (simp add: list_all_length)
  have step: "wp (adif_pces k (i + 1) ((fst p)\<lparr>adif_pce := (adif_pce a)[nat i := c']\<rparr>) b)
      (\<lambda>(a', bs'). adif_wf a' \<and> P bs' \<and> (\<forall>j < nat i + Suc k. pce_parsed (adif_pce a' ! j)))"
    if c': "pce_parsed c'" "P b" for c' b
  proof -
    have "list_all pce_wf ((adif_pce a)[nat i := c'])"
      using wf(3) c'(1) set_update_subset_insert [of "adif_pce a" "nat i" c']
      by (auto simp: list_all_iff pce_parsed_def pce_headed_def)
    then have "wp (adif_pces k (i + 1) ((fst p)\<lparr>adif_pce := (adif_pce a)[nat i := c']\<rparr>) b)
      (\<lambda>(a', bs'). adif_wf a' \<and> P bs' \<and> (\<forall>j < nat (i + 1) + k. pce_parsed (adif_pce a' ! j)))"
      using Suc.prems wf p c' by (intro Suc.IH) (auto simp: adif_wf_def nth_list_update less_Suc_eq nat_add_distrib)
    then show ?thesis using Suc.prems(2) by (simp add: nat_add_distrib)
  qed
  have "adif_pces (Suc k) i a bs = Option.bind (rd (adif_pce a) i) (\<lambda>c. Option.bind (program_config_element (snd p) c)
      (\<lambda>(c, b). Option.bind (wr (adif_pce a) i c) (\<lambda>cs. adif_pces k (i + 1) ((fst p)\<lparr>adif_pce := cs\<rparr>) b)))"
    by (simp add: Let_def case_prod_unfold p_def)
  then show ?case
    using Suc.prems wf p c step
    by (auto simp: case_prod_unfold intro!: wp_mono [OF program_config_ok [OF p(1) c]])
qed simp

lemma adif_frame_ok:
  assumes "P bs" "adif_wf a"
  shows "wp (adif_frame bs a) (\<lambda>(a', bs'). adif_wf a' \<and> P bs' \<and> pce_parsed (adif_pce a' ! 0))"
proof -
  have below: "fst (BitStreamGetBits s 4) < 16" if "P s" for s using get_below [OF that, of 4] by simp
  have pces: "wp (adif_pces (nat (v + 1)) 0 a' b)
      (\<lambda>p. adif_wf (fst p) \<and> P (snd p) \<and> pce_parsed (adif_pce (fst p) ! 0))"
    if "P b" "adif_wf a'" "0 \<le> v" "v < 16" for a' b v
    by (rule wp_mono [OF adif_pces_ok [OF that(1)]]) (use that in auto)
  have cr: "wp (copyright_loop 9 0 xs b) (\<lambda>p. length (fst p) = 9 \<and> P (snd p))" if "P b" "length xs = 9" for xs b
    by (rule wp_mono [OF copyright_loop_ok [OF that(1)]]) (use that in auto)
  show ?thesis
    using assms below
    by (auto simp: adif_frame_def BitStreamGetBit_def Let_def case_prod_unfold adif_wf_def
        intro!: wp_mono [OF cr] wp_mono [OF pces])
qed

lemma adif_header_ok:
  assumes "P (dbs d)" "adif_wf (adif d)"
  shows "wp (ParseADIFHeader d) (\<lambda>r. \<exists>a b. adif_wf a \<and> P b \<and> adif_post (d\<lparr>adif := a, dbs := b, pce_set := 1\<rparr>) r)"
proof -
  have frame: "wp (adif_frame (dbs d) (adif d)) (\<lambda>p. adif_wf (fst p) \<and> P (snd p) \<and> pce_parsed (adif_pce (fst p) ! 0))"
    using assms by (intro wp_mono [OF adif_frame_ok]) auto
  have "0 < int (length (adif_pce a))" if "adif_wf a" for a
    using that by (simp add: adif_wf_def)
  then show ?thesis
    unfolding ParseADIFHeader_def
    by (auto simp: case_prod_unfold simp del: length_greater_0_conv intro!: wp_mono [OF frame] wp_mono [OF adif_apply_ok]) blast
qed

end

section \<open>The ADTS search\<close>

lemma buf_at_Some: "0 \<le> k \<Longrightarrow> k < limit \<Longrightarrow> buf_at mem buf limit k = Some (uint (mem (buf + nat k)))"
  by (simp add: buf_at_def)

lemma sync_at_total: "0 \<le> k \<Longrightarrow> k + 1 < limit \<Longrightarrow> wp (sync_at mem buf limit k) (\<lambda>_. True)"
  by (simp add: sync_at_def buf_at_Some)

lemma sync_scan_total:
  "0 \<le> i \<Longrightarrow> wp (sync_scan mem i buf limit) (\<lambda>(gone, buf', limit'). limit' \<le> limit \<and> int buf' + limit' = int buf + limit
     \<and> (0 \<le> limit \<longrightarrow> 0 \<le> limit') \<and> (gone \<longrightarrow> limit' \<le> 5))"
proof (induction mem i buf limit rule: sync_scan.induct)
  case (1 mem i buf limit)
  show ?case
  proof (cases "i < limit - 1")
    case True
    then obtain b where b: "sync_at mem buf limit 0 = Some b"
      using sync_at_total [of 0 limit mem buf] "1.prems" by (auto simp: wp_iff)
    show ?thesis
    proof (cases "b \<or> limit - 1 \<le> 5")
      case True
      then show ?thesis using b "1.prems" \<open>i < limit - 1\<close> by (subst sync_scan.simps) auto
    next
      case False
      then have "wp (sync_scan mem (i + 1) (buf + 1) (limit - 1)) (\<lambda>(gone, buf', limit'). limit' \<le> limit - 1
          \<and> int buf' + limit' = int (buf + 1) + (limit - 1) \<and> (0 \<le> limit - 1 \<longrightarrow> 0 \<le> limit') \<and> (gone \<longrightarrow> limit' \<le> 5))"
        using "1.IH" [OF True, of b] "1.prems" b by simp
      then show ?thesis using False b True "1.prems"
        by (subst sync_scan.simps) (auto elim!: wp_mono)
    qed
  qed (subst sync_scan.simps, auto)
qed

lemma peek_header_total:
  "5 < limit \<Longrightarrow> wp (peek_header mem buf limit) (\<lambda>(framelen, sfi, prof, chan).
     0 \<le> framelen \<and> 0 \<le> sfi)"
  by (simp add: peek_header_def buf_at_Some)

text \<open>
  The search ends on every memory, reads inside the buffer only, and stops at a position inside it; when
  it succeeds at least six bytes are left.
\<close>

definition sync_post :: "nat \<Rightarrow> int \<Rightarrow> (int \<times> bool \<times> nat \<times> int \<times> adts_header) \<Rightarrow> bool" where
  "sync_post buf limit r = (case r of (err, store, buf', limit', new') \<Rightarrow>
     (err = 0 \<or> err = TT_AACDEC_ERR_AAC_INVADTS) \<and> limit' \<le> limit \<and> int buf' + limit' = int buf + limit \<and> 0 \<le> limit'
     \<and> (err = 0 \<longrightarrow> store \<and> 5 < limit') \<and> (store \<and> err \<noteq> 0 \<longrightarrow> limit' \<le> 5))"

lemma sync_loop_total:
  "0 \<le> limit \<Longrightarrow> wp (sync_loop mem n maxlen h buf limit new) (sync_post buf limit)"
proof (induction "nat limit" arbitrary: buf limit new rule: less_induct)
  case less
  obtain gone buf1 limit1 where s: "sync_scan mem 0 buf limit = Some (gone, buf1, limit1)" "limit1 \<le> limit"
      "int buf1 + limit1 = int buf + limit" "0 \<le> limit1" "gone \<longrightarrow> limit1 \<le> 5"
    using sync_scan_total [of 0 mem buf limit] less.prems by (auto simp: wp_iff)
  show ?case
  proof (cases "gone \<or> limit1 \<le> 5")
    case True
    then show ?thesis using s by (subst sync_loop.simps) (auto simp: sync_post_def)
  next
    case False
    then obtain fl sfi pr chan where p: "peek_header mem buf1 limit1 = Some (fl, sfi, pr, chan)" "0 \<le> fl"
      using peek_header_total [of limit1 mem buf1] by (auto simp: wp_iff)
    have "\<exists>b. (if fl + 2 < limit1 then sync_at mem buf1 limit1 fl else Some False) = Some b"
      using sync_at_total [of fl limit1 mem buf1] p(2) by (auto simp: wp_iff)
    then obtain b where b: "(if fl + 2 < limit1 then sync_at mem buf1 limit1 fl else Some False) = Some b" ..
    have again: "wp (sync_loop mem n maxlen h (buf1 + 1) (limit1 - 1) new') (sync_post buf limit)" for new'
    proof -
      have "wp (sync_loop mem n maxlen h (buf1 + 1) (limit1 - 1) new') (sync_post (buf1 + 1) (limit1 - 1))"
        using s False by (intro less.hyps) auto
      then show ?thesis using s by (elim wp_mono) (auto simp: sync_post_def)
    qed
    show ?thesis
      unfolding sync_loop.simps [of mem n maxlen h buf] s(1) bind.bind_lunit prod.case p(1) b
      using False s again by (auto simp: sync_post_def)
  qed
qed

section \<open>The ADTS header\<close>

definition adts_ranged :: "adts_header \<Rightarrow> bool" where
  "adts_ranged h \<longleftrightarrow> 1 \<le> profile_ObjectType h \<and> profile_ObjectType h \<le> 4 \<and> 0 \<le> adts_sfi h \<and> adts_sfi h < 16
     \<and> 0 \<le> channel_configuration h \<and> channel_configuration h < 8 \<and> 0 \<le> frame_length h \<and> frame_length h < 8192"

text \<open>The bits of the header: seven bytes, and two for the checksum.\<close>

definition adts_size :: "adts_header \<Rightarrow> nat" where
  "adts_size h = (if protection_absent h = 0 then 72 else 56)"

context reader begin

lemma P_u16: "P s \<Longrightarrow> 0 < n \<Longrightarrow> n \<le> 16 \<Longrightarrow> u16 (fst (BitStreamGetBits s n)) = fst (BitStreamGetBits s n)"
proof -
  assume a: "P s" "0 < n" "n \<le> 16"
  have "(2 :: int) ^ n \<le> 2 ^ 16" using a(3) by (intro power_increasing) auto
  with P_range [OF a(1,2)] a show ?thesis by simp
qed

lemma get_bits_len: "P s \<Longrightarrow> 0 < n \<Longrightarrow> n \<le> 32 \<Longrightarrow> bslen (snd (BitStreamGetBits s n)) = bslen s - n"
  using get_bslen P_inv by blast

lemma adts_fixed_ok:
  assumes "P s"
  shows "P (snd (adts_fixed s h)) \<and> bslen (snd (adts_fixed s h)) = bslen s - 28
    \<and> 1 \<le> profile_ObjectType (fst (adts_fixed s h)) \<and> profile_ObjectType (fst (adts_fixed s h)) \<le> 4
    \<and> 0 \<le> adts_sfi (fst (adts_fixed s h)) \<and> adts_sfi (fst (adts_fixed s h)) < 16
    \<and> 0 \<le> channel_configuration (fst (adts_fixed s h)) \<and> channel_configuration (fst (adts_fixed s h)) < 8"
proof -
  have r: "fst (BitStreamGetBits s 2) < 4" "fst (BitStreamGetBits s 4) < 16" "fst (BitStreamGetBits s 3) < 8" if "P s" for s
    using get_below [OF that, of 2] get_below [OF that, of 3] get_below [OF that, of 4] by simp_all
  have u: "u8 (fst (BitStreamGetBits s 2) + 1) = fst (BitStreamGetBits s 2) + 1 \<and> fst (BitStreamGetBits s 2) + 1 \<le> 4" if "P s" for s
    using r(1) [OF that] P_nonneg [OF that, of 2] by simp
  show ?thesis
    using assms u r by (simp add: adts_fixed_def BitStreamGetBit_def Let_def case_prod_unfold get_bits_len)
qed

lemma adts_variable_ok:
  assumes "P s"
  shows "P (snd (adts_variable s h)) \<and> bslen (snd (adts_variable s h)) = bslen s - (adts_size h - 28)
    \<and> 0 \<le> frame_length (fst (adts_variable s h)) \<and> frame_length (fst (adts_variable s h)) < 8192
    \<and> protection_absent (fst (adts_variable s h)) = protection_absent h
    \<and> profile_ObjectType (fst (adts_variable s h)) = profile_ObjectType h
    \<and> adts_sfi (fst (adts_variable s h)) = adts_sfi h
    \<and> channel_configuration (fst (adts_variable s h)) = channel_configuration h"
proof -
  have r: "fst (BitStreamGetBits s 13) < 8192" if "P s" for s
    using get_below [OF that, of 13] by simp
  show ?thesis
    using assms r P_u16
    by (simp add: adts_variable_def BitStreamGetBit_def Let_def case_prod_unfold get_bits_len adts_size_def)
qed

lemma adts_fields_ok:
  assumes "P s"
  shows "P (snd (adts_fields s h)) \<and> adts_ranged (fst (adts_fields s h))"
  using adts_fixed_ok [OF assms, of h] adts_variable_ok [of "snd (adts_fixed s h)" "fst (adts_fixed s h)"]
  by (auto simp: adts_fields_def Let_def case_prod_unfold adts_ranged_def P_align)

end

text \<open>Where whole bytes are left, the counters of the reader say how many.\<close>

lemma bytes_left:
  assumes "bs_inv b" "0 < bslen b" "8 dvd bslen b"
  shows "cachedBits b mod 8 = 0 \<and> nBytes b + cachedBits b div 8 = int (bslen b div 8)"
proof -
  have c: "0 \<le> nBytes b" "noBytes b \<le> 0" "0 \<le> cachedBits b"
    using assms(1,2) by (auto simp: bs_inv_def bslen_def split: if_splits)
  then have l: "int (bslen b) = cachedBits b + 8 * nBytes b" by (simp add: bslen_def)
  have "8 dvd int (bslen b)" using assms(3) by presburger
  then have "8 dvd cachedBits b" using l by presburger
  then show ?thesis using l by (auto simp: zdiv_int elim!: dvdE)
qed

lemma adts_fields_left:
  assumes "bs_inv s" "72 < bslen s" "8 dvd bslen s" "adts_fields s h = (h', b)"
  shows "nBytes b + 7 + drop_bit 3 (cachedBits b) + (if protection_absent h' = 0 then 2 else 0) = int (bslen s div 8)"
proof -
  define p where "p = adts_fixed s h"
  define q where "q = adts_variable (snd p) (fst p)"
  have p: "bs_inv (snd p)" "bslen (snd p) = bslen s - 28"
    using any.adts_fixed_ok [OF assms(1), of h] by (simp_all add: p_def)
  have q: "bs_inv (snd q)" "bslen (snd q) = bslen s - adts_size (fst p)" "protection_absent (fst q) = protection_absent (fst p)"
    using any.adts_variable_ok [OF p(1), of "fst p"] p(2) by (auto simp: q_def adts_size_def)
  have b: "h' = fst q" "b = BitStreamByteAlign (snd q)"
    using assms(4) by (simp_all add: adts_fields_def Let_def case_prod_unfold p_def q_def)
  have sz: "adts_size (fst p) = 56 \<or> adts_size (fst p) = 72" by (simp add: adts_size_def)
  have whole: "0 < bslen (snd q)" "8 dvd bslen (snd q)" using q(2) assms(2,3) sz by (auto elim!: dvdE)
  note left = bytes_left [OF q(1) whole]
  have "cachedBits b = cachedBits (snd q) \<and> nBytes b = nBytes (snd q)"
    using left by (simp add: b align_consume consume_def)
  then have "nBytes b + drop_bit 3 (cachedBits b) = int (bslen (snd q) div 8)"
    using left by (simp add: drop_bit_eq_div)
  moreover have "int (bslen (snd q) div 8) = int (bslen s div 8) - (if protection_absent h' = 0 then 9 else 7)"
    using assms(2,3) by (auto simp: q b adts_size_def elim!: dvdE)
  ultimately show ?thesis by auto
qed

text \<open>What a successful parse leaves, and what every parse keeps of the frame buffer.\<close>

definition fs_kept :: "FrameStream \<Rightarrow> FrameStream \<Rightarrow> bool" where
  "fs_kept fs fs' \<longleftrightarrow> 0 \<le> fs_length fs' \<and> fs_length fs' \<le> fs_length fs
     \<and> int (this_frame fs') + fs_length fs' = int (this_frame fs) + fs_length fs
     \<and> u32 (uselength fs' + fs_length fs') = u32 (uselength fs + fs_length fs)
     \<and> fs_start fs' = fs_start fs \<and> fs_input fs' = fs_input fs \<and> inlen fs' = inlen fs
     \<and> storelength fs' = storelength fs \<and> maxLength fs' = maxLength fs"

lemma fs_kept_refl [simp]: "0 \<le> fs_length fs \<Longrightarrow> fs_kept fs fs"
  by (simp add: fs_kept_def)

lemma fs_kept_trans: "fs_kept a b \<Longrightarrow> fs_kept b c \<Longrightarrow> fs_kept a c"
  by (auto simp: fs_kept_def)

lemma u32_add: "u32 (u32 a + b) = u32 (a + b)"
  by (simp add: u32_def take_bit_eq_mod mod_simps)

lemma fs_kept_move:
  assumes "0 \<le> limit" "limit \<le> fs_length fs" "int buf + limit = int (this_frame fs) + fs_length fs"
  shows "fs_kept fs (fs_move fs buf limit)"
proof -
  have "uselength fs + (int buf - int (this_frame fs)) + limit = uselength fs + fs_length fs" using assms(3) by simp
  then have "u32 (uselength fs + (int buf - int (this_frame fs)) + limit) = u32 (uselength fs + fs_length fs)" by (rule arg_cong)
  then have "u32 (u32 (uselength fs + (int buf - int (this_frame fs))) + limit) = u32 (uselength fs + fs_length fs)"
    by (simp only: u32_add)
  with assms show ?thesis by (simp add: fs_kept_def fs_move_def)
qed

lemma fs_kept_skip:
  assumes "0 \<le> n" "n \<le> fs_length fs"
  shows "fs_kept fs (fs_skip fs n)"
  using assms by (simp add: fs_kept_def fs_skip_def u32_add)

definition adts_frame_post :: "AACDecoder \<Rightarrow> int \<times> AACDecoder \<Rightarrow> bool" where
  "adts_frame_post d r = (case r of (err, d') \<Rightarrow> fs_kept (Fstream d) (Fstream d') \<and> pce d' = pce d \<and> pce_set d' = pce_set d
     \<and> channel_position d' = channel_position d \<and> channel_offsize d' = channel_offsize d
     \<and> (err = 0 \<or> err = TT_AACDEC_ERR_AAC_INVADTS) \<and> (err \<noteq> 0 \<longrightarrow> dbs d' = dbs d)
     \<and> (err = 0 \<longrightarrow> bs_inv (dbs d') \<and> adts_ranged (adts d') \<and> 5 < fs_length (Fstream d')
         \<and> (9 < fs_length (Fstream d') \<longrightarrow> nBytes (dbs d') + 7 + drop_bit 3 (cachedBits (dbs d'))
              + (if protection_absent (adts d') = 0 then 2 else 0) = fs_length (Fstream d'))))"

lemma adts_frame_ok:
  assumes "0 \<le> fs_length (Fstream d)"
  shows "wp (adts_frame mem d) (adts_frame_post d)"
proof (cases "fs_length (Fstream d) \<le> 5")
  case True
  then show ?thesis using assms by (simp add: adts_frame_def adts_frame_post_def Let_def)
next
  case False
  let ?fs = "Fstream d" and ?h = "adts d"
  obtain err store buf limit new where s: "sync_loop mem (decoderNum d) (frame_buffer_len ?h) ?h (this_frame ?fs) (fs_length ?fs) (adts_new d)
      = Some (err, store, buf, limit, new)" "err = 0 \<or> err = TT_AACDEC_ERR_AAC_INVADTS" "limit \<le> fs_length ?fs"
      "int buf + limit = int (this_frame ?fs) + fs_length ?fs" "0 \<le> limit" "err = 0 \<longrightarrow> 5 < limit"
    using sync_loop_total [of "fs_length ?fs" mem "decoderNum d" "frame_buffer_len ?h" ?h "this_frame ?fs" "adts_new d"] assms
    by (auto simp: wp_iff sync_post_def)
  have kept: "fs_kept ?fs (fs_move ?fs buf limit)" using s by (intro fs_kept_move) auto
  obtain h b where f: "adts_fields (BitStreamInit mem limit buf) ?h = (h, b)" by fastforce
  have hb: "bs_inv b" "adts_ranged h"
    using any.adts_fields_ok [of "BitStreamInit mem limit buf" ?h] s(5) by (simp_all add: f)
  have left: "nBytes b + 7 + drop_bit 3 (cachedBits b) + (if protection_absent h = 0 then 2 else 0) = limit" if "9 < limit"
    using adts_fields_left [OF _ _ _ f] s(5) that by simp
  show ?thesis
    using False s kept hb left
    by (auto simp: adts_frame_def adts_frame_post_def Let_def case_prod_unfold f fs_move_def)
qed

definition adts_post :: "AACDecoder \<Rightarrow> int \<times> AACDecoder \<Rightarrow> bool" where
  "adts_post d r = (case r of (ret, d') \<Rightarrow> fs_kept (Fstream d) (Fstream d') \<and> (bs_inv (dbs d) \<longrightarrow> bs_inv (dbs d')) \<and> map_ok d'
     \<and> (ret = 0 \<longrightarrow> bs_inv (dbs d') \<and> channelNum d' \<in> {1, 2, 6, 8} \<and> 0 \<le> sampRateIdx d' \<and> sampRateIdx d' < 12
         \<and> sampleRate d' = sampRateTab ! nat (sampRateIdx d') \<and> 1 \<le> profile d' \<and> profile d' \<le> 4
         \<and> (9 < fs_length (Fstream d') \<longrightarrow> frame_length (adts d') \<le> fs_length (Fstream d'))))"

lemma map_ok_cong: "pce d' = pce d \<Longrightarrow> pce_set d' = pce_set d \<Longrightarrow> channel_position d' = channel_position d
    \<Longrightarrow> channel_offsize d' = channel_offsize d \<Longrightarrow> map_ok d' = map_ok d"
  by (simp add: map_ok_def chan_wf_def)

lemma remap_map_ok: "remap d d' \<Longrightarrow> map_ok d \<Longrightarrow> map_ok d'"
  by (auto simp: remap_def map_ok_def)

lemma adts_profile_ok:
  assumes "map_ok d"
  shows "wp (adts_profile d) (\<lambda>(ret, d'). map_ok d' \<and> Fstream d' = Fstream d \<and> dbs d' = dbs d \<and> adts d' = adts d
     \<and> channelNum d' = channelNum d \<and> sampRateIdx d' = sampRateIdx d \<and> sampleRate d' = sampleRate d
     \<and> (ret = 0 \<longrightarrow> profile d' = profile_ObjectType (adts d)))"
proof -
  have go: "wp (Channelconfig e) (\<lambda>d'. map_ok d' \<and> Fstream d' = Fstream e \<and> dbs d' = dbs e \<and> adts d' = adts e
     \<and> channelNum d' = channelNum e \<and> sampRateIdx d' = sampRateIdx e \<and> sampleRate d' = sampleRate e \<and> profile d' = profile e)"
    if "map_ok e" for e
    by (rule wp_mono [OF Channelconfig_ok [OF that]]) (use that remap_map_ok in \<open>auto simp: remap_def\<close>)
  have m: "map_ok (d\<lparr>profilenumber := x\<rparr>)" "map_ok (d\<lparr>profilenumber := x, profile := y\<rparr>)" for x y
    using assms map_ok_cong by (simp_all add: map_ok_def chan_wf_def)
  show ?thesis
    using m by (auto simp: adts_profile_def Let_def case_prod_unfold intro!: wp_mono [OF go])
qed

lemma adts_apply_ok:
  assumes "map_ok d" "adts_ranged (adts d)"
  shows "wp (adts_apply d) (\<lambda>(ret, d'). map_ok d' \<and> Fstream d' = Fstream d \<and> dbs d' = dbs d \<and> adts d' = adts d
     \<and> (ret = 0 \<longrightarrow> channelNum d' \<in> {1, 2, 6, 8} \<and> 0 \<le> sampRateIdx d' \<and> sampRateIdx d' < 12
         \<and> sampleRate d' = sampRateTab ! nat (sampRateIdx d') \<and> 1 \<le> profile d' \<and> profile d' \<le> 4
         \<and> (frame_length (adts d) = 0 \<or> frame_length (adts d) \<le> nBytes (dbs d) + 7 + drop_bit 3 (cachedBits (dbs d)) + (if protection_absent (adts d) = 0 then 2 else 0))))"
proof -
  let ?h = "adts d" and ?c = "channel_configuration (adts d)" and ?i = "adts_sfi (adts d)"
  let ?len = "nBytes (dbs d) + 7 + drop_bit 3 (cachedBits (dbs d)) + (if protection_absent ?h = 0 then 2 else 0)"
  have n: "adts_channels ?c \<in> {1, 2, 6, 8}"
    using assms(2) by (auto simp: adts_channels_def adts_ranged_def Let_def)
  show ?thesis
  proof (cases "?i < 12")
    case False
    then show ?thesis
      using assms(1) by (simp add: adts_apply_def NUM_SAMPLE_RATES_def Let_def map_ok_def chan_wf_def)
  next
    case True
    define e where "e = (let d1 = d\<lparr>ChansMode := adts_mode ?c, sampleRate := sampRateTab ! nat ?i, sampRateIdx := ?i,
        channelNum := adts_channels ?c, frametype := TTAAC_ADTS\<rparr> in
      if frame_length ?h \<noteq> 0 then d1\<lparr>dec_frame_length := frame_length ?h\<rparr> else d1)"
    have e: "map_ok e" "Fstream e = Fstream d" "dbs e = dbs d" "adts e = ?h" "channelNum e = adts_channels ?c"
      "sampRateIdx e = ?i" "sampleRate e = sampRateTab ! nat ?i"
      using assms(1) by (simp_all add: e_def Let_def map_ok_def chan_wf_def)
    have "rd sampRateTab ?i = Some (sampRateTab ! nat ?i)"
      using True assms(2) by (simp add: rd_Some sampRateTab_def adts_ranged_def)
    then have run: "adts_apply d = (if frame_length ?h \<noteq> 0 \<and> ?len < frame_length ?h then Some (TTKErrUnderflow, e) else adts_profile e)"
      using True by (simp add: adts_apply_def NUM_SAMPLE_RATES_def Let_def e_def)
    have r: "0 \<le> ?i" "1 \<le> profile_ObjectType ?h" "profile_ObjectType ?h \<le> 4" using assms(2) by (simp_all add: adts_ranged_def)
    have prof: "wp (adts_profile e) (\<lambda>(ret, d'). map_ok d' \<and> Fstream d' = Fstream d \<and> dbs d' = dbs d \<and> adts d' = ?h
        \<and> channelNum d' = adts_channels ?c \<and> sampRateIdx d' = ?i \<and> sampleRate d' = sampRateTab ! nat ?i
        \<and> (ret = 0 \<longrightarrow> profile d' = profile_ObjectType ?h))"
      by (rule wp_mono [OF adts_profile_ok [OF e(1)]]) (simp add: e case_prod_unfold)
    show ?thesis
    proof (cases "frame_length ?h \<noteq> 0 \<and> ?len < frame_length ?h")
      case True
      then show ?thesis unfolding run using e by (simp add: TTKErrUnderflow_def)
    next
      case False
      have "adts_apply d = adts_profile e" unfolding run by (rule if_not_P [OF False])
      then show ?thesis
        using False n r True by (auto intro!: wp_mono [OF prof])
    qed
  qed
qed

lemma adts_parse_ok:
  assumes "0 \<le> fs_length (Fstream d)" "map_ok d"
  shows "wp (ParseADTSHeader mem d) (adts_post d)"
proof -
  obtain err d1 where f: "adts_frame mem d = Some (err, d1)" "adts_frame_post d (err, d1)"
    using adts_frame_ok [OF assms(1), of mem] by (auto simp: wp_iff)
  have k: "fs_kept (Fstream d) (Fstream d1)" "0 \<le> fs_length (Fstream d1)" using f(2) by (auto simp: adts_frame_post_def fs_kept_def)
  have m: "map_ok d1" using f(2) assms(2) by (auto simp: adts_frame_post_def map_ok_def chan_wf_def)
  have skip: "fs_kept (Fstream d) (fs_skip (Fstream d1) n)" if "0 \<le> n" "n \<le> fs_length (Fstream d1)" for n
    using fs_kept_trans [OF k(1) fs_kept_skip [OF that]] .
  have upd: "map_ok (d1\<lparr>Fstream := fs\<rparr>)" for fs using m by (simp add: map_ok_def chan_wf_def)
  consider (err) "err \<noteq> 0" | (long) "err = 0" "frame_length (adts d1) > frame_buffer_len (adts d1)"
    | (go) "err = 0" "\<not> frame_length (adts d1) > frame_buffer_len (adts d1)" by blast
  then show ?thesis
  proof cases
    case err
    then show ?thesis using f m k upd skip [of "fs_length (Fstream d1) - 2"]
      by (auto simp: ParseADTSHeader_def Let_def adts_post_def adts_frame_post_def)
  next
    case long
    then show ?thesis using f m k upd skip [of 1]
      by (auto simp: ParseADTSHeader_def Let_def adts_post_def adts_frame_post_def)
  next
    case go
    have r: "adts_ranged (adts d1)" "bs_inv (dbs d1)" using f(2) go(1) by (auto simp: adts_frame_post_def)
    have "ParseADTSHeader mem d = adts_apply d1" using go f(1) by (simp add: ParseADTSHeader_def Let_def)
    then show ?thesis
      using f(2) k go(1) r by (auto simp: adts_post_def adts_frame_post_def intro!: wp_mono [OF adts_apply_ok [OF m r(1)]])
  qed
qed

section \<open>The reach of the search\<close>

text \<open>
  The counter of the scan runs up while its bound runs down: without a syncword in sight the scan stops in
  the middle of the buffer, and the first frame is taken from there.
\<close>

lemma sync_scan_none:
  "0 \<le> i \<Longrightarrow> 5 < limit - int k \<Longrightarrow> i + int k < limit - int k + 1 \<Longrightarrow> limit - int k \<le> i + int k + 1
   \<Longrightarrow> \<forall>j < nat limit. uint (mem (buf + j)) \<noteq> 255 \<Longrightarrow> sync_scan mem i buf limit = Some (False, buf + k, limit - int k)"
proof (induction k arbitrary: i buf limit)
  case 0
  then show ?case by (subst sync_scan.simps) simp
next
  case (Suc k)
  have "0 < nat limit" using Suc.prems(2) by simp
  then have m: "uint (mem buf) \<noteq> 255" using Suc.prems(5) by (metis add.right_neutral)
  have "uint (mem buf) AND 255 = uint (mem buf)"
    using take_bit_eq_mask [of 8 "uint (mem buf)"] uint_lt2p [of "mem buf"] take_bit_int_eq_self [of "uint (mem buf)" 8]
    by (simp add: mask_eq_exp_minus_1)
  then have s: "sync_at mem buf limit 0 = Some False" using m Suc.prems(2) by (simp add: sync_at_def buf_at_def)
  have "sync_scan mem (i + 1) (buf + 1) (limit - 1) = Some (False, buf + 1 + k, limit - 1 - int k)"
  proof (rule Suc.IH)
    show "\<forall>j < nat (limit - 1). uint (mem (buf + 1 + j)) \<noteq> 255"
    proof (intro allI impI)
      fix j assume "j < nat (limit - 1)"
      then have "Suc j < nat limit" by simp
      then have "uint (mem (buf + Suc j)) \<noteq> 255" using Suc.prems(5) by blast
      then show "uint (mem (buf + 1 + j)) \<noteq> 255" by simp
    qed
  qed (use Suc.prems in auto)
  then show ?case using s Suc.prems by (subst sync_scan.simps) simp
qed

lemma adts_frame_unsynced:
  assumes "10 < fs_length (Fstream d)" "decoderNum d = 0"
    and "\<forall>j < nat (fs_length (Fstream d)). uint (mem (this_frame (Fstream d) + j)) \<noteq> 255"
    and "mid = nat (fs_length (Fstream d)) div 2"
    and "peek_header mem (this_frame (Fstream d) + mid) (fs_length (Fstream d) - int mid) = Some (fl, sfi, pr, chan)"
    and "0 < fl" "fl \<le> frame_buffer_len (adts d)" "sfi < 12"
  shows "\<exists>d'. adts_frame mem d = Some (0, d')"
proof -
  let ?n = "fs_length (Fstream d)" and ?p = "this_frame (Fstream d)"
  have n: "?n = int (nat ?n)" "10 < nat ?n" using assms(1) by simp_all
  have "5 < ?n - int mid" "int mid < ?n - int mid + 1" "?n - int mid \<le> int mid + 1"
    using n assms(4) by linarith+
  then have s: "sync_scan mem 0 ?p ?n = Some (False, ?p + mid, ?n - int mid)" "\<not> ?n - int mid \<le> 5"
    using sync_scan_none [of 0 ?n mid mem ?p] assms(3) by simp_all
  have "\<exists>b. (if fl + 2 < ?n - int mid then sync_at mem (?p + mid) (?n - int mid) fl else Some False) = Some b"
    using sync_at_total [of fl "?n - int mid" mem "?p + mid"] assms(6) by (auto simp: wp_iff)
  then obtain b where b: "(if fl + 2 < ?n - int mid then sync_at mem (?p + mid) (?n - int mid) fl else Some False) = Some b" ..
  have h: "\<not> (fl > frame_buffer_len (adts d) \<or> sfi \<ge> NUM_SAMPLE_RATES)" "fl \<noteq> 0"
    using assms(6-8) by (simp_all add: NUM_SAMPLE_RATES_def)
  have "sync_loop mem 0 (frame_buffer_len (adts d)) (adts d) ?p ?n (adts_new d)
      = Some (0, True, ?p + mid, ?n - int mid, adts_note (adts_new d) chan pr sfi)"
    by (subst sync_loop.simps)
      (simp only: s(1) bind.bind_lunit prod.case if_False assms(5) b if_not_P [OF s(2)] if_not_P [OF h(1)] if_not_P [OF h(2)] simp_thms)
  then show ?thesis
    using assms(1,2) by (simp add: adts_frame_def Let_def case_prod_unfold)
qed

end
