(* ===== verification/HeaderCode.thy ===== *)
theory HeaderCode
  imports HeaderSafe Spectral
begin

unbundle bit_operations_syntax

text \<open>
  The headers as the standard writes them, and the proof that the parsers read them back: the ADTS
  header, and the program configuration with its element lists.
\<close>

section \<open>Fields\<close>

text \<open>\<open>fits n v\<close>: the field of \<open>n\<close> bits can carry \<open>v\<close>. \<open>at s xs\<close>: the reader stands before the bits \<open>xs\<close>.\<close>

definition fits :: "nat \<Rightarrow> int \<Rightarrow> bool" where
  "fits n v \<longleftrightarrow> 0 \<le> v \<and> v < 2 ^ n"

definition at :: "BitStream \<Rightarrow> bool list \<Rightarrow> bool" where
  "at s xs \<longleftrightarrow> bs_inv s \<and> bsbits s = xs"

lemma at_get:
  assumes "at s (nbits n v @ r)" "0 < n" "n \<le> 32" "fits n v"
  shows "fst (BitStreamGetBits s n) = v" "at (snd (BitStreamGetBits s n)) r"
  using assms bs.get_field [of s n v r] by (simp_all add: at_def fits_def)

lemma at_step:
  assumes "at s (nbits n v @ r)" "0 < n" "n \<le> 32" "fits n v"
  shows "\<exists>s'. BitStreamGetBits s n = (v, s') \<and> at s' r"
  using at_get [OF assms] by (metis prod.collapse)

lemma fits_u8: "fits n v \<Longrightarrow> n \<le> 8 \<Longrightarrow> u8 v = v"
proof -
  assume a: "fits n v" "n \<le> 8"
  have "(2 :: int) ^ n \<le> 2 ^ 8" using a(2) by (intro power_increasing) auto
  with a(1) show ?thesis by (simp add: fits_def)
qed

lemma fits_u16: "fits n v \<Longrightarrow> n \<le> 16 \<Longrightarrow> u16 v = v"
proof -
  assume a: "fits n v" "n \<le> 16"
  have "(2 :: int) ^ n \<le> 2 ^ 16" using a(2) by (intro power_increasing) auto
  with a(1) show ?thesis by (simp add: fits_def)
qed

lemmas fits_ids = fits_u8 [where n = 1] fits_u8 [where n = 2] fits_u8 [where n = 3] fits_u8 [where n = 4]
  fits_u16 [where n = 11] fits_u16 [where n = 12] fits_u16 [where n = 13] fits_u16 [where n = 16]

section \<open>The ADTS header\<close>

definition adts_fixed_bits :: "adts_header \<Rightarrow> bool list" where
  "adts_fixed_bits h = nbits 12 (syncword h) @ nbits 1 (ID h) @ nbits 2 (layer h) @ nbits 1 (protection_absent h)
     @ nbits 2 (profile_ObjectType h - 1) @ nbits 4 (adts_sfi h) @ nbits 1 (private_bit h)
     @ nbits 3 (channel_configuration h) @ nbits 1 (original h) @ nbits 1 (home h)"

definition adts_variable_bits :: "adts_header \<Rightarrow> bool list" where
  "adts_variable_bits h = nbits 1 (copyright_identification_bit h) @ nbits 1 (copyright_identification_start h)
     @ nbits 13 (frame_length h) @ nbits 11 (adts_buffer_fullness h) @ nbits 2 (number_of_raw_data_blocks_in_frame h)
     @ (if protection_absent h = 0 then nbits 16 (crc_check h) else [])"

definition adts_fits :: "adts_header \<Rightarrow> bool" where
  "adts_fits h \<longleftrightarrow> fits 12 (syncword h) \<and> fits 1 (ID h) \<and> fits 2 (layer h) \<and> fits 1 (protection_absent h)
     \<and> fits 2 (profile_ObjectType h - 1) \<and> fits 4 (adts_sfi h) \<and> fits 1 (private_bit h) \<and> fits 3 (channel_configuration h)
     \<and> fits 1 (original h) \<and> fits 1 (home h) \<and> fits 1 (copyright_identification_bit h)
     \<and> fits 1 (copyright_identification_start h) \<and> fits 13 (frame_length h) \<and> fits 11 (adts_buffer_fullness h)
     \<and> fits 2 (number_of_raw_data_blocks_in_frame h) \<and> fits 16 (crc_check h)"

lemma adts_fixed_enc:
  assumes "adts_fits h" "at s (adts_fixed_bits h @ r)"
  shows "\<exists>s'. adts_fixed s h0 = (h0\<lparr>syncword := syncword h, ID := ID h, layer := layer h, protection_absent := protection_absent h,
     profile_ObjectType := profile_ObjectType h, adts_sfi := adts_sfi h, private_bit := private_bit h,
     channel_configuration := channel_configuration h, original := original h, home := home h\<rparr>, s') \<and> at s' r"
proof -
  note f = assms(1) [unfolded adts_fits_def]
  have p: "u8 (u8 (profile_ObjectType h - 1) + 1) = profile_ObjectType h"
  proof -
    have "0 \<le> profile_ObjectType h - 1" "profile_ObjectType h - 1 < 4" using f by (simp_all add: fits_def)
    then show ?thesis by simp
  qed
  have a: "at s (nbits 12 (syncword h) @ nbits 1 (ID h) @ nbits 2 (layer h) @ nbits 1 (protection_absent h)
     @ nbits 2 (profile_ObjectType h - 1) @ nbits 4 (adts_sfi h) @ nbits 1 (private_bit h)
     @ nbits 3 (channel_configuration h) @ nbits 1 (original h) @ nbits 1 (home h) @ r)"
    using assms(2) by (simp add: adts_fixed_bits_def)
  note b1 = at_get [OF a] note b2 = at_get [OF b1(2)] note b3 = at_get [OF b2(2)] note b4 = at_get [OF b3(2)]
  note b5 = at_get [OF b4(2)] note b6 = at_get [OF b5(2)] note b7 = at_get [OF b6(2)] note b8 = at_get [OF b7(2)]
  note b9 = at_get [OF b8(2)] note b10 = at_get [OF b9(2)]
  show ?thesis
    using f p b10(2)
    by (simp add: adts_fixed_def BitStreamGetBit_def Let_def case_prod_unfold b1(1) b2(1) b3(1) b4(1) b5(1) b6(1) b7(1) b8(1) b9(1)
        b10(1) fits_ids del: One_nat_def)
qed

lemma adts_variable_enc:
  assumes "adts_fits h" "at s (adts_variable_bits h @ r)" "protection_absent h0 = protection_absent h"
  shows "\<exists>s'. adts_variable s h0 = (h0\<lparr>copyright_identification_bit := copyright_identification_bit h,
     copyright_identification_start := copyright_identification_start h, frame_length := frame_length h,
     adts_buffer_fullness := adts_buffer_fullness h, number_of_raw_data_blocks_in_frame := number_of_raw_data_blocks_in_frame h,
     crc_check := if protection_absent h = 0 then crc_check h else crc_check h0\<rparr>, s') \<and> at s' r"
proof -
  note f = assms(1) [unfolded adts_fits_def]
  have a: "at s (nbits 1 (copyright_identification_bit h) @ nbits 1 (copyright_identification_start h)
     @ nbits 13 (frame_length h) @ nbits 11 (adts_buffer_fullness h) @ nbits 2 (number_of_raw_data_blocks_in_frame h)
     @ (if protection_absent h = 0 then nbits 16 (crc_check h) @ r else r))"
    using assms(2) by (simp add: adts_variable_bits_def split: if_splits)
  note b1 = at_get [OF a] note b2 = at_get [OF b1(2)] note b3 = at_get [OF b2(2)] note b4 = at_get [OF b3(2)]
  note b5 = at_get [OF b4(2)]
  show ?thesis
  proof (cases "protection_absent h = 0")
    case True
    note b6 = at_get [OF b5(2) [unfolded if_P [OF True]]]
    show ?thesis using f b6(2) True assms(3)
      by (simp add: adts_variable_def BitStreamGetBit_def Let_def case_prod_unfold b1(1) b2(1) b3(1) b4(1) b5(1) b6(1) fits_ids del: One_nat_def)
  next
    case False
    show ?thesis using f b5(2) [unfolded if_not_P [OF False]] False assms(3)
      by (simp add: adts_variable_def BitStreamGetBit_def Let_def case_prod_unfold b1(1) b2(1) b3(1) b4(1) b5(1) fits_ids del: One_nat_def)
  qed
qed

text \<open>The whole header; whole bytes follow it, so the alignment drops nothing.\<close>

definition adts_bits :: "adts_header \<Rightarrow> bool list" where
  "adts_bits h = adts_fixed_bits h @ adts_variable_bits h"

lemma align_aligned:
  assumes "at s r" "8 dvd length r"
  shows "at (BitStreamByteAlign s) r"
proof -
  have s: "bs_inv s" "bsbits s = r" using assms(1) by (simp_all add: at_def)
  have "cachedBits s mod 8 = 0 \<or> r = []"
  proof (cases "r = []")
    case False
    then have "0 < bslen s" "8 dvd bslen s" using s assms(2) by (metis length_bsbits length_greater_0_conv, metis length_bsbits)
    then show ?thesis using bytes_left [OF s(1)] by simp
  qed simp
  then show ?thesis using s by (auto simp: at_def align_inv align_bits)
qed

lemma adts_fields_enc:
  assumes "adts_fits h" "at s (adts_bits h @ r)" "8 dvd length r"
  shows "\<exists>s'. adts_fields s h0 = (h\<lparr>crc_check := if protection_absent h = 0 then crc_check h else crc_check h0\<rparr>, s') \<and> at s' r"
proof -
  from adts_fixed_enc [OF assms(1), of s "adts_variable_bits h @ r" h0] assms(2)
  obtain s1 h1 where 1: "adts_fixed s h0 = (h1, s1)" "at s1 (adts_variable_bits h @ r)"
    "h1 = h0\<lparr>syncword := syncword h, ID := ID h, layer := layer h, protection_absent := protection_absent h,
     profile_ObjectType := profile_ObjectType h, adts_sfi := adts_sfi h, private_bit := private_bit h,
     channel_configuration := channel_configuration h, original := original h, home := home h\<rparr>"
    by (auto simp: adts_bits_def)
  from adts_variable_enc [OF assms(1) 1(2), of h1] obtain s2 h2 where 2: "adts_variable s1 h1 = (h2, s2)" "at s2 r"
    "h2 = h1\<lparr>copyright_identification_bit := copyright_identification_bit h,
     copyright_identification_start := copyright_identification_start h, frame_length := frame_length h,
     adts_buffer_fullness := adts_buffer_fullness h, number_of_raw_data_blocks_in_frame := number_of_raw_data_blocks_in_frame h,
     crc_check := if protection_absent h = 0 then crc_check h else crc_check h1\<rparr>"
    using 1(3) by auto
  have "h2 = h\<lparr>crc_check := if protection_absent h = 0 then crc_check h else crc_check h0\<rparr>"
    by (simp add: 2(3) 1(3))
  then show ?thesis
    using align_aligned [OF 2(2) assms(3)] 1(1) 2(1) by (simp add: adts_fields_def)
qed

section \<open>The program configuration\<close>

definition pce_head_bits :: "program_config \<Rightarrow> bool list" where
  "pce_head_bits c = nbits 4 (element_instance_tag c) @ nbits 2 (object_type c) @ nbits 4 (sampling_frequency_index c)
     @ nbits 4 (num_front_channel_elements c) @ nbits 4 (num_side_channel_elements c) @ nbits 4 (num_back_channel_elements c)
     @ nbits 2 (num_lfe_channel_elements c) @ nbits 3 (num_assoc_data_elements c) @ nbits 4 (num_valid_cc_elements c)"

definition pce_head_fits :: "program_config \<Rightarrow> bool" where
  "pce_head_fits c \<longleftrightarrow> fits 4 (element_instance_tag c) \<and> fits 2 (object_type c) \<and> fits 4 (sampling_frequency_index c)
     \<and> fits 4 (num_front_channel_elements c) \<and> fits 4 (num_side_channel_elements c) \<and> fits 4 (num_back_channel_elements c)
     \<and> fits 2 (num_lfe_channel_elements c) \<and> fits 3 (num_assoc_data_elements c) \<and> fits 4 (num_valid_cc_elements c)"

text \<open>The scalar fields of \<open>c\<close> put over those of \<open>c0\<close>.\<close>

definition pce_heads :: "program_config \<Rightarrow> program_config \<Rightarrow> program_config" where
  "pce_heads c0 c = c0\<lparr>element_instance_tag := element_instance_tag c, object_type := object_type c,
     sampling_frequency_index := sampling_frequency_index c, num_front_channel_elements := num_front_channel_elements c,
     num_side_channel_elements := num_side_channel_elements c, num_back_channel_elements := num_back_channel_elements c,
     num_lfe_channel_elements := num_lfe_channel_elements c, num_assoc_data_elements := num_assoc_data_elements c,
     num_valid_cc_elements := num_valid_cc_elements c\<rparr>"

lemma pce_head_enc:
  assumes "pce_head_fits c" "at s (pce_head_bits c @ r)"
  shows "\<exists>s'. pce_head c0 s = (pce_heads c0 c, s') \<and> at s' r"
proof -
  note f = assms(1) [unfolded pce_head_fits_def]
  have a: "at s (nbits 4 (element_instance_tag c) @ nbits 2 (object_type c) @ nbits 4 (sampling_frequency_index c)
     @ nbits 4 (num_front_channel_elements c) @ nbits 4 (num_side_channel_elements c) @ nbits 4 (num_back_channel_elements c)
     @ nbits 2 (num_lfe_channel_elements c) @ nbits 3 (num_assoc_data_elements c) @ nbits 4 (num_valid_cc_elements c) @ r)"
    using assms(2) by (simp add: pce_head_bits_def)
  note b1 = at_get [OF a] note b2 = at_get [OF b1(2)] note b3 = at_get [OF b2(2)] note b4 = at_get [OF b3(2)]
  note b5 = at_get [OF b4(2)] note b6 = at_get [OF b5(2)] note b7 = at_get [OF b6(2)] note b8 = at_get [OF b7(2)]
  note b9 = at_get [OF b8(2)]
  show ?thesis
    using f b9(2)
    by (simp add: pce_head_def pce_heads_def Let_def case_prod_unfold b1(1) b2(1) b3(1) b4(1) b5(1) b6(1) b7(1) b8(1) b9(1) fits_ids)
qed

text \<open>The mixdown data: each behind a flag, left alone when the flag is clear.\<close>

definition mixdown_bits :: "program_config \<Rightarrow> bool list" where
  "mixdown_bits c =
     nbits 1 (mono_mixdown_present c) @ (if mono_mixdown_present c = 1 then nbits 4 (mono_mixdown_element_number c) else [])
     @ nbits 1 (stereo_mixdown_present c) @ (if stereo_mixdown_present c = 1 then nbits 4 (stereo_mixdown_element_number c) else [])
     @ nbits 1 (matrix_mixdown_idx_present c)
     @ (if matrix_mixdown_idx_present c = 1 then nbits 2 (matrix_mixdown_idx c) @ nbits 1 (pseudo_surround_enable c) else [])"

definition mixdown_fits :: "program_config \<Rightarrow> bool" where
  "mixdown_fits c \<longleftrightarrow> fits 1 (mono_mixdown_present c) \<and> fits 4 (mono_mixdown_element_number c) \<and> fits 1 (stereo_mixdown_present c)
     \<and> fits 4 (stereo_mixdown_element_number c) \<and> fits 1 (matrix_mixdown_idx_present c) \<and> fits 2 (matrix_mixdown_idx c)
     \<and> fits 1 (pseudo_surround_enable c)"

definition pce_mixes :: "program_config \<Rightarrow> program_config \<Rightarrow> program_config" where
  "pce_mixes c0 c = c0\<lparr>mono_mixdown_present := mono_mixdown_present c,
     mono_mixdown_element_number := if mono_mixdown_present c = 1 then mono_mixdown_element_number c else mono_mixdown_element_number c0,
     stereo_mixdown_present := stereo_mixdown_present c,
     stereo_mixdown_element_number := if stereo_mixdown_present c = 1 then stereo_mixdown_element_number c else stereo_mixdown_element_number c0,
     matrix_mixdown_idx_present := matrix_mixdown_idx_present c,
     matrix_mixdown_idx := if matrix_mixdown_idx_present c = 1 then matrix_mixdown_idx c else matrix_mixdown_idx c0,
     pseudo_surround_enable := if matrix_mixdown_idx_present c = 1 then pseudo_surround_enable c else pseudo_surround_enable c0\<rparr>"

lemma optional_field:
  assumes "at s (nbits 1 p @ (if p = 1 then nbits n v else []) @ r)" "fits 1 p" "fits n v" "0 < n" "n \<le> 32"
  shows "fst (BitStreamGetBits s 1) = p"
    "p = 1 \<Longrightarrow> fst (BitStreamGetBits (snd (BitStreamGetBits s 1)) n) = v \<and> at (snd (BitStreamGetBits (snd (BitStreamGetBits s 1)) n)) r"
    "p \<noteq> 1 \<Longrightarrow> at (snd (BitStreamGetBits s 1)) r"
proof -
  note b1 = at_get [OF assms(1) zero_less_one _ assms(2)]
  show "fst (BitStreamGetBits s 1) = p" by (rule b1(1)) simp
  show "p \<noteq> 1 \<Longrightarrow> at (snd (BitStreamGetBits s 1)) r" using b1(2) by simp
  show "p = 1 \<Longrightarrow> fst (BitStreamGetBits (snd (BitStreamGetBits s 1)) n) = v \<and> at (snd (BitStreamGetBits (snd (BitStreamGetBits s 1)) n)) r"
    using b1(2) at_get [of "snd (BitStreamGetBits s 1)" n v r] assms(3-5) by simp
qed

lemma pce_mix_enc:
  assumes "mixdown_fits c" "at s (mixdown_bits c @ r)"
  shows "\<exists>c1 s1 c2 s2 s3. pce_mono c0 s = (c1, s1) \<and> pce_stereo c1 s1 = (c2, s2) \<and> pce_matrix c2 s2 = (pce_mixes c0 c, s3) \<and> at s3 r"
proof -
  note f = assms(1) [unfolded mixdown_fits_def]
  let ?r2 = "nbits 1 (matrix_mixdown_idx_present c)
     @ (if matrix_mixdown_idx_present c = 1 then nbits 2 (matrix_mixdown_idx c) @ nbits 1 (pseudo_surround_enable c) else []) @ r"
  let ?r1 = "nbits 1 (stereo_mixdown_present c) @ (if stereo_mixdown_present c = 1 then nbits 4 (stereo_mixdown_element_number c) else []) @ ?r2"
  let ?c1 = "c0\<lparr>mono_mixdown_present := mono_mixdown_present c,
     mono_mixdown_element_number := if mono_mixdown_present c = 1 then mono_mixdown_element_number c else mono_mixdown_element_number c0\<rparr>"
  let ?c2 = "?c1\<lparr>stereo_mixdown_present := stereo_mixdown_present c,
     stereo_mixdown_element_number := if stereo_mixdown_present c = 1 then stereo_mixdown_element_number c else stereo_mixdown_element_number c0\<rparr>"
  have a: "at s (nbits 1 (mono_mixdown_present c) @ (if mono_mixdown_present c = 1 then nbits 4 (mono_mixdown_element_number c) else []) @ ?r1)"
    using assms(2) by (simp add: mixdown_bits_def)
  have "\<exists>s1. pce_mono c0 s = (?c1, s1) \<and> at s1 ?r1"
    using f optional_field [OF a] by (auto simp: pce_mono_def Let_def case_prod_unfold fits_ids simp del: One_nat_def)
  then obtain s1 where 1: "pce_mono c0 s = (?c1, s1)" "at s1 ?r1" by blast
  have "\<exists>s2. pce_stereo ?c1 s1 = (?c2, s2) \<and> at s2 ?r2"
    using f optional_field [OF 1(2)] by (auto simp: pce_stereo_def Let_def case_prod_unfold fits_ids simp del: One_nat_def)
  then obtain s2 where 2: "pce_stereo ?c1 s1 = (?c2, s2)" "at s2 ?r2" by blast
  have m: "fst (BitStreamGetBits s2 1) = matrix_mixdown_idx_present c"
    "at (snd (BitStreamGetBits s2 1)) ((if matrix_mixdown_idx_present c = 1 then nbits 2 (matrix_mixdown_idx c) @ nbits 1 (pseudo_surround_enable c) else []) @ r)"
    using at_get [OF 2(2)] f by (simp_all del: One_nat_def)
  have "\<exists>s3. pce_matrix ?c2 s2 = (pce_mixes c0 c, s3) \<and> at s3 r"
  proof (cases "matrix_mixdown_idx_present c = 1")
    case True
    then have m2: "at (snd (BitStreamGetBits s2 1)) (nbits 2 (matrix_mixdown_idx c) @ nbits 1 (pseudo_surround_enable c) @ r)"
      using m(2) by simp
    note b1 = at_get [OF m2] note b2 = at_get [OF b1(2)]
    show ?thesis using True f m(1) b2(2)
      by (simp add: pce_matrix_def pce_mixes_def Let_def case_prod_unfold fits_ids b1(1) b2(1) del: One_nat_def)
  next
    case False
    then show ?thesis using f m
      by (simp add: pce_matrix_def pce_mixes_def Let_def case_prod_unfold fits_ids del: One_nat_def)
  qed
  with 1 2 show ?thesis by blast
qed

text \<open>The lists of elements: pairs of a flag and a tag, or tags alone.\<close>

definition elem_bits :: "(int \<times> int) list \<Rightarrow> bool list" where
  "elem_bits ps = concat (map (\<lambda>(a, t). nbits 1 a @ nbits 4 t) ps)"

definition tag_bits :: "int list \<Rightarrow> bool list" where
  "tag_bits ts = concat (map (nbits 4) ts)"

definition pairs_fit :: "(int \<times> int) list \<Rightarrow> bool" where
  "pairs_fit ps \<longleftrightarrow> length ps < 16 \<and> list_all (\<lambda>(a, t). fits 1 a \<and> fits 4 t) ps"

text \<open>The channels of a list of elements: two for a channel pair.\<close>

definition elem_width :: "(int \<times> int) list \<Rightarrow> int" where
  "elem_width ps = (\<Sum>(a, t) \<leftarrow> ps. if a = 1 then 2 else 1)"

lemma elem_width_simps [simp]: "elem_width [] = 0" "elem_width ((a, t) # ps) = (if a = 1 then 2 else 1) + elem_width ps"
  by (simp_all add: elem_width_def)

lemma elem_width_bounds: "0 \<le> elem_width ps" "elem_width ps \<le> 2 * int (length ps)"
  by (induction ps) (auto simp: split: prod.splits)

lemma pair_step:
  assumes "at s (nbits 1 a @ nbits 4 t @ r)" "fits 1 a" "fits 4 t"
  shows "\<exists>s1 s2. BitStreamGetBits s 1 = (a, s1) \<and> BitStreamGetBits s1 4 = (t, s2) \<and> at s2 r"
proof -
  obtain s1 where 1: "BitStreamGetBits s 1 = (a, s1)" "at s1 (nbits 4 t @ r)" using at_step [OF assms(1) _ _ assms(2)] by auto
  obtain s2 where 2: "BitStreamGetBits s1 4 = (t, s2)" "at s2 r" using at_step [OF 1(2) _ _ assms(3)] by auto
  show ?thesis using 1(1) 2 by blast
qed

lemma cpe_loop_enc:
  assumes "list_all (\<lambda>(a, t). fits 1 a \<and> fits 4 t) ps" "at s (elem_bits ps @ r)" "0 \<le> i" "i + int (length ps) \<le> 16"
    and "length cpes = 16" "length tags = 16" "0 \<le> num" "num + 2 * int (length ps) < 256"
  shows "\<exists>s'. cpe_loop (length ps) i cpes tags num chs s
     = Some (overwrite cpes i (map fst ps), overwrite tags i (map snd ps), num + elem_width ps, chs + elem_width ps, s') \<and> at s' r"
  using assms
proof (induction ps arbitrary: s i cpes tags num chs)
  case (Cons p ps)
  obtain a t where p: "p = (a, t)" by fastforce
  have f: "fits 1 a" "fits 4 t" "list_all (\<lambda>(a, t). fits 1 a \<and> fits 4 t) ps" using Cons.prems(1) by (simp_all add: p)
  have "at s (nbits 1 a @ nbits 4 t @ elem_bits ps @ r)" using Cons.prems(2) by (simp add: p elem_bits_def)
  from pair_step [OF this f(1,2)] obtain s1 s2 where
    b: "BitStreamGetBits s 1 = (a, s1)" "BitStreamGetBits s1 4 = (t, s2)" "at s2 (elem_bits ps @ r)" by blast
  have a01: "a = 0 \<or> a = 1" using f(1) by (auto simp: fits_def)
  let ?w = "if a = 1 then 2 else 1 :: int"
  have "\<exists>s'. cpe_loop (length ps) (i + 1) (cpes[nat i := a]) (tags[nat i := t]) (num + ?w) (chs + ?w) s2
     = Some (overwrite (cpes[nat i := a]) (i + 1) (map fst ps), overwrite (tags[nat i := t]) (i + 1) (map snd ps),
         num + ?w + elem_width ps, chs + ?w + elem_width ps, s') \<and> at s' r"
    by (rule Cons.IH) (use Cons.prems f b in auto)
  moreover have "overwrite (cpes[nat i := a]) (i + 1) (map fst ps) = overwrite cpes i (a # map fst ps)"
    "overwrite (tags[nat i := t]) (i + 1) (map snd ps) = overwrite tags i (t # map snd ps)"
    using Cons.prems by (auto intro!: overwrite_Cons)
  moreover have "u8 (num + ?w) = num + ?w" using Cons.prems by simp
  ultimately show ?case
    using Cons.prems a01 f b
    by (auto simp: p Let_def rd_Some wr_Some fits_ids add.assoc simp del: One_nat_def)
qed (simp add: elem_bits_def tag_bits_def)

lemma lfe_tags_enc:
  assumes "list_all (fits 4) ts" "at s (tag_bits ts @ r)" "0 \<le> i" "i + int (length ts) \<le> 16"
    and "length tags = 16" "0 \<le> num" "num + int (length ts) < 256"
  shows "\<exists>s'. lfe_tags (length ts) i tags num chs s
     = Some (overwrite tags i ts, num + int (length ts), chs + int (length ts), s') \<and> at s' r"
  using assms
proof (induction ts arbitrary: s i tags num chs)
  case (Cons t ts)
  have f: "fits 4 t" "list_all (fits 4) ts" using Cons.prems(1) by simp_all
  have "at s (nbits 4 t @ tag_bits ts @ r)" using Cons.prems(2) by (simp add: tag_bits_def)
  from at_step [OF this _ _ f(1)] obtain s1 where b: "BitStreamGetBits s 4 = (t, s1)" "at s1 (tag_bits ts @ r)" by auto
  have "\<exists>s'. lfe_tags (length ts) (i + 1) (tags[nat i := t]) (num + 1) (chs + 1) s1
     = Some (overwrite (tags[nat i := t]) (i + 1) ts, num + 1 + int (length ts), chs + 1 + int (length ts), s') \<and> at s' r"
    by (rule Cons.IH) (use Cons.prems f b in auto)
  moreover have "overwrite (tags[nat i := t]) (i + 1) ts = overwrite tags i (t # ts)"
    using Cons.prems by (auto intro!: overwrite_Cons)
  ultimately show ?case
    using Cons.prems f b by (auto simp: Let_def wr_Some fits_ids add.assoc)
qed (simp add: elem_bits_def tag_bits_def)

lemma assoc_loop_enc:
  assumes "list_all (fits 4) ts" "at s (tag_bits ts @ r)" "0 \<le> i" "i + int (length ts) \<le> 16" "length tags = 16"
  shows "\<exists>s'. assoc_loop (length ts) i tags s = Some (overwrite tags i ts, s') \<and> at s' r"
  using assms
proof (induction ts arbitrary: s i tags)
  case (Cons t ts)
  have f: "fits 4 t" "list_all (fits 4) ts" using Cons.prems(1) by simp_all
  have "at s (nbits 4 t @ tag_bits ts @ r)" using Cons.prems(2) by (simp add: tag_bits_def)
  from at_step [OF this _ _ f(1)] obtain s1 where b: "BitStreamGetBits s 4 = (t, s1)" "at s1 (tag_bits ts @ r)" by auto
  have "\<exists>s'. assoc_loop (length ts) (i + 1) (tags[nat i := t]) s1 = Some (overwrite (tags[nat i := t]) (i + 1) ts, s') \<and> at s' r"
    by (rule Cons.IH) (use Cons.prems f b in auto)
  moreover have "overwrite (tags[nat i := t]) (i + 1) ts = overwrite tags i (t # ts)"
    using Cons.prems by (auto intro!: overwrite_Cons)
  ultimately show ?case
    using Cons.prems f b by (auto simp: Let_def wr_Some fits_ids)
qed (simp add: elem_bits_def tag_bits_def)

lemma cc_loop_enc:
  assumes "list_all (\<lambda>(a, t). fits 1 a \<and> fits 4 t) ps" "at s (elem_bits ps @ r)" "0 \<le> i" "i + int (length ps) \<le> 16"
    and "length sws = 16" "length tags = 16"
  shows "\<exists>s'. cc_loop (length ps) i sws tags s = Some (overwrite sws i (map fst ps), overwrite tags i (map snd ps), s') \<and> at s' r"
  using assms
proof (induction ps arbitrary: s i sws tags)
  case (Cons p ps)
  obtain a t where p: "p = (a, t)" by fastforce
  have f: "fits 1 a" "fits 4 t" "list_all (\<lambda>(a, t). fits 1 a \<and> fits 4 t) ps" using Cons.prems(1) by (simp_all add: p)
  have "at s (nbits 1 a @ nbits 4 t @ elem_bits ps @ r)" using Cons.prems(2) by (simp add: p elem_bits_def)
  from pair_step [OF this f(1,2)] obtain s1 s2 where
    b: "BitStreamGetBits s 1 = (a, s1)" "BitStreamGetBits s1 4 = (t, s2)" "at s2 (elem_bits ps @ r)" by blast
  have "\<exists>s'. cc_loop (length ps) (i + 1) (sws[nat i := a]) (tags[nat i := t]) s2
     = Some (overwrite (sws[nat i := a]) (i + 1) (map fst ps), overwrite (tags[nat i := t]) (i + 1) (map snd ps), s') \<and> at s' r"
    by (rule Cons.IH) (use Cons.prems f b in auto)
  moreover have "overwrite (sws[nat i := a]) (i + 1) (map fst ps) = overwrite sws i (a # map fst ps)"
    "overwrite (tags[nat i := t]) (i + 1) (map snd ps) = overwrite tags i (t # map snd ps)"
    using Cons.prems by (auto intro!: overwrite_Cons)
  ultimately show ?case
    using Cons.prems f b by (auto simp: p Let_def wr_Some fits_ids simp del: One_nat_def)
qed (simp add: elem_bits_def tag_bits_def)

text \<open>The alignment drops the padding, the comment is skipped.\<close>

lemma align_pad:
  assumes "at s (pad @ r)" "length pad < 8" "8 dvd length r" "r \<noteq> []"
  shows "at (BitStreamByteAlign s) r"
proof -
  have s: "bs_inv s" "bsbits s = pad @ r" using assms(1) by (simp_all add: at_def)
  then have l: "bslen s = length pad + length r" by (metis length_bsbits length_append)
  then have pos: "0 < bslen s" using assms(4) by simp
  have c: "0 \<le> nBytes s" "0 \<le> cachedBits s" "noBytes s \<le> 0"
    using s(1) pos by (auto simp: bs_inv_def bslen_def split: if_splits)
  then have "int (bslen s) = cachedBits s + 8 * nBytes s" by (simp add: bslen_def)
  then have "cachedBits s mod 8 = int (length pad)" using l assms(2,3) by (auto elim!: dvdE) presburger
  then show ?thesis using s by (simp add: at_def align_inv align_bits)
qed

lemma skip_bytes_enc: "list_all (fits 8) vs \<Longrightarrow> at s (put_array 8 vs @ r) \<Longrightarrow> at (skip_bytes (length vs) s) r"
  by (induction vs arbitrary: s) (simp_all add: at_get)

text \<open>A program configuration: scalar fields \<open>c\<close>, element lists and comment.\<close>

record pce_lists =
  fronts :: "(int \<times> int) list"
  sides :: "(int \<times> int) list"
  backs :: "(int \<times> int) list"
  lfes :: "int list"
  assocs :: "int list"
  ccs :: "(int \<times> int) list"
  comment :: "int list"

definition pce_list_bits :: "pce_lists \<Rightarrow> bool list" where
  "pce_list_bits e = elem_bits (fronts e) @ elem_bits (sides e) @ elem_bits (backs e) @ tag_bits (lfes e) @ tag_bits (assocs e)
     @ elem_bits (ccs e)"

definition pce_bits :: "program_config \<Rightarrow> pce_lists \<Rightarrow> bool list \<Rightarrow> bool list" where
  "pce_bits c e pad = pce_head_bits c @ mixdown_bits c @ pce_list_bits e @ pad @ nbits 8 (int (length (comment e))) @ put_array 8 (comment e)"

definition pce_code :: "program_config \<Rightarrow> pce_lists \<Rightarrow> bool" where
  "pce_code c e \<longleftrightarrow> pce_head_fits c \<and> mixdown_fits c
     \<and> list_all (\<lambda>(a, t). fits 1 a \<and> fits 4 t) (fronts e @ sides e @ backs e @ ccs e) \<and> list_all (fits 4) (lfes e @ assocs e)
     \<and> list_all (fits 8) (comment e) \<and> length (comment e) < 256
     \<and> num_front_channel_elements c = int (length (fronts e)) \<and> num_side_channel_elements c = int (length (sides e))
     \<and> num_back_channel_elements c = int (length (backs e)) \<and> num_lfe_channel_elements c = int (length (lfes e))
     \<and> num_assoc_data_elements c = int (length (assocs e)) \<and> num_valid_cc_elements c = int (length (ccs e))"

text \<open>What the parser makes of it: the lists at the front of the arrays, and the numbers of channels.\<close>

definition pce_result :: "program_config \<Rightarrow> program_config \<Rightarrow> pce_lists \<Rightarrow> program_config" where
  "pce_result c0 c e = (pce_mixes (pce_heads c0 c) c)\<lparr>
     front_element_is_cpe := overwrite (front_element_is_cpe c0) 0 (map fst (fronts e)),
     front_element_tag_select := overwrite (front_element_tag_select c0) 0 (map snd (fronts e)),
     num_front_channels := elem_width (fronts e),
     side_element_is_cpe := overwrite (side_element_is_cpe c0) 0 (map fst (sides e)),
     side_element_tag_select := overwrite (side_element_tag_select c0) 0 (map snd (sides e)),
     num_side_channels := elem_width (sides e),
     back_element_is_cpe := overwrite (back_element_is_cpe c0) 0 (map fst (backs e)),
     back_element_tag_select := overwrite (back_element_tag_select c0) 0 (map snd (backs e)),
     num_back_channels := elem_width (backs e),
     lfe_element_tag_select := overwrite (lfe_element_tag_select c0) 0 (lfes e),
     num_lfe_channels := int (length (lfes e)),
     assoc_data_element_tag_select := overwrite (assoc_data_element_tag_select c0) 0 (assocs e),
     cc_element_is_ind_sw := overwrite (cc_element_is_ind_sw c0) 0 (map fst (ccs e)),
     valid_cc_element_tag_select := overwrite (valid_cc_element_tag_select c0) 0 (map snd (ccs e)),
     channels := elem_width (fronts e) + elem_width (sides e) + elem_width (backs e) + int (length (lfes e))\<rparr>"

lemma pce_elements_enc:
  assumes "pce_wf c0" "pce_code c e" "at s (pce_list_bits e @ r)" "c1 = pce_mixes (pce_heads c0 c) c"
  shows "\<exists>s'. pce_elements c1 s = Some (pce_result c0 c e, s') \<and> at s' r"
proof -
  note w = assms(1) [unfolded pce_wf_def] note k = assms(2) [unfolded pce_code_def]
  have n: "length (fronts e) < 16" "length (sides e) < 16" "length (backs e) < 16" "length (lfes e) < 4"
    "length (assocs e) < 8" "length (ccs e) < 16"
    using k by (simp_all add: pce_head_fits_def fits_def)
  have g: "list_all (\<lambda>(a, t). fits 1 a \<and> fits 4 t) (fronts e)" "list_all (\<lambda>(a, t). fits 1 a \<and> fits 4 t) (sides e)"
    "list_all (\<lambda>(a, t). fits 1 a \<and> fits 4 t) (backs e)" "list_all (\<lambda>(a, t). fits 1 a \<and> fits 4 t) (ccs e)"
    "list_all (fits 4) (lfes e)" "list_all (fits 4) (assocs e)"
    using k by simp_all
  obtain s1 where 1: "cpe_loop (length (fronts e)) 0 (front_element_is_cpe c0) (front_element_tag_select c0) 0 0 s
     = Some (overwrite (front_element_is_cpe c0) 0 (map fst (fronts e)), overwrite (front_element_tag_select c0) 0 (map snd (fronts e)),
         elem_width (fronts e), elem_width (fronts e), s1)" "at s1 (elem_bits (sides e) @ elem_bits (backs e) @ tag_bits (lfes e) @ tag_bits (assocs e)
     @ elem_bits (ccs e) @ r)"
    using cpe_loop_enc [OF g(1), of s _ 0 "front_element_is_cpe c0" "front_element_tag_select c0" 0 0] assms(3) w n
    by (auto simp: pce_list_bits_def)
  obtain s2 where 2: "cpe_loop (length (sides e)) 0 (side_element_is_cpe c0) (side_element_tag_select c0) 0 (elem_width (fronts e)) s1
     = Some (overwrite (side_element_is_cpe c0) 0 (map fst (sides e)), overwrite (side_element_tag_select c0) 0 (map snd (sides e)),
         elem_width (sides e), elem_width (fronts e) + elem_width (sides e), s2)" "at s2 (elem_bits (backs e) @ tag_bits (lfes e) @ tag_bits (assocs e)
     @ elem_bits (ccs e) @ r)"
    using cpe_loop_enc [OF g(2) 1(2), of 0 "side_element_is_cpe c0" "side_element_tag_select c0" 0 "elem_width (fronts e)"] w n by auto
  obtain s3 where 3: "cpe_loop (length (backs e)) 0 (back_element_is_cpe c0) (back_element_tag_select c0) 0 (elem_width (fronts e) + elem_width (sides e)) s2
     = Some (overwrite (back_element_is_cpe c0) 0 (map fst (backs e)), overwrite (back_element_tag_select c0) 0 (map snd (backs e)),
         elem_width (backs e), elem_width (fronts e) + elem_width (sides e) + elem_width (backs e), s3)" "at s3 (tag_bits (lfes e) @ tag_bits (assocs e)
     @ elem_bits (ccs e) @ r)"
    using cpe_loop_enc [OF g(3) 2(2), of 0 "back_element_is_cpe c0" "back_element_tag_select c0" 0 "elem_width (fronts e) + elem_width (sides e)"] w n by auto
  let ?chs = "elem_width (fronts e) + elem_width (sides e) + elem_width (backs e)"
  obtain s4 where 4: "lfe_tags (length (lfes e)) 0 (lfe_element_tag_select c0) 0 ?chs s3
     = Some (overwrite (lfe_element_tag_select c0) 0 (lfes e), int (length (lfes e)), ?chs + int (length (lfes e)), s4)"
     "at s4 (tag_bits (assocs e) @ elem_bits (ccs e) @ r)"
    using lfe_tags_enc [OF g(5) 3(2), of 0 "lfe_element_tag_select c0" 0 ?chs] w n by auto
  obtain s5 where 5: "assoc_loop (length (assocs e)) 0 (assoc_data_element_tag_select c0) s4
     = Some (overwrite (assoc_data_element_tag_select c0) 0 (assocs e), s5)" "at s5 (elem_bits (ccs e) @ r)"
    using assoc_loop_enc [OF g(6) 4(2), of 0 "assoc_data_element_tag_select c0"] w n by auto
  obtain s6 where 6: "cc_loop (length (ccs e)) 0 (cc_element_is_ind_sw c0) (valid_cc_element_tag_select c0) s5
     = Some (overwrite (cc_element_is_ind_sw c0) 0 (map fst (ccs e)), overwrite (valid_cc_element_tag_select c0) 0 (map snd (ccs e)), s6)" "at s6 r"
    using cc_loop_enc [OF g(4) 5(2), of 0 "cc_element_is_ind_sw c0" "valid_cc_element_tag_select c0"] w n by auto
  have u: "u8 (?chs + int (length (lfes e))) = ?chs + int (length (lfes e))"
    using elem_width_bounds [of "fronts e"] elem_width_bounds [of "sides e"] elem_width_bounds [of "backs e"] n by simp
  have c1: "num_front_channel_elements c1 = int (length (fronts e))" "num_side_channel_elements c1 = int (length (sides e))"
    "num_back_channel_elements c1 = int (length (backs e))" "num_lfe_channel_elements c1 = int (length (lfes e))"
    "num_assoc_data_elements c1 = int (length (assocs e))" "num_valid_cc_elements c1 = int (length (ccs e))"
    "front_element_is_cpe c1 = front_element_is_cpe c0" "front_element_tag_select c1 = front_element_tag_select c0"
    "side_element_is_cpe c1 = side_element_is_cpe c0" "side_element_tag_select c1 = side_element_tag_select c0"
    "back_element_is_cpe c1 = back_element_is_cpe c0" "back_element_tag_select c1 = back_element_tag_select c0"
    "lfe_element_tag_select c1 = lfe_element_tag_select c0" "assoc_data_element_tag_select c1 = assoc_data_element_tag_select c0"
    "cc_element_is_ind_sw c1 = cc_element_is_ind_sw c0" "valid_cc_element_tag_select c1 = valid_cc_element_tag_select c0"
    using k by (simp_all add: assms(4) pce_mixes_def pce_heads_def)
  show ?thesis
    using 6(2) by (simp add: pce_elements_def c1 1(1) 2(1) 3(1) 4(1) 5(1) 6(1) u pce_result_def assms(4) [symmetric])
qed

lemma program_config_enc:
  assumes "pce_wf c0" "pce_code c e" "at s (pce_bits c e pad @ r)" "length pad < 8" "8 dvd length r"
  shows "\<exists>s'. program_config_element s c0 = Some (pce_result c0 c e, s') \<and> at s' r"
proof -
  note k = assms(2) [unfolded pce_code_def]
  let ?tail = "nbits 8 (int (length (comment e))) @ put_array 8 (comment e) @ r"
  obtain s1 where 1: "pce_head c0 s = (pce_heads c0 c, s1)" "at s1 (mixdown_bits c @ pce_list_bits e @ pad @ ?tail)"
    using pce_head_enc [of c s _ c0] assms(3) k by (auto simp: pce_bits_def)
  obtain c2 s2 c3 s3 s4 where 2: "pce_mono (pce_heads c0 c) s1 = (c2, s2)" "pce_stereo c2 s2 = (c3, s3)"
      "pce_matrix c3 s3 = (pce_mixes (pce_heads c0 c) c, s4)" "at s4 (pce_list_bits e @ pad @ ?tail)"
    using pce_mix_enc [OF _ 1(2), of "pce_heads c0 c"] k by blast
  obtain s5 where 3: "pce_elements (pce_mixes (pce_heads c0 c) c) s4 = Some (pce_result c0 c e, s5)" "at s5 (pad @ ?tail)"
    using pce_elements_enc [OF assms(1,2) 2(4)] by blast
  have "8 dvd length ?tail" using assms(5) by (auto elim!: dvdE)
  moreover have "nbits 8 v \<noteq> []" for v by (metis length_0_conv length_nbits zero_neq_numeral)
  ultimately have "at (BitStreamByteAlign s5) ?tail" using assms(4) by (intro align_pad [OF 3(2)]) auto
  moreover have "fits 8 (int (length (comment e)))" using k by (simp add: fits_def)
  ultimately obtain s6 where 4: "BitStreamGetBits (BitStreamByteAlign s5) 8 = (int (length (comment e)), s6)" "at s6 (put_array 8 (comment e) @ r)"
    using at_step by fastforce
  have "at (skip_bytes (length (comment e)) s6) r" using k 4(2) by (intro skip_bytes_enc) auto
  then show ?thesis by (simp add: program_config_element_def 1(1) 2(1-3) 3(1) 4(1) Let_def)
qed

section \<open>The ADIF header\<close>

text \<open>An ADIF header without copyright identification and with one program configuration.\<close>

definition adif_bits :: "int \<Rightarrow> int \<Rightarrow> int \<Rightarrow> int \<Rightarrow> int \<Rightarrow> int \<Rightarrow> bool list" where
  "adif_bits ident orig hm kind rate full = nbits 32 ident @ nbits 1 0 @ nbits 1 orig @ nbits 1 hm @ nbits 1 kind @ nbits 23 rate
     @ nbits 4 0 @ (if kind = 0 then nbits 20 full else [])"

lemma adif_frame_enc:
  assumes "adif_wf a" "pce_code c e" "length pad < 8" "8 dvd length r"
    and "fits 32 ident" "fits 1 orig" "fits 1 hm" "fits 1 kind" "fits 23 rate" "fits 20 full"
    and "at s (adif_bits ident orig hm kind rate full @ pce_bits c e pad @ r)"
  shows "\<exists>a' s'. adif_frame s a = Some (a', s') \<and> at s' r \<and> adif_pce a' ! 0 = pce_result (adif_pce a ! 0) c e"
proof -
  have z: "fits 1 0" "fits 4 0" by (simp_all add: fits_def)
  have at0: "at s (nbits 32 ident @ nbits 1 0 @ nbits 1 orig @ nbits 1 hm @ nbits 1 kind @ nbits 23 rate @ nbits 4 0
     @ (if kind = 0 then nbits 20 full else []) @ pce_bits c e pad @ r)"
    using assms(11) by (simp add: adif_bits_def)
  obtain s1 where 1: "BitStreamGetBits s 32 = (ident, s1)" "at s1 (nbits 1 0 @ nbits 1 orig @ nbits 1 hm @ nbits 1 kind @ nbits 23 rate @ nbits 4 0
     @ (if kind = 0 then nbits 20 full else []) @ pce_bits c e pad @ r)" using at_step [OF at0 _ _ assms(5)] by auto
  obtain s2 where 2: "BitStreamGetBits s1 1 = (0, s2)" "at s2 (nbits 1 orig @ nbits 1 hm @ nbits 1 kind @ nbits 23 rate @ nbits 4 0
     @ (if kind = 0 then nbits 20 full else []) @ pce_bits c e pad @ r)" using at_step [OF 1(2) _ _ z(1)] by auto
  obtain s3 where 3: "BitStreamGetBits s2 1 = (orig, s3)" "at s3 (nbits 1 hm @ nbits 1 kind @ nbits 23 rate @ nbits 4 0
     @ (if kind = 0 then nbits 20 full else []) @ pce_bits c e pad @ r)" using at_step [OF 2(2) _ _ assms(6)] by auto
  obtain s4 where 4: "BitStreamGetBits s3 1 = (hm, s4)" "at s4 (nbits 1 kind @ nbits 23 rate @ nbits 4 0
     @ (if kind = 0 then nbits 20 full else []) @ pce_bits c e pad @ r)" using at_step [OF 3(2) _ _ assms(7)] by auto
  obtain s5 where 5: "BitStreamGetBits s4 1 = (kind, s5)" "at s5 (nbits 23 rate @ nbits 4 0
     @ (if kind = 0 then nbits 20 full else []) @ pce_bits c e pad @ r)" using at_step [OF 4(2) _ _ assms(8)] by auto
  obtain s6 where 6: "BitStreamGetBits s5 23 = (rate, s6)" "at s6 (nbits 4 0
     @ (if kind = 0 then nbits 20 full else []) @ pce_bits c e pad @ r)" using at_step [OF 5(2) _ _ assms(9)] by auto
  obtain s7 where 7: "BitStreamGetBits s6 4 = (0, s7)" "at s7 ((if kind = 0 then nbits 20 full else []) @ pce_bits c e pad @ r)"
    using at_step [OF 6(2) _ _ z(2)] by auto
  obtain b where b: "(if kind = 0 then snd (BitStreamGetBits s7 20) else s7) = b" "at b (pce_bits c e pad @ r)"
    using at_get(2) [of s7 20 full "pce_bits c e pad @ r"] 7(2) assms(10) by (auto split: if_splits)
  have w: "length (adif_pce a) = 16" "pce_wf (adif_pce a ! 0)"
    using assms(1) by (auto simp: adif_wf_def list_all_length)
  obtain s8 where 8: "program_config_element b (adif_pce a ! 0) = Some (pce_result (adif_pce a ! 0) c e, s8)" "at s8 r"
    using program_config_enc [OF w(2) assms(2) b(2) assms(3,4)] by blast
  have k: "u8 kind = kind" "u8 orig = orig" using assms(6,8) by (simp_all add: fits_ids)
  show ?thesis
  proof (cases "kind = 0")
    case True
    then have "snd (BitStreamGetBits s7 20) = b" using b(1) by simp
    with True show ?thesis using w 8
      by (simp add: adif_frame_def BitStreamGetBit_def Let_def 1(1) 2(1) 3(1) 4(1) 5(1) 6(1) 7(1) k rd_Some wr_Some case_prod_unfold
          del: One_nat_def)
  next
    case False
    then have "s7 = b" using b(1) by simp
    with False show ?thesis using w 8
      by (simp add: adif_frame_def BitStreamGetBit_def Let_def 1(1) 2(1) 3(1) 4(1) 5(1) 6(1) 7(1) k rd_Some wr_Some case_prod_unfold
          del: One_nat_def)
  qed
qed

end
