(* ===== verification/Latm.thy ===== *)
theory Latm
  imports AACState Checked HeaderCode
begin

unbundle bit_operations_syntax

text \<open>
  The low-overhead transport, \<^verbatim>\<open>src/latmheader.c\<close>: the configuration of the multiplex and of the audio,
  and the length of the payload. The bit stream is an argument of its own, because the code parses both
  the stream of the decoder and a local one.
\<close>

section \<open>Operations\<close>

text \<open>\<open>for (i = 0; i <= n; i++) value = (value << 8) | byte\<close>, \<open>k\<close> rounds.\<close>

fun value_loop :: "nat \<Rightarrow> int \<Rightarrow> BitStream \<Rightarrow> int \<times> BitStream" where
  "value_loop 0 value bs = (value, bs)"
| "value_loop (Suc k) value bs =
     (let (v, bs) = BitStreamGetBits bs 8 in value_loop k (s32 (push_bit 8 value) OR v) bs)"

definition LatmGetValue :: "BitStream \<Rightarrow> int \<times> BitStream" where
  "LatmGetValue bs = (let (n, bs) = BitStreamGetBits bs 2 in value_loop (nat (n + 1)) 0 bs)"

text \<open>A field that is only counted: its bits are read and added to \<open>ret\<close>.\<close>

definition count_bits :: "nat \<Rightarrow> int \<times> BitStream \<Rightarrow> int \<times> BitStream" where
  "count_bits n p = (let (ret, bs) = p; (v, bs) = BitStreamGetBits bs n in (ret + int n, bs))"

definition GASpecificConfig :: "BitStream \<Rightarrow> int \<Rightarrow> int \<times> BitStream" where
  "GASpecificConfig bs prof =
     (let (framelen_flag, bs) = BitStreamGetBit bs;
          (dependsOnCoder, bs) = BitStreamGetBit bs;
          (ret, bs) = (if dependsOnCoder \<noteq> 0 then count_bits 14 (2, bs) else (2, bs));
          (ext_flag, bs) = BitStreamGetBit bs; ret = ret + 1;
          (ret, bs) = (if prof = 6 \<or> prof = 20 then count_bits 3 (ret, bs) else (ret, bs)) in
      if ext_flag \<noteq> 0 then
        (let (ret, bs) = (if prof = 22 then count_bits 11 (count_bits 5 (ret, bs)) else (ret, bs));
             (ret, bs) = (if prof = 17 \<or> prof = 19 \<or> prof = 20 \<or> prof = 23 then count_bits 3 (ret, bs) else (ret, bs)) in
         count_bits 1 (ret, bs))
      else (ret, bs))"

text \<open>An audio object type, and a sample rate index with its explicit rate.\<close>

definition asc_profile :: "BitStream \<Rightarrow> int \<times> int \<times> BitStream" where
  "asc_profile bs =
     (let (p, bs) = BitStreamGetBits bs 5 in
      if p = 31 then (let (v, bs) = BitStreamGetBits bs 6 in (v + 32, 11, bs)) else (p, 5, bs))"

definition asc_rate :: "BitStream \<Rightarrow> (int option \<times> int \<times> BitStream) option" where
  "asc_rate bs =
     (let (idx, bs) = BitStreamGetBits bs 4 in
      if idx = 15 then (let (f, bs) = BitStreamGetBits bs 24 in Some (Some f, 28, bs))
      else if idx < NUM_SAMPLE_RATES then do { f \<leftarrow> rd sampRateTab idx; Some (Some f, 4, bs) }
      else Some (None, 4, bs))"

text \<open>The object type behind the signalling of SBR.\<close>

definition asc_sbr :: "BitStream \<Rightarrow> int \<times> int \<times> BitStream" where
  "asc_sbr bs =
     (let (idx, bs) = BitStreamGetBits bs 4;
          (n, bs) = (if idx = 15 then (28, snd (BitStreamGetBits bs 24)) else (4, bs));
          (p, k, bs) = asc_profile bs in
      (p, n + k, bs))"

definition ReadAudioSpecConfig :: "AACDecoder \<Rightarrow> BitStream \<Rightarrow> (int \<times> AACDecoder \<times> BitStream) option" where
  "ReadAudioSpecConfig d bs =
     (let (p, ret, bs) = asc_profile bs in
      do { (freq, n, bs) \<leftarrow> asc_rate bs;
           case freq of
             None \<Rightarrow> Some (TT_AACDEC_ERR_AUDIO_UNSSAMPLERATE, d, bs)
           | Some sampFreq \<Rightarrow>
               (let (chanNum, bs) = BitStreamGetBits bs 4;
                    ret = ret + n + 4;
                    d = d\<lparr>sampleRate := sampFreq, profile := p, channelNum := chanNum\<rparr>;
                    (p, k, bs) = (if p = 5 then asc_sbr bs else (p, 0, bs));
                    ret = ret + k;
                    (k, bs) = (if p \<in> {1, 2, 3, 4, 6, 7, 17, 19, 20, 21, 22, 23} then GASpecificConfig bs p else (0, bs)) in
                Some (ret + k, d, bs)) })"

text \<open>\<open>do { tmp = byte; length += tmp; } while (tmp == 255)\<close>\<close>

partial_function (option) slot_loop :: "int \<Rightarrow> BitStream \<Rightarrow> (int \<times> BitStream) option" where
  "slot_loop len bs =
     (let (v, bs) = BitStreamGetBits bs 8; len = u16 (len + u8 v) in
      if u8 v = 255 then slot_loop len bs else Some (len, bs))"

definition PayloadLengthInfo :: "latm_header \<Rightarrow> BitStream \<Rightarrow> (int \<times> latm_header \<times> BitStream) option" where
  "PayloadLengthInfo h bs =
     (if all_same_framing h \<noteq> 0 then
        do { t \<leftarrow> rd (frameLengthTypes h) 0;
             if t = 0 then
               do { (len, bs) \<leftarrow> slot_loop 0 bs;
                    lens \<leftarrow> wr (muxSlotLengthBytes h) 0 len;
                    Some (0, h\<lparr>muxSlotLengthBytes := lens\<rparr>, bs) }
             else if t = 5 \<or> t = 7 \<or> t = 3 then
               (let (v, bs) = BitStreamGetBits bs 2 in
                do { cs \<leftarrow> wr (muxSlotLengthCoded h) 0 (u8 v);
                     Some (0, h\<lparr>muxSlotLengthCoded := cs\<rparr>, bs) })
             else Some (0, h, bs) }
      else Some (- 1, h, bs))"

text \<open>The parts of \<open>ReadMUXConfig\<close>: the audio configuration with its fill bits, the frame length type,
  the length of the other data, the check sum.\<close>

definition mux_audio :: "latm_header \<Rightarrow> AACDecoder \<Rightarrow> BitStream \<Rightarrow> (int \<times> AACDecoder \<times> BitStream) option" where
  "mux_audio h d bs =
     (if audio_mux_version h = 0 then
        do { (ret, d, bs) \<leftarrow> ReadAudioSpecConfig d bs; Some (if ret < 0 then - 1 else 0, d, bs) }
      else
        (let (ascLen, bs) = LatmGetValue bs in
         do { (conlen, d, bs) \<leftarrow> ReadAudioSpecConfig d bs;
              if conlen < 0 then Some (- 1, d, bs)
              else Some (0, d, BitStreamSkip bs (ascLen - conlen)) }))"

definition mux_frame_length :: "latm_header \<Rightarrow> BitStream \<Rightarrow> (latm_header \<times> BitStream) option" where
  "mux_frame_length h bs =
     (let (t, bs) = BitStreamGetBits bs 3 in
      do { ts \<leftarrow> wr (frameLengthTypes h) 0 (u8 t);
           let h = h\<lparr>frameLengthTypes := ts\<rparr>;
           if t = 0 then
             (let (v, bs) = BitStreamGetBits bs 8 in
              do { fs \<leftarrow> wr (latmBufferFullness h) 0 (u8 v); Some (h\<lparr>latmBufferFullness := fs\<rparr>, bs) })
           else if t = 1 then
             (let (v, bs) = BitStreamGetBits bs 9 in
              do { fs \<leftarrow> wr (latm_header.frameLength h) 0 (u16 v); Some (h\<lparr>latm_header.frameLength := fs\<rparr>, bs) })
           else if t = 3 \<or> t = 4 \<or> t = 5 then Some (h, snd (BitStreamGetBits bs 6))
           else if t = 6 \<or> t = 7 then Some (h, snd (BitStreamGetBit bs))
           else Some (h, bs) })"

partial_function (option) other_loop :: "int \<Rightarrow> BitStream \<Rightarrow> (int \<times> BitStream) option" where
  "other_loop n bs =
     (let (esc, bs) = BitStreamGetBit bs;
          (tmp, bs) = BitStreamGetBits bs 8;
          n = s32 (push_bit 8 n) OR tmp in
      if esc \<noteq> 0 then other_loop n bs else Some (n, bs))"

definition mux_other :: "latm_header \<Rightarrow> BitStream \<Rightarrow> (latm_header \<times> BitStream) option" where
  "mux_other h bs =
     (let h = h\<lparr>other_data_bits := 0\<rparr>; (v, bs) = BitStreamGetBit bs in
      if v \<noteq> 0 then
        (if audio_mux_version h = 1 then
           (let (n, bs) = LatmGetValue bs in Some (h\<lparr>other_data_bits := n\<rparr>, bs))
         else do { (n, bs) \<leftarrow> other_loop 0 bs; Some (h\<lparr>other_data_bits := n\<rparr>, bs) })
      else Some (h, bs))"

definition mux_crc :: "latm_header \<Rightarrow> BitStream \<Rightarrow> latm_header \<times> BitStream" where
  "mux_crc h bs =
     (let (v, bs) = BitStreamGetBit bs in
      if v \<noteq> 0 then (let (c, bs) = BitStreamGetBits bs 8 in (h\<lparr>config_crc := u8 c\<rparr>, bs)) else (h, bs))"

text \<open>Up to the number of layers: the versions, the framing, and the refused programs and layers.\<close>

definition mux_versions :: "latm_header \<Rightarrow> BitStream \<Rightarrow> latm_header \<times> BitStream" where
  "mux_versions h bs =
     (let h = h\<lparr>numSubFrames := 0, audio_mux_version_A := 0\<rparr>;
          (v, bs) = BitStreamGetBit bs; h = h\<lparr>audio_mux_version := u8 v\<rparr> in
      if audio_mux_version h = 1 then
        (let (v, bs) = BitStreamGetBit bs in (h\<lparr>audio_mux_version_A := u8 v\<rparr>, bs)) else (h, bs))"

definition mux_counts :: "latm_header \<Rightarrow> BitStream \<Rightarrow> int \<times> latm_header \<times> BitStream" where
  "mux_counts h bs =
     (let (v, bs) = BitStreamGetBit bs; h = h\<lparr>all_same_framing := u8 v\<rparr>;
          (v, bs) = BitStreamGetBits bs 6; h = h\<lparr>numSubFrames := v\<rparr>;
          (v, bs) = BitStreamGetBits bs 4; h = h\<lparr>numProgram := v\<rparr> in
      if numProgram h > 0 then (- 1, h\<lparr>numSubFrames := - 1\<rparr>, bs)
      else
        (let (v, bs) = BitStreamGetBits bs 3; h = h\<lparr>numLayer := u8 v\<rparr> in
         if numLayer h > 0 then (- 1, h\<lparr>numSubFrames := - 1\<rparr>, bs) else (0, h, bs)))"

definition mux_head :: "latm_header \<Rightarrow> BitStream \<Rightarrow> int \<times> latm_header \<times> BitStream" where
  "mux_head h bs =
     (let (h, bs) = mux_versions h bs in
      if audio_mux_version_A h \<noteq> 0 then (- 1, h, bs)
      else
        (let (h, bs) = (if audio_mux_version h = 1 then
                          (let (v, bs) = LatmGetValue bs in (h\<lparr>taraFullness := v\<rparr>, bs)) else (h, bs)) in
         mux_counts h bs))"

definition ReadMUXConfig :: "AACDecoder \<Rightarrow> BitStream \<Rightarrow> (int \<times> AACDecoder \<times> BitStream) option" where
  "ReadMUXConfig d bs =
     do { h \<leftarrow> latm d;
          let (use_same_mux, bs) = BitStreamGetBit bs;
          if use_same_mux \<noteq> 0 then Some (0, d, bs)
          else
            (let (ret, h, bs) = mux_head h bs in
             if ret < 0 then Some (- 1, d\<lparr>latm := Some h\<rparr>, bs)
             else do { (ret, d, bs) \<leftarrow> mux_audio h d bs;
                       if ret < 0 then Some (- 1, d\<lparr>latm := Some h\<rparr>, bs)
                       else do { (h, bs) \<leftarrow> mux_frame_length h bs;
                                 (h, bs) \<leftarrow> mux_other h bs;
                                 let (h, bs) = mux_crc h bs;
                                 Some (0, d\<lparr>latm := Some h\<rparr>, bs) } }) }"

definition ParserLatm :: "AACDecoder \<Rightarrow> (int \<times> AACDecoder) option" where
  "ParserLatm d =
     (let (sync, d) = dget d 11 in
      if sync \<noteq> 0x2b7 then Some (TT_AACDEC_ERR_AAC_UNSPROFILE, d)
      else
        (let (mux, d) = dget d 13;
             d = d\<lparr>dec_frame_length := mux + 3\<rparr> in
         if mux + 3 > s32 (fs_length (Fstream d)) then Some (TTKErrUnderflow, d)
         else do { (ret, d, bs) \<leftarrow> ReadMUXConfig d (dbs d);
                   let d = d\<lparr>dbs := bs\<rparr>;
                   if ret < 0 then Some (TT_AACDEC_ERR_AAC_UNSPROFILE, d)
                   else do { h \<leftarrow> latm d;
                             (ret, h, bs) \<leftarrow> PayloadLengthInfo h (dbs d);
                             let d = d\<lparr>latm := Some h, dbs := bs\<rparr>;
                             Some (if ret < 0 then TT_AACDEC_ERR_AAC_UNSPROFILE else 0, d) } }))"

section \<open>Bits taken\<close>

definition takes :: "int \<Rightarrow> BitStream \<Rightarrow> BitStream \<Rightarrow> bool" where
  "takes k s s' \<longleftrightarrow> 0 \<le> k \<and> bs_inv s' \<and> bsbits s' = drop (nat k) (bsbits s)"

lemma takes_refl: "bs_inv s \<Longrightarrow> takes 0 s s"
  by (simp add: takes_def)

lemma takes_get: "bs_inv s \<Longrightarrow> 0 < n \<Longrightarrow> n \<le> 32 \<Longrightarrow> takes (int n) s (snd (BitStreamGetBits s n))"
  by (simp add: takes_def bs_get)

lemma takes_trans: "takes k s s' \<Longrightarrow> takes l s' s'' \<Longrightarrow> takes (k + l) s s''"
  by (simp add: takes_def nat_add_distrib add.commute)

lemma takes_inv: "takes k s s' \<Longrightarrow> bs_inv s'"
  by (simp add: takes_def)

lemma takes_step: "takes k s s' \<Longrightarrow> 0 < n \<Longrightarrow> n \<le> 32 \<Longrightarrow> takes (k + int n) s (snd (BitStreamGetBits s' n))"
  by (blast intro: takes_trans takes_get takes_inv)

lemma takes_count:
  "takes (fst p) s (snd p) \<Longrightarrow> 0 < n \<Longrightarrow> n \<le> 32 \<Longrightarrow> takes (fst (count_bits n p)) s (snd (count_bits n p))"
  using takes_step by (simp add: count_bits_def split_beta)

text \<open>The two parsers that count their bits count them right.\<close>

lemma ga_takes:
  assumes "takes k s0 s"
  shows "takes (k + fst (GASpecificConfig s p)) s0 (snd (GASpecificConfig s p))"
proof -
  define s1 where "s1 = snd (BitStreamGetBits s 1)"
  define s2 where "s2 = snd (BitStreamGetBits s1 1)"
  define q1 where "q1 = (if fst (BitStreamGetBits s1 1) \<noteq> 0 then count_bits 14 (2, s2) else (2, s2))"
  define s3 where "s3 = snd (BitStreamGetBits (snd q1) 1)"
  define q2 where "q2 = (if p = 6 \<or> p = 20 then count_bits 3 (fst q1 + 1, s3) else (fst q1 + 1, s3))"
  define q3 where "q3 = (if p = 22 then count_bits 11 (count_bits 5 q2) else q2)"
  define q4 where "q4 = (if p = 17 \<or> p = 19 \<or> p = 20 \<or> p = 23 then count_bits 3 q3 else q3)"
  have s: "bs_inv s" using assms by (rule takes_inv)
  have 1: "takes 1 s s1" using takes_get [OF s, of 1] by (simp add: s1_def)
  have 2: "takes 2 s s2" using takes_step [OF 1, of 1] by (simp add: s2_def)
  have 3: "takes (fst q1) s (snd q1)" using takes_count [of "(2, s2)" s 14] 2 by (auto simp: q1_def)
  have 4: "takes (fst q1 + 1) s s3" using takes_step [OF 3, of 1] by (simp add: s3_def)
  have 5: "takes (fst q2) s (snd q2)" using takes_count [of "(fst q1 + 1, s3)" s 3] 4 by (auto simp: q2_def)
  have 6: "takes (fst q3) s (snd q3)" using takes_count [OF takes_count [OF 5, of 5], of 11] 5 by (auto simp: q3_def)
  have 7: "takes (fst q4) s (snd q4)" using takes_count [OF 6, of 3] 6 by (auto simp: q4_def)
  have 8: "takes (fst (count_bits 1 q4)) s (snd (count_bits 1 q4))" using 7 by (rule takes_count) auto
  have "GASpecificConfig s p = (if fst (BitStreamGetBits (snd q1) 1) \<noteq> 0 then count_bits 1 q4 else q2)"
    unfolding q4_def q3_def q2_def s3_def q1_def s2_def s1_def
    by (simp add: GASpecificConfig_def BitStreamGetBit_def split_beta Let_def del: One_nat_def)
  then have "takes (fst (GASpecificConfig s p)) s (snd (GASpecificConfig s p))" using 5 8 by simp
  with assms show ?thesis by (rule takes_trans)
qed

lemma profile_takes:
  "takes k s0 s \<Longrightarrow> asc_profile s = (p, n, s') \<Longrightarrow> takes (k + n) s0 s'"
proof -
  assume a: "takes k s0 s" "asc_profile s = (p, n, s')"
  let ?s1 = "snd (BitStreamGetBits s 5)"
  have 1: "takes (k + 5) s0 ?s1" using takes_step [OF a(1), of 5] by simp
  have 2: "takes (k + 11) s0 (snd (BitStreamGetBits ?s1 6))" using takes_step [OF 1, of 6] by (simp add: add_ac)
  show ?thesis using a(2) 1 2 by (auto simp: asc_profile_def Let_def split_beta split: if_splits)
qed

lemma rate_takes:
  assumes "takes k s0 s"
  shows "wp (asc_rate s) (\<lambda>(f, n, s'). takes (k + n) s0 s')"
proof -
  let ?s1 = "snd (BitStreamGetBits s 4)" and ?i = "fst (BitStreamGetBits s 4)"
  have 1: "takes (k + 4) s0 ?s1" using takes_step [OF assms, of 4] by simp
  have 2: "takes (k + 28) s0 (snd (BitStreamGetBits ?s1 24))" using takes_step [OF 1, of 24] by (simp add: add_ac)
  have "0 \<le> ?i" using takes_inv [OF assms] by simp
  then show ?thesis
    using 1 2 by (auto simp: asc_rate_def Let_def split_beta NUM_SAMPLE_RATES_def sampRateTab_def)
qed

lemma sbr_takes:
  assumes "takes k s0 s" "asc_sbr s = (p, n, s')"
  shows "takes (k + n) s0 s'"
proof -
  let ?s1 = "snd (BitStreamGetBits s 4)" and ?i = "fst (BitStreamGetBits s 4)"
  let ?q = "if ?i = 15 then (28, snd (BitStreamGetBits ?s1 24)) else (4, ?s1)"
  have 1: "takes (k + 4) s0 ?s1" using takes_step [OF assms(1), of 4] by simp
  have 2: "takes (k + 28) s0 (snd (BitStreamGetBits ?s1 24))" using takes_step [OF 1, of 24] by (simp add: add_ac)
  have 3: "takes (k + fst ?q) s0 (snd ?q)" using 1 2 by auto
  obtain p' m t where a: "asc_profile (snd ?q) = (p', m, t)" by (metis prod_cases3)
  have "takes (k + fst ?q + m) s0 t" by (rule profile_takes [OF 3 a])
  moreover have "n = fst ?q + m" "s' = t" using assms(2) a by (auto simp: asc_sbr_def Let_def split_beta)
  ultimately show ?thesis by (simp add: add.assoc)
qed

lemma asc_known:
  assumes "bs_inv s" "asc_profile s = (p, n, s1)" "asc_rate s1 = Some (Some fr, m, s2)"
  shows "wp (ReadAudioSpecConfig d s) (\<lambda>(ret, d', s'). takes ret s s'
    \<and> d' = d\<lparr>sampleRate := fr, profile := p, channelNum := fst (BitStreamGetBits s2 4)\<rparr>)"
proof -
  have 1: "takes n s s1" using profile_takes [OF takes_refl [OF assms(1)] assms(2)] by simp
  have 2: "takes (n + m) s s2" using rate_takes [OF 1] by (simp add: assms(3))
  define s3 where "s3 = snd (BitStreamGetBits s2 4)"
  have 3: "takes (n + m + 4) s s3" using takes_step [OF 2, of 4] by (simp add: s3_def)
  obtain p' k s4 where q: "(if p = 5 then asc_sbr s3 else (p, 0, s3)) = (p', k, s4)" by (metis prod_cases3)
  have 4: "takes (n + m + 4 + k) s s4" using q 3 sbr_takes [OF 3, of p' k s4] by (auto split: if_splits)
  have e: "ReadAudioSpecConfig d s
    = (let (g, s5) = (if p' \<in> {1, 2, 3, 4, 6, 7, 17, 19, 20, 21, 22, 23} then GASpecificConfig s4 p' else (0, s4)) in
       Some (n + m + 4 + k + g, d\<lparr>sampleRate := fr, profile := p, channelNum := fst (BitStreamGetBits s2 4)\<rparr>, s5))"
    by (simp only: ReadAudioSpecConfig_def assms Let_def prod.case bind.bind_lunit option.case split_beta fst_conv snd_conv
        s3_def [symmetric] q)
  show ?thesis
    using ga_takes [OF 4, of p'] 4 by (simp only: e Let_def split_beta wp_Some split: if_split) simp
qed

lemma asc_takes:
  assumes "bs_inv s"
  shows "wp (ReadAudioSpecConfig d s) (\<lambda>(ret, d', s'). bs_inv s' \<and> latm d' = latm d \<and> Fstream d' = Fstream d
    \<and> dec_frame_length d' = dec_frame_length d \<and> (0 \<le> ret \<longrightarrow> takes ret s s'))"
proof -
  obtain p n s1 where p: "asc_profile s = (p, n, s1)" by (metis prod_cases3)
  have 1: "takes n s s1" using profile_takes [OF takes_refl [OF assms] p] by simp
  obtain f m s2 where f: "asc_rate s1 = Some (f, m, s2)" and 2: "takes (n + m) s s2"
    using rate_takes [OF 1] by (auto simp: wp_iff)
  show ?thesis
  proof (cases f)
    case None
    then show ?thesis using 2 by (simp add: ReadAudioSpecConfig_def p f takes_def)
  next
    case (Some fr)
    from asc_known [OF assms p f [unfolded Some], of d] show ?thesis
      by (rule wp_mono) (auto simp: takes_def)
  qed
qed

section \<open>The loops end\<close>

lemma byte_shrinks:
  assumes "bs_inv s" "fst (BitStreamGetBits s n) \<noteq> 0" "0 < n" "n \<le> 32"
  shows "bslen (snd (BitStreamGetBits s n)) < bslen s"
proof -
  have "bslen s \<noteq> 0" using get_dry [OF assms(1,3,4)] assms(2) by auto
  then show ?thesis using get_bslen [OF assms(1,3,4)] assms(3) by simp
qed

lemma slot_loop_ends:
  "bs_inv s \<Longrightarrow> wp (slot_loop len s) (\<lambda>(len', s'). bs_inv s' \<and> 0 \<le> len' \<and> len' < 65536)"
proof (induction "bslen s" arbitrary: s len rule: less_induct)
  case less
  let ?v = "fst (BitStreamGetBits s 8)" and ?s1 = "snd (BitStreamGetBits s 8)"
  have "0 \<le> u16 x \<and> u16 x < 65536" for x using take_bit_int_less_exp [of 16 x] by (simp add: u16_def)
  then show ?case
    using less.prems less.hyps [OF byte_shrinks [OF less.prems, of 8], of "u16 (len + ?v)"]
    by (subst slot_loop.simps) (auto simp: Let_def split_beta)
qed

lemma other_loop_ends: "bs_inv s \<Longrightarrow> wp (other_loop n s) (\<lambda>(n', s'). bs_inv s')"
proof (induction "bslen s" arbitrary: s n rule: less_induct)
  case less
  let ?s1 = "snd (BitStreamGetBits s 1)" let ?s2 = "snd (BitStreamGetBits ?s1 8)"
  have i: "bs_inv ?s1" "bs_inv ?s2" using less.prems by (simp_all del: One_nat_def)
  show ?case
  proof (cases "fst (BitStreamGetBits s 1) = 0")
    case True
    then show ?thesis using i by (subst other_loop.simps) (simp add: BitStreamGetBit_def Let_def split_beta del: One_nat_def)
  next
    case False
    then have "bslen ?s1 < bslen s" using less.prems by (intro byte_shrinks) auto
    then have "bslen ?s2 < bslen s" using get_bslen [OF i(1), of 8] by simp
    then show ?thesis
      using less.hyps [OF _ i(2)] i by (subst other_loop.simps) (simp add: BitStreamGetBit_def Let_def split_beta del: One_nat_def)
  qed
qed

lemma value_loop_inv: "bs_inv s \<Longrightarrow> bs_inv (snd (value_loop k v s))"
  by (induction k arbitrary: v s) (auto simp: Let_def split_beta)

lemma latm_value_inv: "bs_inv s \<Longrightarrow> bs_inv (snd (LatmGetValue s))"
  by (simp add: LatmGetValue_def split_beta value_loop_inv)

section \<open>The length of the payload\<close>

text \<open>As the standard writes it: 255 as long as more follows, then the rest.\<close>

definition slot_bits :: "int \<Rightarrow> bool list" where
  "slot_bits n = concat (replicate (nat (n div 255)) (nbits 8 255)) @ nbits 8 (n mod 255)"

lemma slot_loop_enc:
  "at s (concat (replicate m (nbits 8 255)) @ nbits 8 v @ r) \<Longrightarrow> 0 \<le> v \<Longrightarrow> v < 255 \<Longrightarrow> 0 \<le> len \<Longrightarrow> len + 255 * int m + v < 65536 \<Longrightarrow>
   \<exists>s'. slot_loop len s = Some (len + 255 * int m + v, s') \<and> at s' r"
proof (induction m arbitrary: s len)
  case 0
  have "\<exists>s'. BitStreamGetBits s 8 = (v, s') \<and> at s' r" using 0 by (intro at_step) (auto simp: fits_def)
  then obtain s' where "BitStreamGetBits s 8 = (v, s')" "at s' r" by blast
  then show ?case using 0 by (subst slot_loop.simps) simp
next
  case (Suc m)
  have "\<exists>s'. BitStreamGetBits s 8 = (255, s') \<and> at s' (concat (replicate m (nbits 8 255)) @ nbits 8 v @ r)"
    using Suc.prems by (intro at_step) (auto simp: fits_def)
  then obtain s1 where g: "BitStreamGetBits s 8 = (255, s1)" "at s1 (concat (replicate m (nbits 8 255)) @ nbits 8 v @ r)" by blast
  have "slot_loop len s = slot_loop (len + 255) s1" using Suc.prems by (subst slot_loop.simps) (simp add: g)
  moreover have "\<exists>s'. slot_loop (len + 255) s1 = Some (len + 255 + 255 * int m + v, s') \<and> at s' r"
    using Suc.prems by (intro Suc.IH [OF g(2)]) auto
  ultimately show ?case by (simp add: algebra_simps)
qed

lemma payload_enc:
  assumes "all_same_framing h \<noteq> 0" "frameLengthTypes h = 0 # ts" "muxSlotLengthBytes h = l # ls"
    and "0 \<le> n" "n < 65536" "at s (slot_bits n @ r)"
  shows "\<exists>s'. PayloadLengthInfo h s = Some (0, h\<lparr>muxSlotLengthBytes := n # ls\<rparr>, s') \<and> at s' r"
proof -
  have "\<exists>s'. slot_loop 0 s = Some (0 + 255 * int (nat (n div 255)) + n mod 255, s') \<and> at s' r"
    using assms by (intro slot_loop_enc) (auto simp: slot_bits_def)
  moreover have "0 + 255 * int (nat (n div 255)) + n mod 255 = n" using assms(4) by (simp add: pos_imp_zdiv_nonneg_iff)
  ultimately obtain s' where "slot_loop 0 s = Some (n, s')" "at s' r" by metis
  then show ?thesis using assms by (simp add: PayloadLengthInfo_def rd_def wr_def)
qed

section \<open>The configuration is safe\<close>

definition latm_wf :: "latm_header \<Rightarrow> bool" where
  "latm_wf h \<longleftrightarrow> length (frameLengthTypes h) = 4 \<and> length (latmBufferFullness h) = 4 \<and> length (latm_header.frameLength h) = 4
     \<and> length (muxSlotLengthBytes h) = 4 \<and> length (muxSlotLengthCoded h) = 4"

lemma latm_wf_upd [simp]:
  "latm_wf (h\<lparr>numSubFrames := x\<rparr>) = latm_wf h" "latm_wf (h\<lparr>audio_mux_version_A := x\<rparr>) = latm_wf h"
  "latm_wf (h\<lparr>audio_mux_version := x\<rparr>) = latm_wf h" "latm_wf (h\<lparr>taraFullness := x\<rparr>) = latm_wf h"
  "latm_wf (h\<lparr>all_same_framing := x\<rparr>) = latm_wf h" "latm_wf (h\<lparr>numProgram := x\<rparr>) = latm_wf h"
  "latm_wf (h\<lparr>numLayer := x\<rparr>) = latm_wf h" "latm_wf (h\<lparr>other_data_bits := x\<rparr>) = latm_wf h"
  "latm_wf (h\<lparr>config_crc := x\<rparr>) = latm_wf h"
  by (simp_all add: latm_wf_def)

lemma mux_versions_ok:
  assumes "bs_inv s" "latm_wf h"
  shows "bs_inv (snd (mux_versions h s)) \<and> latm_wf (fst (mux_versions h s))"
  using assms by (simp add: mux_versions_def Let_def split_beta BitStreamGetBit_def del: One_nat_def)

lemma mux_counts_ok:
  assumes "bs_inv s" "latm_wf h"
  shows "bs_inv (snd (snd (mux_counts h s))) \<and> latm_wf (fst (snd (mux_counts h s)))"
  using assms by (simp add: mux_counts_def Let_def split_beta BitStreamGetBit_def del: One_nat_def)

lemma mux_head_ok:
  assumes "bs_inv s" "latm_wf h"
  shows "bs_inv (snd (snd (mux_head h s))) \<and> latm_wf (fst (snd (mux_head h s)))"
proof -
  obtain h1 s1 where v: "mux_versions h s = (h1, s1)" by fastforce
  have 1: "bs_inv s1" "latm_wf h1" using mux_versions_ok [OF assms] by (simp_all add: v)
  have e: "mux_head h s = (if audio_mux_version_A h1 \<noteq> 0 then (- 1, h1, s1)
      else if audio_mux_version h1 = 1 then mux_counts (h1\<lparr>taraFullness := fst (LatmGetValue s1)\<rparr>) (snd (LatmGetValue s1))
      else mux_counts h1 s1)"
    by (simp only: mux_head_def v Let_def prod.case split_beta fst_conv snd_conv split: if_split) simp
  have "latm_wf (h1\<lparr>taraFullness := fst (LatmGetValue s1)\<rparr>)" using 1 by simp
  from mux_counts_ok [OF latm_value_inv [OF 1(1)] this] mux_counts_ok [OF 1] 1 show ?thesis
    unfolding e by simp
qed

text \<open>The number of fill bits behind the audio configuration of version 1.\<close>

definition asc_fill :: "AACDecoder \<Rightarrow> BitStream \<Rightarrow> int" where
  "asc_fill d bs = (let (ascLen, bs) = LatmGetValue bs in
     case ReadAudioSpecConfig d bs of None \<Rightarrow> 0 | Some (conlen, _, _) \<Rightarrow> if conlen < 0 then 0 else ascLen - conlen)"

definition fill_fits :: "latm_header \<Rightarrow> AACDecoder \<Rightarrow> BitStream \<Rightarrow> bool" where
  "fill_fits h d s \<longleftrightarrow> audio_mux_version h \<noteq> 0 \<longrightarrow> 0 \<le> asc_fill d s \<and> asc_fill d s \<le> 32"

lemma mux_audio_ok:
  assumes "bs_inv s" "fill_fits h d s"
  shows "wp (mux_audio h d s) (\<lambda>(ret, d', s'). bs_inv s' \<and> latm d' = latm d \<and> Fstream d' = Fstream d \<and> dec_frame_length d' = dec_frame_length d)"
proof (cases "audio_mux_version h = 0")
  case True
  then show ?thesis
    by (auto simp: mux_audio_def intro!: wp_mono [OF asc_takes [OF assms(1)]])
next
  case False
  obtain l s1 where l: "LatmGetValue s = (l, s1)" by fastforce
  have s1: "bs_inv s1" using latm_value_inv [OF assms(1)] by (simp add: l)
  obtain ret d' s' where a: "ReadAudioSpecConfig d s1 = Some (ret, d', s')" "bs_inv s'" "latm d' = latm d" "Fstream d' = Fstream d" "dec_frame_length d' = dec_frame_length d"
    using asc_takes [OF s1, of d] by (auto simp: wp_iff)
  have "\<not> ret < 0 \<Longrightarrow> bs_inv (BitStreamSkip s' (l - ret))"
    using assms(2) False a(2) by (intro skip_inv) (auto simp: fill_fits_def asc_fill_def l a(1))
  then show ?thesis using False a by (simp add: mux_audio_def l)
qed

lemma mux_frame_length_ok:
  "bs_inv s \<Longrightarrow> latm_wf h \<Longrightarrow> wp (mux_frame_length h s) (\<lambda>(h', s'). bs_inv s' \<and> latm_wf h')"
  by (auto simp: mux_frame_length_def Let_def split_beta BitStreamGetBit_def latm_wf_def simp del: One_nat_def)

lemma mux_other_ok:
  assumes "bs_inv s" "latm_wf h"
  shows "wp (mux_other h s) (\<lambda>(h', s'). bs_inv s' \<and> latm_wf h')"
proof -
  have "bs_inv (snd (BitStreamGetBits s 1))" using assms(1) by (simp del: One_nat_def)
  then show ?thesis
    using assms by (auto simp: mux_other_def Let_def split_beta BitStreamGetBit_def latm_value_inv simp del: One_nat_def
        intro!: wp_mono [OF other_loop_ends])
qed

lemma mux_crc_ok: "bs_inv s \<Longrightarrow> latm_wf h \<Longrightarrow> bs_inv (snd (mux_crc h s)) \<and> latm_wf (fst (mux_crc h s))"
  by (auto simp: mux_crc_def Let_def split_beta BitStreamGetBit_def simp del: One_nat_def)

lemma payload_ok:
  "bs_inv s \<Longrightarrow> latm_wf h \<Longrightarrow> wp (PayloadLengthInfo h s) (\<lambda>(ret, h', s'). bs_inv s' \<and> latm_wf h' \<and> (ret = 0 \<or> ret = - 1))"
  by (auto simp: PayloadLengthInfo_def Let_def split_beta latm_wf_def intro!: wp_mono [OF slot_loop_ends])

definition mux_fits :: "AACDecoder \<Rightarrow> BitStream \<Rightarrow> bool" where
  "mux_fits d s = (case latm d of None \<Rightarrow> False | Some h \<Rightarrow>
     (let (same, s) = BitStreamGetBit s; (ret, h, s) = mux_head h s in same = 0 \<and> 0 \<le> ret \<longrightarrow> fill_fits h d s))"

lemma mux_config_ok:
  assumes "bs_inv s" "latm d = Some h" "latm_wf h" "mux_fits d s"
  shows "wp (ReadMUXConfig d s) (\<lambda>(ret, d', s'). bs_inv s' \<and> (\<exists>h'. latm d' = Some h' \<and> latm_wf h')
    \<and> Fstream d' = Fstream d \<and> dec_frame_length d' = dec_frame_length d \<and> (ret = 0 \<or> ret = - 1))"
proof -
  define s1 where "s1 = snd (BitStreamGetBits s 1)"
  have s1: "bs_inv s1" using assms(1) by (simp add: s1_def del: One_nat_def)
  obtain ret h1 s2 where h: "mux_head h s1 = (ret, h1, s2)" by (metis prod_cases3)
  have s2: "bs_inv s2" "latm_wf h1" using mux_head_ok [OF s1 assms(3)] by (simp_all add: h)
  show ?thesis
  proof (cases "fst (BitStreamGetBits s 1) = 0 \<and> 0 \<le> ret")
    case False
    then show ?thesis
      using assms s1 s2 by (auto simp: ReadMUXConfig_def BitStreamGetBit_def split_beta Let_def s1_def [symmetric] h simp del: One_nat_def)
  next
    case True
    have f: "fill_fits h1 d s2"
      using assms(4) True by (simp add: mux_fits_def assms(2) BitStreamGetBit_def split_beta Let_def s1_def [symmetric] h del: One_nat_def)
    obtain r2 d2 s3 where a: "mux_audio h1 d s2 = Some (r2, d2, s3)" "bs_inv s3" "latm d2 = latm d" "Fstream d2 = Fstream d" "dec_frame_length d2 = dec_frame_length d"
      using mux_audio_ok [OF s2(1) f] by (auto simp: wp_iff)
    obtain h3 s4 where b: "mux_frame_length h1 s3 = Some (h3, s4)" "bs_inv s4" "latm_wf h3"
      using mux_frame_length_ok [OF a(2) s2(2)] by (auto simp: wp_iff)
    obtain h5 s5 where c: "mux_other h3 s4 = Some (h5, s5)" "bs_inv s5" "latm_wf h5"
      using mux_other_ok [OF b(2,3)] by (auto simp: wp_iff)
    show ?thesis
      using True s2 a b c mux_crc_ok [OF c(2,3)] assms(2)
      by (simp add: ReadMUXConfig_def BitStreamGetBit_def split_beta Let_def s1_def [symmetric] h del: One_nat_def)
  qed
qed

text \<open>The state in which \<open>ParserLatm\<close> reads the configuration.\<close>

definition latm_start :: "AACDecoder \<Rightarrow> AACDecoder" where
  "latm_start d = (let (n, d) = dget (snd (dget d 11)) 13 in d\<lparr>dec_frame_length := n + 3\<rparr>)"

lemma parser_latm_ok:
  assumes "bs_inv (dbs d)" "latm d = Some h" "latm_wf h" "0 \<le> fs_length (Fstream d)" "fs_length (Fstream d) < 2 ^ 31"
    and "mux_fits (latm_start d) (dbs (latm_start d))"
  shows "wp (ParserLatm d) (\<lambda>(ret, d'). bs_inv (dbs d') \<and> (\<exists>h'. latm d' = Some h' \<and> latm_wf h')
    \<and> ret \<in> {0, TT_AACDEC_ERR_AAC_UNSPROFILE, TTKErrUnderflow}
    \<and> (ret = 0 \<longrightarrow> dec_frame_length d' \<le> fs_length (Fstream d')))"
proof -
  define d1 where "d1 = snd (dget d 11)"
  define d2 where "d2 = latm_start d"
  have d1: "bs_inv (dbs d1)" "latm d1 = Some h" "Fstream d1 = Fstream d" using assms(1,2) by (simp_all add: d1_def dget_def split_beta)
  have d2: "bs_inv (dbs d2)" "latm d2 = Some h" "Fstream d2 = Fstream d" "dec_frame_length d2 = fst (dget d1 13) + 3"
    using assms(1,2) by (simp_all add: d2_def latm_start_def d1_def dget_def split_beta)
  have l: "s32 (fs_length (Fstream d)) = fs_length (Fstream d)" using assms(4,5) by (intro s32_id) auto
  obtain ret d3 s3 where m: "ReadMUXConfig d2 (dbs d2) = Some (ret, d3, s3)" "bs_inv s3" "\<exists>h'. latm d3 = Some h' \<and> latm_wf h'"
      "Fstream d3 = Fstream d2" "dec_frame_length d3 = dec_frame_length d2" "ret = 0 \<or> ret = - 1"
    using mux_config_ok [OF d2(1,2) assms(3) assms(6) [folded d2_def]] by (auto simp: wp_iff)
  have f: "Fstream (snd (dget (snd (dget d 11)) 13)) = Fstream d" by (simp add: dget_def split_beta)
  have e: "ParserLatm d = (if fst (dget d 11) \<noteq> 0x2b7 then Some (TT_AACDEC_ERR_AAC_UNSPROFILE, d1)
      else if dec_frame_length d2 > fs_length (Fstream d2) then Some (TTKErrUnderflow, d2)
      else do { (ret, d, bs) \<leftarrow> ReadMUXConfig d2 (dbs d2);
                let d = d\<lparr>dbs := bs\<rparr>;
                if ret < 0 then Some (TT_AACDEC_ERR_AAC_UNSPROFILE, d)
                else do { h \<leftarrow> latm d;
                          (ret, h, bs) \<leftarrow> PayloadLengthInfo h (dbs d);
                          let d = d\<lparr>latm := Some h, dbs := bs\<rparr>;
                          Some (if ret < 0 then TT_AACDEC_ERR_AAC_UNSPROFILE else 0, d) } })"
    using l f by (simp add: ParserLatm_def d2_def latm_start_def split_beta Let_def d1_def del: err_defs)
  obtain h3 where h3: "latm d3 = Some h3" "latm_wf h3" using m(3) by blast
  show ?thesis
    unfolding e using m h3 d1 d2 assms(3)
    by (auto simp: Let_def TTKErrUnderflow_def intro!: wp_mono [OF payload_ok [OF m(2) h3(2)]])
qed

section \<open>The audio configuration read back\<close>

text \<open>
  Object type (with its escape), rate and channels as the standard writes them; a rate is the index of an
  entry of the table, or explicit.
\<close>

definition profile_bits :: "int \<Rightarrow> bool list" where
  "profile_bits p = (if p < 31 then nbits 5 p else nbits 5 31 @ nbits 6 (p - 32))"

definition profile_fits :: "int \<Rightarrow> bool" where
  "profile_fits p \<longleftrightarrow> 0 \<le> p \<and> p < 96 \<and> p \<noteq> 31"

fun rate_bits :: "int + int \<Rightarrow> bool list" where
  "rate_bits (Inl i) = nbits 4 i"
| "rate_bits (Inr f) = nbits 4 15 @ nbits 24 f"

fun rate_fits :: "int + int \<Rightarrow> bool" where
  "rate_fits (Inl i) = (0 \<le> i \<and> i < 12)"
| "rate_fits (Inr f) = fits 24 f"

fun rate_value :: "int + int \<Rightarrow> int" where
  "rate_value (Inl i) = sampRateTab ! nat i"
| "rate_value (Inr f) = f"

definition asc_bits :: "int \<Rightarrow> int + int \<Rightarrow> int \<Rightarrow> bool list" where
  "asc_bits p rate chans = profile_bits p @ rate_bits rate @ nbits 4 chans"

lemma profile_enc:
  assumes "at s (profile_bits p @ r)" "profile_fits p"
  shows "\<exists>n s'. asc_profile s = (p, n, s') \<and> at s' r"
proof (cases "p < 31")
  case True
  have "\<exists>s'. BitStreamGetBits s 5 = (p, s') \<and> at s' r"
    using assms True by (intro at_step) (auto simp: profile_bits_def profile_fits_def fits_def)
  then show ?thesis using True by (auto simp: asc_profile_def)
next
  case False
  have "\<exists>s'. BitStreamGetBits s 5 = (31, s') \<and> at s' (nbits 6 (p - 32) @ r)"
    using assms False by (intro at_step) (auto simp: profile_bits_def fits_def)
  then obtain s1 where 1: "BitStreamGetBits s 5 = (31, s1)" "at s1 (nbits 6 (p - 32) @ r)" by blast
  have "\<exists>s'. BitStreamGetBits s1 6 = (p - 32, s') \<and> at s' r"
    using assms False 1(2) by (intro at_step) (auto simp: profile_fits_def fits_def)
  then show ?thesis using 1 by (auto simp: asc_profile_def)
qed

lemma rate_enc:
  assumes "at s (rate_bits f @ r)" "rate_fits f"
  shows "\<exists>n s'. asc_rate s = Some (Some (rate_value f), n, s') \<and> at s' r"
proof (cases f)
  case (Inl i)
  have "\<exists>s'. BitStreamGetBits s 4 = (i, s') \<and> at s' r"
    using assms Inl by (intro at_step) (auto simp: fits_def)
  then show ?thesis using Inl assms(2) by (auto simp: asc_rate_def NUM_SAMPLE_RATES_def rd_def sampRateTab_def)
next
  case (Inr x)
  have "\<exists>s'. BitStreamGetBits s 4 = (15, s') \<and> at s' (nbits 24 x @ r)"
    using assms Inr by (intro at_step) (auto simp: fits_def)
  then obtain s1 where 1: "BitStreamGetBits s 4 = (15, s1)" "at s1 (nbits 24 x @ r)" by blast
  have "\<exists>s'. BitStreamGetBits s1 24 = (x, s') \<and> at s' r"
    using assms Inr 1(2) by (intro at_step) auto
  then show ?thesis using 1 Inr by (auto simp: asc_rate_def)
qed

lemma asc_enc:
  assumes "at s (asc_bits p rate chans @ r)" "profile_fits p" "rate_fits rate" "fits 4 chans"
  shows "\<exists>ret d' s'. ReadAudioSpecConfig d s = Some (ret, d', s')
    \<and> d' = d\<lparr>sampleRate := rate_value rate, profile := p, channelNum := chans\<rparr>
    \<and> bs_inv s' \<and> 0 \<le> ret \<and> bsbits s' = drop (nat ret) (bsbits s)"
proof -
  have i: "bs_inv s" using assms(1) by (simp add: at_def)
  obtain n s1 where 1: "asc_profile s = (p, n, s1)" "at s1 (rate_bits rate @ nbits 4 chans @ r)"
    using profile_enc [of s p "rate_bits rate @ nbits 4 chans @ r"] assms(1,2) by (auto simp: asc_bits_def)
  obtain m s2 where 2: "asc_rate s1 = Some (Some (rate_value rate), m, s2)" "at s2 (nbits 4 chans @ r)"
    using rate_enc [OF 1(2) assms(3)] by blast
  have 3: "fst (BitStreamGetBits s2 4) = chans" using at_get [OF 2(2)] assms(4) by simp
  from asc_known [OF i 1(1) 2(1), of d] show ?thesis by (auto simp: wp_iff 3 takes_def)
qed

end
