(* ===== verification/Examples.thy ===== *)
theory Examples
  imports StreamOf Channels HeaderCode Latm
begin

text \<open>
  Concrete data for the witnesses: the data of a channel, and a decoder as \<open>AACDecoderInit\<close> leaves it
  (zeroed memory) for 44.1 kHz stereo.
\<close>

definition ics_example :: ICS_Data where
  "ics_example = \<lparr>ics_reserved_bit = 0, window_sequence = 0, window_shape = 0, max_sfb = 2,
     scale_factor_grouping = 0, predictor_data_present = 0, predictor_reset = 0,
     predictor_reset_group_number = 0, prediction_used = replicate 128 0, num_window_groups = 1,
     window_group_length = replicate 8 1\<rparr>"

definition pulse_example :: Pulse_Data where
  "pulse_example = \<lparr>number_pulse = 0, pulse_start_sfb = 1, pulse_offset = [3, 0, 0, 0], pulse_amp = [7, 0, 0, 0]\<rparr>"

definition tns_example :: TNS_Data where
  "tns_example = \<lparr>n_filt = 0, coef_res = 0, tns_length = [0, 0, 0, 0], tns_order = [0, 0, 0, 0],
     tns_direction = [0, 0, 0, 0], coef_compress = [0, 0, 0, 0], tns_coef = replicate 4 (replicate 32 0)\<rparr>"

definition ltp_example :: LTP_Data where
  "ltp_example = \<lparr>last_band = 0, data_present = 0, lag = 0, lag_updated = 0, ltp_coef_idx = 0,
     long_used = replicate 128 0, short_used = replicate 8 0, short_lag_present = replicate 8 0, short_lag = replicate 8 0\<rparr>"

definition pce_example :: program_config where
  "pce_example = \<lparr>element_instance_tag = 0, object_type = 0, sampling_frequency_index = 0,
     num_front_channel_elements = 0, num_side_channel_elements = 0, num_back_channel_elements = 0,
     num_lfe_channel_elements = 0, num_assoc_data_elements = 0, num_valid_cc_elements = 0,
     mono_mixdown_present = 0, mono_mixdown_element_number = 0, stereo_mixdown_present = 0,
     stereo_mixdown_element_number = 0, matrix_mixdown_idx_present = 0, matrix_mixdown_idx = 0,
     pseudo_surround_enable = 0, front_element_is_cpe = replicate 16 0, front_element_tag_select = replicate 16 0,
     side_element_is_cpe = replicate 16 0, side_element_tag_select = replicate 16 0,
     back_element_is_cpe = replicate 16 0, back_element_tag_select = replicate 16 0,
     lfe_element_tag_select = replicate 16 0, assoc_data_element_tag_select = replicate 16 0,
     cc_element_is_ind_sw = replicate 16 0, valid_cc_element_tag_select = replicate 16 0,
     comment_field_bytes = 0, num_front_channels = 0, num_side_channels = 0, num_back_channels = 0,
     num_lfe_channels = 0, channels = 0\<rparr>"

definition adts_example :: adts_header where
  "adts_example = \<lparr>syncword = 0, ID = 0, layer = 0, protection_absent = 0, profile_ObjectType = 0, adts_sfi = 0,
     private_bit = 0, channel_configuration = 0, original = 0, home = 0, copyright_identification_bit = 0,
     copyright_identification_start = 0, frame_length = 0, adts_buffer_fullness = 0,
     number_of_raw_data_blocks_in_frame = 0, crc_check = 0\<rparr>"

definition fs_example :: FrameStream where
  "fs_example = \<lparr>fs_start = 0, fs_input = 0, this_frame = 0, uselength = 0, inlen = 0, fs_length = 0,
     storelength = 0, maxLength = 0\<rparr>"

definition adif_example :: adif_header where
  "adif_example = \<lparr>adif_id = 0, copyright_id_present = 0, copyright_id = replicate 9 0, original_copy = 0, adif_home = 0,
     bitstream_type = 0, bitrate = 0, num_program_config_elements = 0, adif_buffer_fullness = 0,
     adif_pce = replicate 16 pce_example\<rparr>"

definition dec_example :: "BitStream \<Rightarrow> AACDecoder" where
  "dec_example s = \<lparr>pce = pce_example, pce_set = 0, channel_position = replicate 8 0, channel_offsize = replicate 8 0,
     ics_data = replicate 2 ics_example, global_gain = 0, common_window = 0,
     scaleFactors = replicate 2 (replicate 128 0), sfb_cb = replicate 2 (replicate 128 0), pns_seed = 0,
     pns_data_present = replicate 2 0,
     pns_sfb_flag = replicate 2 (replicate 128 0), pns_sfb_mode = replicate 128 0, ms_mask_present = 0,
     ms_used = replicate 8 (replicate 64 0), intensity_used = 0, is_used = replicate 8 (replicate 64 0), gbCurrent = replicate 2 0,
     pulse_data_present = replicate 2 0, pulse_data = replicate 2 pulse_example, tns_data_present = replicate 2 0,
     tns_data = replicate 2 (replicate 8 tns_example), tns_lpc = replicate 48 0,
     ltp_data_of = replicate 2 ltp_example, ltp_lag = replicate 8 0, ltp_coef = replicate 8 None, t_est_buf = None,
     f_est_buf = None, pred_stat = replicate 8 None, prevWinShape = replicate 8 0, coef = replicate 2 (replicate 1024 0), tmpBuffer = replicate 4096 0, overlap = replicate 8 None, rawSampleBuf = replicate 8 0, rawSampleBytes = 0, rawSampleFBits = 0, sbr = False, ps_used = 0, fillExtType = 0, fillCount = 0,
     fillBuf = replicate 269 0, dbs = s, adts = adts_example, adts_new = adts_example, adif = adif_example, latm = None, old_id_syn_ele = 0,
     id_syn_ele = - 1, first_id_syn_ele = 0, decodedChans = 0, ChansMode = 0, elementChans = 0, decodedSBRChans = 0, elementSBRChans = 0,
     dec_frame_length = 0, channelNum = 2, sampRateIdx = 4, sampleRate = 44100, sampleBits = 16, profile = 2,
     frametype = 1, framenumber = 0, profilenumber = 0, Checknumber = 0, sbrEnabled = 0,
     chSpec = 0x31, seletedChs = 0xffff, seletedChDecoded = 0,
     seletedSBRChDecoded = 0, disableSBR = 0, disablePS = 0, decoderNum = 0, nFlushFlag = 0, Fstream = fs_example,
     outAudioFormat = \<lparr>SampleRate = 0, Channels = 0, SampleBits = 0\<rparr>\<rparr>"

lemma dec_example_ok [simp]: "dec_ok (dec_example s)"
  by (simp add: dec_ok_def dec_example_def rows_ok_def list_all_iff ics_wf_def ics_example_def ltp_ok_def
      ltp_example_def pulse_wf_def pulse_example_def tns_wf_def tns_example_def)

lemma dec_example_fields [simp]: "dbs (dec_example s) = s" "common_window (dec_example s) = 0" "sampRateIdx (dec_example s) = 4"
  by (simp_all add: dec_example_def)

lemma dec_example_headers [simp]: "map_ok (dec_example s)" "adif_wf (adif (dec_example s))" "pce_wf pce_example"
  by (simp_all add: dec_example_def map_ok_def chan_wf_def adif_wf_def adif_example_def pce_wf_def pce_example_def list_all_iff)

text \<open>A header as the standard writes it, and a program configuration of five channels and a low frequency one.\<close>

definition adts_header_example :: adts_header where
  "adts_header_example = adts_example\<lparr>syncword := 0xFFF, protection_absent := 1, profile_ObjectType := 2, adts_sfi := 4,
     channel_configuration := 2, frame_length := 371, adts_buffer_fullness := 0x7FF\<rparr>"

definition pce_code_example :: program_config where
  "pce_code_example = pce_example\<lparr>object_type := 1, sampling_frequency_index := 3, num_front_channel_elements := 2,
     num_back_channel_elements := 1, num_lfe_channel_elements := 1, mono_mixdown_present := 1, mono_mixdown_element_number := 7\<rparr>"

definition pce_lists_example :: pce_lists where
  "pce_lists_example = \<lparr>fronts = [(0, 0), (1, 0)], sides = [], backs = [(1, 1)], lfes = [0], assocs = [], ccs = [], comment = [65, 66]\<rparr>"

definition adif_stream :: BitStream where
  "adif_stream = stream_of (adif_bits 0x41444946 0 0 1 0 0 @ pce_bits pce_code_example pce_lists_example [])"

lemma pce_code_example_ok: "pce_code pce_code_example pce_lists_example"
  by (simp add: pce_code_def pce_head_fits_def mixdown_fits_def fits_def pce_code_example_def pce_example_def pce_lists_example_def)

lemma adif_stream_parsed: "\<exists>d'. ParseADIFHeader (dec_example adif_stream) = Some (0, d') \<and> channelNum d' = 6"
proof -
  let ?x = "adif_bits 0x41444946 0 0 1 0 0 @ pce_bits pce_code_example pce_lists_example []"
  have "length ?x = 144"
    by (simp add: adif_bits_def pce_bits_def pce_head_bits_def mixdown_bits_def pce_list_bits_def elem_bits_def tag_bits_def
        pce_code_example_def pce_example_def pce_lists_example_def)
  then have "at adif_stream (?x @ [])" by (simp add: at_def stream_of_whole adif_stream_def)
  then obtain a' s' where a: "adif_frame adif_stream adif_example = Some (a', s')"
      "adif_pce a' ! 0 = pce_result (adif_pce adif_example ! 0) pce_code_example pce_lists_example"
    using adif_frame_enc [where a = adif_example and pad = "[]" and r = "[]" and ident = "0x41444946" and orig = 0 and hm = 0
        and kind = 1 and rate = 0 and full = 0 and s = adif_stream, OF _ pce_code_example_ok]
      dec_example_headers(2) by (auto simp: fits_def dec_example_def)
  have "adif_wf a'" using any.adif_frame_ok [of adif_stream adif_example] a(1) dec_example_headers(2)
    by (auto simp: adif_stream_def dec_example_def)
  then have r: "rd (adif_pce a') 0 = Some (adif_pce a' ! 0)" by (simp add: adif_wf_def rd_Some)
  have c: "channels (adif_pce a' ! 0) = 6" "object_type (adif_pce a' ! 0) = 1" "sampling_frequency_index (adif_pce a' ! 0) = 3"
    by (simp_all add: a(2) pce_result_def pce_mixes_def pce_heads_def pce_lists_example_def pce_code_example_def)
  have "pce_wf (adif_pce a' ! 0)" using \<open>adif_wf a'\<close> by (simp add: adif_wf_def list_all_length)
  then obtain b where b: "dual_mono (adif_pce a' ! 0) = Some b" using dual_mono_total by (auto simp: wp_iff)
  have p: "dbs (dec_example adif_stream) = adif_stream" "adif (dec_example adif_stream) = adif_example" by (simp_all add: dec_example_def)
  show ?thesis
    unfolding ParseADIFHeader_def p a(1)
    by (simp add: r adif_apply_def c b Let_def updateProfile_def aot_defs MAX_CHANNELS_def NUM_SAMPLE_RATES_def sampRateTab_def rd_Some)
qed

text \<open>A stream at its end: every read gives zero.\<close>

definition dry_stream :: BitStream where "dry_stream = BitStreamInit (\<lambda>_. 0) 0 0"

lemma dry_good [simp]: "good dry_stream"
proof -
  have "length (bsbits dry_stream) = 0" unfolding length_bsbits by (simp add: dry_stream_def)
  then have "bsbits dry_stream = []" by (simp only: length_0_conv)
  then show ?thesis by (simp add: good_def esc_free_def) (simp add: dry_stream_def)
qed

text \<open>\<open>dry\<close>: nothing left to read; every read then gives zero.\<close>

definition dry :: "BitStream \<Rightarrow> bool" where
  "dry s \<longleftrightarrow> bs_inv s \<and> bsbits s = []"

lemma dry_get: "dry s \<Longrightarrow> 0 < n \<Longrightarrow> n \<le> 32 \<Longrightarrow> fst (BitStreamGetBits s n) = 0 \<and> dry (snd (BitStreamGetBits s n))"
  by (simp add: dry_def bs_get)

lemma dry_escape: "dry s \<Longrightarrow> escape y s = Some (v, s') \<Longrightarrow> dry s'"
proof (cases "y = 16")
  case True
  assume d: "dry s" "escape y s = Some (v, s')"
  have p: "esc_prefix s 4 = Some (4, snd (BitStreamGetBits s 1))"
    using dry_get [OF d(1), of 1] by (subst esc_prefix.simps) (simp add: split_beta del: One_nat_def)
  then have "s' = snd (BitStreamGetBits (snd (BitStreamGetBits s 1)) 4)"
    using d(2) True by (simp add: escape_def split_beta)
  then show "dry s'" using dry_get d(1) by simp
qed (simp add: escape_def)

interpretation dry: spectral_reader dry
  by unfold_locales ((erule (1) dry_escape | simp add: dry_def bs_get skip_inv skip_bits align_inv align_bits)+)

lemma dry_window: "dry s \<Longrightarrow> window_bits s = 0"
  using dry_get by (simp add: window_bits_def)

lemma dry_stream_dry [simp]: "dry dry_stream"
proof -
  have "length (bsbits dry_stream) = 0" unfolding length_bsbits by (simp add: dry_stream_def)
  then have "bsbits dry_stream = []" by (simp only: length_0_conv)
  then show ?thesis by (simp add: dry_def) (simp add: dry_stream_def)
qed

text \<open>A dry decoder's channel streams have long windows.\<close>

lemma dry_fits: "dec_run dry d \<Longrightarrow> ch = 0 \<or> ch = 1 \<Longrightarrow> common_window d = 0 \<Longrightarrow> stream_fits malloc d ch"
  by (rule dry.stream_fits_long) (auto simp: dec_run_def dry_window EIGHT_SHORT_SEQUENCE_def)

lemma dry_pair_fits:
  assumes "dec_run dry d" "sampRateIdx d < 11"
  shows "pair_fits malloc d"
proof -
  define d1 where "d1 = (snd (dget (snd (dget d 4)) 1))\<lparr>common_window := 0\<rparr>"
  have d1: "dec_run dry d1" "sampRateIdx d1 < 11" "common_window d1 = 0"
    using assms by (simp_all add: d1_def) (simp add: dget_simps)
  have "fst (dget (snd (dget d 4)) 1) = 0"
    using assms(1) dry_get by (simp add: dget_simps dec_run_def)
  then have h: "pair_head malloc d = Some (0, d1)"
    by (simp add: pair_head_def split_beta Let_def d1_def)
  have f: "stream_fits malloc d1 0" using d1 by (intro dry_fits) auto
  have "wp (individual_channel_stream malloc d1 0) (stream_post dry d1)"
    using d1 f by (intro dry.ics_stream_ok) auto
  then obtain r d2 where s: "individual_channel_stream malloc d1 0 = Some (r, d2)" "dec_run dry d2" "same_head d1 d2"
    by (auto simp: wp_iff stream_post_def)
  have "stream_fits malloc d2 1" using s d1 by (intro dry_fits) (auto simp: same_head_def)
  with h f s show ?thesis by (simp add: pair_fits_def)
qed

text \<open>A transport stream that keeps the configuration of its predecessor.\<close>

definition latm_example :: latm_header where
  "latm_example = \<lparr>streamId = replicate 4 0, progSIndex = replicate 4 0, laySIndex = replicate 4 0, frameLengthTypes = replicate 4 0,
     latmBufferFullness = replicate 4 0, frameLength = replicate 4 0, muxSlotLengthBytes = replicate 4 0,
     muxSlotLengthCoded = replicate 4 0, progCIndx = replicate 4 0, layCIndx = replicate 4 0, AuEndFlag = replicate 4 0,
     numLayer = 0, objTypes = 0, audio_mux_version = 0, audio_mux_version_A = 0, all_same_framing = 1, config_crc = 0,
     taraFullness = 0, other_data_bits = 0, numProgram = 0, numSubFrames = 0, numChunk = 0, samplerate = 0,
     latm_channel = 0, muxlength = 0\<rparr>"

definition latm_stream :: BitStream where
  "latm_stream = stream_of (nbits 11 0x2b7 @ nbits 13 5 @ nbits 1 1 @ replicate 7 False)"

definition latm_decoder :: AACDecoder where
  "latm_decoder = (dec_example latm_stream)\<lparr>latm := Some latm_example, Fstream := fs_example\<lparr>fs_length := 8\<rparr>\<rparr>"

lemma latm_decoder_fits: "mux_fits (latm_start latm_decoder) (dbs (latm_start latm_decoder))"
proof -
  have "at latm_stream (nbits 11 0x2b7 @ nbits 13 5 @ nbits 1 1 @ replicate 7 False)"
    by (simp add: at_def latm_stream_def stream_of_whole)
  note 1 = at_get(2) [OF this]
  have a: "at (snd (BitStreamGetBits latm_stream 11)) (nbits 13 5 @ nbits 1 1 @ replicate 7 False)"
    by (intro 1) (auto simp: fits_def)
  have b: "at (snd (BitStreamGetBits (snd (BitStreamGetBits latm_stream 11)) 13)) (nbits 1 1 @ replicate 7 False)"
    by (intro at_get(2) [OF a]) (auto simp: fits_def)
  have c: "fst (BitStreamGetBits (snd (BitStreamGetBits (snd (BitStreamGetBits latm_stream 11)) 13)) 1) = 1"
    by (intro at_get(1) [OF b]) (auto simp: fits_def)
  show ?thesis
    by (simp add: mux_fits_def latm_start_def latm_decoder_def dget_def split_beta Let_def BitStreamGetBit_def c del: One_nat_def)
qed

end
