(* ===== verification/Outer.thy ===== *)
theory Outer
  imports Channels
begin

text \<open>
  What the parsers of the elements leave alone. Whatever a channel, data or fill element does when it
  has a result at all, it changes only the fields of the decoder that belong to the elements and moves the
  bit reader: \<open>wlp m Q\<close> says that a result of \<open>m\<close>, if there is one, satisfies \<open>Q\<close>. Nothing is assumed about
  the decoder here, so the statements also hold on streams on which a parser has no defined result
  later.
\<close>

section \<open>Partial correctness\<close>

definition wlp :: "'a option \<Rightarrow> ('a \<Rightarrow> bool) \<Rightarrow> bool" where
  "wlp m Q = (case m of None \<Rightarrow> True | Some x \<Rightarrow> Q x)"

lemma wlp_Some [simp]: "wlp (Some x) Q = Q x"
  and wlp_None [simp]: "wlp None Q"
  and wlp_bind [simp]: "wlp (Option.bind m f) Q = wlp m (\<lambda>x. wlp (f x) Q)"
  by (simp_all add: wlp_def split: Option.bind_splits option.splits)

lemma wlp_if [simp]: "wlp (if b then m else m') Q = (if b then wlp m Q else wlp m' Q)"
  by simp

lemma wlp_prod [simp]: "wlp (case p of (x, y) \<Rightarrow> f x y) Q = wlp (f (fst p) (snd p)) Q"
  by (simp add: split_beta)

lemma wlp_any: "(\<And>x. Q x) \<Longrightarrow> wlp m Q"
  by (simp add: wlp_def split: option.splits)

lemma wlp_mono: "wlp m P \<Longrightarrow> (\<And>x. P x \<Longrightarrow> Q x) \<Longrightarrow> wlp m Q"
  by (auto simp: wlp_def split: option.splits)

lemma wlpD: "wlp m Q \<Longrightarrow> m = Some x \<Longrightarrow> Q x"
  by (simp add: wlp_def)

lemma wlpI: "(\<And>x. m = Some x \<Longrightarrow> Q x) \<Longrightarrow> wlp m Q"
  by (simp add: wlp_def split: option.splits)

lemma wp_wlp: "wp m Q \<Longrightarrow> wlp m Q"
  by (cases m) simp_all

text \<open>Of an array access only the result matters here, not whether it is in bounds.\<close>

lemma wlp_rd: "(\<And>x. Q x) \<Longrightarrow> wlp (rd xs i) Q"
  and wlp_wr: "(\<And>ys. R ys) \<Longrightarrow> wlp (wr ys' i v) R"
  and wlp_modify: "(\<And>ys. R ys) \<Longrightarrow> wlp (modify ys' i f) R"
  and wlp_fill_cb: "(\<And>ys. S ys) \<Longrightarrow> wlp (fill_cb k cb row p) S"
  and wlp_group_loop: "(\<And>p. T p) \<Longrightarrow> wlp (group_loop k g b n lens) T"
  by (simp_all add: wlp_any)

lemmas wlp_arrays = wlp_rd wlp_wr wlp_modify wlp_fill_cb wlp_group_loop

section \<open>The loops keep the reader\<close>

context reader begin

lemma flags_keep: "P bs \<Longrightarrow> wlp (flags_loop k i xs bs) (\<lambda>(ys, bs'). P bs')"
  by (induction k arbitrary: i xs bs) (auto simp: Let_def simp del: One_nat_def intro!: wlp_arrays)

lemma ltp_short_keep: "P bs \<Longrightarrow> wlp (ltp_short_loop k w ltp bs) (\<lambda>(l, bs'). P bs')"
  by (induction k arbitrary: w ltp bs) (auto simp: Let_def simp del: One_nat_def intro!: wlp_arrays)

lemma ltp_data_keep: "P bs \<Longrightarrow> wlp (ltp_data ics ltp bs) (\<lambda>(l, bs'). P bs')"
  by (auto simp: ltp_data_def Let_def intro!: wlp_mono [OF ltp_short_keep] wlp_mono [OF flags_keep])

lemma sect_loop_keep:
  "P bs \<Longrightarrow> 0 < bits \<Longrightarrow> bits \<le> 8 \<Longrightarrow> wlp (sect_loop bits lim msfb k i row p bs) (\<lambda>(ret, k', row', p', bs'). P bs')"
proof (induction "nat (lim + 1 - i)" arbitrary: k i row p bs rule: less_induct)
  case less
  let ?b1 = "snd (BitStreamGetBits bs 4)"
  let ?v = "fst (BitStreamGetBits ?b1 bits)" and ?b2 = "snd (BitStreamGetBits ?b1 bits)"
  have b1: "P ?b1" using less.prems(1) by simp
  have b2: "P ?b2" "0 \<le> ?v" "?v < 2 ^ bits" using b1 less.prems(2,3) P_range [OF b1] by auto
  have IH: "i < lim \<Longrightarrow> P b \<Longrightarrow> wlp (sect_loop bits lim msfb k' (i + 1) row' p' b) (\<lambda>(ret, k', row', p', bs'). P bs')" for k' row' p' b
    using less.prems by (intro less.hyps) auto
  show ?case
    using less.prems(1)
    by (subst sect_loop.simps)
      (auto simp: Let_def intro!: wlp_mono [OF wp_wlp [OF sect_len_loop_ok [OF b2(1) less.prems(2,3) order_refl b2(2,3)]]] wlp_arrays IH)
qed

lemma sect_groups_keep:
  "P bs \<Longrightarrow> 0 < bits \<Longrightarrow> bits \<le> 8 \<Longrightarrow> wlp (sect_groups g bits lim msfb row p bs) (\<lambda>(ret, row', bs'). P bs')"
  by (induction g arbitrary: row p bs) (auto intro!: wlp_mono [OF sect_loop_keep])

lemma section_data_keep: "P bs \<Longrightarrow> wlp (section_data ics row bs) (\<lambda>(ret, row', bs'). P bs')"
  by (auto simp: section_data_def intro!: sect_groups_keep)

lemma scale_keep: "P bs \<Longrightarrow> wlp (DecodeHuffmanData huffTabScaleInfo bs) (\<lambda>p. P (snd p))"
  using scale_range [OF P_inv] P_skip by (fastforce simp: wlp_def split: option.splits)

lemma sf_loop_keep: "P bs \<Longrightarrow> wlp (sf_loop k g cbs pcm noise ispos sf row bs) (\<lambda>(ret, row', bs'). P bs')"
  by (induction k arbitrary: g pcm noise ispos sf row bs)
    (auto simp: Let_def intro!: wlp_arrays intro: wlp_mono [OF scale_keep])

lemma scale_factors_keep: "P bs \<Longrightarrow> wlp (scale_factor_data gain ics cbs row bs) (\<lambda>(ret, row', bs'). P bs')"
  unfolding scale_factor_data_def by (rule sf_loop_keep)

lemma pulse_loop_keep: "P bs \<Longrightarrow> wlp (pulse_loop k i pi bs) (\<lambda>(pi', bs'). P bs')"
  by (induction k arbitrary: i pi bs) (auto simp: Let_def intro!: wlp_arrays)

lemma read_pulse_keep: "P bs \<Longrightarrow> wlp (read_pulse_data pi bs) (\<lambda>(pi', bs'). P bs')"
  by (auto simp: read_pulse_data_def Let_def intro!: pulse_loop_keep)

lemma coef_loop_keep: "P bs \<Longrightarrow> 0 < bits \<Longrightarrow> bits \<le> 8 \<Longrightarrow> wlp (coef_loop k i bits xs bs) (\<lambda>(ys, bs'). P bs')"
  by (induction k arbitrary: i xs bs) (auto simp: Let_def intro!: wlp_arrays)

lemma filt_loop_keep:
  "P bs \<Longrightarrow> 0 < lbits \<Longrightarrow> lbits \<le> 8 \<Longrightarrow> 0 < obits \<Longrightarrow> obits \<le> 8 \<Longrightarrow> start = 3 \<or> start = 4 \<Longrightarrow>
   wlp (filt_loop k filt lbits obits start t bs) (\<lambda>(t', bs'). P bs')"
proof (induction k arbitrary: filt t bs)
  case (Suc k)
  let ?b1 = "snd (BitStreamGetBits bs lbits)" let ?b2 = "snd (BitStreamGetBits ?b1 obits)"
  let ?b3 = "snd (BitStreamGetBits ?b2 1)" let ?b4 = "snd (BitStreamGetBits ?b3 1)"
  have inv: "P ?b1" "P ?b2" "P ?b3" "P ?b4" using Suc.prems by (simp_all del: One_nat_def)
  have c: "0 \<le> fst (BitStreamGetBits ?b3 1)" "fst (BitStreamGetBits ?b3 1) < 2" using P_range [OF inv(3), of 1] by auto
  then have bits: "0 < start - nat (fst (BitStreamGetBits ?b3 1))" "start - nat (fst (BitStreamGetBits ?b3 1)) \<le> 8"
    using Suc.prems(6) by auto
  have IH: "P b \<Longrightarrow> wlp (filt_loop k (filt + 1) lbits obits start t b) (\<lambda>(t', bs'). P bs')" for t b
    using Suc.prems by (intro Suc.IH) auto
  show ?case
    using Suc.prems(1-5) inv c by (auto simp: Let_def simp del: One_nat_def intro!: wlp_arrays IH wlp_mono [OF coef_loop_keep [OF inv(4) bits]])
qed simp

lemma tns_loop_keep:
  "P bs \<Longrightarrow> 0 < nb \<Longrightarrow> nb \<le> 8 \<Longrightarrow> 0 < lbits \<Longrightarrow> lbits \<le> 8 \<Longrightarrow> 0 < obits \<Longrightarrow> obits \<le> 8 \<Longrightarrow>
   wlp (tns_loop k w nb lbits obits ts bs) (\<lambda>(ts', bs'). P bs')"
proof (induction k arbitrary: w ts bs)
  case (Suc k)
  have IH: "P b \<Longrightarrow> wlp (tns_loop k (w + 1) nb lbits obits ts b) (\<lambda>(ts', bs'). P bs')" for ts b
    using Suc.prems by (intro Suc.IH) auto
  have F: "P b \<Longrightarrow> st = 3 \<or> st = 4 \<Longrightarrow> wlp (filt_loop n 0 lbits obits st t b) (\<lambda>(t', bs'). P bs')" for n st t b
    using Suc.prems by (intro filt_loop_keep) auto
  show ?case
    using Suc.prems by (auto simp: Let_def split_beta simp del: One_nat_def intro!: wlp_arrays IH [unfolded case_prod_unfold] wlp_mono [OF F])
qed simp

lemma read_tns_keep: "P bs \<Longrightarrow> wlp (read_tns_data wseq ts bs) (\<lambda>(ts', bs'). P bs')"
  by (simp add: read_tns_data_def tns_loop_keep del: tns_loop.simps)

lemma ms_loop_keep: "P bs \<Longrightarrow> wlp (ms_loop k g msfb rows bs) (\<lambda>(rows', bs'). P bs')"
  by (induction k arbitrary: g rows bs) (auto intro!: wlp_arrays intro: wlp_mono [OF flags_keep])

lemma bytes_keep: "P bs \<Longrightarrow> wlp (bytes_loop k i buf bs) (\<lambda>(buf', bs'). P bs')"
  by (induction k arbitrary: i buf bs) (auto simp: Let_def intro!: wlp_arrays)

lemma ics_short_keep: "P bs \<Longrightarrow> wlp (ics_short sri ics bs) (\<lambda>(ics', bs'). P bs')"
  by (auto simp: ics_short_def Let_def simp del: group_loop.simps intro!: wlp_arrays)

lemma ics_prediction_keep: "P bs \<Longrightarrow> wlp (ics_prediction sri ics bs) (\<lambda>(ics', bs'). P bs')"
  by (auto simp: ics_prediction_def Let_def split_beta simp del: One_nat_def intro!: wlp_arrays wlp_mono [OF flags_keep])

end

section \<open>The rest of the decoder\<close>

text \<open>The decoder without the fields the elements own.\<close>

definition outer :: "AACDecoder \<Rightarrow> AACDecoder" where
  "outer d = d\<lparr>ics_data := [], global_gain := 0, common_window := 0, scaleFactors := [], sfb_cb := [],
     ms_mask_present := 0, ms_used := [], pulse_data_present := [], pulse_data := [], tns_data_present := [],
     tns_data := [], ltp_data_of := [], t_est_buf := None, f_est_buf := None, coef := [], sbr := False, ps_used := 0,
     fillExtType := 0, fillCount := 0, fillBuf := [], sbrEnabled := 0, disableSBR := 0, dbs := undefined\<rparr>"

lemma outer_upd [simp]:
  "outer (d\<lparr>ics_data := x1\<rparr>) = outer d" "outer (d\<lparr>global_gain := i\<rparr>) = outer d"
  "outer (d\<lparr>common_window := i\<rparr>) = outer d" "outer (d\<lparr>scaleFactors := x2\<rparr>) = outer d"
  "outer (d\<lparr>sfb_cb := x2\<rparr>) = outer d" "outer (d\<lparr>ms_mask_present := i\<rparr>) = outer d"
  "outer (d\<lparr>ms_used := x2\<rparr>) = outer d" "outer (d\<lparr>pulse_data_present := x3\<rparr>) = outer d"
  "outer (d\<lparr>pulse_data := x4\<rparr>) = outer d" "outer (d\<lparr>tns_data_present := x3\<rparr>) = outer d"
  "outer (d\<lparr>tns_data := x5\<rparr>) = outer d" "outer (d\<lparr>ltp_data_of := x6\<rparr>) = outer d"
  "outer (d\<lparr>t_est_buf := ys\<rparr>) = outer d" "outer (d\<lparr>f_est_buf := ys\<rparr>) = outer d"
  "outer (d\<lparr>coef := x2\<rparr>) = outer d" "outer (d\<lparr>sbr := b\<rparr>) = outer d" "outer (d\<lparr>ps_used := i\<rparr>) = outer d"
  "outer (d\<lparr>fillExtType := i\<rparr>) = outer d" "outer (d\<lparr>fillCount := i\<rparr>) = outer d"
  "outer (d\<lparr>fillBuf := x3\<rparr>) = outer d" "outer (d\<lparr>sbrEnabled := i\<rparr>) = outer d"
  "outer (d\<lparr>disableSBR := i\<rparr>) = outer d" "outer (d\<lparr>dbs := s\<rparr>) = outer d"
  by (simp_all add: outer_def)

definition calm :: "(BitStream \<Rightarrow> bool) \<Rightarrow> AACDecoder \<Rightarrow> AACDecoder \<Rightarrow> bool" where
  "calm P d d' \<longleftrightarrow> outer d' = outer d \<and> P (dbs d')"

lemma calm_refl: "P (dbs d) \<Longrightarrow> calm P d d"
  by (simp add: calm_def)

lemma calm_trans: "calm P d d' \<Longrightarrow> calm P d' d'' \<Longrightarrow> calm P d d''"
  by (simp add: calm_def)

lemma outer_dget [simp]: "outer (snd (dget d n)) = outer d" "outer (snd (dget8 d n)) = outer d"
  by (simp_all add: dget_simps)

context reader begin

lemma dget_keep [simp]: "P (dbs d) \<Longrightarrow> 0 < n \<Longrightarrow> n \<le> 32 \<Longrightarrow> P (dbs (snd (dget d n)))"
  "P (dbs d) \<Longrightarrow> 0 < n \<Longrightarrow> n \<le> 32 \<Longrightarrow> P (dbs (snd (dget8 d n)))"
  by (simp_all add: dget_simps)

lemma ltp_part_calm: "P (dbs d) \<Longrightarrow> wlp (ltp_part ics i d) (calm P d)"
  by (auto simp: ltp_part_def calm_def Let_def split_beta simp del: One_nat_def intro!: wlp_arrays wlp_mono [OF ltp_data_keep])

lemma ics_ltp_calm: "P (dbs d) \<Longrightarrow> wlp (ics_ltp malloc ics d) (\<lambda>(ret, d'). calm P d d')"
proof -
  assume p: "P (dbs d)"
  have two: "outer d' = outer d \<Longrightarrow> P (dbs d') \<Longrightarrow> wlp (ltp_part ics 0 d') (\<lambda>x. (common_window x \<noteq> 0 \<longrightarrow> wlp (ltp_part ics 1 x) (calm P d)) \<and> (common_window x = 0 \<longrightarrow> calm P d x))" for d'
    by (rule wlp_mono [OF ltp_part_calm]) (auto simp: calm_def intro!: wlp_mono [OF ltp_part_calm])
  show ?thesis using p two [unfolded calm_def] by (auto simp: ics_ltp_def Let_def calm_def)
qed

lemma ics_predict_calm: "P (dbs d) \<Longrightarrow> wlp (ics_predict malloc sri ics d) (\<lambda>(ret, ics', d'). calm P d d')"
  by (auto simp: ics_predict_def calm_def intro!: wlp_mono [OF ics_prediction_keep] wlp_mono [OF ics_ltp_calm])

lemma ics_long_calm: "P (dbs d) \<Longrightarrow> wlp (ics_long malloc sri ics d) (\<lambda>(ret, ics', d'). calm P d d')"
  by (auto simp: ics_long_def ltp_reset_def Let_def split_beta simp del: One_nat_def
      intro!: wlp_arrays wlp_mono [OF ics_predict_calm]) (auto simp: calm_def dget_simps simp del: One_nat_def)

lemma ics_info_calm: "P (dbs d) \<Longrightarrow> wlp (ics_info malloc d i) (\<lambda>(ret, d'). calm P d d')"
proof -
  assume p: "P (dbs d)"
  define d1 where "d1 = snd (dget8 (snd (dget8 (snd (dget8 d 1)) 2)) 1)"
  have d1: "P (dbs d1)" "outer d1 = outer d" using p by (simp_all add: d1_def del: One_nat_def)
  show ?thesis
    using d1 by (auto simp: ics_info_def Let_def split_beta d1_def [symmetric] simp del: One_nat_def
        intro!: wlp_arrays wlp_mono [OF ics_short_keep] wlp_mono [OF ics_long_calm]) (auto simp: calm_def)
qed

lemma ics_stage_calm: "P (dbs d) \<Longrightarrow> wlp (ics_stage malloc d ch) (\<lambda>(ret, ii, d'). calm P d d')"
  by (auto simp: ics_stage_def Let_def split_beta intro!: wlp_mono [OF ics_info_calm]) (auto simp: calm_def)

lemma ics_sections_calm: "P (dbs d) \<Longrightarrow> wlp (ics_sections ics d ch) (\<lambda>(ret, d'). calm P d d')"
  by (auto simp: ics_sections_def calm_def intro!: wlp_arrays wlp_mono [OF section_data_keep])

lemma ics_scales_calm: "P (dbs d) \<Longrightarrow> wlp (ics_scales ics d ch) (\<lambda>(ret, d'). calm P d d')"
  by (auto simp: ics_scales_def calm_def intro!: wlp_arrays wlp_mono [OF scale_factors_keep])

lemma ics_codes_calm: "P (dbs d) \<Longrightarrow> wlp (ics_codes ics d ch) (\<lambda>(ret, d'). calm P d d')"
  by (auto simp: ics_codes_def calm_def intro!: wlp_mono [OF ics_sections_calm] wlp_mono [OF ics_scales_calm])

lemma ics_pulse_calm: "P (dbs d) \<Longrightarrow> wlp (ics_pulse d ch) (calm P d)"
  by (auto simp: ics_pulse_def calm_def Let_def split_beta simp del: One_nat_def intro!: wlp_arrays wlp_mono [OF read_pulse_keep])

lemma ics_tns_calm: "P (dbs d) \<Longrightarrow> wlp (ics_tns ws d ch) (calm P d)"
  by (auto simp: ics_tns_def calm_def Let_def split_beta simp del: One_nat_def intro!: wlp_arrays wlp_mono [OF read_tns_keep])

lemma pair_head_calm: "P (dbs d) \<Longrightarrow> wlp (pair_head malloc d) (\<lambda>(ret, d'). calm P d d')"
proof -
  assume p: "P (dbs d)"
  define d1 where "d1 = snd (dget (snd (dget d 4)) 1)"
  have d1: "P (dbs d1)" "outer d1 = outer d" using p by (simp_all add: d1_def del: One_nat_def)
  show ?thesis
    using d1 by (auto simp: pair_head_def Let_def split_beta d1_def [symmetric] simp del: One_nat_def
        intro!: wlp_arrays wlp_mono [OF ms_loop_keep] wlp_mono [OF ics_info_calm]) (auto simp: calm_def)
qed

lemma data_stream_calm: "P (dbs d) \<Longrightarrow> wlp (data_stream_element d) (\<lambda>(ret, d'). calm P d d')"
proof -
  assume p: "P (dbs d)"
  define d1 where "d1 = snd (dget (snd (dget (snd (dget d 4)) 1)) 8)"
  have d1: "P (dbs d1)" "outer d1 = outer d" using p by (simp_all add: d1_def del: One_nat_def)
  show ?thesis
    using d1 by (auto simp: data_stream_element_def Let_def split_beta d1_def [symmetric] calm_def simp del: One_nat_def
        intro!: P_align wlp_mono [OF bytes_keep])
qed

lemma fill_calm: "P (dbs d) \<Longrightarrow> wlp (fill_element malloc d) (\<lambda>(ret, d'). calm P d d')"
proof -
  assume p: "P (dbs d)"
  obtain c d1 where c: "fill_count d = (c, d1)" by fastforce
  have d1: "P (dbs d1)" "outer d1 = outer d"
    using p arg_cong [OF c, of snd] by (auto simp: fill_count_def Let_def split_beta split: if_splits)
  have sbr: "P (dbs d2) \<Longrightarrow> outer d2 = outer d \<Longrightarrow> wlp (fill_sbr malloc d2) (\<lambda>(ret, d'). calm P d d')" for d2
    by (auto simp: fill_sbr_def sbr_init_def Let_def split_beta calm_def intro!: wlp_arrays)
  show ?thesis
    using d1 by (auto simp: fill_element_def c intro!: wlp_mono [OF bytes_keep] sbr)
qed

end

context spectral_reader begin

lemma ics_spectrum_calm: "P (dbs d) \<Longrightarrow> wlp (ics_spectrum ics d ch) (\<lambda>(ret, d'). calm P d d')"
proof -
  assume p: "P (dbs d)"
  have s: "wlp (spectral_data idx ics cbs present pi (dbs d) c) (\<lambda>(r, bs, c'). P bs)" for idx cbs present pi c
    by (rule wlpI) (use spectral_data_kept [OF p] in auto)
  show ?thesis by (auto simp: ics_spectrum_def calm_def intro!: wlp_arrays wlp_mono [OF s])
qed

lemma ics_body_calm: "P (dbs d) \<Longrightarrow> wlp (ics_body ics d ch) (\<lambda>(ret, d'). calm P d d')"
proof -
  assume p: "P (dbs d)"
  have k: "P (dbs d1) \<Longrightarrow> outer d1 = outer d \<Longrightarrow> wlp (ics_spectrum ics d1 ch) (\<lambda>(ret, d'). calm P d d')" for d1
    by (rule wlp_mono [OF ics_spectrum_calm]) (auto simp: calm_def)
  have t: "P (dbs d1) \<Longrightarrow> outer d1 = outer d \<Longrightarrow> wlp (ics_tns ws d1 ch) (\<lambda>d2. calm P d d2)" for d1 ws
    by (rule wlp_mono [OF ics_tns_calm]) (auto simp: calm_def)
  have q: "P (dbs d1) \<Longrightarrow> outer d1 = outer d \<Longrightarrow> wlp (ics_pulse d1 ch) (\<lambda>d2. calm P d d2)" for d1
    by (rule wlp_mono [OF ics_pulse_calm]) (auto simp: calm_def)
  show ?thesis
    using p by (auto simp: ics_body_def Let_def split_beta simp del: One_nat_def err_defs
        intro!: wlp_mono [OF ics_codes_calm] wlp_mono [OF q] wlp_mono [OF t] k)
      (auto simp: calm_def simp del: One_nat_def)
qed

lemma stream_calm: "P (dbs d) \<Longrightarrow> wlp (individual_channel_stream malloc d ch) (\<lambda>(ret, d'). calm P d d')"
proof -
  assume p: "P (dbs d)"
  have k: "P (dbs d1) \<Longrightarrow> outer d1 = outer d \<Longrightarrow> wlp (ics_body ics d1 ch) (\<lambda>(ret, d'). calm P d d')" for d1 ics
    by (rule wlp_mono [OF ics_body_calm]) (auto simp: calm_def)
  show ?thesis
    using p by (auto simp: individual_channel_stream_def intro!: wlp_arrays wlp_mono [OF ics_stage_calm] k)
      (auto simp: calm_def)
qed

lemma single_calm: "P (dbs d) \<Longrightarrow> wlp (single_channel_element malloc d) (\<lambda>(ret, d'). calm P d d')"
  unfolding single_channel_element_def Let_def split_beta
  by (rule wlp_mono [OF stream_calm]) (auto simp: calm_def)

lemma pair_calm: "P (dbs d) \<Longrightarrow> wlp (channel_pair_element malloc d) (\<lambda>(ret, d'). calm P d d')"
proof -
  assume p: "P (dbs d)"
  have k: "P (dbs d1) \<Longrightarrow> outer d1 = outer d \<Longrightarrow> wlp (individual_channel_stream malloc d1 ch) (\<lambda>p. calm P d (snd p))" for d1 ch
    by (rule wlp_mono [OF stream_calm]) (auto simp: calm_def)
  show ?thesis
    using p by (auto simp: channel_pair_element_def intro!: wlp_mono [OF pair_head_calm] wlp_mono [OF k])
      (auto simp: calm_def)
qed

end

end
