(* ===== verification/RawBlock.thy ===== *)
theory RawBlock
  imports Outer ChannelMap HeaderSafe
begin

unbundle bit_operations_syntax

text \<open>
  One syntax element of a frame, \<open>raw_data_block\<close> of \<^verbatim>\<open>src/lc_syntax.c\<close>: the identifier and the dispatch to
  the parsers of the elements, among them the program configuration that redefines the channels.
\<close>

section \<open>Operations\<close>

text \<open>The case \<open>ID_PCE\<close>, behind its parsing: the checks against the header and the new parameters.\<close>

definition pce_apply :: "AACDecoder \<Rightarrow> (int \<times> AACDecoder) option" where
  "pce_apply d =
     do { let c = pce d;
          dual \<leftarrow> dual_mono c;
          let d = (if dual then d\<lparr>channelNum := channels c, ChansMode := MODE_DUALMONO\<rparr> else d);
          if channelNum d \<noteq> 0 \<and> channels c \<noteq> channelNum d
             \<or> sampRateIdx d \<noteq> 0 \<and> sampling_frequency_index c \<noteq> sampRateIdx d
          then Some (TT_AACDEC_ERR_AAC_INVSTREAM, d\<lparr>pce := c\<lparr>channels := u8 (channelNum d)\<rparr>\<rparr>)
          else if sampling_frequency_index c \<ge> NUM_SAMPLE_RATES then Some (TT_AACDEC_ERR_AAC_INVSTREAM, d)
          else do { sr \<leftarrow> rd sampRateTab (sampling_frequency_index c);
                    d \<leftarrow> Channelconfig (d\<lparr>sampleRate := sr, sampRateIdx := sampling_frequency_index c,
                           channelNum := channels c, profile := object_type c + 1\<rparr>);
                    Some (0, d) } }"

definition pce_element :: "AACDecoder \<Rightarrow> (int \<times> AACDecoder) option" where
  "pce_element d =
     (if old_id_syn_ele d \<noteq> - 1 then Some (TT_AACDEC_ERR_AAC_INVSTREAM, d)
      else do { let d = d\<lparr>pce_set := 1\<rparr>;
                (c, bs) \<leftarrow> program_config_element (dbs d) (pce d);
                pce_apply (d\<lparr>pce := c, dbs := bs\<rparr>) })"

text \<open>The identifier of the element and what is reset for it.\<close>

definition raw_head :: "AACDecoder \<Rightarrow> AACDecoder option" where
  "raw_head d =
     (let d = d\<lparr>old_id_syn_ele := id_syn_ele d\<rparr>;
          (v, d) = dget d 3;
          d = d\<lparr>id_syn_ele := v\<rparr>;
          d = (if old_id_syn_ele d = - 1 then d\<lparr>first_id_syn_ele := v\<rparr> else d);
          d = d\<lparr>common_window := 0\<rparr> in
      do { n \<leftarrow> rd elementNumChans v; Some (d\<lparr>elementChans := n\<rparr>) })"

definition raw_element :: "(string \<Rightarrow> bool) \<Rightarrow> AACDecoder \<Rightarrow> (int \<times> AACDecoder) option" where
  "raw_element malloc d =
     (if id_syn_ele d = ID_SCE then single_channel_element malloc d
      else if id_syn_ele d = ID_CPE then
        do { (err, d) \<leftarrow> channel_pair_element malloc d;
             Some (err, if err = 0 \<and> channelNum d < 2 then d\<lparr>channelNum := 2\<rparr> else d) }
      else if id_syn_ele d = ID_CCE then Some (TT_AACDEC_ERR_AUDIO_UNSFEATURE, d)
      else if id_syn_ele d = ID_LFE then single_channel_element malloc d
      else if id_syn_ele d = ID_DSE then data_stream_element d
      else if id_syn_ele d = ID_PCE then pce_element d
      else if id_syn_ele d = ID_FIL then fill_element malloc d
      else Some (0, d))"

definition raw_data_block :: "(string \<Rightarrow> bool) \<Rightarrow> AACDecoder \<Rightarrow> (int \<times> AACDecoder) option" where
  "raw_data_block malloc d = do { d \<leftarrow> raw_head d; raw_element malloc d }"

section \<open>Progress of the reader\<close>

lemma align_noBytes: "noBytes (BitStreamByteAlign s) = noBytes s"
  by (simp add: BitStreamByteAlign_def Let_def)

lemma esc_prefix_noBytes:
  "bs_inv s \<Longrightarrow> esc_prefix s n = Some (n', s') \<Longrightarrow> noBytes s \<le> noBytes s' \<and> bs_inv s'"
proof (induction "bslen s" arbitrary: s n rule: less_induct)
  case less
  let ?s1 = "snd (BitStreamGetBits s 1)"
  have i1: "bs_inv ?s1" using less.prems(1) by simp
  have "noBytes s \<le> noBytes ?s1" using advance_noBytes_mono [OF less.prems(1), of 1] by (simp add: get_advance)
  note s1 = i1 this
  show ?case
  proof (cases "fst (BitStreamGetBits s 1) = 1")
    case True
    then have "bslen s \<noteq> 0" using get_dry [OF less.prems(1), of 1] by auto
    then have "bslen ?s1 < bslen s" using get_bslen [OF less.prems(1), of 1] by simp
    moreover have "esc_prefix ?s1 (n + 1) = Some (n', s')"
      using less.prems(2) True by (subst (asm) esc_prefix.simps) (simp add: split_beta)
    ultimately show ?thesis using less.hyps [OF _ s1(1)] s1(2) by force
  next
    case False
    then have "s' = ?s1" using less.prems(2) by (subst (asm) esc_prefix.simps) (simp add: split_beta)
    then show ?thesis using s1 by simp
  qed
qed

text \<open>A good stream with at most \<open>n\<close> bits left that has noted at least \<open>k\<close> underflows: reading keeps this.\<close>

definition spent :: "nat \<Rightarrow> int \<Rightarrow> BitStream \<Rightarrow> bool" where
  "spent n k s \<longleftrightarrow> good s \<and> bslen s \<le> n \<and> k \<le> noBytes s"

lemma spent_get: "spent n k s \<Longrightarrow> 0 < m \<Longrightarrow> m \<le> 32 \<Longrightarrow> spent n k (snd (BitStreamGetBits s m))"
  using get_bslen [of s m] advance_noBytes_mono [of s "int m"] good_get [of s m]
  by (auto simp: spent_def good_def get_advance)

lemma spent_escape:
  assumes "spent n k s" "escape y s = Some (v, s')"
  shows "spent n k s'"
proof (cases "y = 16")
  case True
  have g: "good s" "bs_inv s" using assms(1) by (auto simp: spent_def good_def)
  obtain m s1 where e: "esc_prefix s 4 = Some (m, s1)" "s' = snd (BitStreamGetBits s1 (nat m))"
    using assms(2) True by (auto simp: escape_def split_beta split: Option.bind_splits)
  have "spent n k s1"
    using good_prefix [OF g(1) e(1)] esc_prefix_noBytes [OF g(2) e(1)] assms(1) by (auto simp: spent_def)
  then show ?thesis unfolding e(2) using good_prefix [OF g(1) e(1)] by (intro spent_get) auto
next
  case False
  with assms show ?thesis by (simp add: escape_def)
qed

interpretation spent: spectral_reader "spent n k" for n k
proof
  fix s assume p: "spent n k s"
  then show i: "bs_inv s" by (simp add: spent_def good_def)
  have g: "good s" using p by (simp add: spent_def)
  show "spent n k (snd (BitStreamGetBits s m))" if "0 < m" "m \<le> 32" for m using p that by (rule spent_get)
  show "spent n k (BitStreamSkip s j)" if "0 \<le> j" "j \<le> 32" for j
  proof -
    have "bslen (BitStreamSkip s j) \<le> bslen s"
      using skip_bits [OF i that] by (metis length_bsbits length_drop diff_le_self)
    then show ?thesis using p esc.P_skip [OF g that] advance_noBytes_mono [OF i, of j] by (auto simp: spent_def skip_advance)
  qed
  have "bslen (BitStreamByteAlign s) \<le> bslen s" using align_bits [OF i] by (metis length_bsbits length_drop diff_le_self)
  then show "spent n k (BitStreamByteAlign s)" using p esc.P_align [OF g] by (simp add: spent_def align_noBytes)
  show "spent n k s'" if "escape y s = Some (v, s')" for y v s' using p that by (rule spent_escape)
qed

text \<open>A read of up to eight bits either finds them or notes that none are left.\<close>

lemma get_or_note:
  assumes "bs_inv s" "0 < n" "n \<le> 8" "noBytes (snd (BitStreamGetBits s n)) = 0"
  shows "bslen (snd (BitStreamGetBits s n)) + n = bslen s"
proof -
  let ?t = "advance (int n) s"
  have t: "snd (BitStreamGetBits s n) = ?t" using assms(2) by (rule get_advance)
  have z: "noBytes ?t = 0" "bs_inv ?t" using assms t by (simp, simp add: advance_inv)
  have s0: "noBytes s = 0" using advance_noBytes_mono [OF assms(1), of "int n"] z(1) assms(1) by (simp add: bs_inv_def)
  have "0 \<le> navail ?t"
    using assms(1-3) z(1) by (auto simp: advance_def navail_def refill_fields bs_inv_def split: if_splits)
  moreover from this have "0 \<le> navail s" using advance_navail [OF assms(1) z(1)] by simp
  ultimately show ?thesis
    using advance_navail [OF assms(1) z(1)] navail_bslen [OF z(2) z(1)] navail_bslen [OF assms(1) s0] by (simp add: t)
qed

section \<open>The program configuration keeps the reader\<close>

context reader begin

lemma cpe_loop_keep: "P bs \<Longrightarrow> wlp (cpe_loop k i cpes tags num chs bs) (\<lambda>(cpes', tags', num', chs', bs'). P bs')"
  by (induction k arbitrary: i cpes tags num chs bs) (auto simp: Let_def split_beta simp del: One_nat_def intro!: wlp_arrays)

lemma lfe_tags_keep: "P bs \<Longrightarrow> wlp (lfe_tags k i tags num chs bs) (\<lambda>(tags', num', chs', bs'). P bs')"
  by (induction k arbitrary: i tags num chs bs) (auto simp: Let_def split_beta intro!: wlp_arrays)

lemma assoc_loop_keep: "P bs \<Longrightarrow> wlp (assoc_loop k i tags bs) (\<lambda>(tags', bs'). P bs')"
  by (induction k arbitrary: i tags bs) (auto simp: Let_def split_beta intro!: wlp_arrays)

lemma cc_loop_keep: "P bs \<Longrightarrow> wlp (cc_loop k i sws tags bs) (\<lambda>(sws', tags', bs'). P bs')"
  by (induction k arbitrary: i sws tags bs) (auto simp: Let_def split_beta simp del: One_nat_def intro!: wlp_arrays)

lemma pce_elements_keep: "P bs \<Longrightarrow> wlp (pce_elements c bs) (\<lambda>(c', bs'). P bs')"
  by (auto simp: pce_elements_def Let_def split_beta
      intro!: wlp_mono [OF cpe_loop_keep] wlp_mono [OF lfe_tags_keep] wlp_mono [OF assoc_loop_keep] wlp_mono [OF cc_loop_keep])

lemma pce_keep: "P bs \<Longrightarrow> wlp (program_config_element bs c) (\<lambda>(c', bs'). P bs')"
proof -
  assume p: "P bs"
  have h: "P (snd (pce_head c bs))" using p by (simp add: pce_head_def Let_def split_beta)
  have m: "P b \<Longrightarrow> P (snd (pce_mono c b))" "P b \<Longrightarrow> P (snd (pce_stereo c b))" "P b \<Longrightarrow> P (snd (pce_matrix c b))" for c b
    by (simp_all add: pce_mono_def pce_stereo_def pce_matrix_def Let_def split_beta del: One_nat_def)
  show ?thesis using h
    by (auto simp: program_config_element_def Let_def split_beta P_align intro!: wlp_mono [OF pce_elements_keep] m)
qed

end

section \<open>Every block takes bits or notes that there are none\<close>

text \<open>\<open>raw_head\<close> on a decoder: what it sets, and the three bits it takes.\<close>

definition headed :: "AACDecoder \<Rightarrow> AACDecoder" where
  "headed d = (let v = fst (BitStreamGetBits (dbs d) 3) in
     d\<lparr>old_id_syn_ele := id_syn_ele d, id_syn_ele := v,
       first_id_syn_ele := (if id_syn_ele d = - 1 then v else first_id_syn_ele d),
       common_window := 0, elementChans := elementNumChans ! nat v, dbs := snd (BitStreamGetBits (dbs d) 3)\<rparr>)"

lemma raw_head_eq:
  assumes "bs_inv (dbs d)"
  shows "raw_head d = Some (headed d)"
proof -
  let ?v = "fst (BitStreamGetBits (dbs d) 3)"
  have v: "0 \<le> ?v" "?v < 8" using assms get_range_n [OF assms, of 3] by auto
  have "rd elementNumChans ?v = Some (elementNumChans ! nat ?v)" using v by (simp add: rd_def elementNumChans_def)
  then show ?thesis by (simp add: raw_head_def headed_def Let_def split_beta dget_simps)
qed

lemma headed_dbs [simp]: "dbs (headed d) = snd (BitStreamGetBits (dbs d) 3)"
  by (simp add: headed_def Let_def)

text \<open>The channel map is built without reading.\<close>

lemma chan_put_dbs: "dbs d = b \<Longrightarrow> wlp (chan_put off pos chpos d) (\<lambda>(c, d'). dbs d' = b)"
  by (auto simp: chan_put_def intro!: wlp_arrays)

lemma chan_next_dbs: "dbs d = b \<Longrightarrow> wlp (chan_next pos chpos d) (\<lambda>(c, d'). dbs d' = b)"
  by (simp add: chan_next_def chan_put_dbs)

lemma chan_pairs_dbs: "dbs d = b \<Longrightarrow> wlp (chan_pairs k l r chpos d) (\<lambda>(c, d'). dbs d' = b)"
  by (induction k arbitrary: chpos d) (auto intro!: wlp_mono [OF chan_next_dbs])

lemma lfe_loop_dbs: "dbs d = b \<Longrightarrow> wlp (lfe_loop k chpos d) (\<lambda>(c, d'). dbs d' = b)"
  by (induction k arbitrary: chpos d) (auto intro!: wlp_mono [OF chan_next_dbs])

lemma pce_front_dbs: "dbs d = b \<Longrightarrow> wlp (pce_front c chpos d) (\<lambda>(c, d'). dbs d' = b)"
  by (auto simp: pce_front_def intro!: wlp_rd wlp_mono [OF chan_put_dbs] wlp_mono [OF chan_next_dbs] chan_put_dbs chan_next_dbs)

lemma pce_back_dbs: "dbs d = b \<Longrightarrow> wlp (pce_back c chpos d) (\<lambda>(c, d'). dbs d' = b)"
  by (auto simp: pce_back_def Let_def intro!: wlp_mono [OF chan_pairs_dbs] wlp_mono [OF chan_next_dbs] chan_next_dbs)

lemma pce_layout_dbs: "wlp (pce_layout c d) (\<lambda>d'. dbs d' = dbs d)"
  by (auto simp: pce_layout_def intro!: wlp_mono [OF pce_front_dbs] wlp_mono [OF chan_pairs_dbs] wlp_mono [OF pce_back_dbs]
      wlp_mono [OF lfe_loop_dbs])

lemma Channelconfig_dbs: "wlp (Channelconfig d) (\<lambda>d'. dbs d' = dbs d)"
proof -
  have t: "wlp (chan_table ps os d) (\<lambda>d'. dbs d' = dbs d)" for ps os
    by (auto simp: chan_table_def intro!: wlp_any wlp_mono [OF wlp_any])
  show ?thesis by (auto simp: Channelconfig_def config_layout_def t pce_layout_dbs)
qed

lemma pce_apply_dbs: "wlp (pce_apply d) (\<lambda>(err, d'). dbs d' = dbs d)"
proof -
  have d: "wlp (dual_mono c) Q \<longleftrightarrow> (\<forall>x. dual_mono c = Some x \<longrightarrow> Q x)" for c Q by (simp add: wlp_def split: option.splits)
  have k: "dbs e = dbs d \<Longrightarrow> wlp (Channelconfig e) (\<lambda>d'. dbs d' = dbs d)" for e
    by (rule wlp_mono [OF Channelconfig_dbs]) simp
  show ?thesis by (auto simp: pce_apply_def Let_def d intro!: wlp_rd k)
qed

context spectral_reader begin

lemma pce_element_keep: "P (dbs d) \<Longrightarrow> wlp (pce_element d) (\<lambda>(err, d'). P (dbs d'))"
  by (auto simp: pce_element_def intro!: wlp_mono [OF pce_keep] wlp_mono [OF pce_apply_dbs])

lemma raw_element_keep: "P (dbs d) \<Longrightarrow> wlp (raw_element malloc d) (\<lambda>(err, d'). P (dbs d'))"
  by (auto simp: raw_element_def calm_def intro!: wlp_mono [OF single_calm] wlp_mono [OF pair_calm]
      wlp_mono [OF data_stream_calm] wlp_mono [OF fill_calm] pce_element_keep)

end


text \<open>
  A block that has a result takes at least the three bits of its identifier, or the reader has noted that
  it ran out of bytes: the loop over the blocks of a frame cannot go on for ever.
\<close>

lemma raw_block_progress:
  assumes "good (dbs d)" "raw_data_block malloc d = Some (err, d')"
  shows "good (dbs d')" "noBytes (dbs d') = 0 \<Longrightarrow> bslen (dbs d') + 3 \<le> bslen (dbs d)"
proof -
  let ?b = "dbs (headed d)"
  have i: "bs_inv (dbs d)" using assms(1) by (simp add: good_def)
  have g: "good ?b" using good_get [OF assms(1), of 3] by simp
  have run: "raw_element malloc (headed d) = Some (err, d')" using assms(2) by (simp add: raw_data_block_def raw_head_eq [OF i])
  have nb: "0 \<le> noBytes ?b" using g by (simp add: good_def bs_inv_def)
  have s: "spent n k ?b \<Longrightarrow> spent n k (dbs d')" for n k
    using wlpD [OF spent.raw_element_keep run] by simp
  show "good (dbs d')" using s [of "bslen ?b" 0] g nb by (simp add: spent_def)
  show "bslen (dbs d') + 3 \<le> bslen (dbs d)" if z: "noBytes (dbs d') = 0"
  proof (cases "noBytes ?b = 0")
    case True
    then have "bslen ?b + 3 = bslen (dbs d)" using get_or_note [OF i, of 3] by simp
    then show ?thesis using s [of "bslen ?b" 0] g nb by (simp add: spent_def)
  next
    case False
    then show ?thesis using s [of "bslen ?b" 1] g nb z by (simp add: spent_def)
  qed
qed

section \<open>A block on a good stream\<close>

lemma wp_wlp_conj: "wp m P \<Longrightarrow> wlp m Q \<Longrightarrow> wp m (\<lambda>x. P x \<and> Q x)"
  by (cases m) simp_all

lemma map_ok_outer: "outer d' = outer d \<Longrightarrow> map_ok d' = map_ok d"
  and pce_outer: "outer d' = outer d \<Longrightarrow> pce d' = pce d"
  and rate_outer: "outer d' = outer d \<Longrightarrow> sampRateIdx d' = sampRateIdx d"
proof -
  assume o: "outer d' = outer d"
  have "pce d' = pce d \<and> pce_set d' = pce_set d \<and> channel_offsize d' = channel_offsize d \<and> channel_position d' = channel_position d
    \<and> sampRateIdx d' = sampRateIdx d"
    using arg_cong [OF o, of pce] arg_cong [OF o, of pce_set] arg_cong [OF o, of channel_offsize]
      arg_cong [OF o, of channel_position] arg_cong [OF o, of sampRateIdx] by (simp add: outer_def)
  then show "map_ok d' = map_ok d" "pce d' = pce d" "sampRateIdx d' = sampRateIdx d" by (simp_all add: map_ok_def chan_wf_def)
qed

text \<open>
  What the element must satisfy: its sections fit (an unchecked length of the code book sections), and a program
  configuration takes at most the eight slots of the channel map.
\<close>

definition block_fits :: "(string \<Rightarrow> bool) \<Rightarrow> AACDecoder \<Rightarrow> bool" where
  "block_fits malloc d =
     (if id_syn_ele d = ID_SCE \<or> id_syn_ele d = ID_LFE then stream_fits malloc (snd (dget d 4)) 0
      else if id_syn_ele d = ID_CPE then pair_fits malloc d
      else if id_syn_ele d = ID_PCE
      then (case program_config_element (dbs d) (pce d) of None \<Rightarrow> False | Some (c, bs) \<Rightarrow> pce_slots c \<le> 8)
      else True)"

text \<open>The decoder between two blocks.\<close>

definition raw_ok :: "AACDecoder \<Rightarrow> bool" where
  "raw_ok d \<longleftrightarrow> dec_run good d \<and> pce_wf (pce d) \<and> map_ok d"

definition raw_post :: "int \<times> AACDecoder \<Rightarrow> bool" where
  "raw_post p \<longleftrightarrow> raw_ok (snd p) \<and> (ret_ok (fst p) \<or> fst p = TT_AACDEC_ERR_AAC_FAILDECSBR)"

lemma dec_run_head: 
  "dec_run P (d\<lparr>pce := c\<rparr>) = dec_run P d" "dec_run P (d\<lparr>pce_set := i\<rparr>) = dec_run P d"
  "dec_run P (d\<lparr>channelNum := i\<rparr>) = dec_run P d" "dec_run P (d\<lparr>ChansMode := m\<rparr>) = dec_run P d"
  "dec_run P (d\<lparr>sampleRate := i\<rparr>) = dec_run P d" "dec_run P (d\<lparr>profile := i\<rparr>) = dec_run P d"
  "dec_run P (d\<lparr>channel_offsize := xs\<rparr>) = dec_run P d" "dec_run P (d\<lparr>channel_position := xs\<rparr>) = dec_run P d"
  "dec_run P (d\<lparr>id_syn_ele := i\<rparr>) = dec_run P d" "dec_run P (d\<lparr>old_id_syn_ele := i\<rparr>) = dec_run P d"
  "dec_run P (d\<lparr>first_id_syn_ele := i\<rparr>) = dec_run P d" "dec_run P (d\<lparr>elementChans := i\<rparr>) = dec_run P d"
  by (simp_all add: dec_run_def dec_ok_def)

lemma raw_ok_run: "raw_ok d \<Longrightarrow> dec_run good d"
  by (simp add: raw_ok_def)

lemma raw_ok_calm: "raw_ok d \<Longrightarrow> calm good d d' \<Longrightarrow> dec_run good d' \<Longrightarrow> raw_ok d'"
  using map_ok_outer [of d' d] pce_outer [of d' d] by (auto simp: raw_ok_def calm_def)

lemma raw_ok_element:
  assumes "raw_ok d" "wp m (\<lambda>p. dec_run good (snd p) \<and> (ret_ok (fst p) \<or> fst p = TT_AACDEC_ERR_AAC_FAILDECSBR))"
    and "wlp m (\<lambda>(ret, d'). calm good d d')"
  shows "wp m raw_post"
  using wp_wlp_conj [OF assms(2,3)]
  by (rule wp_mono) (auto simp: raw_post_def intro: raw_ok_calm [OF assms(1)])

lemma headed_ok:
  assumes "raw_ok d"
  shows "raw_ok (headed d)" "sampRateIdx (headed d) = sampRateIdx d" "common_window (headed d) = 0"
proof -
  have "good (dbs d)" using assms by (simp add: raw_ok_def dec_run_def)
  then have "good (snd (BitStreamGetBits (dbs d) 3))" by (simp add: good_get)
  with assms show "raw_ok (headed d)"
    by (simp add: raw_ok_def headed_def Let_def dec_run_def dec_ok_def map_ok_def chan_wf_def)
qed (simp_all add: headed_def Let_def)

lemma pce_channels_upd:
  "pce_wf (c\<lparr>channels := x\<rparr>) = pce_wf c" "pce_counts (c\<lparr>channels := x\<rparr>) = pce_counts c"
  "pce_slots (c\<lparr>channels := x\<rparr>) = pce_slots c"
  by (simp_all add: pce_wf_def pce_counts_def pce_slots_def front_slots_def)

lemma pce_apply_ok:
  assumes "raw_ok d" "pce_parsed (pce d)" "pce_set d = 1"
  shows "wp (pce_apply d) raw_post"
proof -
  let ?c = "pce d"
  have c: "pce_wf ?c" "0 \<le> sampling_frequency_index ?c" using assms(2) by (simp_all add: pce_parsed_def pce_headed_def)
  obtain dual where dual: "dual_mono ?c = Some dual" using dual_mono_total [OF c(1)] by (auto simp: wp_iff)
  define e where "e = (if dual then d\<lparr>channelNum := channels ?c, ChansMode := MODE_DUALMONO\<rparr> else d)"
  have e: "raw_ok e" "pce e = ?c" "pce_set e = 1"
    using assms by (simp_all add: e_def raw_ok_def dec_run_head map_ok_def chan_wf_def)
  have out: "raw_post (TT_AACDEC_ERR_AAC_INVSTREAM, e\<lparr>pce := ?c\<lparr>channels := x\<rparr>\<rparr>)" for x
    using e c by (simp add: raw_post_def raw_ok_def dec_run_head map_ok_def chan_wf_def pce_channels_upd del: err_defs)
  have conf: "wp (Channelconfig f) (\<lambda>f'. raw_post (0, f'))" if f: "raw_ok f" for f
  proof -
    have "map_ok f" using f by (simp add: raw_ok_def)
    then show ?thesis
      by (rule wp_mono [OF Channelconfig_ok])
        (use f in \<open>auto simp: remap_def raw_post_def raw_ok_def dec_run_head map_ok_def chan_wf_def\<close>)
  qed
  have fin: "raw_ok (e\<lparr>sampleRate := sr, sampRateIdx := sampling_frequency_index ?c, channelNum := n, profile := pr\<rparr>)"
    if "sampling_frequency_index ?c < 12" for sr n pr
    using e c that by (simp add: raw_ok_def dec_run_def dec_ok_def map_ok_def chan_wf_def)
  have bad: "raw_post (TT_AACDEC_ERR_AAC_INVSTREAM, e)" using e by (simp add: raw_post_def del: err_defs)
  have rate: "rd sampRateTab (sampling_frequency_index ?c) = Some (sampRateTab ! nat (sampling_frequency_index ?c))"
    if "sampling_frequency_index ?c < 12" using c(2) that by (simp add: rd_def sampRateTab_def)
  have good_rate: "wp (do { sr \<leftarrow> rd sampRateTab (sampling_frequency_index ?c);
       d' \<leftarrow> Channelconfig (e\<lparr>sampleRate := sr, sampRateIdx := sampling_frequency_index ?c, channelNum := channels ?c,
         profile := object_type ?c + 1\<rparr>); Some (0, d') }) raw_post"
    if "sampling_frequency_index ?c < 12" unfolding rate [OF that] by (simp, rule conf [OF fin [OF that]])
  have "pce_apply d = (if channelNum e \<noteq> 0 \<and> channels ?c \<noteq> channelNum e \<or> sampRateIdx e \<noteq> 0 \<and> sampling_frequency_index ?c \<noteq> sampRateIdx e
        then Some (TT_AACDEC_ERR_AAC_INVSTREAM, e\<lparr>pce := ?c\<lparr>channels := u8 (channelNum e)\<rparr>\<rparr>)
        else if sampling_frequency_index ?c \<ge> 12 then Some (TT_AACDEC_ERR_AAC_INVSTREAM, e)
        else do { sr \<leftarrow> rd sampRateTab (sampling_frequency_index ?c);
          d' \<leftarrow> Channelconfig (e\<lparr>sampleRate := sr, sampRateIdx := sampling_frequency_index ?c, channelNum := channels ?c,
            profile := object_type ?c + 1\<rparr>); Some (0, d') })"
    unfolding pce_apply_def Let_def dual e_def NUM_SAMPLE_RATES_def by (simp only: bind.bind_lunit)
  then show ?thesis using out bad good_rate by (simp only: wp_if wp_Some) auto
qed

lemma raw_block_ok:
  assumes "raw_ok d" "block_fits malloc (headed d)" "sampRateIdx d < 11"
  shows "wp (raw_data_block malloc d) raw_post"
proof -
  let ?h = "headed d"
  have i: "bs_inv (dbs d)" using assms(1) by (simp add: raw_ok_def dec_run_def good_def)
  note h = headed_ok [OF assms(1)]
  have r: "dec_run good ?h" "good (dbs ?h)" using h(1) by (simp_all add: raw_ok_def dec_run_def)
  have fits: "block_fits malloc ?h" "sampRateIdx ?h < 11" using assms h by simp_all
  note el = raw_ok_element [OF h(1)]
  have single: "id_syn_ele ?h \<in> {ID_SCE, ID_LFE} \<Longrightarrow> wp (single_channel_element malloc ?h) raw_post"
    using fits by (intro el [OF wp_mono [OF esc.single_channel_ok [OF r(1) h(3)]] esc.single_calm [OF r(2)]])
      (auto simp: block_fits_def stream_post_def)
  have pair: "id_syn_ele ?h = ID_CPE \<Longrightarrow> wp (channel_pair_element malloc ?h) raw_post"
    using fits by (intro el [OF wp_mono [OF esc.channel_pair_ok [OF r(1)]] esc.pair_calm [OF r(2)]])
      (auto simp: block_fits_def id_defs)
  have data: "wp (data_stream_element ?h) raw_post"
    by (intro el [OF wp_mono [OF reader.data_stream_ok [OF esc.reader_axioms r(1)]] esc.data_stream_calm [OF r(2)]]) auto
  have fill: "wp (fill_element malloc ?h) raw_post"
    by (intro el [OF wp_mono [OF reader.fill_element_ok [OF esc.reader_axioms r(1)]] esc.fill_calm [OF r(2)]]) auto
  have config: "wp (pce_element ?h) raw_post" if id: "id_syn_ele ?h = ID_PCE"
  proof (cases "old_id_syn_ele ?h = - 1")
    case True
    have w: "pce_wf (pce ?h)" using h(1) by (simp add: raw_ok_def)
    obtain c b where c: "program_config_element (dbs ?h) (pce ?h) = Some (c, b)" "pce_parsed c" "good b"
      using reader.program_config_ok [OF esc.reader_axioms r(2) w] by (auto simp: wp_iff)
    have "pce_slots c \<le> 8" using fits(1) id c(1) by (simp add: block_fits_def id_defs)
    then have "raw_ok (?h\<lparr>pce_set := 1, pce := c, dbs := b\<rparr>)"
      using h(1) c by (simp_all add: raw_ok_def dec_run_def dec_ok_def map_ok_def chan_wf_def pce_parsed_def pce_headed_def)
    then have "wp (pce_apply (?h\<lparr>pce_set := 1, pce := c, dbs := b\<rparr>)) raw_post"
      using c(2) by (intro pce_apply_ok) simp_all
    then show ?thesis using True c(1) by (simp add: pce_element_def Let_def)
  next
    case False
    then show ?thesis using h(1) by (simp add: pce_element_def raw_post_def del: err_defs)
  qed
  have pair2: "id_syn_ele ?h = ID_CPE \<Longrightarrow>
      wp (do { (err, d') \<leftarrow> channel_pair_element malloc ?h;
               Some (err, if err = 0 \<and> channelNum d' < 2 then d'\<lparr>channelNum := 2\<rparr> else d') }) raw_post"
    using wp_mono [OF pair, of raw_post] by (auto simp: wp_iff raw_post_def raw_ok_def dec_run_head map_ok_def chan_wf_def)
  have "wp (raw_element malloc ?h) raw_post"
    unfolding raw_element_def using single pair2 data fill config h(1)
    by (simp add: raw_post_def [of "(_, ?h)"] del: err_defs)
  then show ?thesis by (simp add: raw_data_block_def raw_head_eq [OF i])
qed

end
