(* ===== verification/Bands.thy ===== *)
theory Bands
  imports ElementsSafe
begin

unbundle bit_operations_syntax

text \<open>
  What the tools on the spectrum share: the fixed point macros of \<^verbatim>\<open>inc/global.h\<close>, the offsets of the bands
  of a channel, and the walk over groups, windows and bands that inverse quantisation, stereo and noise
  substitution have in common.
\<close>

section \<open>Fixed point arithmetic\<close>

definition MUL_28 :: "int \<Rightarrow> int \<Rightarrow> int" where "MUL_28 a b = s32 (drop_bit 28 (a * b + 2 ^ 27))"
definition MUL_30 :: "int \<Rightarrow> int \<Rightarrow> int" where "MUL_30 a b = s32 (drop_bit 30 (a * b + 2 ^ 29))"
definition MUL_32 :: "int \<Rightarrow> int \<Rightarrow> int" where "MUL_32 a b = s32 (drop_bit 32 (a * b))"
definition MULHIGH :: "int \<Rightarrow> int \<Rightarrow> int" where "MULHIGH a b = s32 (drop_bit 32 (a * b))"

text \<open>Shifts of an \<open>int\<close>: the count must be that of a 32-bit word. The macro of a shift to the left keeps the lower bits.\<close>

definition sar :: "int \<Rightarrow> int \<Rightarrow> int option" where
  "sar x n = (if 0 \<le> n \<and> n < 32 then Some (drop_bit (nat n) x) else None)"

definition sal :: "int \<Rightarrow> int \<Rightarrow> int option" where
  "sal x n = (if 0 \<le> n \<and> n < 32 then Some (s32 (push_bit (nat n) x)) else None)"

text \<open>Leading zeros, by binary search.\<close>

definition clz_step :: "int \<Rightarrow> nat \<Rightarrow> int \<times> int \<Rightarrow> int \<times> int" where
  "clz_step w s = (\<lambda>(n, x). if drop_bit s x = 0 then (n + w, u32 (push_bit (nat w) x)) else (n, x))"

definition CLZ :: "int \<Rightarrow> int" where
  "CLZ x = (if x = 0 then 32
     else (let (n, x) = clz_step 2 30 (clz_step 4 28 (clz_step 8 24 (clz_step 16 16 (1, u32 x)))) in n - drop_bit 31 x))"

lemma clz_step_ok:
  assumes "1 \<le> n" "y * 2 ^ nat (n - 1) = x" "L \<le> x" "0 < x" "x < 2 ^ 32" "s + w = 32" "L * 2 ^ w = 2 ^ s"
    and "clz_step (int w) s (n, x) = (n', x')"
  shows "1 \<le> n' \<and> y * 2 ^ nat (n' - 1) = x' \<and> 2 ^ s \<le> x' \<and> 0 < x' \<and> x' < 2 ^ 32"
proof (cases "x < 2 ^ s")
  case True
  have "drop_bit s x = 0" using True assms(4) by (simp add: drop_bit_eq_div)
  moreover have top: "x * 2 ^ w < 2 ^ 32" "0 \<le> x * 2 ^ w"
    using mult_strict_right_mono [OF True, of "2 ^ w"] assms(4) by (simp_all add: assms(6) flip: power_add)
  ultimately have e: "n' = n + int w" "x' = x * 2 ^ w"
    using assms(8) by (auto simp: clz_step_def push_bit_eq_mult u32_def take_bit_int_eq_self_iff)
  have "nat (n' - 1) = nat (n - 1) + w" using assms(1) e by auto
  then have "y * 2 ^ nat (n' - 1) = x'" using assms(2) e by (simp add: power_add flip: mult.assoc)
  moreover have "2 ^ s \<le> x'" using mult_right_mono [OF assms(3), of "2 ^ w"] assms(7) e by simp
  ultimately show ?thesis using assms(1,4) e top by simp
next
  case False
  then have "0 < x div 2 ^ s" by (simp add: pos_imp_zdiv_pos_iff)
  then have "drop_bit s x \<noteq> 0" by (simp add: drop_bit_eq_div)
  then show ?thesis using assms False by (auto simp: clz_step_def)
qed

lemma CLZ_positive:
  assumes "0 < x" "x < 2 ^ 32"
  shows "0 \<le> CLZ x" "CLZ x \<le> 31" "2 ^ 31 \<le> x * 2 ^ nat (CLZ x)" "x * 2 ^ nat (CLZ x) < 2 ^ 32"
proof -
  obtain n1 x1 where s1: "clz_step 16 16 (1, x) = (n1, x1)" by fastforce
  obtain n2 x2 where s2: "clz_step 8 24 (n1, x1) = (n2, x2)" by fastforce
  obtain n3 x3 where s3: "clz_step 4 28 (n2, x2) = (n3, x3)" by fastforce
  obtain n4 x4 where s4: "clz_step 2 30 (n3, x3) = (n4, x4)" by fastforce
  have 1: "1 \<le> n1 \<and> x * 2 ^ nat (n1 - 1) = x1 \<and> 2 ^ 16 \<le> x1 \<and> 0 < x1 \<and> x1 < 2 ^ 32"
    using clz_step_ok [of 1 x x 1 16 16 n1 x1] s1 assms by simp
  have 2: "1 \<le> n2 \<and> x * 2 ^ nat (n2 - 1) = x2 \<and> 2 ^ 24 \<le> x2 \<and> 0 < x2 \<and> x2 < 2 ^ 32"
    using clz_step_ok [of n1 x x1 "2 ^ 16" 24 8 n2 x2] s2 1 by simp
  have 3: "1 \<le> n3 \<and> x * 2 ^ nat (n3 - 1) = x3 \<and> 2 ^ 28 \<le> x3 \<and> 0 < x3 \<and> x3 < 2 ^ 32"
    using clz_step_ok [of n2 x x2 "2 ^ 24" 28 4 n3 x3] s3 2 by simp
  have 4: "1 \<le> n4 \<and> x * 2 ^ nat (n4 - 1) = x4 \<and> 2 ^ 30 \<le> x4 \<and> 0 < x4 \<and> x4 < 2 ^ 32"
    using clz_step_ok [of n3 x x3 "2 ^ 28" 30 2 n4 x4] s4 3 by simp
  have u: "u32 x = x" using assms by (simp add: u32_def take_bit_int_eq_self_iff)
  have c: "CLZ x = n4 - x4 div 2 ^ 31" using assms(1) by (simp add: CLZ_def u s1 s2 s3 s4 drop_bit_eq_div)
  have r: "0 \<le> CLZ x \<and> 2 ^ 31 \<le> x * 2 ^ nat (CLZ x) \<and> x * 2 ^ nat (CLZ x) < 2 ^ 32"
  proof (cases "x4 < 2 ^ 31")
    case True
    then have e: "CLZ x = n4" "nat n4 = Suc (nat (n4 - 1))" using 4 c by auto
    have "x * 2 ^ nat n4 = 2 * x4" unfolding e(2) using 4 by simp
    then show ?thesis using e(1) 4 True by simp
  next
    case False
    then have "x4 div 2 ^ 31 = 1" using 4 by (intro int_div_pos_eq [of _ _ _ "x4 - 2 ^ 31"]) auto
    then have "CLZ x = n4 - 1" using c by simp
    then show ?thesis using 4 False by simp
  qed
  have "(2 :: int) ^ nat (CLZ x) \<le> x * 2 ^ nat (CLZ x)" using assms(1) by simp
  then have "(2 :: int) ^ nat (CLZ x) < 2 ^ 32" using r by linarith
  then have "nat (CLZ x) < 32" by (rule power_less_imp_less_exp [rotated]) simp
  then show "0 \<le> CLZ x" "CLZ x \<le> 31" "2 ^ 31 \<le> x * 2 ^ nat (CLZ x)" "x * 2 ^ nat (CLZ x) < 2 ^ 32" using r by auto
qed

lemma CLZ_zero [simp]: "CLZ 0 = 32"
  by (simp add: CLZ_def)

lemma CLZ_negative:
  assumes "- (2 ^ 31) \<le> x" "x < 0"
  shows "CLZ x = 0"
proof -
  have u: "u32 x = x + 2 ^ 32"
  proof -
    have "x mod 2 ^ 32 = (x + 2 ^ 32) mod 2 ^ 32" by simp
    also have "\<dots> = x + 2 ^ 32" using assms by (intro mod_pos_pos_trivial) auto
    finally show ?thesis by (simp add: u32_def take_bit_eq_mod)
  qed
  define y where "y = x + 2 ^ 32"
  have y: "2 ^ 31 \<le> y" "y < 2 ^ 32" using assms by (simp_all add: y_def)
  have nz: "drop_bit s y \<noteq> 0" if "s \<le> 31" for s
  proof -
    have "(2 :: int) ^ s \<le> 2 ^ 31" using that by (intro power_increasing) auto
    then have "0 < y div 2 ^ s" using y by (simp add: pos_imp_zdiv_pos_iff)
    then show ?thesis by (simp add: drop_bit_eq_div)
  qed
  have "y div 2 ^ 31 = 1" using y by (intro int_div_pos_eq [of _ _ _ "y - 2 ^ 31"]) auto
  then have d: "drop_bit 31 y = 1" by (simp add: drop_bit_eq_div)
  have u': "u32 x = y" unfolding u y_def ..
  have z: "drop_bit 16 y \<noteq> 0" "drop_bit 24 y \<noteq> 0" "drop_bit 28 y \<noteq> 0" "drop_bit 30 y \<noteq> 0" using nz by simp_all
  have x0: "x \<noteq> 0" using assms(2) by simp
  show ?thesis
    unfolding CLZ_def u' clz_step_def by (simp only: x0 z d if_False case_prod_conv Let_def)
qed

text \<open>A larger number has no more leading zeros.\<close>

lemma CLZ_antimono:
  assumes "0 \<le> x" "x \<le> y" "y < 2 ^ 32"
  shows "CLZ y \<le> CLZ x"
proof (cases "x = 0")
  case True
  then show ?thesis using CLZ_positive(2) [of y] assms by (cases "y = 0") auto
next
  case False
  then have x: "0 < x" "x < 2 ^ 32" "0 < y" using assms by auto
  show ?thesis
  proof (rule ccontr)
    assume "\<not> CLZ y \<le> CLZ x"
    then have "Suc (nat (CLZ x)) \<le> nat (CLZ y)" using CLZ_positive(1) [OF x(1,2)] by auto
    then have "(2 :: int) * 2 ^ nat (CLZ x) \<le> 2 ^ nat (CLZ y)" by (metis power_Suc power_increasing one_le_numeral)
    then have "x * (2 * 2 ^ nat (CLZ x)) \<le> y * 2 ^ nat (CLZ y)" using assms x by (intro mult_mono) auto
    then show False using CLZ_positive(3) [OF x(1,2)] CLZ_positive(4) [OF x(3) assms(3)] by simp
  qed
qed

section \<open>Walking over the bands\<close>

text \<open>The table of the band offsets for the window sequence, with the start of the entries of the sample rate.\<close>

definition sfb_table :: "AACDecoder \<Rightarrow> ICS_Data \<Rightarrow> (int list \<times> int) option" where
  "sfb_table d ics =
     (if window_sequence ics = EIGHT_SHORT_SEQUENCE
      then do { off \<leftarrow> rd sfBandTabShortOffset (sampRateIdx d); Some (sfBandTabShort, off) }
      else do { off \<leftarrow> rd sfBandTabLongOffset (sampRateIdx d); Some (sfBandTabLong, off) })"

text \<open>The window data of a channel: that of the first one when they share their window.\<close>

definition ics_of :: "AACDecoder \<Rightarrow> int \<Rightarrow> ICS_Data" where
  "ics_of d ch = ics_data d ! (if common_window d \<noteq> 0 then 0 else nat ch)"

text \<open>
  The three loops: \<open>for (g < num_window_groups) for (b < window_group_length[g]) for (sfb < max_sfb)\<close>. The
  pointers into the rows advance by \<open>max_sfb\<close> with every group (\<open>p\<close>), the pointer into the spectrum by 128 with
  every window (\<open>base\<close>). The body may stop all of them.
\<close>

type_synonym 'st walk_body = "int \<Rightarrow> int \<Rightarrow> int \<Rightarrow> int \<Rightarrow> 'st \<Rightarrow> (bool \<times> 'st) option"

fun walk_bands :: "nat \<Rightarrow> int \<Rightarrow> (int \<Rightarrow> 'st \<Rightarrow> (bool \<times> 'st) option) \<Rightarrow> 'st \<Rightarrow> (bool \<times> 'st) option" where
  "walk_bands 0 sfb body st = Some (False, st)"
| "walk_bands (Suc k) sfb body st =
     do { (stop, st) \<leftarrow> body sfb st;
          if stop then Some (True, st) else walk_bands k (sfb + 1) body st }"

fun walk_windows :: "nat \<Rightarrow> int \<Rightarrow> int \<Rightarrow> (int \<Rightarrow> int \<Rightarrow> 'st \<Rightarrow> (bool \<times> 'st) option) \<Rightarrow> 'st \<Rightarrow> (bool \<times> 'st) option" where
  "walk_windows 0 msfb base body st = Some (False, st)"
| "walk_windows (Suc k) msfb base body st =
     do { (stop, st) \<leftarrow> walk_bands (nat msfb) 0 (body base) st;
          if stop then Some (True, st) else walk_windows k msfb (base + 128) body st }"

fun walk_groups :: "nat \<Rightarrow> ICS_Data \<Rightarrow> int \<Rightarrow> int \<Rightarrow> int \<Rightarrow> 'st walk_body \<Rightarrow> 'st \<Rightarrow> (bool \<times> 'st) option" where
  "walk_groups 0 ics g p base body st = Some (False, st)"
| "walk_groups (Suc k) ics g p base body st =
     do { len \<leftarrow> rd (window_group_length ics) g;
          (stop, st) \<leftarrow> walk_windows (nat len) (max_sfb ics) base (body g p) st;
          if stop then Some (True, st)
          else walk_groups k ics (g + 1) (p + max_sfb ics) (base + 128 * len) body st }"

definition walk :: "ICS_Data \<Rightarrow> 'st walk_body \<Rightarrow> 'st \<Rightarrow> (bool \<times> 'st) option" where
  "walk ics body st = walk_groups (nat (num_window_groups ics)) ics 0 0 0 body st"

text \<open>The places the walk visits.\<close>

definition win_len :: "ICS_Data \<Rightarrow> int" where
  "win_len ics = (if window_sequence ics = EIGHT_SHORT_SEQUENCE then 128 else 1024)"

definition visited :: "ICS_Data \<Rightarrow> int \<Rightarrow> int \<Rightarrow> int \<Rightarrow> int \<Rightarrow> bool" where
  "visited ics g p base sfb \<longleftrightarrow> 0 \<le> g \<and> g < num_window_groups ics \<and> p = g * max_sfb ics \<and> 0 \<le> sfb \<and> sfb < max_sfb ics
     \<and> 0 \<le> base \<and> base mod 128 = 0 \<and> base + win_len ics \<le> 1024"

text \<open>The contract of a tool: its body keeps an invariant wherever the walk calls it. Then so does the walk.\<close>

locale band_tool =
  fixes body :: "'st walk_body" and inv :: "'st \<Rightarrow> bool" and idx :: int and ics :: ICS_Data
  assumes body_ok: "ics_ok idx ics \<Longrightarrow> inv st \<Longrightarrow> visited ics g p base sfb \<Longrightarrow> wp (body g p base sfb st) (\<lambda>r. inv (snd r))"
begin

lemma walk_bands_ok:
  "ics_ok idx ics \<Longrightarrow> inv st \<Longrightarrow> (\<And>s. sfb \<le> s \<Longrightarrow> s < sfb + int k \<Longrightarrow> visited ics g p base s) \<Longrightarrow>
   wp (walk_bands k sfb (body g p base) st) (\<lambda>r. inv (snd r))"
proof (induction k arbitrary: sfb st)
  case (Suc k)
  obtain stop st' where b: "body g p base sfb st = Some (stop, st')" "inv st'"
    using body_ok [OF Suc.prems(1,2) Suc.prems(3) [of sfb]] by (auto simp: wp_iff)
  have "wp (walk_bands k (sfb + 1) (body g p base) st') (\<lambda>r. inv (snd r))"
    using Suc.prems b(2) by (intro Suc.IH) auto
  then show ?case using b by simp
qed simp

lemma walk_windows_ok:
  "ics_ok idx ics \<Longrightarrow> inv st \<Longrightarrow> 0 \<le> g \<Longrightarrow> g < num_window_groups ics \<Longrightarrow> p = g * max_sfb ics \<Longrightarrow> 0 \<le> base \<Longrightarrow> base mod 128 = 0 \<Longrightarrow>
   (k > 0 \<Longrightarrow> base + 128 * (int k - 1) + win_len ics \<le> 1024) \<Longrightarrow>
   wp (walk_windows k (max_sfb ics) base (body g p) st) (\<lambda>r. inv (snd r))"
proof (induction k arbitrary: base st)
  case (Suc k)
  have v: "visited ics g p base s" if "0 \<le> s" "s < 0 + int (nat (max_sfb ics))" for s
    using that Suc.prems by (auto simp: visited_def split: if_splits)
  obtain stop st' where b: "walk_bands (nat (max_sfb ics)) 0 (body g p base) st = Some (stop, st')" "inv st'"
    using walk_bands_ok [where sfb = 0 and k = "nat (max_sfb ics)", OF Suc.prems(1,2) v] by (auto simp: wp_iff)
  have "wp (walk_windows k (max_sfb ics) (base + 128) (body g p) st') (\<lambda>r. inv (snd r))"
    using Suc.prems b(2) by (intro Suc.IH) auto
  then show ?case using b by simp
qed simp

lemma walk_groups_ok:
  assumes "ics_ok idx ics"
  shows "inv st \<Longrightarrow> 0 \<le> g \<Longrightarrow> g + int k = num_window_groups ics \<Longrightarrow>
   wp (walk_groups k ics g (g * max_sfb ics) (128 * sum_list (take (nat g) (window_group_length ics))) body st) (\<lambda>r. inv (snd r))"
proof (induction k arbitrary: g st)
  case (Suc k)
  let ?lens = "window_group_length ics"
  define t where "t = (if window_sequence ics = EIGHT_SHORT_SEQUENCE then 8 else (1 :: int))"
  have gs: "groups_ok (num_window_groups ics) ?lens t" using assms by (auto simp: ics_ok_def t_def)
  have len: "length ?lens = 8" "num_window_groups ics \<le> 8" using gs by (simp_all add: groups_ok_def)
  define l where "l = ?lens ! nat g"
  have g: "nat g < nat (num_window_groups ics)" "nat g < 8" using Suc.prems len by auto
  have r: "rd ?lens g = Some l" using len g Suc.prems by (simp add: rd_def l_def)
  define sums where "sums n = sum_list (take n ?lens)" for n
  have nxt: "sums (Suc (nat g)) = sums (nat g) + l" using g len by (simp add: sums_def l_def take_Suc_conv_app_nth)
  have pos: "1 \<le> x" if "x \<in> set (take (nat (num_window_groups ics)) ?lens)" for x
    using gs that by (auto simp: groups_ok_def list_all_iff)
  have l: "1 \<le> l" unfolding l_def by (rule pos) (use g len in \<open>auto simp: in_set_conv_nth intro!: exI [of _ "nat g"]\<close>)
  have split: "take (nat (num_window_groups ics)) ?lens = take (Suc (nat g)) ?lens @ drop (Suc (nat g)) (take (nat (num_window_groups ics)) ?lens)"
    using g by (metis Suc_leI append_take_drop_id min.absorb1 take_take)
  have "0 \<le> sum_list (drop (Suc (nat g)) (take (nat (num_window_groups ics)) ?lens))"
    using pos by (intro sum_list_nonneg) (force dest: in_set_dropD)
  moreover have "sum_list (take (nat (num_window_groups ics)) ?lens) = t" using gs by (simp add: groups_ok_def)
  ultimately have top: "sums (nat g) + l \<le> t" using split nxt by (metis add_le_same_cancel1 sum_list_append sums_def le_add_same_cancel1)
  have "set (take (nat g) ?lens) \<subseteq> set (take (nat (num_window_groups ics)) ?lens)" using g(1) by (intro set_take_subset_set_take less_imp_le)
  then have low: "0 \<le> sums (nat g)" unfolding sums_def using pos by (intro sum_list_nonneg) force
  have fits: "128 * sums (nat g) + 128 * (int (nat l) - 1) + win_len ics \<le> 1024"
    using top l low assms by (auto simp: t_def win_len_def split: if_splits)
  obtain stop st' where b: "walk_windows (nat l) (max_sfb ics) (128 * sums (nat g)) (body g (g * max_sfb ics)) st = Some (stop, st')" "inv st'"
    using walk_windows_ok [OF assms Suc.prems(1,2), of "g * max_sfb ics" "128 * sums (nat g)" "nat l"] Suc.prems fits low l
    by (auto simp: wp_iff)
  have e: "nat (g + 1) = Suc (nat g)" "(g + 1) * max_sfb ics = g * max_sfb ics + max_sfb ics"
    using Suc.prems by (auto simp: algebra_simps)
  have "wp (walk_groups k ics (g + 1) ((g + 1) * max_sfb ics) (128 * sums (nat (g + 1))) body st') (\<lambda>r. inv (snd r))"
    unfolding sums_def using Suc.prems b(2) by (intro Suc.IH) auto
  then show ?case using b r unfolding e nxt sums_def [symmetric] by (simp add: algebra_simps)
qed simp

lemma walk_ok: "ics_ok idx ics \<Longrightarrow> inv st \<Longrightarrow> wp (walk ics body st) (\<lambda>r. inv (snd r))"
proof -
  assume i: "ics_ok idx ics" "inv st"
  have "1 \<le> num_window_groups ics" using i(1) by (auto simp: ics_ok_def groups_ok_def split: if_splits)
  then show ?thesis using walk_groups_ok [OF i, of 0 "nat (num_window_groups ics)"] by (simp add: walk_def)
qed

end


text \<open>What the places give the bodies: an index into the rows, and a band inside the spectrum.\<close>

lemma visited_row:
  assumes "ics_ok idx ics" "visited ics g p base sfb"
  shows "0 \<le> p + sfb" "p + sfb < 120" "0 \<le> g" "g < 8"
proof -
  have v: "0 \<le> g" "g + 1 \<le> num_window_groups ics" "p = g * max_sfb ics" "0 \<le> sfb" "sfb < max_sfb ics" "0 \<le> max_sfb ics"
    using assms(2) by (auto simp: visited_def)
  have "(g + 1) * max_sfb ics \<le> num_window_groups ics * max_sfb ics" using v by (intro mult_right_mono) auto
  then show "0 \<le> p + sfb" "p + sfb < 120" using ics_ok_total [OF assms(1)] v by (auto simp: algebra_simps)
  have "num_window_groups ics \<le> 8" using assms(1) by (auto simp: ics_ok_def groups_ok_def split: if_splits)
  then show "0 \<le> g" "g < 8" using v by auto
qed

text \<open>The offsets of the table are those of the window, with one more than there are bands.\<close>

definition bands_of :: "ICS_Data \<Rightarrow> int list \<Rightarrow> int \<Rightarrow> bool" where
  "bands_of ics tab off \<longleftrightarrow> (\<exists>n. bands_ok tab off n (win_len ics) \<and> max_sfb ics < n)"

lemma sfb_table_bands:
  assumes "ics_ok (sampRateIdx d) ics" "sfb_table d ics = Some (tab, off)"
  shows "bands_of ics tab off"
proof -
  define i where "i = nat (sampRateIdx d)"
  have i: "i < 12" "sampRateIdx d = int i" using assms(1) by (auto simp: i_def ics_ok_def)
  show ?thesis
  proof (cases "window_sequence ics = EIGHT_SHORT_SEQUENCE")
    case True
    then have "tab = sfBandTabShort" "off = sfBandTabShortOffset ! i"
      using assms(2) by (auto simp: sfb_table_def rd_def i(2) split: if_splits)
    then show ?thesis using bands_short [OF i(1)] assms(1) True unfolding bands_of_def
      by (intro exI [of _ "ttsfBandTabShortNum ! i"]) (auto simp: ics_ok_def i_def win_len_def)
  next
    case False
    then have "tab = sfBandTabLong" "off = sfBandTabLongOffset ! i"
      using assms(2) by (auto simp: sfb_table_def rd_def i(2) split: if_splits)
    then show ?thesis using bands_long [OF i(1)] assms(1) False unfolding bands_of_def
      by (intro exI [of _ "sfBandTabLongNum ! i"]) (auto simp: ics_ok_def i_def win_len_def)
  qed
qed

lemma visited_band:
  assumes "ics_ok (sampRateIdx d) ics" "visited ics g p base sfb" "sfb_table d ics = Some (tab, off)"
  shows "\<exists>s e. rd tab (off + sfb) = Some s \<and> rd tab (off + (sfb + 1)) = Some e \<and> 0 \<le> base + s \<and> s < e \<and> base + e \<le> 1024"
proof -
  have v: "0 \<le> sfb" "sfb + 1 \<le> max_sfb ics" "0 \<le> base" "base + win_len ics \<le> 1024" using assms(2) by (auto simp: visited_def)
  obtain n where n: "bands_ok tab off n (win_len ics)" "max_sfb ics < n"
    using sfb_table_bands [OF assms(1,3)] by (auto simp: bands_of_def)
  have r: "rd tab (off + sfb) = Some (offs tab off sfb)" "rd tab (off + (sfb + 1)) = Some (offs tab off (sfb + 1))"
    using v n(2) by (auto intro!: bands_read [OF n(1)])
  moreover have "0 \<le> offs tab off sfb" "offs tab off (sfb + 1) \<le> win_len ics"
    using bands_bounds [OF n(1)] v n(2) by auto
  moreover have "offs tab off sfb < offs tab off (sfb + 1)" using bands_step(1) [OF n(1) v(1)] v n(2) by auto
  ultimately show ?thesis using v by auto
qed

lemma sfb_table_total:
  assumes "0 \<le> sampRateIdx d" "sampRateIdx d < 12"
  shows "\<exists>tab off. sfb_table d ics = Some (tab, off)"
proof -
  have "nat (sampRateIdx d) < 12" using assms by simp
  then have "rd sfBandTabShortOffset (sampRateIdx d) \<noteq> None" "rd sfBandTabLongOffset (sampRateIdx d) \<noteq> None"
    using assms by (simp_all add: rd_def sfBandTabShortOffset_def sfBandTabLongOffset_def)
  then show ?thesis by (auto simp: sfb_table_def)
qed

text \<open>A body that never stops lets the walk go through.\<close>

lemma walk_goes_on:
  assumes "\<And>g p base sfb st r. body g p base sfb st = Some r \<Longrightarrow> \<not> fst r" "walk ics body st = Some r"
  shows "\<not> fst r"
proof -
  have b: "walk_bands k sfb (body g p base) st = Some r \<Longrightarrow> \<not> fst r" for k sfb g p base st r
  proof (induction k arbitrary: sfb st)
    case (Suc k)
    then show ?case using assms(1) [of g p base sfb st] by (auto simp: bind_eq_Some_conv split: if_splits)
  qed auto
  have w: "walk_windows k m base (body g p) st = Some r \<Longrightarrow> \<not> fst r" for k m g p base st r
  proof (induction k arbitrary: base st)
    case (Suc k)
    then show ?case using b [of "nat m" 0 g p base st] by (auto simp: bind_eq_Some_conv split: if_splits)
  qed auto
  have "walk_groups k ics g p base body st = Some r \<Longrightarrow> \<not> fst r" for k g p base st
  proof (induction k arbitrary: g p base st)
    case (Suc k)
    then obtain len where "rd (window_group_length ics) g = Some len" by (auto simp: bind_eq_Some_conv)
    then show ?case using Suc w [of "nat len" "max_sfb ics" base g p st] by (auto simp: bind_eq_Some_conv split: if_splits)
  qed auto
  then show ?thesis using assms(2) by (simp add: walk_def)
qed

text \<open>A run of writes inside a band.\<close>

lemma rd_band: "0 \<le> pos \<Longrightarrow> pos < int (length xs) \<Longrightarrow> rd xs pos = Some (xs ! nat pos)"
  and wr_band: "0 \<le> pos \<Longrightarrow> pos < int (length xs) \<Longrightarrow> wr xs pos v = Some (xs[nat pos := v])"
  by (simp_all add: rd_def wr_def)


section \<open>Tools that work line by line\<close>

text \<open>
  The bodies of some tools replace every line of their band by a function of it and leave the others. As the
  bands are visited in the order of the spectrum, the walk then applies the function to every line of
  every band once.
\<close>

definition in_band :: "int list \<Rightarrow> int \<Rightarrow> int \<Rightarrow> int \<Rightarrow> int \<Rightarrow> bool" where
  "in_band tab off base sfb i \<longleftrightarrow> base + offs tab off sfb \<le> i \<and> i < base + offs tab off (sfb + 1)"

definition win_base :: "ICS_Data \<Rightarrow> int \<Rightarrow> int \<Rightarrow> int" where
  "win_base ics g b = 128 * sum_list (take (nat g) (window_group_length ics)) + 128 * b"

locale line_tool = band_tool body inv idx ics
  for body :: "'st walk_body" and inv :: "'st \<Rightarrow> bool" and idx :: int and ics :: ICS_Data +
  fixes line :: "'st \<Rightarrow> int \<Rightarrow> 'a" and step :: "int \<Rightarrow> int \<Rightarrow> int \<Rightarrow> 'a \<Rightarrow> 'a" and tab :: "int list" and off :: int
  assumes body_lines: "ics_ok idx ics \<Longrightarrow> bands_of ics tab off \<Longrightarrow> inv st \<Longrightarrow> visited ics g p base sfb \<Longrightarrow>
      body g p base sfb st = Some (False, st') \<Longrightarrow> 0 \<le> i \<Longrightarrow> i < 1024 \<Longrightarrow>
      line st' i = (if in_band tab off base sfb i then step g p sfb (line st i) else line st i)"
begin

lemma body_inv:
  "ics_ok idx ics \<Longrightarrow> inv st \<Longrightarrow> visited ics g p base sfb \<Longrightarrow> body g p base sfb st = Some (stop, st') \<Longrightarrow> inv st'"
  using body_ok [of st g p base sfb] by simp

lemma walk_bands_lines:
  assumes "ics_ok idx ics" "bands_of ics tab off" "0 \<le> base"
  shows "inv st \<Longrightarrow> 0 \<le> sfb \<Longrightarrow> sfb + int k \<le> max_sfb ics \<Longrightarrow>
    (\<And>s. sfb \<le> s \<Longrightarrow> s < sfb + int k \<Longrightarrow> visited ics g p base s) \<Longrightarrow>
    walk_bands k sfb (body g p base) st = Some (False, st') \<Longrightarrow>
    inv st' \<and> (\<forall>i. 0 \<le> i \<and> i < 1024 \<longrightarrow>
      ((i < base + offs tab off sfb \<or> base + offs tab off (sfb + int k) \<le> i) \<longrightarrow> line st' i = line st i)
      \<and> (\<forall>s. sfb \<le> s \<and> s < sfb + int k \<and> in_band tab off base s i \<longrightarrow> line st' i = step g p s (line st i)))"
proof (induction k arbitrary: sfb st)
  case (Suc k)
  obtain n where n: "bands_ok tab off n (win_len ics)" "max_sfb ics < n" using assms(2) by (auto simp: bands_of_def)
  have v: "visited ics g p base sfb" using Suc.prems(4) [of sfb] by simp
  obtain st1 where b: "body g p base sfb st = Some (False, st1)" "walk_bands k (sfb + 1) (body g p base) st1 = Some (False, st')"
    using Suc.prems(5) by (auto simp: bind_eq_Some_conv split: if_splits)
  have i1: "inv st1" using body_inv [OF assms(1) Suc.prems(1) v b(1)] .
  note l1 = body_lines [OF assms(1,2) Suc.prems(1) v b(1)]
  have IH: "inv st' \<and> (\<forall>i. 0 \<le> i \<and> i < 1024 \<longrightarrow>
      ((i < base + offs tab off (sfb + 1) \<or> base + offs tab off (sfb + 1 + int k) \<le> i) \<longrightarrow> line st' i = line st1 i)
      \<and> (\<forall>s. sfb + 1 \<le> s \<and> s < sfb + 1 + int k \<and> in_band tab off base s i \<longrightarrow> line st' i = step g p s (line st1 i)))"
    using Suc.prems by (intro Suc.IH [OF i1 _ _ _ b(2)]) auto
  have o: "offs tab off sfb < offs tab off (sfb + 1)" "offs tab off (sfb + 1) \<le> offs tab off (sfb + 1 + int k)"
    using bands_step(1) [OF n(1), of sfb] bands_mono [OF n(1), of "sfb + 1" "sfb + 1 + int k"] Suc.prems(2,3) n(2) by auto
  have later: "base + offs tab off (sfb + 1) \<le> i" if "sfb + 1 \<le> s" "s < sfb + 1 + int k" "in_band tab off base s i" for s i
    using bands_mono [OF n(1), of "sfb + 1" s] that Suc.prems(2,3) n(2) by (auto simp: in_band_def)
  have e: "sfb + int (Suc k) = sfb + 1 + int k" by simp
  show ?case
  proof (intro conjI allI impI)
    show "inv st'" using IH by blast
    fix i :: int assume i: "0 \<le> i \<and> i < 1024"
    show "line st' i = line st i" if "i < base + offs tab off sfb \<or> base + offs tab off (sfb + int (Suc k)) \<le> i"
    proof -
      have "\<not> in_band tab off base sfb i" using that o unfolding e by (auto simp: in_band_def)
      moreover have "i < base + offs tab off (sfb + 1) \<or> base + offs tab off (sfb + 1 + int k) \<le> i" using that o unfolding e by auto
      ultimately show ?thesis using l1 [of i] IH i by auto
    qed
    fix s :: int assume s: "sfb \<le> s \<and> s < sfb + int (Suc k) \<and> in_band tab off base s i"
    show "line st' i = step g p s (line st i)"
    proof (cases "s = sfb")
      case True
      then have "in_band tab off base sfb i" "i < base + offs tab off (sfb + 1)" using s by (auto simp: in_band_def)
      then show ?thesis using l1 [of i] IH i True by simp
    next
      case False
      then have "sfb + 1 \<le> s" "s < sfb + 1 + int k" using s by auto
      moreover from this have "\<not> in_band tab off base sfb i" using later [of s i] s by (auto simp: in_band_def)
      ultimately show ?thesis using l1 [of i] IH i s by auto
    qed
  qed
qed auto

lemma walk_windows_lines:
  assumes "ics_ok idx ics" "bands_of ics tab off" "0 \<le> g" "g < num_window_groups ics" "p = g * max_sfb ics"
  shows "inv st \<Longrightarrow> 0 \<le> base \<Longrightarrow> base mod 128 = 0 \<Longrightarrow> (k > 0 \<Longrightarrow> base + 128 * (int k - 1) + win_len ics \<le> 1024) \<Longrightarrow>
    walk_windows k (max_sfb ics) base (body g p) st = Some (False, st') \<Longrightarrow>
    inv st' \<and> (\<forall>i. 0 \<le> i \<and> i < 1024 \<longrightarrow>
      ((i < base \<or> base + 128 * (int k - 1) + win_len ics \<le> i) \<longrightarrow> line st' i = line st i)
      \<and> (\<forall>b s. 0 \<le> b \<and> b < int k \<and> 0 \<le> s \<and> s < max_sfb ics \<and> in_band tab off (base + 128 * b) s i \<longrightarrow>
           line st' i = step g p s (line st i)))"
proof (induction k arbitrary: base st)
  case (Suc k)
  obtain n where n: "bands_ok tab off n (win_len ics)" "max_sfb ics < n" using assms(2) by (auto simp: bands_of_def)
  have m: "0 \<le> max_sfb ics" using assms(1) by (simp add: ics_ok_def)
  have w: "win_len ics = 128 \<or> k = 0" using Suc.prems(2,4) by (auto simp: win_len_def split: if_splits)
  have wpos: "128 \<le> win_len ics" by (simp add: win_len_def)
  have v: "visited ics g p base s" if "0 \<le> s" "s < 0 + int (nat (max_sfb ics))" for s
    using that Suc.prems(2-4) assms(3-5) by (auto simp: visited_def split: if_splits)
  obtain st1 where b: "walk_bands (nat (max_sfb ics)) 0 (body g p base) st = Some (False, st1)"
      "walk_windows k (max_sfb ics) (base + 128) (body g p) st1 = Some (False, st')"
    using Suc.prems(5) by (auto simp: bind_eq_Some_conv split: if_splits)
  have l1: "inv st1 \<and> (\<forall>i. 0 \<le> i \<and> i < 1024 \<longrightarrow>
      ((i < base + offs tab off 0 \<or> base + offs tab off (0 + int (nat (max_sfb ics))) \<le> i) \<longrightarrow> line st1 i = line st i)
      \<and> (\<forall>s. 0 \<le> s \<and> s < 0 + int (nat (max_sfb ics)) \<and> in_band tab off base s i \<longrightarrow> line st1 i = step g p s (line st i)))"
    using m by (intro walk_bands_lines [OF assms(1,2) Suc.prems(2) Suc.prems(1) _ _ v b(1)]) auto
  have z: "offs tab off 0 = 0" "offs tab off (max_sfb ics) \<le> win_len ics"
    using bands_ends(1) [OF n(1)] bands_bounds(2) [OF n(1) m] n(2) by simp_all
  have l1': "line st1 i = line st i" if "0 \<le> i" "i < 1024" "i < base \<or> base + win_len ics \<le> i" for i
    using l1 that z m by auto
  have IH: "inv st' \<and> (\<forall>i. 0 \<le> i \<and> i < 1024 \<longrightarrow>
      ((i < base + 128 \<or> base + 128 + 128 * (int k - 1) + win_len ics \<le> i) \<longrightarrow> line st' i = line st1 i)
      \<and> (\<forall>b s. 0 \<le> b \<and> b < int k \<and> 0 \<le> s \<and> s < max_sfb ics \<and> in_band tab off (base + 128 + 128 * b) s i \<longrightarrow>
           line st' i = step g p s (line st1 i)))"
    using Suc.prems l1 by (intro Suc.IH [OF _ _ _ _ b(2)]) auto
  have last: "line st' i = line st1 i" if "0 \<le> i" "i < 1024" "i < base + win_len ics" for i
  proof (cases "k = 0")
    case True
    then show ?thesis using b(2) by simp
  next
    case False
    then show ?thesis using IH w that by auto
  qed
  show ?case
  proof (intro conjI allI impI)
    show "inv st'" using IH by blast
    fix i :: int assume i: "0 \<le> i \<and> i < 1024"
    show "line st' i = line st i" if a: "i < base \<or> base + 128 * (int (Suc k) - 1) + win_len ics \<le> i"
    proof -
      have "i < base \<or> base + win_len ics \<le> i" using a by auto
      then have "line st1 i = line st i" using l1' i by blast
      moreover have "i < base + 128 \<or> base + 128 + 128 * (int k - 1) + win_len ics \<le> i" using a by auto
      ultimately show ?thesis using IH i by auto
    qed
    fix b' s :: int
    assume s: "0 \<le> b' \<and> b' < int (Suc k) \<and> 0 \<le> s \<and> s < max_sfb ics \<and> in_band tab off (base + 128 * b') s i"
    have bounds: "0 \<le> offs tab off s" "offs tab off (s + 1) \<le> win_len ics"
      using bands_bounds [OF n(1)] s n(2) by auto
    show "line st' i = step g p s (line st i)"
    proof (cases "b' = 0")
      case True
      then have "in_band tab off base s i" using s by simp
      then have "line st1 i = step g p s (line st i)" "i < base + win_len ics" using l1 i s m bounds by (auto simp: in_band_def)
      then show ?thesis using last i by simp
    next
      case False
      then have "win_len ics = 128" using w s by auto
      then have "base + win_len ics \<le> i" using False s bounds by (auto simp: in_band_def)
      then have "line st1 i = line st i" using l1' i by blast
      moreover have "in_band tab off (base + 128 + 128 * (b' - 1)) s i" using s by (simp add: in_band_def algebra_simps)
      moreover have "0 \<le> b' - 1" "b' - 1 < int k" using False s by auto
      ultimately show ?thesis using IH i s by metis
    qed
  qed
qed auto

lemma sums_fit:
  assumes "ics_ok idx ics" "0 \<le> g" "g < num_window_groups ics"
  shows "1 \<le> window_group_length ics ! nat g" "nat g < length (window_group_length ics)"
    "0 \<le> win_base ics g 0" "win_base ics g (window_group_length ics ! nat g - 1) + win_len ics \<le> 1024"
proof -
  let ?lens = "window_group_length ics"
  define t where "t = (if window_sequence ics = EIGHT_SHORT_SEQUENCE then 8 else (1 :: int))"
  have gs: "groups_ok (num_window_groups ics) ?lens t" using assms by (auto simp: ics_ok_def t_def)
  have len: "length ?lens = 8" "num_window_groups ics \<le> 8" using gs by (simp_all add: groups_ok_def)
  have g: "nat g < nat (num_window_groups ics)" "nat g < 8" using assms len by auto
  then show gl: "nat g < length ?lens" using len by simp
  let ?all = "take (nat (num_window_groups ics)) ?lens"
  have pos: "1 \<le> x" if "x \<in> set ?all" for x using gs that by (auto simp: groups_ok_def list_all_iff)
  show l: "1 \<le> ?lens ! nat g" by (rule pos) (use g len in \<open>auto simp: in_set_conv_nth intro!: exI [of _ "nat g"]\<close>)
  have split: "?all = take (Suc (nat g)) ?lens @ drop (Suc (nat g)) ?all"
    using g by (metis Suc_leI append_take_drop_id min.absorb1 take_take)
  have "0 \<le> sum_list (drop (Suc (nat g)) ?all)"
    using pos by (intro sum_list_nonneg) (force dest: in_set_dropD)
  moreover have "sum_list ?all = t" using gs by (simp add: groups_ok_def)
  ultimately have "sum_list (take (Suc (nat g)) ?lens) \<le> t" using split by (metis sum_list_append le_add_same_cancel1)
  then have top: "sum_list (take (nat g) ?lens) + ?lens ! nat g \<le> t" using gl by (simp add: take_Suc_conv_app_nth)
  have "set (take (nat g) ?lens) \<subseteq> set ?all" using g(1) by (intro set_take_subset_set_take less_imp_le)
  then have low: "0 \<le> sum_list (take (nat g) ?lens)" using pos by (intro sum_list_nonneg) force
  then show "0 \<le> win_base ics g 0" by (simp add: win_base_def)
  show "win_base ics g (?lens ! nat g - 1) + win_len ics \<le> 1024"
    using top low l by (auto simp: win_base_def t_def win_len_def split: if_splits)
qed

lemma walk_groups_lines:
  assumes "ics_ok idx ics" "bands_of ics tab off"
  shows "inv st \<Longrightarrow> 0 \<le> g \<Longrightarrow> g + int k = num_window_groups ics \<Longrightarrow>
    walk_groups k ics g (g * max_sfb ics) (win_base ics g 0) body st = Some (False, st') \<Longrightarrow>
    inv st' \<and> (\<forall>i. 0 \<le> i \<and> i < 1024 \<longrightarrow>
      (i < win_base ics g 0 \<longrightarrow> line st' i = line st i)
      \<and> (\<forall>h b s. g \<le> h \<and> h < g + int k \<and> 0 \<le> b \<and> b < window_group_length ics ! nat h \<and> 0 \<le> s \<and> s < max_sfb ics
            \<and> in_band tab off (win_base ics h b) s i \<longrightarrow> line st' i = step h (h * max_sfb ics) s (line st i)))"
proof (induction k arbitrary: g st)
  case (Suc k)
  define l where "l = window_group_length ics ! nat g"
  have gk: "0 \<le> g" "g < num_window_groups ics" using Suc.prems by auto
  note f = sums_fit [OF assms(1) gk, folded l_def]
  obtain n where n: "bands_ok tab off n (win_len ics)" "max_sfb ics < n" using assms(2) by (auto simp: bands_of_def)
  have r: "rd (window_group_length ics) g = Some l" using f(2) gk by (simp add: rd_def l_def)
  obtain st1 where b: "walk_windows (nat l) (max_sfb ics) (win_base ics g 0) (body g (g * max_sfb ics)) st = Some (False, st1)"
      "walk_groups k ics (g + 1) (g * max_sfb ics + max_sfb ics) (win_base ics g 0 + 128 * l) body st1 = Some (False, st')"
    using Suc.prems(4) r by (auto simp: bind_eq_Some_conv split: if_splits)
  have e: "g * max_sfb ics + max_sfb ics = (g + 1) * max_sfb ics" "win_base ics g 0 + 128 * l = win_base ics (g + 1) 0"
    using gk f(2) by (simp_all add: algebra_simps win_base_def nat_add_distrib take_Suc_conv_app_nth l_def)
  have wb: "win_base ics g b = win_base ics g 0 + 128 * b" for b by (simp add: win_base_def)
  have l1: "inv st1 \<and> (\<forall>i. 0 \<le> i \<and> i < 1024 \<longrightarrow>
      ((i < win_base ics g 0 \<or> win_base ics g 0 + 128 * (int (nat l) - 1) + win_len ics \<le> i) \<longrightarrow> line st1 i = line st i)
      \<and> (\<forall>b s. 0 \<le> b \<and> b < int (nat l) \<and> 0 \<le> s \<and> s < max_sfb ics \<and> in_band tab off (win_base ics g 0 + 128 * b) s i \<longrightarrow>
           line st1 i = step g (g * max_sfb ics) s (line st i)))"
    using f wb [of "l - 1"]
    by (intro walk_windows_lines [OF assms gk refl Suc.prems(1) _ _ _ b(1)]) (auto simp: win_base_def)
  have IH: "inv st' \<and> (\<forall>i. 0 \<le> i \<and> i < 1024 \<longrightarrow>
      (i < win_base ics (g + 1) 0 \<longrightarrow> line st' i = line st1 i)
      \<and> (\<forall>h b s. g + 1 \<le> h \<and> h < g + 1 + int k \<and> 0 \<le> b \<and> b < window_group_length ics ! nat h \<and> 0 \<le> s \<and> s < max_sfb ics
            \<and> in_band tab off (win_base ics h b) s i \<longrightarrow> line st' i = step h (h * max_sfb ics) s (line st1 i)))"
    using Suc.prems l1 by (intro Suc.IH [OF _ _ _ b(2) [unfolded e]]) auto
  have grp: "win_len ics = 128 \<or> k = 0" using Suc.prems(2,3) assms(1) by (auto simp: ics_ok_def win_len_def split: if_splits)
  have last: "line st' i = line st1 i" if "0 \<le> i" "i < 1024" "i < win_base ics g (l - 1) + win_len ics" for i
  proof (cases "k = 0")
    case True
    then show ?thesis using b(2) by simp
  next
    case False
    then have "i < win_base ics (g + 1) 0" using grp that(3) wb [of "l - 1"] unfolding e(2) [symmetric] by simp
    then show ?thesis using IH that by blast
  qed
  have base_mono: "win_base ics (g + 1) 0 \<le> win_base ics h 0" if "g + 1 \<le> h" "h < g + 1 + int k" for h
    using that
  proof (induction h rule: int_ge_induct)
    case (step h)
    have h: "0 \<le> h" "h < num_window_groups ics" using step Suc.prems by auto
    have "win_base ics (h + 1) 0 = win_base ics h 0 + 128 * window_group_length ics ! nat h"
      using h(1) sums_fit(2) [OF assms(1) h] by (simp add: win_base_def nat_add_distrib take_Suc_conv_app_nth)
    then show ?case using step sums_fit(1) [OF assms(1) h] by simp
  qed simp
  show ?case
  proof (intro conjI allI impI)
    show "inv st'" using IH by blast
    fix i :: int assume i: "0 \<le> i \<and> i < 1024"
    show "line st' i = line st i" if "i < win_base ics g 0"
    proof -
      have "i < win_base ics (g + 1) 0" using that f(1) e(2) by simp
      then show ?thesis using IH l1 i that by auto
    qed
    fix h b s :: int
    assume a: "g \<le> h \<and> h < g + int (Suc k) \<and> 0 \<le> b \<and> b < window_group_length ics ! nat h \<and> 0 \<le> s \<and> s < max_sfb ics
            \<and> in_band tab off (win_base ics h b) s i"
    have bounds: "0 \<le> offs tab off s" "offs tab off (s + 1) \<le> win_len ics"
      using bands_bounds [OF n(1)] a n(2) by auto
    show "line st' i = step h (h * max_sfb ics) s (line st i)"
    proof (cases "h = g")
      case True
      then have "0 \<le> b" "b < int (nat l)" "in_band tab off (win_base ics g 0 + 128 * b) s i" using a f(1) by (auto simp: l_def wb [of b])
      then have "line st1 i = step g (g * max_sfb ics) s (line st i)" using l1 i a by blast
      moreover have "i < win_base ics g (l - 1) + win_len ics"
        using bounds a True by (auto simp: in_band_def l_def wb [of b] wb [of "window_group_length ics ! nat g - 1"])
      ultimately show ?thesis using last i True by simp
    next
      case False
      then have h: "g + 1 \<le> h" "h < g + 1 + int k" using a by auto
      have "win_len ics = 128" using grp h by auto
      moreover have "win_base ics h 0 \<le> i" using a bounds by (auto simp: in_band_def win_base_def)
      ultimately have "win_base ics g 0 + 128 * (int (nat l) - 1) + win_len ics \<le> i"
        using base_mono [OF h] f(1) unfolding e(2) [symmetric] by simp
      then have "line st1 i = line st i" using l1 i by auto
      moreover have "line st' i = step h (h * max_sfb ics) s (line st1 i)" using IH i a h by blast
      ultimately show ?thesis by simp
    qed
  qed
qed auto

lemma walk_lines:
  assumes "ics_ok idx ics" "bands_of ics tab off" "inv st" "walk ics body st = Some (False, st')"
    and "0 \<le> g" "g < num_window_groups ics" "0 \<le> b" "b < window_group_length ics ! nat g" "0 \<le> sfb" "sfb < max_sfb ics"
    and "in_band tab off (win_base ics g b) sfb i"
  shows "line st' i = step g (g * max_sfb ics) sfb (line st i)"
proof -
  obtain n where n: "bands_ok tab off n (win_len ics)" "max_sfb ics < n" using assms(2) by (auto simp: bands_of_def)
  have w: "win_base ics g b = win_base ics g 0 + 128 * b" by (simp add: win_base_def)
  have "win_base ics g b \<le> win_base ics g (window_group_length ics ! nat g - 1)" using assms(8) by (simp add: win_base_def)
  then have "0 \<le> i \<and> i < 1024"
    using sums_fit(3,4) [OF assms(1,5,6)] bands_bounds [OF n(1), of sfb] bands_bounds [OF n(1), of "sfb + 1"] n(2) assms(7,9,10,11) w
    by (auto simp: in_band_def)
  moreover have "0 + int (nat (num_window_groups ics)) = num_window_groups ics" using assms(5,6) by simp
  moreover have "walk_groups (nat (num_window_groups ics)) ics 0 (0 * max_sfb ics) (win_base ics 0 0) body st = Some (False, st')"
    using assms(4) by (simp add: walk_def win_base_def)
  ultimately show ?thesis
    using walk_groups_lines [OF assms(1-3), of 0 "nat (num_window_groups ics)" st'] assms(5-11) by auto
qed

end

end
