(* ===== verification/Tns.thy ===== *)
theory Tns
  imports ChannelMap Outer Bands
begin

unbundle bit_operations_syntax

text \<open>
  Temporal noise shaping, \<^verbatim>\<open>src/lc_tns.c\<close>: the predictor coefficients of a filter, the two filters over the
  spectrum and the loop over windows and filters. The working array \<open>tns_lpc\<close> holds the coefficients from
  index 0 on, and from index 24 on first the intermediate coefficients, then the history of the filter.
\<close>

section \<open>Operations\<close>



text \<open>Reflection coefficients, in units of \<open>2\<^sup>-\<^sup>3\<^sup>1\<close> (macro \<open>Q31\<close>).\<close>

definition tns_coef_0_3 :: "int list" where
  "tns_coef_0_3 =
    [0, 931758235, 1678970324, 2093641749, -2114858546, -1859775393, -1380375881, -734482665,
     -931758235, -1678970324, -2093641749, -2093641749, -2114858546, -1859775393, -1380375881, -734482665]"

definition tns_coef_0_4 :: "int list" where
  "tns_coef_0_4 =
    [0, 446486956, 873460290, 1262259218, 1595891361, 1859775393, 2042378317, 2135719508,
     -2138322861, -2065504841, -1922348531, -1713728946, -1446750378, -1130504462, -775760571, -394599085]"

definition tns_coef_1_3 :: "int list" where
  "tns_coef_1_3 =
    [0, 931758235, -1380375881, -734482665, 2093641749, 1678970324, -1380375881, -734482665,
     -931758235, -1678970324, -1380375881, -734482665, -1678970324, -931758235, -1380375881, -734482665]"

definition tns_coef_1_4 :: "int list" where
  "tns_coef_1_4 =
    [0, 446486956, 873460290, 1262259218, -1446750378, -1130504462, -775760571, -394599085,
     2135719508, 2042378317, 1859775393, 1595891361, -1446750378, -1130504462, -775760571, -394599085]"

definition tnsMaxBandsShort :: "int list" where
  "tnsMaxBandsShort = [9, 9, 10, 14, 14, 14, 14, 14, 14, 14, 14, 14]"

definition tnsMaxBandsLong :: "int list" where
  "tnsMaxBandsLong = [31, 31, 34, 40, 42, 51, 46, 46, 42, 42, 42, 39]"

definition ttsfBandTotalShort :: "int list" where
  "ttsfBandTotalShort = [12, 12, 12, 14, 14, 14, 15, 15, 15, 15, 15, 15]"

definition ttsfBandTotalLong :: "int list" where
  "ttsfBandTotalLong = [41, 41, 47, 49, 49, 51, 47, 47, 43, 43, 43, 40]"

text \<open>\<open>for (i = 1; i < m; i++) b[i] = a[i] + (MUL_32(t, a[m - i]) << 1)\<close>, where \<open>b = a + 24\<close>, and the copy back.\<close>

fun lpc_mix :: "nat \<Rightarrow> int \<Rightarrow> int \<Rightarrow> int \<Rightarrow> int list \<Rightarrow> int list option" where
  "lpc_mix 0 i m t a = Some a"
| "lpc_mix (Suc k) i m t a =
     do { x \<leftarrow> rd a i; y \<leftarrow> rd a (m - i);
          a \<leftarrow> wr a (24 + i) (s32 (x + s32 (MUL_32 t y * 2)));
          lpc_mix k (i + 1) m t a }"

fun lpc_copy :: "nat \<Rightarrow> int \<Rightarrow> int list \<Rightarrow> int list option" where
  "lpc_copy 0 i a = Some a"
| "lpc_copy (Suc k) i a = do { x \<leftarrow> rd a (24 + i); a \<leftarrow> wr a i x; lpc_copy k (i + 1) a }"

fun lpc_loop :: "nat \<Rightarrow> int \<Rightarrow> int list \<Rightarrow> int list \<Rightarrow> int list \<Rightarrow> int list option" where
  "lpc_loop 0 m tab cs a = Some a"
| "lpc_loop (Suc k) m tab cs a =
     do { c \<leftarrow> rd cs (m - 1); t \<leftarrow> rd tab (c AND 15);
          a \<leftarrow> lpc_mix (nat (m - 1)) 1 m t a;
          a \<leftarrow> lpc_copy (nat (m - 1)) 1 a;
          a \<leftarrow> wr a m (drop_bit 7 t);
          lpc_loop k (m + 1) tab cs a }"

definition tns_table :: "int \<Rightarrow> int \<Rightarrow> int list" where
  "tns_table res compress =
     (if compress = 0 then (if res = 3 then tns_coef_0_3 else tns_coef_0_4)
      else (if res = 3 then tns_coef_1_3 else tns_coef_1_4))"

definition tns_decode_coef :: "int \<Rightarrow> int \<Rightarrow> int \<Rightarrow> int list \<Rightarrow> int list \<Rightarrow> int list option" where
  "tns_decode_coef order res compress cs a =
     do { a \<leftarrow> wr a 0 (2 ^ 24); lpc_loop (nat order) 1 (tns_table res compress) cs a }"

text \<open>
  The loops of the two filters, which differ in the sign \<open>sg\<close> of the taps and in the shift \<open>sh\<close>: the taps from
  \<open>j = order - 1\<close> down to 0 with the history moving up, then the sample.
\<close>

fun tns_taps :: "int \<Rightarrow> nat \<Rightarrow> int \<Rightarrow> int list \<Rightarrow> (int \<times> int list) option" where
  "tns_taps sg 0 y a =
     do { s \<leftarrow> rd a 24; c \<leftarrow> rd a 1; Some (s64 (y + sg * (s * c)), a) }"
| "tns_taps sg (Suc j) y a =
     do { s \<leftarrow> rd a (24 + (int j + 1)); c \<leftarrow> rd a (int j + 2);
          let y = s64 (y + sg * (s * c));
          p \<leftarrow> rd a (24 + int j);
          a \<leftarrow> wr a (24 + (int j + 1)) p;
          tns_taps sg j y a }"

fun tns_run :: "int \<Rightarrow> nat \<Rightarrow> nat \<Rightarrow> int \<Rightarrow> int \<Rightarrow> int \<Rightarrow> int list \<Rightarrow> int list \<Rightarrow> (int list \<times> int list) option" where
  "tns_run sg sh 0 pos inc order spec a = Some (spec, a)"
| "tns_run sg sh (Suc k) pos inc order spec a =
     do { x \<leftarrow> rd spec pos;
          (y, a) \<leftarrow> tns_taps sg (nat (order - 1)) (s64 (x * 2 ^ sh)) a;
          let ys = s32 (drop_bit sh (s64 (y + 2 ^ (sh - 1))));
          a \<leftarrow> wr a 24 ys;
          spec \<leftarrow> wr spec pos ys;
          tns_run sg sh k (pos + inc) inc order spec a }"

fun tns_clear :: "nat \<Rightarrow> int \<Rightarrow> int list \<Rightarrow> int list option" where
  "tns_clear 0 i a = Some a"
| "tns_clear (Suc k) i a = do { a \<leftarrow> wr a (24 + i) 0; tns_clear k (i + 1) a }"

definition tns_ma_filter :: "int list \<Rightarrow> int \<Rightarrow> int \<Rightarrow> int \<Rightarrow> int list \<Rightarrow> int \<Rightarrow> (int list \<times> int list) option" where
  "tns_ma_filter spec pos sz inc a order =
     do { a \<leftarrow> tns_clear (nat order) 0 a; tns_run 1 24 (nat sz) pos inc order spec a }"

definition tns_ar_filter :: "int list \<Rightarrow> int \<Rightarrow> int \<Rightarrow> int \<Rightarrow> int list \<Rightarrow> int \<Rightarrow> (int list \<times> int list) option" where
  "tns_ar_filter spec pos sz inc a order =
     do { a \<leftarrow> tns_clear (nat order) 0 a; tns_run (- 1) 28 (nat sz) pos inc order spec a }"

text \<open>
  The limits of the filters for the window sequence: windows, their length, the number of bands, the
  table of their offsets with its start, the largest order and the largest band.
\<close>

record tns_limits =
  lim_windows :: int
  lim_len :: int
  lim_swb :: int
  lim_table :: "int list"
  lim_base :: int
  lim_order :: int
  lim_band :: int

definition tns_limits_of :: "AACDecoder \<Rightarrow> ICS_Data \<Rightarrow> tns_limits option" where
  "tns_limits_of d ics =
     (if window_sequence ics = EIGHT_SHORT_SEQUENCE then
        do { swb \<leftarrow> rd ttsfBandTotalShort (sampRateIdx d); off \<leftarrow> rd sfBandTabShortOffset (sampRateIdx d);
             band \<leftarrow> rd tnsMaxBandsShort (sampRateIdx d);
             Some \<lparr>lim_windows = 8, lim_len = 128, lim_swb = swb, lim_table = sfBandTabShort, lim_base = off,
                   lim_order = 7, lim_band = band\<rparr> }
      else
        do { swb \<leftarrow> rd ttsfBandTotalLong (sampRateIdx d); off \<leftarrow> rd sfBandTabLongOffset (sampRateIdx d);
             band \<leftarrow> rd tnsMaxBandsLong (sampRateIdx d);
             Some \<lparr>lim_windows = 1, lim_len = 1024, lim_swb = swb, lim_table = sfBandTabLong, lim_base = off,
                   lim_order = (if profile d = TTAAC_AAC_MAIN then 20 else 12), lim_band = band\<rparr> })"

text \<open>\<open>for (f = 0; f < n_filt; f++)\<close> with the filter to apply, on window \<open>w\<close>; the state is the bottom band, the spectrum and the array.\<close>

type_synonym tns_filter = "int list \<Rightarrow> int \<Rightarrow> int \<Rightarrow> int \<Rightarrow> int list \<Rightarrow> int \<Rightarrow> (int list \<times> int list) option"

fun tns_filters :: "tns_filter \<Rightarrow> tns_limits \<Rightarrow> TNS_Data \<Rightarrow> int \<Rightarrow> nat \<Rightarrow> int \<Rightarrow> int \<Rightarrow> int list \<Rightarrow> int list
    \<Rightarrow> (int list \<times> int list) option" where
  "tns_filters flt l t w 0 f bottom spec a = Some (spec, a)"
| "tns_filters flt l t w (Suc k) f bottom spec a =
     do { len \<leftarrow> rd (tns_length t) f; ord \<leftarrow> rd (tns_order t) f;
          let top = bottom; let bottom = max (top - len) 0; let order = min ord (lim_order l);
          if order = 0 then tns_filters flt l t w k (f + 1) bottom spec a
          else do {
            start \<leftarrow> rd (lim_table l) (lim_base l + min bottom (lim_band l));
            end \<leftarrow> rd (lim_table l) (lim_base l + min top (lim_band l));
            let sz = end - start;
            if sz \<le> 0 then tns_filters flt l t w k (f + 1) bottom spec a
            else do {
              compress \<leftarrow> rd (coef_compress t) f; cs \<leftarrow> rd (tns_coef t) f;
              a \<leftarrow> tns_decode_coef order (coef_res t + 3) compress cs a;
              dir \<leftarrow> rd (tns_direction t) f;
              let (inc, start) = (if dir \<noteq> 0 then (- 1, end - 1) else (1, start));
              (spec, a) \<leftarrow> flt spec (w * lim_len l + start) sz inc a order;
              tns_filters flt l t w k (f + 1) bottom spec a } } }"

fun tns_windows :: "tns_filter \<Rightarrow> tns_limits \<Rightarrow> TNS_Data list \<Rightarrow> nat \<Rightarrow> int \<Rightarrow> int list \<Rightarrow> int list \<Rightarrow> (int list \<times> int list) option" where
  "tns_windows flt l ts 0 w spec a = Some (spec, a)"
| "tns_windows flt l ts (Suc k) w spec a =
     do { t \<leftarrow> rd ts w;
          (spec, a) \<leftarrow> tns_filters flt l t w (nat (n_filt t)) 0 (lim_swb l) spec a;
          tns_windows flt l ts k (w + 1) spec a }"

definition tns_channel :: "AACDecoder \<Rightarrow> int \<Rightarrow> AACDecoder option" where
  "tns_channel d ch =
     do { present \<leftarrow> rd (tns_data_present d) ch;
          if present = 0 then Some d
          else do {
            en \<leftarrow> EnableDecodeCurrChannel d ch;
            if en = 0 then Some d
            else do {
              spec \<leftarrow> rd (coef d) ch; ts \<leftarrow> rd (tns_data d) ch;
              ics \<leftarrow> rd (ics_data d) (if common_window d \<noteq> 0 then 0 else ch);
              l \<leftarrow> tns_limits_of d ics;
              let l = l\<lparr>lim_band := min (lim_band l) (max_sfb ics)\<rparr>;
              (spec, a) \<leftarrow> tns_windows tns_ar_filter l ts (nat (lim_windows l)) 0 spec (tns_lpc d);
              c \<leftarrow> wr (coef d) ch spec;
              Some (d\<lparr>coef := c, tns_lpc := a\<rparr>) } } }"

fun tns_channels :: "nat \<Rightarrow> int \<Rightarrow> AACDecoder \<Rightarrow> AACDecoder option" where
  "tns_channels 0 ch d = Some d"
| "tns_channels (Suc k) ch d = do { d \<leftarrow> tns_channel d ch; tns_channels k (ch + 1) d }"

definition tns_decode :: "AACDecoder \<Rightarrow> int \<Rightarrow> AACDecoder option" where
  "tns_decode d chans = tns_channels (nat chans) 0 d"

text \<open>The filter of the encoder's side, on a spectrum of its own.\<close>

definition tns_analysis_filter :: "AACDecoder \<Rightarrow> ICS_Data \<Rightarrow> TNS_Data list \<Rightarrow> int list \<Rightarrow> (int list \<times> AACDecoder) option" where
  "tns_analysis_filter d ics ts spec =
     do { l \<leftarrow> tns_limits_of d ics;
          (spec, a) \<leftarrow> tns_windows tns_ma_filter (l\<lparr>lim_len := 128\<rparr>) ts (nat (lim_windows l)) 0 spec (tns_lpc d);
          Some (spec, d\<lparr>tns_lpc := a\<rparr>) }"


section \<open>The predictor coefficients\<close>

text \<open>The recursion on the list \<open>a\<^sub>1, \<dots>\<close> of coefficients, with its reflection coefficient \<open>t\<close>.\<close>

definition step_up :: "int \<Rightarrow> int list \<Rightarrow> int list" where
  "step_up t ls = map2 (\<lambda>x y. s32 (x + s32 (MUL_32 t y * 2))) ls (rev ls) @ [drop_bit 7 t]"

definition predictor :: "int list \<Rightarrow> int list" where
  "predictor ts = fold step_up ts []"

definition reflections :: "int list \<Rightarrow> int list \<Rightarrow> int list" where
  "reflections tab cs = map (\<lambda>c. tab ! nat (c AND 15)) cs"

lemma length_step_up [simp]: "length (step_up t ls) = Suc (length ls)"
  by (simp add: step_up_def)

lemma length_predictor: "length (fold step_up ts ls) = length ls + length ts"
  by (induction ts arbitrary: ls) simp_all

lemma nth_overwrite:
  "0 \<le> p \<Longrightarrow> p + int (length vs) \<le> int (length xs) \<Longrightarrow> j < length xs \<Longrightarrow>
   overwrite xs p vs ! j = (if nat p \<le> j \<and> j < nat p + length vs then vs ! (j - nat p) else xs ! j)"
  by (auto simp: overwrite_def nth_append min_def)

lemma rd_in: "0 \<le> i \<Longrightarrow> i < int (length xs) \<Longrightarrow> rd xs i = Some (xs ! nat i)"
  and wr_in: "0 \<le> i \<Longrightarrow> i < int (length xs) \<Longrightarrow> wr xs i v = Some (xs[nat i := v])"
  by (simp_all add: rd_def wr_def)

lemma lpc_mix_eq:
  assumes "length a = 48" "1 \<le> i" "i + k = m" "m \<le> 24"
  shows "lpc_mix k (int i) (int m) t a =
    Some (overwrite a (24 + int i) (map (\<lambda>j. s32 (a ! j + s32 (MUL_32 t (a ! (m - j)) * 2))) [i..<m]))"
  using assms
proof (induction k arbitrary: i a)
  case (Suc k)
  define v where "v = s32 (a ! i + s32 (MUL_32 t (a ! (m - i)) * 2))"
  let ?a = "a[24 + i := v]"
  have r: "rd a (int i) = Some (a ! i)" "rd a (int m - int i) = Some (a ! (m - i))"
      "wr a (24 + int i) v = Some ?a"
    using Suc.prems by (simp_all add: rd_in wr_in nat_diff_distrib nat_add_distrib)
  have n: "nat (24 + int i) = 24 + i" by simp
  have IH: "lpc_mix k (int (Suc i)) (int m) t ?a =
      Some (overwrite ?a (24 + int (Suc i)) (map (\<lambda>j. s32 (?a ! j + s32 (MUL_32 t (?a ! (m - j)) * 2))) [Suc i..<m]))"
    using Suc.prems by (intro Suc.IH) auto
  have e: "map (\<lambda>j. s32 (?a ! j + s32 (MUL_32 t (?a ! (m - j)) * 2))) [Suc i..<m]
      = map (\<lambda>j. s32 (a ! j + s32 (MUL_32 t (a ! (m - j)) * 2))) [Suc i..<m]"
    using Suc.prems by auto
  have c: "map (\<lambda>j. s32 (a ! j + s32 (MUL_32 t (a ! (m - j)) * 2))) [i..<m]
      = v # map (\<lambda>j. s32 (a ! j + s32 (MUL_32 t (a ! (m - j)) * 2))) [Suc i..<m]"
    using Suc.prems by (simp add: upt_conv_Cons v_def)
  have o: "overwrite (a[nat (24 + int i) := v]) (24 + int i + 1) vs = overwrite a (24 + int i) (v # vs)"
    if "length vs = m - Suc i" for vs
    using that Suc.prems by (intro overwrite_Cons) auto
  show ?case using IH [unfolded e] r o [of "map (\<lambda>j. s32 (a ! j + s32 (MUL_32 t (a ! (m - j)) * 2))) [Suc i..<m]"]
    unfolding c n by (simp add: v_def [symmetric] add.commute)
qed simp

lemma lpc_copy_eq:
  assumes "length a = 48" "i + k \<le> 24"
  shows "lpc_copy k (int i) a = Some (overwrite a (int i) (map (\<lambda>j. a ! (24 + j)) [i..<i + k]))"
  using assms
proof (induction k arbitrary: i a)
  case (Suc k)
  let ?a = "a[i := a ! (24 + i)]"
  have r: "rd a (24 + int i) = Some (a ! (24 + i))" "wr a (int i) (a ! (24 + i)) = Some ?a"
    using Suc.prems by (simp_all add: rd_in wr_in nat_add_distrib)
  have IH: "lpc_copy k (int (Suc i)) ?a = Some (overwrite ?a (int (Suc i)) (map (\<lambda>j. ?a ! (24 + j)) [Suc i..<Suc i + k]))"
    using Suc.prems by (intro Suc.IH) auto
  have e: "map (\<lambda>j. ?a ! (24 + j)) [Suc i..<Suc i + k] = map (\<lambda>j. a ! (24 + j)) [Suc i..<i + Suc k]"
    using Suc.prems by auto
  have c: "map (\<lambda>j. a ! (24 + j)) [i..<i + Suc k] = a ! (24 + i) # map (\<lambda>j. a ! (24 + j)) [Suc i..<i + Suc k]"
    by (simp add: upt_conv_Cons del: upt_Suc)
  have o: "overwrite (a[nat (int i) := a ! (24 + i)]) (int i + 1) vs = overwrite a (int i) (a ! (24 + i) # vs)"
    if "length vs = k" for vs
    using that Suc.prems by (intro overwrite_Cons) auto
  show ?case using IH [unfolded e] r o [of "map (\<lambda>j. a ! (24 + j)) [Suc i..<i + Suc k]"]
    unfolding c by (simp add: add.commute del: upt_Suc)
qed simp

text \<open>The array holds the coefficients \<open>ls\<close> behind the leading one.\<close>

definition holds_lpc :: "int list \<Rightarrow> int list \<Rightarrow> bool" where
  "holds_lpc a ls \<longleftrightarrow> length a = 48 \<and> a ! 0 = 2 ^ 24 \<and> length ls \<le> 23 \<and> (\<forall>j < length ls. a ! Suc j = ls ! j)"

lemma lpc_step_eq:
  assumes "holds_lpc a ls" "m = Suc (length ls)" "m \<le> 23"
  shows "\<exists>a'. do { a \<leftarrow> lpc_mix (m - 1) 1 (int m) t a; a \<leftarrow> lpc_copy (m - 1) 1 a; wr a (int m) (drop_bit 7 t) } = Some a'
     \<and> holds_lpc a' (step_up t ls)"
proof -
  have len: "length a = 48" and ls: "\<And>j. j < m - 1 \<Longrightarrow> a ! Suc j = ls ! j" and a0: "a ! 0 = 2 ^ 24"
    using assms by (auto simp: holds_lpc_def)
  let ?F = "\<lambda>j. s32 (a ! j + s32 (MUL_32 t (a ! (m - j)) * 2))"
  define a1 where "a1 = overwrite a (24 + int 1) (map ?F [1..<m])"
  define a2 where "a2 = overwrite a1 (int 1) (map (\<lambda>j. a1 ! (24 + j)) [1..<m])"
  have l1: "length a1 = 48" using len assms by (simp add: a1_def)
  then have l2: "length a2 = 48" using assms by (simp add: a2_def)
  have mix: "lpc_mix (m - 1) 1 (int m) t a = Some a1"
    using lpc_mix_eq [OF len, of 1 "m - 1" m t] assms(2,3) by (simp add: a1_def)
  have copy: "lpc_copy (m - 1) 1 a1 = Some a2"
    using lpc_copy_eq [OF l1, of 1 "m - 1"] assms(2,3) by (simp add: a2_def)
  have w: "wr a2 (int m) (drop_bit 7 t) = Some (a2[m := drop_bit 7 t])" using l2 assms(3) by (simp add: wr_in)
  have a1n: "a1 ! (24 + j) = ?F j" if "1 \<le> j" "j < m" for j
  proof -
    have "[Suc 0..<m] ! (j - Suc 0) = j" using that by (subst nth_upt) auto
    then show ?thesis using that len assms(3) by (simp add: a1_def nth_overwrite)
  qed
  have a10: "a1 ! 0 = 2 ^ 24" using len assms(3) a0 by (simp add: a1_def nth_overwrite)
  have a20: "a2 ! 0 = 2 ^ 24" using l1 assms(3) a10 by (simp add: a2_def nth_overwrite)
  have a2n: "a2 ! Suc j = s32 (ls ! j + s32 (MUL_32 t (rev ls ! j) * 2))" if j: "j < m - 1" for j
  proof -
    have "Suc j < m" using j by simp
    then have "a2 ! Suc j = a1 ! (24 + Suc j)" using j l1 assms(3) by (simp add: a2_def nth_overwrite)
    also have "\<dots> = ?F (Suc j)" using j by (intro a1n) auto
    also have "a ! Suc j = ls ! j" using j by (rule ls)
    also have "a ! (m - Suc j) = ls ! (m - 2 - j)" using ls [of "m - 2 - j"] j by (simp add: Suc_diff_Suc numeral_2_eq_2)
    also have "ls ! (m - 2 - j) = rev ls ! j" using j assms(2) by (simp add: rev_nth)
    finally show ?thesis .
  qed
  have "holds_lpc (a2[m := drop_bit 7 t]) (step_up t ls)"
    using l2 a20 a2n assms(2,3) by (auto simp: holds_lpc_def step_up_def nth_append nth_list_update less_Suc_eq)
  then show ?thesis using mix copy w by simp
qed

lemma lpc_loop_eq:
  assumes "holds_lpc a ls" "int (length ls) + int k \<le> 23" "length ls + k \<le> length cs" "length tab = 16"
  shows "\<exists>a'. lpc_loop k (int (length ls) + 1) tab cs a = Some a'
     \<and> holds_lpc a' (fold step_up (reflections tab (take k (drop (length ls) cs))) ls)"
  using assms
proof (induction k arbitrary: a ls)
  case (Suc k)
  let ?m = "Suc (length ls)"
  define c where "c = cs ! length ls"
  define t where "t = tab ! nat (c AND 15)"
  have c: "rd cs (int (length ls)) = Some c" using Suc.prems by (simp add: rd_in c_def)
  have b: "0 \<le> c AND 15" "c AND 15 < 16"
    using take_bit_int_less_exp [of 4 c] take_bit_nonnegative [of 4 c] by (simp_all add: take_bit_eq_mask mask_numeral)
  have t: "rd tab (c AND 15) = Some t" using b Suc.prems(4) by (simp add: rd_in t_def)
  obtain a' where a': "do { a \<leftarrow> lpc_mix (?m - 1) 1 (int ?m) t a; a \<leftarrow> lpc_copy (?m - 1) 1 a; wr a (int ?m) (drop_bit 7 t) } = Some a'"
      "holds_lpc a' (step_up t ls)"
    using lpc_step_eq [OF Suc.prems(1) refl, of t] Suc.prems(2) by auto
  obtain a'' where IH: "lpc_loop k (int (length (step_up t ls)) + 1) tab cs a' = Some a''"
      "holds_lpc a'' (fold step_up (reflections tab (take k (drop (length (step_up t ls)) cs))) (step_up t ls))"
    using Suc.IH [OF a'(2)] Suc.prems by auto
  have d: "take (Suc k) (drop (length ls) cs) = c # take k (drop ?m cs)"
    using Suc.prems(3) by (simp add: c_def take_Suc_conv_app_nth Cons_nth_drop_Suc [symmetric])
  have "lpc_loop (Suc k) (int (length ls) + 1) tab cs a = lpc_loop k (int (length (step_up t ls)) + 1) tab cs a'"
    using a'(1) by (simp add: c t add.commute bind_eq_Some_conv) (auto simp: bind_eq_Some_conv)
  then show ?case using IH d by (simp add: reflections_def t_def)
qed (simp add: reflections_def)

lemma length_tns_table [simp]: "length (tns_table res compress) = 16"
  by (simp add: tns_table_def tns_coef_0_3_def tns_coef_0_4_def tns_coef_1_3_def tns_coef_1_4_def)

lemma tns_decode_coef_eq:
  assumes "length a = 48" "0 \<le> order" "order \<le> 20" "order \<le> int (length cs)"
  shows "\<exists>a'. tns_decode_coef order res compress cs a = Some a'
     \<and> holds_lpc a' (predictor (reflections (tns_table res compress) (take (nat order) cs)))"
proof -
  have "holds_lpc (a[0 := 2 ^ 24]) []" using assms(1) by (simp add: holds_lpc_def)
  then have "\<exists>a'. lpc_loop (nat order) (int (length ([] :: int list)) + 1) (tns_table res compress) cs (a[0 := 2 ^ 24]) = Some a'
     \<and> holds_lpc a' (fold step_up (reflections (tns_table res compress) (take (nat order) (drop (length ([] :: int list)) cs))) [])"
    using assms by (intro lpc_loop_eq) auto
  then show ?thesis using assms(1) by (simp add: tns_decode_coef_def predictor_def wr_in)
qed


section \<open>The filters\<close>

text \<open>One sample: the taps \<open>ls\<close> on the history \<open>hs\<close>, rounded to an integer; the recursion feeds back its own output.\<close>

definition tap_out :: "int \<Rightarrow> nat \<Rightarrow> int list \<Rightarrow> int list \<Rightarrow> int \<Rightarrow> int" where
  "tap_out sg sh ls hs x = s32 (drop_bit sh (s64 (x * 2 ^ sh + sg * sum_list (map2 (*) hs ls) + 2 ^ (sh - 1))))"

fun recursive_filter :: "int \<Rightarrow> nat \<Rightarrow> int list \<Rightarrow> int list \<Rightarrow> int list \<Rightarrow> int list" where
  "recursive_filter sg sh ls hs [] = []"
| "recursive_filter sg sh ls hs (x # xs) =
     (let y = tap_out sg sh ls hs x in y # recursive_filter sg sh ls (take (length hs) (y # hs)) xs)"

definition seg :: "int list \<Rightarrow> int \<Rightarrow> int \<Rightarrow> nat \<Rightarrow> int list" where
  "seg spec pos inc k = map (\<lambda>i. spec ! nat (pos + inc * int i)) [0..<k]"

definition hist :: "int list \<Rightarrow> nat \<Rightarrow> int list" where "hist a n = map (\<lambda>i. a ! (24 + i)) [0..<n]"
definition taps_of :: "int list \<Rightarrow> nat \<Rightarrow> int list" where "taps_of a n = map (\<lambda>i. a ! Suc i) [0..<n]"

lemma s64_add: "s64 (s64 x + y) = s64 (x + y)"
  unfolding s64_def by (metis signed_take_bit_add signed_take_bit_signed_take_bit min.idem)

lemma tap_sum_Suc: "sum_list (map2 (*) (hist a (Suc n)) (taps_of a (Suc n)))
    = sum_list (map2 (*) (hist a n) (taps_of a n)) + a ! (24 + n) * a ! Suc n"
  by (simp add: hist_def taps_of_def)

lemma tns_taps_eq:
  assumes "length a = 48" "j \<le> 19"
  shows "tns_taps sg j y a = Some (s64 (y + sg * sum_list (map2 (*) (hist a (Suc j)) (taps_of a (Suc j)))),
     overwrite a 25 (hist a j))"
  using assms
proof (induction j arbitrary: y a)
  case 0
  then show ?case by (simp add: rd_in hist_def taps_of_def)
next
  case (Suc j)
  let ?a = "a[25 + j := a ! (24 + j)]"
  have r: "rd a (24 + (int j + 1)) = Some (a ! (25 + j))" "rd a (int j + 2) = Some (a ! (Suc (Suc j)))"
    "rd a (24 + int j) = Some (a ! (24 + j))" "wr a (24 + (int j + 1)) (a ! (24 + j)) = Some ?a"
    using Suc.prems by (auto simp: rd_in wr_in nat_add_distrib)
  have h: "hist ?a i = hist a i" if "i \<le> Suc j" for i using that by (auto simp: hist_def)
  have t: "taps_of ?a i = taps_of a i" if "i \<le> Suc j" for i using that Suc.prems by (auto simp: taps_of_def)
  have o: "overwrite ?a 25 (hist a j) = overwrite a 25 (hist a (Suc j))"
    by (rule nth_equalityI) (use Suc.prems in \<open>auto simp: nth_overwrite hist_def nth_append nth_list_update less_Suc_eq\<close>)
  have "tns_taps sg (Suc j) y a = tns_taps sg j (s64 (y + sg * (a ! (25 + j) * a ! Suc (Suc j)))) ?a"
    using r by (simp add: Let_def)
  also have "\<dots> = Some (s64 (s64 (y + sg * (a ! (25 + j) * a ! Suc (Suc j))) + sg * sum_list (map2 (*) (hist ?a (Suc j)) (taps_of ?a (Suc j)))),
      overwrite ?a 25 (hist ?a j))"
    using Suc.prems by (intro Suc.IH) auto
  also have "\<dots> = Some (s64 (y + sg * sum_list (map2 (*) (hist a (Suc (Suc j))) (taps_of a (Suc (Suc j))))), overwrite a 25 (hist a (Suc j)))"
    by (simp only: s64_add h [OF order_refl] h [OF le_SucI [OF order_refl]] t [OF order_refl] o tap_sum_Suc [of a "Suc j"] distrib_left)
      (simp add: algebra_simps)
  finally show ?case .
qed

lemma tns_run_eq:
  assumes "length a = 48" "1 \<le> order" "order \<le> 20" "inc = 1 \<or> inc = - 1"
    and "k > 0 \<Longrightarrow> 0 \<le> pos \<and> pos < int (length spec) \<and> 0 \<le> pos + inc * (int k - 1) \<and> pos + inc * (int k - 1) < int (length spec)"
  shows "\<exists>spec' a'. tns_run sg sh k pos inc order spec a = Some (spec', a') \<and> length spec' = length spec \<and> length a' = 48
     \<and> seg spec' pos inc k = recursive_filter sg sh (taps_of a (nat order)) (hist a (nat order)) (seg spec pos inc k)
     \<and> (\<forall>p < length spec. (\<forall>i < k. int p \<noteq> pos + inc * int i) \<longrightarrow> spec' ! p = spec ! p)"
  using assms
proof (induction k arbitrary: pos spec a)
  case 0
  then show ?case by (simp add: seg_def)
next
  case (Suc k)
  define n m where "n = nat order" "m = nat (order - 1)"
  have n: "n = Suc m" "n \<le> 20" "m \<le> 19" using Suc.prems(2,3) by (auto simp: n_m_def)
  let ?ls = "taps_of a n" and ?hs = "hist a n"
  have pos: "0 \<le> pos" "pos < int (length spec)" using Suc.prems(5) by auto
  define x where "x = spec ! nat pos"
  define y where "y = tap_out sg sh ?ls ?hs x"
  define a1 where "a1 = overwrite a 25 (hist a m)"
  have a1: "length a1 = 48" using Suc.prems(1) n by (simp add: a1_def hist_def)
  let ?a = "a1[24 := y]" and ?spec = "spec[nat pos := y]"
  have rd: "rd spec pos = Some x" "wr spec pos y = Some ?spec" "wr a1 24 y = Some ?a"
    using pos a1 by (simp_all add: rd_in wr_in x_def)
  have y: "s32 (drop_bit sh (s64 (s64 (s64 (x * 2 ^ sh) + sg * sum_list (map2 (*) ?hs ?ls)) + 2 ^ (sh - 1)))) = y"
    by (simp add: y_def tap_out_def s64_add)
  have taps: "tns_taps sg m (s64 (x * 2 ^ sh)) a = Some (s64 (s64 (x * 2 ^ sh) + sg * sum_list (map2 (*) ?hs ?ls)), a1)"
    using tns_taps_eq [OF Suc.prems(1) n(3)] by (simp add: n(1) a1_def)
  have step: "tns_run sg sh (Suc k) pos inc order spec a = tns_run sg sh k (pos + inc) inc order ?spec ?a"
    using rd taps y by (simp add: Let_def n_m_def(2))
  have ls: "taps_of ?a n = ?ls"
    using n Suc.prems(1) by (auto simp: taps_of_def a1_def nth_overwrite hist_def)
  have hs: "hist ?a n = take (length ?hs) (y # ?hs)"
    using n Suc.prems(1) a1
    by (intro nth_equalityI) (auto simp: hist_def a1_def nth_overwrite nth_list_update nth_Cons simp del: upt_Suc split: nat.splits)
  have kk: "int (Suc k) - 1 = int k" by simp
  have nxt: "k > 0 \<Longrightarrow> 0 \<le> pos + inc \<and> pos + inc < int (length ?spec) \<and> 0 \<le> pos + inc + inc * (int k - 1) \<and> pos + inc + inc * (int k - 1) < int (length ?spec)"
    using Suc.prems(4,5) by (auto simp: algebra_simps)
  obtain spec' a' where IH: "tns_run sg sh k (pos + inc) inc order ?spec ?a = Some (spec', a')" "length spec' = length ?spec" "length a' = 48"
      "seg spec' (pos + inc) inc k = recursive_filter sg sh (taps_of ?a (nat order)) (hist ?a (nat order)) (seg ?spec (pos + inc) inc k)"
      "\<forall>p < length ?spec. (\<forall>i < k. int p \<noteq> pos + inc + inc * int i) \<longrightarrow> spec' ! p = ?spec ! p"
    using Suc.IH [of ?a "pos + inc" ?spec, OF _ Suc.prems(2-4) nxt] a1 by simp (elim exE conjE, metis)
  have off: "pos + inc + inc * int i = pos + inc * int (Suc i)" for i by (simp add: algebra_simps)
  have seg_Suc: "seg s pos inc (Suc k) = s ! nat pos # seg s (pos + inc) inc k" for s
    by (simp add: seg_def upt_conv_Cons map_Suc_upt [symmetric] off del: upt_Suc of_nat_Suc)
  have apart: "int (nat pos) \<noteq> pos + inc * int (Suc i)" for i using pos Suc.prems(4) by auto
  have head: "spec' ! nat pos = y"
    using IH(5) pos apart by (auto simp: off)
  have tail: "seg ?spec (pos + inc) inc k = seg spec (pos + inc) inc k"
  proof -
    have "nat pos \<noteq> nat (pos + inc * int (Suc i))" if "i < k" for i
      using that pos Suc.prems(4,5) by auto
    then show ?thesis by (simp add: seg_def off nth_list_update del: of_nat_Suc)
  qed
  have rest: "spec' ! p = spec ! p" if "p < length spec" "\<forall>i < Suc k. int p \<noteq> pos + inc * int i" for p
  proof -
    have "p \<noteq> nat pos" using that(2) pos by auto
    moreover have "\<forall>i < k. int p \<noteq> pos + inc + inc * int i" using that(2) by (auto simp: off)
    ultimately show ?thesis using IH(5) that(1) by simp
  qed
  show ?case
    using step IH(1-4) head tail ls hs rest
    by (simp add: seg_Suc n_m_def(1) [symmetric] x_def [symmetric] y_def [symmetric] Let_def)
qed

lemma tns_clear_eq:
  assumes "length a = 48" "i + k \<le> 24"
  shows "tns_clear k (int i) a = Some (overwrite a (24 + int i) (replicate k 0))"
  using assms
proof (induction k arbitrary: i a)
  case (Suc k)
  have w: "wr a (24 + int i) 0 = Some (a[24 + i := 0])" using Suc.prems by (simp add: wr_in nat_add_distrib)
  have IH: "tns_clear k (int (Suc i)) (a[24 + i := 0]) = Some (overwrite (a[24 + i := 0]) (24 + int (Suc i)) (replicate k 0))"
    using Suc.prems by (intro Suc.IH) auto
  have "overwrite (a[nat (24 + int i) := 0]) (24 + int i + 1) (replicate k 0) = overwrite a (24 + int i) (0 # replicate k 0)"
    using Suc.prems by (intro overwrite_Cons) auto
  moreover have "nat (24 + int i) = 24 + i" by simp
  ultimately show ?case using w IH by (simp add: add.commute add.left_commute)
qed simp

text \<open>
  A filter with its history cleared replaces the samples from \<open>pos\<close> on, in steps of \<open>inc\<close>, by the recursive
  filter of these samples, and nothing else.
\<close>

definition in_range :: "int list \<Rightarrow> int \<Rightarrow> int \<Rightarrow> int \<Rightarrow> bool" where
  "in_range spec pos inc sz \<longleftrightarrow> (inc = 1 \<or> inc = - 1) \<and>
     (0 < sz \<longrightarrow> 0 \<le> pos \<and> pos < int (length spec) \<and> 0 \<le> pos + inc * (sz - 1) \<and> pos + inc * (sz - 1) < int (length spec))"

lemma tns_filter_eq:
  assumes "length a = 48" "1 \<le> order" "order \<le> 20" "in_range spec pos inc sz"
  shows "\<exists>spec' a'. do { a \<leftarrow> tns_clear (nat order) 0 a; tns_run sg sh (nat sz) pos inc order spec a } = Some (spec', a')
     \<and> length spec' = length spec \<and> length a' = 48
     \<and> seg spec' pos inc (nat sz) = recursive_filter sg sh (taps_of a (nat order)) (replicate (nat order) 0) (seg spec pos inc (nat sz))
     \<and> (\<forall>p < length spec. (\<forall>i < nat sz. int p \<noteq> pos + inc * int i) \<longrightarrow> spec' ! p = spec ! p)"
proof -
  define n where "n = nat order"
  have n: "n \<le> 20" "1 \<le> n" using assms(2,3) by (auto simp: n_def)
  let ?a = "overwrite a 24 (replicate n 0)"
  have len: "length ?a = 48" using assms(1) n by simp
  have clear: "tns_clear n 0 a = Some ?a" using tns_clear_eq [OF assms(1), of 0 n] n by simp
  have h: "hist ?a n = replicate n 0" using assms(1) n by (intro nth_equalityI) (auto simp: hist_def nth_overwrite)
  have t: "taps_of ?a n = taps_of a n" using assms(1) n by (auto simp: taps_of_def nth_overwrite)
  have "\<exists>spec' a'. tns_run sg sh (nat sz) pos inc order spec ?a = Some (spec', a') \<and> length spec' = length spec \<and> length a' = 48
     \<and> seg spec' pos inc (nat sz) = recursive_filter sg sh (taps_of ?a (nat order)) (hist ?a (nat order)) (seg spec pos inc (nat sz))
     \<and> (\<forall>p < length spec. (\<forall>i < nat sz. int p \<noteq> pos + inc * int i) \<longrightarrow> spec' ! p = spec ! p)"
    using assms by (intro tns_run_eq [OF len assms(2,3)]) (auto simp: in_range_def)
  then show ?thesis using clear h t by (simp add: n_def)
qed

text \<open>The history before sample \<open>i\<close>: the outputs so far, then what was there at the start.\<close>

definition past :: "int list \<Rightarrow> int list \<Rightarrow> nat \<Rightarrow> int list" where
  "past hs ys i = map (\<lambda>j. if j < i then ys ! (i - 1 - j) else hs ! (j - i)) [0..<length hs]"

lemma length_recursive [simp]: "length (recursive_filter sg sh ls hs xs) = length xs"
  by (induction xs arbitrary: hs) (simp_all add: Let_def)

lemma recursive_nth:
  "i < length xs \<Longrightarrow> recursive_filter sg sh ls hs xs ! i = tap_out sg sh ls (past hs (recursive_filter sg sh ls hs xs) i) (xs ! i)"
proof (induction xs arbitrary: hs i)
  case (Cons x xs)
  let ?y = "tap_out sg sh ls hs x"
  let ?hs = "take (length hs) (?y # hs)"
  let ?ys = "recursive_filter sg sh ls ?hs xs"
  show ?case
  proof (cases i)
    case 0
    have "past hs zs 0 = hs" for zs by (simp add: past_def map_nth)
    then show ?thesis using 0 by (simp add: Let_def)
  next
    case (Suc k)
    have "past ?hs ?ys k = past hs (?y # ?ys) (Suc k)"
    proof (rule nth_equalityI)
      fix j assume "j < length (past ?hs ?ys k)"
      then have j: "j < length hs" by (simp add: past_def)
      show "past ?hs ?ys k ! j = past hs (?y # ?ys) (Suc k) ! j"
      proof (cases j k rule: linorder_cases)
        case less
        then have "k - j = Suc (k - 1 - j)" by simp
        then show ?thesis using j less by (simp add: past_def)
      next
        case equal
        then show ?thesis using j by (cases "length hs") (simp_all add: past_def del: upt_Suc)
      next
        case greater
        then have "j - k = Suc (j - Suc k)" by simp
        then show ?thesis using j greater by (simp add: past_def)
      qed
    qed (simp add: past_def)
    then show ?thesis using Cons.IH [of k ?hs] Cons.prems Suc by (simp add: Let_def)
  qed
qed simp

text \<open>
  The synthesis filter: every sample of the result is the sample minus the predicted one, where the
  prediction weighs the earlier results with the coefficients over \<open>2\<^sup>2\<^sup>8\<close>.
\<close>

definition ar_sample :: "int list \<Rightarrow> nat \<Rightarrow> int list \<Rightarrow> nat \<Rightarrow> int \<Rightarrow> int" where
  "ar_sample a order ys i x = s32 (drop_bit 28 (s64 (x * 2 ^ 28
     - (\<Sum>j < min order i. ys ! (i - 1 - j) * a ! Suc j) + 2 ^ 27)))"

lemma past_sum:
  "sum_list (map2 (*) (past (replicate n 0) ys i) (taps_of a n)) = (\<Sum>j < min n i. ys ! (i - 1 - j) * a ! Suc j)"
proof -
  have "map2 (*) (past (replicate n 0) ys i) (taps_of a n) = map (\<lambda>j. if j < i then ys ! (i - 1 - j) * a ! Suc j else 0) [0..<n]"
    by (rule nth_equalityI) (auto simp: past_def taps_of_def)
  then have "sum_list (map2 (*) (past (replicate n 0) ys i) (taps_of a n))
      = (\<Sum>j < n. if j < i then ys ! (i - 1 - j) * a ! Suc j else 0)"
    by (simp add: interv_sum_list_conv_sum_set_nat lessThan_atLeast0)
  also have "\<dots> = (\<Sum>j < min n i. ys ! (i - 1 - j) * a ! Suc j)"
    by (rule sum.mono_neutral_cong_right) auto
  finally show ?thesis .
qed

lemma ar_filter_run:
  assumes "length a = 48" "1 \<le> order" "order \<le> 20" "in_range spec pos inc sz"
  shows "\<exists>spec' a'. tns_ar_filter spec pos sz inc a order = Some (spec', a') \<and> length spec' = length spec
     \<and> (\<forall>i < nat sz. seg spec' pos inc (nat sz) ! i
          = ar_sample a (nat order) (seg spec' pos inc (nat sz)) i (seg spec pos inc (nat sz) ! i))
     \<and> (\<forall>p < length spec. (\<forall>i < nat sz. int p \<noteq> pos + inc * int i) \<longrightarrow> spec' ! p = spec ! p)"
proof -
  let ?k = "nat sz" and ?n = "nat order"
  obtain spec' a' where r: "tns_ar_filter spec pos sz inc a order = Some (spec', a')" "length spec' = length spec"
      "seg spec' pos inc ?k = recursive_filter (- 1) 28 (taps_of a ?n) (replicate ?n 0) (seg spec pos inc ?k)"
      "\<forall>p < length spec. (\<forall>i < ?k. int p \<noteq> pos + inc * int i) \<longrightarrow> spec' ! p = spec ! p"
    using tns_filter_eq [OF assms, of "- 1" 28] unfolding tns_ar_filter_def by auto
  have "length (seg spec pos inc ?k) = ?k" by (simp add: seg_def)
  then have "seg spec' pos inc ?k ! i = ar_sample a ?n (seg spec' pos inc ?k) i (seg spec pos inc ?k ! i)" if "i < ?k" for i
    using recursive_nth [of i "seg spec pos inc ?k" "- 1" 28 "taps_of a ?n" "replicate ?n 0"] that
    by (simp add: r(3) ar_sample_def tap_out_def past_sum)
  then show ?thesis using r by blast
qed

section \<open>Safety\<close>

text \<open>What the parser of the filters leaves: at most four of them, with orders and lengths that are not negative.\<close>

definition tns_ready :: "TNS_Data \<Rightarrow> bool" where
  "tns_ready t \<longleftrightarrow> tns_wf t \<and> 0 \<le> n_filt t \<and> n_filt t \<le> 3 \<and> list_all (\<lambda>x. 0 \<le> x) (tns_order t) \<and> list_all (\<lambda>x. 0 \<le> x) (tns_length t)"

definition limits_ok :: "tns_limits \<Rightarrow> bool" where
  "limits_ok l \<longleftrightarrow> (\<exists>n. bands_ok (lim_table l) (lim_base l) n (lim_len l) \<and> 0 \<le> lim_band l \<and> lim_band l < n)
     \<and> 0 \<le> lim_swb l \<and> 0 \<le> lim_order l \<and> lim_order l \<le> 20 \<and> 0 \<le> lim_windows l \<and> 0 \<le> lim_len l \<and> lim_windows l * lim_len l = 1024"

definition filter_safe :: "tns_filter \<Rightarrow> bool" where
  "filter_safe flt \<longleftrightarrow> (\<forall>spec pos inc sz a order. length a = 48 \<longrightarrow> 1 \<le> order \<longrightarrow> order \<le> 20 \<longrightarrow> in_range spec pos inc sz \<longrightarrow>
     (\<exists>spec' a'. flt spec pos sz inc a order = Some (spec', a') \<and> length spec' = length spec \<and> length a' = 48))"

lemma filters_safe: "filter_safe tns_ar_filter" "filter_safe tns_ma_filter"
  unfolding filter_safe_def tns_ar_filter_def tns_ma_filter_def using tns_filter_eq by blast+

lemma tns_filters_ok:
  assumes "filter_safe flt" "limits_ok l" "tns_ready t" "0 \<le> w" "w < lim_windows l"
  shows "0 \<le> f \<Longrightarrow> f + int k \<le> 4 \<Longrightarrow> 0 \<le> bottom \<Longrightarrow> length spec = 1024 \<Longrightarrow> length a = 48 \<Longrightarrow>
    wp (tns_filters flt l t w k f bottom spec a) (\<lambda>(spec', a'). length spec' = 1024 \<and> length a' = 48)"
proof (induction k arbitrary: f bottom spec a)
  case (Suc k)
  obtain n where b: "bands_ok (lim_table l) (lim_base l) n (lim_len l)" "0 \<le> lim_band l" "lim_band l < n"
    using assms(2) by (auto simp: limits_ok_def)
  have lens: "length (tns_length t) = 4" "length (tns_order t) = 4" "length (tns_direction t) = 4" "length (coef_compress t) = 4"
      "rows_ok 4 32 (tns_coef t)" using assms(3) by (simp_all add: tns_ready_def tns_wf_def)
  have f: "nat f < 4" "0 \<le> f" "f < 4" using Suc.prems by auto
  define len ord where "len = tns_length t ! nat f" "ord = tns_order t ! nat f"
  have len: "0 \<le> len" "0 \<le> ord" using assms(3) f lens by (auto simp: tns_ready_def len_ord_def list_all_length)
  define bot order where "bot = max (bottom - len) 0" "order = min ord (lim_order l)"
  have bo: "0 \<le> bot" "bot \<le> bottom" "0 \<le> order" "order \<le> 20"
    using len Suc.prems(3) assms(2) by (auto simp: bot_order_def limits_ok_def)
  have rd1: "rd (tns_length t) f = Some len" "rd (tns_order t) f = Some ord"
    using f lens by (simp_all add: rd_in len_ord_def)
  have IH: "length s = 1024 \<Longrightarrow> length a = 48 \<Longrightarrow> wp (tns_filters flt l t w k (f + 1) bot s a) (\<lambda>(spec', a'). length spec' = 1024 \<and> length a' = 48)" for s a
    using Suc.prems bo by (intro Suc.IH) auto
  let ?S = "offs (lim_table l) (lim_base l) (min bot (lim_band l))" and ?E = "offs (lim_table l) (lim_base l) (min bottom (lim_band l))"
  have rd2: "rd (lim_table l) (lim_base l + min bot (lim_band l)) = Some ?S" "rd (lim_table l) (lim_base l + min bottom (lim_band l)) = Some ?E"
    using b bo Suc.prems(3) by (auto intro!: bands_read [OF b(1)])
  have range: "0 \<le> ?S" "?E \<le> lim_len l" using bands_bounds [OF b(1)] b(2,3) bo Suc.prems(3) by auto
  define compress cs dir where rd3_def: "compress = coef_compress t ! nat f" "cs = tns_coef t ! nat f" "dir = tns_direction t ! nat f"
  have rd3: "rd (coef_compress t) f = Some compress" "rd (tns_coef t) f = Some cs" "rd (tns_direction t) f = Some dir" "length cs = 32"
    using f lens rows_ok_length [OF lens(5)] by (simp_all add: rd_in rd3_def)
  show ?case
  proof (cases "order = 0 \<or> ?E - ?S \<le> 0")
    case True
    have "tns_filters flt l t w (Suc k) f bottom spec a = tns_filters flt l t w k (f + 1) bot spec a"
    proof (cases "order = 0")
      case o: True
      show ?thesis unfolding tns_filters.simps rd1 bind.bind_lunit Let_def bot_order_def(1) [symmetric] bot_order_def(2) [symmetric]
        by (simp only: o refl if_True)
    next
      case o: False
      then have "?E - ?S \<le> 0" using True by simp
      then show ?thesis unfolding tns_filters.simps rd1 bind.bind_lunit Let_def bot_order_def(1) [symmetric] bot_order_def(2) [symmetric] rd2
        by (simp only: o if_False if_True)
    qed
    then show ?thesis using IH [OF Suc.prems(4,5)] by simp
  next
    case False
    then have o: "1 \<le> order" "?S < ?E" using bo by auto
    obtain a' where a': "tns_decode_coef order (coef_res t + 3) compress cs a = Some a'" "length a' = 48"
      using tns_decode_coef_eq [OF Suc.prems(5) bo(3,4), of cs "coef_res t + 3" compress] bo rd3(4) by (auto simp: holds_lpc_def)
    define inc start where "inc = (if dir \<noteq> 0 then - 1 else (1 :: int))" "start = (if dir \<noteq> 0 then ?E - 1 else ?S)"
    have "(w + 1) * lim_len l \<le> lim_windows l * lim_len l" using assms(2,5) by (intro mult_right_mono) (auto simp: limits_ok_def)
    then have top: "w * lim_len l + lim_len l \<le> 1024" using assms(2) by (simp add: limits_ok_def algebra_simps)
    have low: "0 \<le> w * lim_len l" using assms(2,4) by (simp add: limits_ok_def)
    have "in_range spec (w * lim_len l + start) inc (?E - ?S)"
      using Suc.prems(4) top low range o by (auto simp: in_range_def inc_start_def)
    then obtain s' a'' where s': "flt spec (w * lim_len l + start) (?E - ?S) inc a' order = Some (s', a'')" "length s' = 1024" "length a'' = 48"
      using assms(1) a'(2) o(1) bo(4) Suc.prems(4) unfolding filter_safe_def by metis
    have "tns_filters flt l t w (Suc k) f bottom spec a = tns_filters flt l t w k (f + 1) bot s' a''"
      unfolding tns_filters.simps rd1 bind.bind_lunit Let_def bot_order_def(1) [symmetric] bot_order_def(2) [symmetric] rd2
      using rd3(1-3) a'(1) s'(1) o by (cases "dir = 0") (simp_all add: inc_start_def)
    then show ?thesis using IH [OF s'(2,3)] by simp
  qed
qed simp

lemma tns_windows_ok:
  assumes "filter_safe flt" "limits_ok l" "list_all tns_ready ts"
  shows "0 \<le> w \<Longrightarrow> w + int k \<le> lim_windows l \<Longrightarrow> lim_windows l \<le> int (length ts) \<Longrightarrow> length spec = 1024 \<Longrightarrow> length a = 48 \<Longrightarrow>
    wp (tns_windows flt l ts k w spec a) (\<lambda>(spec', a'). length spec' = 1024 \<and> length a' = 48)"
proof (induction k arbitrary: w spec a)
  case (Suc k)
  define t where "t = ts ! nat w"
  have w: "rd ts w = Some t" using Suc.prems by (simp add: rd_in t_def)
  have t: "tns_ready t" using assms(3) Suc.prems by (simp add: list_all_length t_def)
  have "wp (tns_filters flt l t w (nat (n_filt t)) 0 (lim_swb l) spec a) (\<lambda>(spec', a'). length spec' = 1024 \<and> length a' = 48)"
    using assms(1,2) t Suc.prems by (intro tns_filters_ok) (auto simp: tns_ready_def limits_ok_def)
  then obtain s' a' where s': "tns_filters flt l t w (nat (n_filt t)) 0 (lim_swb l) spec a = Some (s', a')" "length s' = 1024" "length a' = 48"
    by (auto simp: wp_iff)
  then show ?case using Suc.IH [of "w + 1" s' a'] Suc.prems w by simp
qed simp


lemma limits_total:
  assumes "0 \<le> sampRateIdx d" "sampRateIdx d < 12" "ics_ok (sampRateIdx d) ics"
  shows "wp (tns_limits_of d ics) (\<lambda>l. limits_ok (l\<lparr>lim_band := min (lim_band l) (max_sfb ics)\<rparr>) \<and> lim_windows l \<le> 8)"
proof -
  define i where "i = nat (sampRateIdx d)"
  have i: "i < 12" "sampRateIdx d = int i" using assms by (auto simp: i_def)
  have tabs: "list_all (\<lambda>i. 0 \<le> tnsMaxBandsShort ! i \<and> 0 \<le> tnsMaxBandsLong ! i \<and> 0 \<le> ttsfBandTotalShort ! i \<and> 0 \<le> ttsfBandTotalLong ! i) [0..<12]"
    by (simp add: tnsMaxBandsShort_def tnsMaxBandsLong_def ttsfBandTotalShort_def ttsfBandTotalLong_def upt_conv_Cons)
  then have t: "0 \<le> tnsMaxBandsShort ! i" "0 \<le> tnsMaxBandsLong ! i" "0 \<le> ttsfBandTotalShort ! i" "0 \<le> ttsfBandTotalLong ! i"
    using i(1) by (simp_all only: list_all_iff set_upt atLeastLessThan_iff) simp_all
  have r: "rd tnsMaxBandsShort (int i) = Some (tnsMaxBandsShort ! i)" "rd tnsMaxBandsLong (int i) = Some (tnsMaxBandsLong ! i)"
    "rd ttsfBandTotalShort (int i) = Some (ttsfBandTotalShort ! i)" "rd ttsfBandTotalLong (int i) = Some (ttsfBandTotalLong ! i)"
    "rd sfBandTabShortOffset (int i) = Some (sfBandTabShortOffset ! i)" "rd sfBandTabLongOffset (int i) = Some (sfBandTabLongOffset ! i)"
    using i(1) by (simp_all add: rd_in tnsMaxBandsShort_def tnsMaxBandsLong_def ttsfBandTotalShort_def ttsfBandTotalLong_def
        sfBandTabShortOffset_def sfBandTabLongOffset_def)
  have ics: "0 \<le> max_sfb ics" "window_sequence ics = EIGHT_SHORT_SEQUENCE \<Longrightarrow> max_sfb ics < ttsfBandTabShortNum ! i"
    "window_sequence ics \<noteq> EIGHT_SHORT_SEQUENCE \<Longrightarrow> max_sfb ics < sfBandTabLongNum ! i"
    using assms(3) i by (auto simp: ics_ok_def)
  show ?thesis
  proof (cases "window_sequence ics = EIGHT_SHORT_SEQUENCE")
    case True
    have "\<exists>n. bands_ok sfBandTabShort (sfBandTabShortOffset ! i) n 128 \<and> min (tnsMaxBandsShort ! i) (max_sfb ics) < n"
      using bands_short [OF i(1)] ics(2) [OF True] by (intro exI [of _ "ttsfBandTabShortNum ! i"]) simp
    then show ?thesis using True r t ics(1) by (simp add: tns_limits_of_def i(2) limits_ok_def)
  next
    case False
    have "\<exists>n. bands_ok sfBandTabLong (sfBandTabLongOffset ! i) n 1024 \<and> min (tnsMaxBandsLong ! i) (max_sfb ics) < n"
      using bands_long [OF i(1)] ics(3) [OF False] by (intro exI [of _ "sfBandTabLongNum ! i"]) simp
    then show ?thesis using False r t ics(1) by (simp add: tns_limits_of_def i(2) limits_ok_def)
  qed
qed

text \<open>A channel the shaping can work on, and what it changes.\<close>

definition shape_ready :: "AACDecoder \<Rightarrow> int \<Rightarrow> bool" where
  "shape_ready d ch \<longleftrightarrow> EnableDecodeCurrChannel d ch \<noteq> None \<and> ics_ok (sampRateIdx d) (ics_of d ch)
     \<and> list_all tns_ready (tns_data d ! nat ch)"

definition reshaped :: "AACDecoder \<Rightarrow> AACDecoder \<Rightarrow> bool" where
  "reshaped d d' \<longleftrightarrow> rows_ok 2 1024 (coef d') \<and> length (tns_lpc d') = 48 \<and> (\<exists>c a. d' = d\<lparr>coef := c, tns_lpc := a\<rparr>)"

lemma reshaped_refl: "dec_ok d \<Longrightarrow> length (tns_lpc d) = 48 \<Longrightarrow> reshaped d d"
  unfolding reshaped_def by (intro conjI exI [of _ "coef d"] exI [of _ "tns_lpc d"]) (simp_all add: dec_okD)

lemma reshaped_trans: "reshaped d d' \<Longrightarrow> reshaped d' d'' \<Longrightarrow> reshaped d d''"
  by (auto simp: reshaped_def) blast

lemma reshaped_ok: "dec_ok d \<Longrightarrow> reshaped d d' \<Longrightarrow> dec_ok d' \<and> length (tns_lpc d') = 48 \<and> shape_ready d' = shape_ready d"
  by (auto simp: reshaped_def dec_ok_def shape_ready_def EnableDecodeCurrChannel_def ics_of_def fun_eq_iff)

lemma tns_channel_ok:
  assumes "dec_ok d" "length (tns_lpc d) = 48" "ch = 0 \<or> ch = 1" "shape_ready d ch"
  shows "wp (tns_channel d ch) (reshaped d)"
proof -
  note ok = dec_okD [OF assms(1)]
  have ch: "0 \<le> ch" "ch < 2" "nat ch < 2" using assms(3) by auto
  obtain en where en: "EnableDecodeCurrChannel d ch = Some en" using assms(4) by (auto simp: shape_ready_def)
  have ics: "rd (ics_data d) (if common_window d \<noteq> 0 then 0 else ch) = Some (ics_of d ch)"
    using ok(1) ch by (auto simp: rd_in ics_of_def)
  have iok: "ics_ok (sampRateIdx d) (ics_of d ch)" using assms(4) by (simp add: shape_ready_def)
  obtain l where l: "tns_limits_of d (ics_of d ch) = Some l" "limits_ok (l\<lparr>lim_band := min (lim_band l) (max_sfb (ics_of d ch))\<rparr>)" "lim_windows l \<le> 8"
    using limits_total [OF ok(11,12) iok] by (auto simp: wp_iff)
  let ?l = "l\<lparr>lim_band := min (lim_band l) (max_sfb (ics_of d ch))\<rparr>"
  have "wp (tns_windows tns_ar_filter ?l (tns_data d ! nat ch) (nat (lim_windows ?l)) 0 (coef d ! nat ch) (tns_lpc d))
      (\<lambda>(spec', a'). length spec' = 1024 \<and> length a' = 48)"
    using assms ok ch l(2,3) by (intro tns_windows_ok filters_safe) (auto simp: shape_ready_def limits_ok_def)
  then obtain s a where run: "tns_windows tns_ar_filter ?l (tns_data d ! nat ch) (nat (lim_windows l)) 0 (coef d ! nat ch) (tns_lpc d) = Some (s, a)"
      "length s = 1024" "length a = 48" by (auto simp: wp_iff)
  have rds: "rd (tns_data_present d) ch = Some (tns_data_present d ! nat ch)" "rd (coef d) ch = Some (coef d ! nat ch)"
    "rd (tns_data d) ch = Some (tns_data d ! nat ch)" "wr (coef d) ch s = Some ((coef d)[nat ch := s])"
    using ok ch by (simp_all add: rd_in wr_in)
  have fin: "reshaped d (d\<lparr>coef := (coef d)[nat ch := s], tns_lpc := a\<rparr>)"
    using ok(15) run by (auto simp: reshaped_def)
  show ?thesis
    using fin reshaped_refl [OF assms(1,2)] by (simp add: tns_channel_def rds en ics l(1) Let_def run(1))
qed

lemma tns_channels_ok:
  assumes "dec_ok d" "length (tns_lpc d) = 48" "0 \<le> ch" "ch + int k \<le> 2" "\<forall>c. ch \<le> c \<and> c < ch + int k \<longrightarrow> shape_ready d c"
  shows "wp (tns_channels k ch d) (reshaped d)"
  using assms
proof (induction k arbitrary: ch d)
  case 0
  then show ?case by (simp add: reshaped_refl)
next
  case (Suc k)
  have r: "shape_ready d ch" using Suc.prems(5) by auto
  have c: "ch = 0 \<or> ch = 1" using Suc.prems(3,4) by auto
  obtain d1 where d1: "tns_channel d ch = Some d1" "reshaped d d1"
    using tns_channel_ok [OF Suc.prems(1,2) c r] by (auto simp: wp_iff)
  note ok = reshaped_ok [OF Suc.prems(1) d1(2)]
  have "wp (tns_channels k (ch + 1) d1) (reshaped d1)"
    using ok Suc.prems by (intro Suc.IH) auto
  then show ?case using d1 by (auto simp: wp_iff intro: reshaped_trans)
qed

lemma tns_decode_ok:
  assumes "dec_ok d" "length (tns_lpc d) = 48" "chans \<le> 2" "\<forall>c. 0 \<le> c \<and> c < chans \<longrightarrow> shape_ready d c"
  shows "wp (tns_decode d chans) (reshaped d)"
  unfolding tns_decode_def using assms by (intro tns_channels_ok) auto


section \<open>The parser leaves filters that can run\<close>

lemma wlp_wr_upd: "Q (xs[nat i := v]) \<Longrightarrow> wlp (wr xs i v) Q"
  by (simp add: wr_def)

lemma list_all_wlp_wr: "list_all p xs \<Longrightarrow> p v \<Longrightarrow> wlp (wr xs i v) (list_all p)"
  by (rule wlp_wr_upd) (simp add: list_all_upd)

lemma length_wlp_wr: "length xs = n \<Longrightarrow> wlp (wr xs i v) (\<lambda>ys. length ys = n)"
  by (rule wlp_wr_upd) simp

text \<open>The part of \<open>tns_ready\<close> that the filters leave to be true, whatever the number of filters.\<close>

definition tns_signed :: "TNS_Data \<Rightarrow> bool" where
  "tns_signed t \<longleftrightarrow> list_all (\<lambda>x. 0 \<le> x) (tns_order t) \<and> list_all (\<lambda>x. 0 \<le> x) (tns_length t)"

lemma wlp_coef_loop: "(\<And>p. Q p) \<Longrightarrow> wlp (coef_loop k i b xs bs) Q"
  by (rule wlp_any)

lemma filt_loop_signed:
  "tns_signed t \<Longrightarrow> wlp (filt_loop k f lbits obits start t bs) (\<lambda>(t', bs'). tns_signed t' \<and> n_filt t' = n_filt t)"
proof (induction k arbitrary: f t bs)
  case (Suc k)
  have IH: "tns_signed t1 \<Longrightarrow> n_filt t1 = n_filt t \<Longrightarrow>
      wlp (filt_loop k (f + 1) lbits obits start t1 b) (\<lambda>(t', bs'). tns_signed t' \<and> n_filt t' = n_filt t)" for t1 b
    using Suc.IH [of t1 "f + 1" b] by simp
  show ?case
    using Suc.prems
    by (auto simp: Let_def split_beta intro!: wlp_wr_upd wlp_rd wlp_coef_loop IH [unfolded split_beta])
      (auto simp: tns_signed_def list_all_upd)
qed simp

context reader begin

lemma tns_loop_ready:
  assumes "0 < nb" "nb \<le> 2" "0 < lbits" "lbits \<le> 8" "0 < obits" "obits \<le> 5"
  shows "P bs \<Longrightarrow> list_all tns_signed ts \<Longrightarrow> list_all (\<lambda>t. 0 \<le> n_filt t \<and> n_filt t \<le> 3) ts \<Longrightarrow>
     wlp (tns_loop k w nb lbits obits ts bs)
       (\<lambda>(ts', bs'). list_all tns_signed ts' \<and> list_all (\<lambda>t. 0 \<le> n_filt t \<and> n_filt t \<le> 3) ts')"
proof (induction k arbitrary: w ts bs)
  case (Suc k)
  let ?v = "u8 (fst (BitStreamGetBits bs nb))" and ?b = "snd (BitStreamGetBits bs nb)"
  let ?p = "\<lambda>r :: TNS_Data list \<times> BitStream. list_all tns_signed (fst r) \<and> list_all (\<lambda>t. 0 \<le> n_filt t \<and> n_filt t \<le> 3) (fst r)"
  have v: "0 \<le> ?v" "?v \<le> 3"
  proof -
    have "nb = 1 \<or> nb = 2" using assms(1,2) by auto
    then show "0 \<le> ?v" "?v \<le> 3" using P_range [OF Suc.prems(1), of nb] P_u8 [OF Suc.prems(1), of nb] assms(1,2) by auto
  qed
  have b: "P ?b" using Suc.prems(1) assms(1,2) by simp
  have step: "wlp (do { (t, b) \<leftarrow> filt_loop n 0 lbits obits st t b1; ts' \<leftarrow> wr ts w t; tns_loop k (w + 1) nb lbits obits ts' b }) ?p"
    if "tns_signed t" "0 \<le> n_filt t" "n_filt t \<le> 3" "P b1" "st = 3 \<or> st = 4" for t b1 n st
  proof (rule wlpI)
    fix r assume "do { (t, b) \<leftarrow> filt_loop n 0 lbits obits st t b1; ts' \<leftarrow> wr ts w t; tns_loop k (w + 1) nb lbits obits ts' b } = Some r"
    then obtain t' b2 ts' where f: "filt_loop n 0 lbits obits st t b1 = Some (t', b2)" "wr ts w t' = Some ts'"
        "tns_loop k (w + 1) nb lbits obits ts' b2 = Some r"
      by (auto simp: bind_eq_Some_conv)
    have t': "tns_signed t'" "n_filt t' = n_filt t" using wlpD [OF filt_loop_signed [OF that(1)] f(1)] by auto
    have b2: "P b2" using wlpD [OF filt_loop_keep f(1)] that assms by auto
    have "ts' = ts[nat w := t']" using f(2) by (simp add: wr_def split: if_splits)
    then have "list_all tns_signed ts'" "list_all (\<lambda>t. 0 \<le> n_filt t \<and> n_filt t \<le> 3) ts'"
      using Suc.prems t' that by (auto intro!: list_all_upd)
    then show "?p r" using wlpD [OF Suc.IH f(3)] b2 by auto
  qed
  have one: "P (snd (BitStreamGetBits ?b 1))" using b by simp
  show ?case
  proof (cases "rd ts w")
    case (Some t)
    have t: "tns_signed t" using Some Suc.prems(2) by (auto simp: rd_def list_all_length split: if_splits)
    have s: "tns_signed (t\<lparr>n_filt := ?v\<rparr>)" "tns_signed (t\<lparr>n_filt := ?v, coef_res := c\<rparr>)" for c
      using t by (simp_all add: tns_signed_def)
    have "wlp (tns_loop (Suc k) w nb lbits obits ts bs) ?p"
    proof (cases "?v = 0")
      case True
      have "wlp (do { ts' \<leftarrow> wr ts w (t\<lparr>n_filt := ?v\<rparr>); tns_loop k (w + 1) nb lbits obits ts' ?b }) ?p"
        using step [OF s(1) _ _ b, of 3 0] v by (simp del: wlp_bind)
      then show ?thesis using Some True by (simp add: Let_def split_beta del: wlp_bind)
    next
      case False
      then show ?thesis
        using Some step [OF s(2) _ _ one] v by (simp add: Let_def split_beta del: One_nat_def wlp_bind)
    qed
    then show ?thesis by (simp add: split_beta)
  qed (simp add: Let_def split_beta)
qed simp

lemma read_tns_ready:
  assumes "P bs" "length ts = 8" "list_all tns_ready ts"
  shows "wlp (read_tns_data wseq ts bs) (\<lambda>(ts', bs'). list_all tns_wf ts' \<longrightarrow> list_all tns_ready ts')"
proof -
  have i: "list_all tns_signed ts" "list_all (\<lambda>t. 0 \<le> n_filt t \<and> n_filt t \<le> 3) ts"
    using assms(3) by (auto simp: tns_ready_def tns_signed_def list_all_iff)
  have j: "list_all tns_signed ts' \<and> list_all (\<lambda>t. 0 \<le> n_filt t \<and> n_filt t \<le> 3) ts' \<Longrightarrow> list_all tns_wf ts' \<longrightarrow> list_all tns_ready ts'" for ts'
    by (auto simp: tns_ready_def tns_signed_def list_all_iff)
  show ?thesis
    by (auto simp: read_tns_data_def simp del: tns_loop.simps intro!: wlp_mono [OF tns_loop_ready [OF _ _ _ _ _ _ assms(1) i]] j)
qed

end

section \<open>The range of the coefficients\<close>

text \<open>The recursion without the wrap-around of 32 bits.\<close>

definition step_exact :: "int \<Rightarrow> int list \<Rightarrow> int list" where
  "step_exact t ls = map2 (\<lambda>x y. x + drop_bit 32 (t * y) * 2) ls (rev ls) @ [drop_bit 7 t]"

lemma half_product:
  assumes "\<bar>t\<bar> \<le> 2 ^ 31" "\<bar>y\<bar> \<le> M"
  shows "\<bar>drop_bit 32 (t * y) * 2\<bar> \<le> M + (1 :: int)"
proof -
  have "\<bar>t * y\<bar> \<le> 2 ^ 31 * M" using assms by (simp add: abs_mult mult_mono)
  then have b: "- (2147483648 * M) \<le> t * y" "t * y \<le> 2147483648 * M" by auto
  define q where "q = t * y div 4294967296"
  have "q * 4294967296 \<le> t * y" "t * y < q * 4294967296 + 4294967296"
    using div_mult_mod_eq [of "t * y" 4294967296] pos_mod_bound [of 4294967296 "t * y"] pos_mod_sign [of 4294967296 "t * y"]
    by (auto simp: q_def)
  with b have "q * 2 \<le> M" "- M - 2 < q * 2" by linarith+
  then show ?thesis by (simp add: drop_bit_eq_div q_def [symmetric])
qed

lemma step_up_exact:
  assumes "\<bar>t\<bar> < 2 ^ 31" "\<forall>x \<in> set ls. \<bar>x\<bar> \<le> M" "2 ^ 24 \<le> M" "2 * M + 1 < 2 ^ 31"
  shows "step_up t ls = step_exact t ls" "\<forall>x \<in> set (step_exact t ls). \<bar>x\<bar> \<le> 2 * M + 1"
proof -
  have p: "\<bar>drop_bit 32 (t * y) * 2\<bar> \<le> M + 1" if "y \<in> set ls" for y
    using assms(1,2) that by (intro half_product) auto
  have e: "s32 (x + s32 (MUL_32 t y * 2)) = x + drop_bit 32 (t * y) * 2" if "x \<in> set ls" "y \<in> set ls" for x y
  proof -
    have b: "\<bar>x\<bar> \<le> M" "\<bar>drop_bit 32 (t * y) * 2\<bar> \<le> M + 1" using p that assms(2) by auto
    then have "MUL_32 t y = drop_bit 32 (t * y)" unfolding MUL_32_def using assms(4) by (intro s32_id) auto
    moreover have "s32 (drop_bit 32 (t * y) * 2) = drop_bit 32 (t * y) * 2" using b assms(3,4) by (intro s32_id) auto
    moreover have "s32 (x + drop_bit 32 (t * y) * 2) = x + drop_bit 32 (t * y) * 2" using b assms(4) by (intro s32_id) auto
    ultimately show ?thesis by simp
  qed
  have z: "set (zip ls (rev ls)) \<subseteq> set ls \<times> set ls" by (auto dest: set_zip_leftD set_zip_rightD)
  show "step_up t ls = step_exact t ls"
    unfolding step_up_def step_exact_def using z e by (auto intro!: map_cong)
  have "drop_bit 7 t = t div 128" by (simp add: drop_bit_eq_div)
  then have "\<bar>drop_bit 7 t\<bar> \<le> M" using assms(1,3) by simp
  then show "\<forall>x \<in> set (step_exact t ls). \<bar>x\<bar> \<le> 2 * M + 1"
    unfolding step_exact_def using z p assms(2,3) by fastforce
qed

lemma predictor_exact:
  "\<forall>t \<in> set ts. \<bar>t\<bar> < 2 ^ 31 \<Longrightarrow> length ts \<le> 7 \<Longrightarrow>
     predictor ts = fold step_exact ts [] \<and> (\<forall>x \<in> set (predictor ts). \<bar>x\<bar> \<le> 2 ^ (length ts + 23) + 2 ^ length ts - 1)"
proof (induction ts rule: rev_induct)
  case (snoc t ts)
  define n where "n = length ts"
  have n: "n \<le> 6" using snoc.prems(2) by (simp add: n_def)
  have IH: "predictor ts = fold step_exact ts []" "\<forall>x \<in> set (predictor ts). \<bar>x\<bar> \<le> 2 ^ (n + 23) + 2 ^ n - 1"
    using snoc by (simp_all add: n_def)
  have t: "\<bar>t\<bar> < 2 ^ 31" using snoc.prems(1) by simp
  show ?case
  proof (cases n)
    case 0
    then have "ts = []" by (simp add: n_def)
    then show ?thesis using t by (simp add: predictor_def step_up_def step_exact_def drop_bit_eq_div)
  next
    case (Suc k)
    have "(2 :: int) ^ 23 * 2 ^ n + 2 ^ n \<le> 2 ^ 23 * 2 ^ 6 + 2 ^ 6"
      using power_increasing [of n 6 "2 :: int"] n by simp
    then have top: "2 * (2 ^ (n + 23) + 2 ^ n - 1) + 1 < (2 ^ 31 :: int)" by (simp add: power_add)
    have low: "(2 ^ 24 :: int) \<le> 2 ^ (n + 23) + 2 ^ n - 1"
      using Suc one_le_power [of "2 :: int" k] by (simp add: power_add del: one_le_power)
    show ?thesis
      using step_up_exact [OF t IH(2) low top] IH(1)
      by (simp add: predictor_def n_def [symmetric] power_add)
  qed
qed (simp add: predictor_def)


section \<open>The scales of the two filters\<close>

lemma table_small: "t \<in> set (reflections (tns_table res compress) cs) \<Longrightarrow> \<bar>t\<bar> < 2 ^ 31"
proof -
  have small: "list_all (\<lambda>t. \<bar>t\<bar> < 2 ^ 31) (tns_table res compress)"
    by (simp add: tns_table_def tns_coef_0_3_def tns_coef_0_4_def tns_coef_1_3_def tns_coef_1_4_def)
  assume "t \<in> set (reflections (tns_table res compress) cs)"
  then obtain c where c: "t = tns_table res compress ! nat (c AND 15)" by (auto simp: reflections_def)
  have "nat (c AND 15) < 16"
    using take_bit_int_less_exp [of 4 c] take_bit_nonnegative [of 4 c] by (simp add: take_bit_eq_mask mask_numeral nat_less_iff)
  with small c show "\<bar>t\<bar> < 2 ^ 31" by (auto simp: list_all_length)
qed

lemma tns_coef_exact:
  assumes "length a = 48" "0 \<le> order" "order \<le> 7" "order \<le> int (length cs)"
  shows "\<exists>a'. tns_decode_coef order res compress cs a = Some a'
    \<and> holds_lpc a' (fold step_exact (reflections (tns_table res compress) (take (nat order) cs)) [])
    \<and> (\<forall>i \<in> {1..nat order}. \<bar>a' ! i\<bar> \<le> 2 ^ (nat order + 23) + 2 ^ nat order - 1)"
proof -
  let ?ts = "reflections (tns_table res compress) (take (nat order) cs)"
  obtain a' where a': "tns_decode_coef order res compress cs a = Some a'" "holds_lpc a' (predictor ?ts)"
    using tns_decode_coef_eq [OF assms(1,2) _ assms(4)] assms(3) by auto
  have n: "length ?ts = nat order" using assms(2,4) by (simp add: reflections_def)
  have e: "predictor ?ts = fold step_exact ?ts []" "\<forall>x \<in> set (predictor ?ts). \<bar>x\<bar> \<le> 2 ^ (nat order + 23) + 2 ^ nat order - 1"
    using predictor_exact [of ?ts] table_small assms(3) n by auto
  have l: "length (predictor ?ts) = nat order" using n by (simp add: predictor_def length_predictor)
  have "\<bar>a' ! i\<bar> \<le> 2 ^ (nat order + 23) + 2 ^ nat order - 1" if "i \<in> {1..nat order}" for i
  proof -
    have "a' ! i = predictor ?ts ! (i - 1)" using a'(2) that l by (cases i) (auto simp: holds_lpc_def)
    moreover have "predictor ?ts ! (i - 1) \<in> set (predictor ?ts)" using that l by (intro nth_mem) auto
    ultimately show ?thesis using e(2) by auto
  qed
  with a' e(1) show ?thesis by auto
qed

text \<open>
  The coefficients are in units of \<open>2\<^sup>-\<^sup>2\<^sup>4\<close>, but the synthesis filter divides by \<open>2\<^sup>2\<^sup>8\<close>: with a first order predictor
  of \<open>0.9957\<close> the response to an impulse falls to a sixteenth of the predicted value at once. The
  analysis filter uses the right scale, but keeps its own output as history, so that its response to an
  impulse does not end after the order of the filter.
\<close>

lemma ar_impulse:
  "map_option (\<lambda>a. take 2 a) (tns_decode_coef 1 4 0 [8] (replicate 48 0)) = Some [16777216, - 16705648]"
  "map_option fst (tns_ar_filter [1048576, 0, 0] 0 3 1 ([16777216, - 16705648] @ replicate 46 0) 1) = Some [1048576, 65256, 4061]"
  "(1048576 * 16705648) div 2 ^ 24 = (1044103 :: int)"
  by code_simp+

lemma ma_impulse:
  "map_option fst (tns_ma_filter [1048576, 0, 0, 0] 0 4 1 ([16777216, 8388608] @ replicate 46 0) 1) = Some [1048576, 524288, 262144, 131072]"
  by code_simp

lemma lpc_wraps:
  "predictor (replicate 12 (- 2138322861)) \<noteq> fold step_exact (replicate 12 (- 2138322861)) []"
  by code_simp

end
