(* ===== verification/QuantTable.thy ===== *)
theory QuantTable
  imports Prelude
begin

text \<open>
  The table of the inverse quantiser, \<open>IQ_Table\<close> of \<^verbatim>\<open>src/lc_dequant.c\<close>: \<open>q\<^sup>4\<^sup>/\<^sup>3\<close> in units of \<open>2\<^sup>-\<^sup>1\<^sup>1\<close> (macro \<open>Q11\<close>)
  for \<open>q\<close> up to 1024, in seven parts.
\<close>

definition IQ_Table_0 :: "int list" where
  "IQ_Table_0 =
    [0, 2048, 5161, 8861, 13004, 17510, 22329, 27424, 32768, 38340, 44123, 50102, 56265, 62602, 69104, 75762, 82570,
     89522, 96611, 103833, 111183, 118656, 126249, 133958, 141779, 149710, 157747, 165888, 174130, 182471, 190908,
     199440, 208064, 216778, 225581, 234470, 243444, 252502, 261642, 270863, 280162, 289540, 298994, 308523, 318127,
     327803, 337552, 347371, 357260, 367219, 377245, 387338, 397498, 407722, 418012, 428365, 438781, 449259, 459798,
     470399, 481059, 491779, 502557, 513394, 524288, 535239, 546246, 557309, 568428, 579600, 590827, 602108, 613442,
     624828, 636266, 647756, 659297, 670889, 682532, 694224, 705965, 717756, 729595, 741482, 753417, 765400, 777430,
     789506, 801629, 813798, 826013, 838272, 850577, 862927, 875320, 887758, 900240, 912765, 925333, 937944, 950597,
     963293, 976031, 988810, 1001631, 1014493, 1027396, 1040339, 1053323, 1066347, 1079411, 1092515, 1105658,
     1118840, 1132061, 1145321, 1158619, 1171955, 1185330, 1198742, 1212193, 1225680, 1239205, 1252766, 1266365,
     1280000, 1293672, 1307379, 1321123, 1334903, 1348718, 1362569, 1376455, 1390376, 1404332, 1418322, 1432348,
     1446408, 1460502, 1474630, 1488792, 1502988, 1517217, 1531480, 1545776, 1560105, 1574468]"

definition IQ_Table_1 :: "int list" where
  "IQ_Table_1 =
    [1588863, 1603291, 1617751, 1632244, 1646768, 1661326, 1675915, 1690535, 1705188, 1719872, 1734587, 1749334,
     1764112, 1778921, 1793760, 1808631, 1823532, 1838464, 1853426, 1868418, 1883441, 1898493, 1913575, 1928687,
     1943829, 1959001, 1974201, 1989431, 2004691, 2019979, 2035296, 2050643, 2066017, 2081421, 2096853, 2112314,
     2127803, 2143320, 2158866, 2174439, 2190040, 2205669, 2221326, 2237011, 2252723, 2268462, 2284229, 2300023,
     2315845, 2331693, 2347568, 2363471, 2379400, 2395355, 2411338, 2427347, 2443382, 2459443, 2475531, 2491645,
     2507786, 2523952, 2540144, 2556362, 2572606, 2588875, 2605170, 2621491, 2637837, 2654208, 2670605, 2687026,
     2703473, 2719945, 2736442, 2752964, 2769511, 2786083, 2802679, 2819299, 2835945, 2852614, 2869309, 2886027,
     2902770, 2919537, 2936328, 2953143, 2969982, 2986845, 3003731, 3020642, 3037576, 3054534, 3071515, 3088520,
     3105549, 3122600, 3139675, 3156774, 3173895, 3191040, 3208207, 3225398, 3242611, 3259848, 3277107, 3294389,
     3311694, 3329021, 3346371, 3363744, 3381139, 3398556, 3415996, 3433457, 3450942, 3468448, 3485976, 3503527,
     3521100, 3538694, 3556310, 3573949, 3591609, 3609290, 3626994, 3644719, 3662466, 3680234, 3698023, 3715834,
     3733667, 3751521, 3769396, 3787292, 3805209, 3823148, 3841107, 3859088, 3877089, 3895112, 3913155, 3931219,
     3949304, 3967410, 3985536]"

definition IQ_Table_2 :: "int list" where
  "IQ_Table_2 =
    [4003683, 4021851, 4040039, 4058248, 4076477, 4094726, 4112996, 4131286, 4149597, 4167927, 4186278, 4204649,
     4223040, 4241451, 4259882, 4278333, 4296804, 4315295, 4333805, 4352336, 4370886, 4389456, 4408045, 4426655,
     4445283, 4463932, 4482599, 4501287, 4519993, 4538719, 4557465, 4576229, 4595013, 4613816, 4632638, 4651480,
     4670340, 4689220, 4708119, 4727036, 4745973, 4764928, 4783903, 4802896, 4821908, 4840938, 4859988, 4879056,
     4898143, 4917248, 4936372, 4955514, 4974675, 4993855, 5013053, 5032269, 5051504, 5070757, 5090028, 5109318,
     5128625, 5147951, 5167295, 5186658, 5206038, 5225436, 5244853, 5264287, 5283739, 5303210, 5322698, 5342204,
     5361727, 5381269, 5400828, 5420405, 5440000, 5459613, 5479243, 5498890, 5518556, 5538238, 5557939, 5577656,
     5597392, 5617144, 5636914, 5656701, 5676506, 5696328, 5716167, 5736024, 5755897, 5775788, 5795696, 5815621,
     5835563, 5855522, 5875498, 5895492, 5915502, 5935529, 5955573, 5975634, 5995711, 6015806, 6035917, 6056045,
     6076190, 6096352, 6116530, 6136725, 6156936, 6177164, 6197409, 6217670, 6237948, 6258242, 6278553, 6298880,
     6319224, 6339584, 6359960, 6380353, 6400762, 6421187, 6441628, 6462086, 6482560, 6503050, 6523556, 6544079,
     6564617, 6585172, 6605743, 6626329, 6646932, 6667550, 6688185, 6708836, 6729502, 6750184, 6770882, 6791596,
     6812326, 6833072, 6853833]"

definition IQ_Table_3 :: "int list" where
  "IQ_Table_3 =
    [6874610, 6895403, 6916211, 6937035, 6957875, 6978731, 6999602, 7020488, 7041390, 7062308, 7083241, 7104189,
     7125153, 7146133, 7167128, 7188138, 7209164, 7230205, 7251261, 7272333, 7293419, 7314521, 7335639, 7356771,
     7377919, 7399082, 7420260, 7441453, 7462661, 7483885, 7505123, 7526377, 7547645, 7568929, 7590227, 7611540,
     7632869, 7654212, 7675570, 7696943, 7718331, 7739733, 7761151, 7782583, 7804030, 7825492, 7846968, 7868460,
     7889965, 7911486, 7933021, 7954571, 7976135, 7997714, 8019308, 8040916, 8062539, 8084176, 8105827, 8127493,
     8149174, 8170869, 8192578, 8214302, 8236040, 8257793, 8279559, 8301341, 8323136, 8344946, 8366770, 8388608,
     8410460, 8432327, 8454208, 8476103, 8498012, 8519935, 8541873, 8563824, 8585790, 8607769, 8629763, 8651771,
     8673792, 8695828, 8717878, 8739941, 8762019, 8784110, 8806216, 8828335, 8850468, 8872615, 8894776, 8916950,
     8939139, 8961341, 8983557, 9005786, 9028030, 9050287, 9072557, 9094842, 9117140, 9139452, 9161777, 9184116,
     9206469, 9228835, 9251215, 9273608, 9296015, 9318435, 9340869, 9363316, 9385777, 9408251, 9430738, 9453239,
     9475754, 9498282, 9520823, 9543377, 9565945, 9588526, 9611121, 9633728, 9656349, 9678984, 9701631, 9724292,
     9746966, 9769653, 9792353, 9815067, 9837794, 9860533, 9883286, 9906052, 9928831, 9951623, 9974429, 9997247,
     10020078, 10042922, 10065780]"

definition IQ_Table_4 :: "int list" where
  "IQ_Table_4 =
    [10088650, 10111533, 10134429, 10157339, 10180261, 10203196, 10226143, 10249104, 10272078, 10295064, 10318064,
     10341076, 10364101, 10387138, 10410189, 10433252, 10456328, 10479417, 10502518, 10525633, 10548760, 10571899,
     10595051, 10618216, 10641394, 10664584, 10687787, 10711002, 10734230, 10757471, 10780724, 10803989, 10827268,
     10850558, 10873862, 10897177, 10920505, 10943846, 10967199, 10990565, 11013943, 11037333, 11060736, 11084151,
     11107578, 11131018, 11154471, 11177935, 11201412, 11224901, 11248403, 11271917, 11295443, 11318981, 11342531,
     11366094, 11389669, 11413256, 11436856, 11460467, 11484091, 11507727, 11531375, 11555035, 11578707, 11602392,
     11626088, 11649797, 11673517, 11697250, 11720995, 11744752, 11768520, 11792301, 11816094, 11839899, 11863716,
     11887544, 11911385, 11935237, 11959102, 11982978, 12006867, 12030767, 12054679, 12078603, 12102539, 12126486,
     12150446, 12174417, 12198400, 12222395, 12246402, 12270420, 12294450, 12318492, 12342546, 12366611, 12390689,
     12414777, 12438878, 12462990, 12487114, 12511249, 12535397, 12559555, 12583726, 12607908, 12632101, 12656307,
     12680523, 12704752, 12728992, 12753243, 12777506, 12801781, 12826067, 12850364, 12874673, 12898994, 12923326,
     12947669, 12972024, 12996391, 13020768, 13045157, 13069558, 13093970, 13118393, 13142828, 13167274, 13191732,
     13216200, 13240680, 13265172, 13289675, 13314189, 13338714, 13363251, 13387798, 13412358, 13436928, 13461510,
     13486102, 13510707, 13535322, 13559948]"

definition IQ_Table_5 :: "int list" where
  "IQ_Table_5 =
    [13584586, 13609235, 13633895, 13658566, 13683248, 13707942, 13732646, 13757362, 13782089, 13806826, 13831575,
     13856335, 13881107, 13905889, 13930682, 13955486, 13980301, 14005128, 14029965, 14054813, 14079673, 14104543,
     14129424, 14154316, 14179219, 14204133, 14229058, 14253994, 14278941, 14303899, 14328867, 14353847, 14378837,
     14403839, 14428851, 14453874, 14478907, 14503952, 14529007, 14554074, 14579151, 14604238, 14629337, 14654446,
     14679566, 14704697, 14729839, 14754991, 14780154, 14805328, 14830513, 14855708, 14880914, 14906130, 14931357,
     14956595, 14981844, 15007103, 15032373, 15057653, 15082944, 15108246, 15133558, 15158881, 15184214, 15209558,
     15234913, 15260278, 15285654, 15311040, 15336436, 15361844, 15387261, 15412690, 15438128, 15463578, 15489037,
     15514507, 15539988, 15565479, 15590981, 15616493, 15642015, 15667548, 15693091, 15718644, 15744208, 15769783,
     15795367, 15820963, 15846568, 15872184, 15897810, 15923446, 15949093, 15974750, 16000418, 16026095, 16051783,
     16077482, 16103190, 16128909, 16154638, 16180377, 16206127, 16231887, 16257657, 16283437, 16309227, 16335028,
     16360839, 16386660, 16412491, 16438332, 16464184, 16490045, 16515917, 16541799, 16567691, 16593593, 16619506,
     16645428, 16671361, 16697303, 16723256, 16749219, 16775192, 16801174, 16827167, 16853170, 16879183, 16905206,
     16931239, 16957282, 16983335, 17009398, 17035472, 17061555, 17087648, 17113750, 17139863, 17165986, 17192119,
     17218262, 17244414, 17270577, 17296750]"

definition IQ_Table_6 :: "int list" where
  "IQ_Table_6 =
    [17322932, 17349124, 17375326, 17401538, 17427760, 17453992, 17480234, 17506485, 17532747, 17559018, 17585299,
     17611590, 17637891, 17664201, 17690521, 17716851, 17743191, 17769541, 17795900, 17822270, 17848648, 17875037,
     17901436, 17927844, 17954262, 17980689, 18007127, 18033574, 18060030, 18086497, 18112973, 18139459, 18165954,
     18192459, 18218974, 18245498, 18272033, 18298576, 18325130, 18351693, 18378265, 18404847, 18431439, 18458041,
     18484652, 18511272, 18537902, 18564542, 18591191, 18617850, 18644518, 18671196, 18697884, 18724581, 18751287,
     18778003, 18804729, 18831464, 18858208, 18884962, 18911726, 18938498, 18965281, 18992073, 19018874, 19045685,
     19072505, 19099335, 19126174, 19153022, 19179880, 19206747, 19233624, 19260510, 19287405, 19314310, 19341224,
     19368148, 19395081, 19422023, 19448975, 19475936, 19502906, 19529886, 19556875, 19583873, 19610881, 19637897,
     19664924, 19691959, 19719004, 19746058, 19773121, 19800194, 19827276, 19854367, 19881467, 19908576, 19935695,
     19962823, 19989961, 20017107, 20044263, 20071427, 20098601, 20125785, 20152977, 20180179, 20207389, 20234609,
     20261838, 20289077, 20316324, 20343581, 20370846, 20398121, 20425405, 20452698, 20480000, 20507311, 20534632,
     20561961, 20589299, 20616647, 20644004, 20671369, 20698744, 20726128, 20753521, 20780923, 20808334, 20835754,
     20863183, 20890621, 20918068, 20945524, 20972989, 21000463, 21027946, 21055438, 21082939, 21110449, 21137919]"

lemmas IQ_parts = IQ_Table_0_def IQ_Table_1_def IQ_Table_2_def IQ_Table_3_def IQ_Table_4_def IQ_Table_5_def IQ_Table_6_def

definition IQ_Table :: "int list" where
  "IQ_Table = IQ_Table_0 @ IQ_Table_1 @ IQ_Table_2 @ IQ_Table_3 @ IQ_Table_4 @ IQ_Table_5 @ IQ_Table_6"

section \<open>The table is the rounded power\<close>

text \<open>\<open>t\<close> is the integer nearest to \<open>2048 q\<^sup>4\<^sup>/\<^sup>3\<close>, written with the third powers of both sides.\<close>

definition nearest_power :: "int \<Rightarrow> int \<Rightarrow> bool" where
  "nearest_power q t \<longleftrightarrow> 0 \<le> t \<and> (2 * t - 1) ^ 3 \<le> 4096 ^ 3 * q ^ 4 \<and> 4096 ^ 3 * q ^ 4 < (2 * t + 1) ^ 3"

fun nearest_from :: "int \<Rightarrow> int list \<Rightarrow> bool" where
  "nearest_from q [] = True"
| "nearest_from q (t # ts) = (nearest_power q t \<and> nearest_from (q + 1) ts)"

lemma nearest_from_append: "nearest_from q (xs @ ys) = (nearest_from q xs \<and> nearest_from (q + int (length xs)) ys)"
  by (induction xs arbitrary: q) (auto simp: algebra_simps)

lemma nearest_from_nth: "nearest_from q ts \<Longrightarrow> i < length ts \<Longrightarrow> nearest_power (q + int i) (ts ! i)"
proof (induction ts arbitrary: q i)
  case (Cons t ts)
  then show ?case by (cases i) (use Cons.IH [of "q + 1" "i - 1"] in \<open>auto simp: algebra_simps\<close>)
qed simp

lemma IQ_lengths [simp]:
  "length IQ_Table_0 = 147"
  "length IQ_Table_1 = 147"
  "length IQ_Table_2 = 147"
  "length IQ_Table_3 = 147"
  "length IQ_Table_4 = 147"
  "length IQ_Table_5 = 147"
  "length IQ_Table_6 = 143"
  by (simp_all add: IQ_parts)

lemma length_IQ_Table [simp]: "length IQ_Table = 1025"
  by (simp add: IQ_Table_def)

lemma IQ_nearest_0: "nearest_from 0 IQ_Table_0"
  by code_simp

lemma IQ_nearest_1: "nearest_from 147 IQ_Table_1"
  by code_simp

lemma IQ_nearest_2: "nearest_from 294 IQ_Table_2"
  by code_simp

lemma IQ_nearest_3: "nearest_from 441 IQ_Table_3"
  by code_simp

lemma IQ_nearest_4: "nearest_from 588 IQ_Table_4"
  by code_simp

lemma IQ_nearest_5: "nearest_from 735 IQ_Table_5"
  by code_simp

lemma IQ_nearest_6: "nearest_from 882 (take 142 IQ_Table_6)"
  by code_simp

lemma IQ_nearest_all: "nearest_from 0 (take 1024 IQ_Table)"
  by (simp add: IQ_Table_def nearest_from_append IQ_nearest_0 IQ_nearest_1 IQ_nearest_2 IQ_nearest_3 IQ_nearest_4
      IQ_nearest_5 IQ_nearest_6)

lemma IQ_nearest: "0 \<le> q \<Longrightarrow> q < 1024 \<Longrightarrow> nearest_power q (IQ_Table ! nat q)"
  using nearest_from_nth [OF IQ_nearest_all, of "nat q"] by simp

text \<open>The last entry, which only the interpolation reads, is not the rounded power: it is too small by 49 units.\<close>

lemma IQ_last: "IQ_Table ! 1024 = 21137919" "nearest_power 1024 21137968" "\<not> nearest_power 1024 (IQ_Table ! 1024)"
  by (simp_all add: IQ_Table_def nth_append IQ_parts nearest_power_def)

text \<open>The table grows, and every entry is less than \<open>2\<^sup>2\<^sup>5\<close>.\<close>

lemma nearest_mono:
  assumes "nearest_power q t" "nearest_power r u" "0 \<le> q" "q \<le> r"
  shows "t \<le> u"
proof (rule ccontr)
  assume "\<not> t \<le> u"
  then have "2 * u + 1 \<le> 2 * t - 1" by simp
  then have "(2 * u + 1) ^ 3 \<le> (2 * t - 1) ^ 3" using assms(2) by (intro power_mono) (auto simp: nearest_power_def)
  moreover have "4096 ^ 3 * q ^ 4 \<le> 4096 ^ 3 * r ^ 4" using assms(3,4) by (intro mult_left_mono power_mono) auto
  ultimately show False using assms(1,2) by (auto simp: nearest_power_def)
qed

lemma IQ_ends: "IQ_Table ! 0 = 0" "IQ_Table ! 1023 = 21110449"
  by (simp_all add: IQ_Table_def nth_append IQ_parts)

lemma IQ_mono:
  assumes "0 \<le> q" "q \<le> r" "r \<le> 1024"
  shows "IQ_Table ! nat q \<le> IQ_Table ! nat r"
proof (cases "r = 1024")
  case True
  have "IQ_Table ! nat q \<le> IQ_Table ! nat 1023" if "q < 1024"
    using nearest_mono [OF IQ_nearest IQ_nearest, of q 1023] assms(1) that by simp
  then show ?thesis using True assms by (cases "q = 1024") (auto simp: IQ_ends IQ_last)
next
  case False
  then show ?thesis using nearest_mono [OF IQ_nearest IQ_nearest, of q r] assms by simp
qed

lemma IQ_range: "0 \<le> q \<Longrightarrow> q \<le> 1024 \<Longrightarrow> 0 \<le> IQ_Table ! nat q \<and> IQ_Table ! nat q \<le> 21137919"
  using IQ_mono [of 0 q] IQ_mono [of q 1024] by (simp add: IQ_ends IQ_last)

end
