(* ===== verification/Dequant.thy ===== *)
theory Dequant
  imports Bands QuantTable
begin

unbundle bit_operations_syntax

text \<open>
  Inverse quantisation, \<open>dequant_rescale\<close> of \<^verbatim>\<open>src/lc_dequant.c\<close>: every quantised value becomes its power \<open>4/3\<close>
  times two to the quarter of the scale factor. The leading zeros of all results are kept as guard bits.
\<close>

section \<open>Operations\<close>

definition ESC_HCB :: int where "ESC_HCB = 11"

definition pow2_4_Q30 :: "int list" where
  "pow2_4_Q30 = [1073741824, 1276901417, 1518500250, 1805811301]"

text \<open>The power of a magnitude: from the table, or interpolated between two entries for an eighth of it.\<close>

definition iq_power :: "int \<Rightarrow> int option" where
  "iq_power q =
     (if q < 1024 then rd IQ_Table q
      else (let q = (if q > 8191 then 8191 else q) in
        do { x1 \<leftarrow> rd IQ_Table (drop_bit 3 q); x2 \<leftarrow> rd IQ_Table (drop_bit 3 q + 1);
             Some (s32 ((q AND 7) * (x2 - x1) * 2 + x1 * 16)) }))"

text \<open>The scaling by \<open>2\<^sup>e\<^sup>x\<^sup>p\<close> and the fraction; the first result is \<open>False\<close> for an overflow.\<close>

definition iq_scale :: "int \<Rightarrow> int \<Rightarrow> int \<Rightarrow> int \<Rightarrow> (bool \<times> int) option" where
  "iq_scale ex frac pow_frac q =
     (if ex < 0 then do { q \<leftarrow> sar q (- ex); Some (True, if frac \<noteq> 0 then MUL_30 q pow_frac else q) }
      else do { lim \<leftarrow> sar 0x7fffffff ex;
                if q < lim then do { q \<leftarrow> sal q ex; Some (True, if frac \<noteq> 0 then MUL_30 q pow_frac else q) }
                else Some (False, q) })"

record dq_state =
  dq_spec :: "int list"
  dq_ov :: int
  dq_pns :: int
  dq_intensity :: int

fun dq_run :: "nat \<Rightarrow> int \<Rightarrow> int \<Rightarrow> int \<Rightarrow> int \<Rightarrow> dq_state \<Rightarrow> (bool \<times> dq_state) option" where
  "dq_run 0 pos ex frac pow_frac st = Some (False, st)"
| "dq_run (Suc k) pos ex frac pow_frac st =
     do { x \<leftarrow> rd (dq_spec st) pos;
          if x = 0 then dq_run k (pos + 1) ex frac pow_frac st
          else do {
            q \<leftarrow> iq_power (if x < 0 then - x else x);
            (ok, q) \<leftarrow> iq_scale ex frac pow_frac q;
            if \<not> ok then Some (True, st)
            else do { xs \<leftarrow> wr (dq_spec st) pos (if x < 0 then s32 (- q) else q);
                      dq_run k (pos + 1) ex frac pow_frac (st\<lparr>dq_spec := xs, dq_ov := dq_ov st OR q\<rparr>) } } }"

definition dq_body :: "AACDecoder \<Rightarrow> int \<Rightarrow> int list \<Rightarrow> int \<Rightarrow> dq_state walk_body" where
  "dq_body d ch tab off g p base sfb st =
     do { e \<leftarrow> rd tab (off + (sfb + 1)); s \<leftarrow> rd tab (off + sfb);
          cbs \<leftarrow> rd (sfb_cb d) ch; cb \<leftarrow> rd cbs (p + sfb);
          if ZERO_HCB \<le> cb \<and> cb \<le> ESC_HCB then
            do { sfs \<leftarrow> rd (scaleFactors d) ch; sf \<leftarrow> rd sfs (p + sfb);
                 pow_frac \<leftarrow> rd pow2_4_Q30 (sf AND 3);
                 dq_run (nat (e - s)) (base + s) (drop_bit 2 sf - 25 - 6) (sf AND 3) pow_frac st }
          else if cb = NOISE_HCB then Some (False, st\<lparr>dq_pns := 1\<rparr>)
          else if cb = INTENSITY_HCB \<or> cb = INTENSITY_HCB2 then Some (False, st\<lparr>dq_intensity := (if ch = 1 then 1 else 0)\<rparr>)
          else Some (False, st) }"

definition dq_channel :: "AACDecoder \<Rightarrow> int \<Rightarrow> (int \<times> AACDecoder) option" where
  "dq_channel d ch =
     do { ps \<leftarrow> wr (pns_data_present d) ch 0;
          let d = d\<lparr>pns_data_present := ps\<rparr>;
          ics \<leftarrow> rd (ics_data d) (if common_window d = 0 then ch else 0);
          (tab, off) \<leftarrow> sfb_table d ics;
          spec \<leftarrow> rd (coef d) ch;
          (stop, st) \<leftarrow> walk ics (dq_body d ch tab off)
            \<lparr>dq_spec = spec, dq_ov = 0, dq_pns = 0, dq_intensity = intensity_used d\<rparr>;
          cs \<leftarrow> wr (coef d) ch (dq_spec st);
          ps \<leftarrow> wr ps ch (dq_pns st);
          let d = d\<lparr>coef := cs, pns_data_present := ps, intensity_used := dq_intensity st\<rparr>;
          if stop then Some (- 1, d)
          else do { gs \<leftarrow> wr (gbCurrent d) ch (CLZ (dq_ov st) - 1); Some (0, d\<lparr>gbCurrent := gs\<rparr>) } }"

fun dq_channels :: "nat \<Rightarrow> int \<Rightarrow> AACDecoder \<Rightarrow> (int \<times> AACDecoder) option" where
  "dq_channels 0 ch d = Some (0, d)"
| "dq_channels (Suc k) ch d =
     do { (ret, d) \<leftarrow> dq_channel d ch; if ret \<noteq> 0 then Some (ret, d) else dq_channels k (ch + 1) d }"

definition dequant_rescale :: "AACDecoder \<Rightarrow> int \<Rightarrow> (int \<times> AACDecoder) option" where
  "dequant_rescale d chans = dq_channels (nat chans) 0 (d\<lparr>intensity_used := 0\<rparr>)"

section \<open>One value\<close>

lemma iq_power_ok:
  assumes "0 \<le> q"
  shows "wp (iq_power q) (\<lambda>v. 0 \<le> v \<and> v < 2 ^ 29)"
proof (cases "q < 1024")
  case True
  have "IQ_Table ! nat q \<le> 21137919" "0 \<le> IQ_Table ! nat q" using IQ_range [of q] True assms by auto
  then show ?thesis using True assms by (simp add: iq_power_def rd_def)
next
  case False
  define r where "r = (if q > 8191 then 8191 else q)"
  define i where "i = drop_bit 3 r"
  have i: "0 \<le> i" "i \<le> 1023" using False by (auto simp: i_def r_def drop_bit_eq_div)
  define x1 x2 where x: "x1 = IQ_Table ! nat i" "x2 = IQ_Table ! nat (i + 1)"
  have rds: "rd IQ_Table i = Some x1" "rd IQ_Table (i + 1) = Some x2" using i by (simp_all add: rd_def x)
  have x1: "0 \<le> x1" "x1 \<le> x2" "x2 \<le> 21137919"
    using IQ_range [of i] IQ_mono [of i "i + 1"] IQ_range [of "i + 1"] i by (auto simp: x)
  have m: "0 \<le> r AND 7" "r AND 7 \<le> 7" using take_bit_int_less_exp [of 3 r] take_bit_nonnegative [of 3 r]
    by (simp_all add: take_bit_eq_mask mask_numeral)
  then have "(r AND 7) * (x2 - x1) \<le> 7 * (x2 - x1)" "0 \<le> (r AND 7) * (x2 - x1)" using x1 by (intro mult_right_mono mult_nonneg_nonneg; simp)+
  then have "0 \<le> (r AND 7) * (x2 - x1) * 2 + x1 * 16" "(r AND 7) * (x2 - x1) * 2 + x1 * 16 < 2 ^ 29" using x1 by auto
  moreover from this have "s32 ((r AND 7) * (x2 - x1) * 2 + x1 * 16) = (r AND 7) * (x2 - x1) * 2 + x1 * 16"
    by (intro s32_id) auto
  ultimately show ?thesis
    using False by (simp add: iq_power_def Let_def r_def [symmetric] i_def [symmetric] rds)
qed

lemma MUL_30_range: "- (2 ^ 31) \<le> MUL_30 a b" "MUL_30 a b < 2 ^ 31"
  unfolding MUL_30_def by (rule s32_range)+

text \<open>Scaling is defined for exponents within a word; the result is an \<open>int\<close>.\<close>

lemma iq_scale_ok:
  assumes "0 \<le> q" "q < 2 ^ 31" "- 32 < ex" "ex < 32"
  shows "wp (iq_scale ex frac pf q) (\<lambda>(ok, v). - (2 ^ 31) \<le> v \<and> v < 2 ^ 31)"
proof -
  have "0 \<le> drop_bit n q" "drop_bit n q < 2 ^ 31" for n
  proof -
    have "drop_bit n q \<le> q" using zdiv_mono2 [of q 1 "2 ^ n"] assms(1) by (simp add: drop_bit_eq_div)
    then show "0 \<le> drop_bit n q" "drop_bit n q < 2 ^ 31" using assms by auto
  qed
  then show ?thesis
    using assms MUL_30_range s32_range by (auto simp: iq_scale_def sar_def sal_def intro: order_trans [of _ 0])
qed


section \<open>Guard bits\<close>

text \<open>
  The result of a run: the values are the ones before, or not larger than the leading zeros of the
  union of all results allow.
\<close>

definition guarded :: "int \<Rightarrow> int \<Rightarrow> bool" where
  "guarded ov x \<longleftrightarrow> \<bar>x\<bar> \<le> 2 ^ nat (32 - CLZ ov)"

definition int32 :: "int \<Rightarrow> bool" where "int32 x \<longleftrightarrow> - (2 ^ 31) \<le> x \<and> x < 2 ^ 31"

lemma int32_or: "int32 x \<Longrightarrow> int32 y \<Longrightarrow> int32 (x OR y)"
proof -
  have "signed_take_bit 31 (x OR y) = signed_take_bit 31 x OR signed_take_bit 31 y"
    by (rule bit_eqI) (simp add: bit_signed_take_bit_iff bit_or_iff)
  moreover have "int32 z \<longleftrightarrow> signed_take_bit 31 z = z" for z by (simp only: int32_def signed_take_bit_int_eq_self_iff)
  ultimately show "int32 x \<Longrightarrow> int32 y \<Longrightarrow> int32 (x OR y)" by simp
qed

lemma CLZ_or:
  assumes "int32 x" "int32 y"
  shows "CLZ (x OR y) \<le> CLZ x" "CLZ (x OR y) \<le> CLZ y"
proof -
  have "CLZ (x OR y) \<le> CLZ z" if "z = x \<or> z = y" for z
  proof (cases "x OR y < 0")
    case True
    then have "CLZ (x OR y) = 0" using int32_or [OF assms] by (intro CLZ_negative) (auto simp: int32_def)
    moreover have "0 \<le> CLZ z" using CLZ_positive(1) [of z] CLZ_negative [of z] that assms
      by (cases "z = 0"; cases "z < 0") (auto simp: int32_def)
    ultimately show ?thesis by simp
  next
    case False
    then have nn: "0 \<le> x" "0 \<le> y" by (auto simp: not_less)
    have "x OR y < 2 ^ 32" using int32_or [OF assms] by (simp add: int32_def)
    moreover have "x \<le> x OR y" using nn(2) by (rule or_greater_eq)
    moreover have "y \<le> x OR y" using or_greater_eq [OF nn(1), of y] by (simp add: or.commute)
    ultimately show ?thesis using that nn by (intro CLZ_antimono) auto
  qed
  then show "CLZ (x OR y) \<le> CLZ x" "CLZ (x OR y) \<le> CLZ y" by simp_all
qed

lemma guarded_mono: "int32 ov \<Longrightarrow> int32 q \<Longrightarrow> guarded ov x \<Longrightarrow> guarded (ov OR q) x"
proof -
  assume a: "int32 ov" "int32 q" "guarded ov x"
  have "(2 :: int) ^ nat (32 - CLZ ov) \<le> 2 ^ nat (32 - CLZ (ov OR q))"
    using CLZ_or(1) [OF a(1,2)] by (intro power_increasing nat_mono) auto
  with a(3) show ?thesis unfolding guarded_def by (rule order_trans)
qed

lemma guarded_self:
  assumes "int32 q"
  shows "guarded q q" "guarded q (s32 (- q))"
proof -
  have "\<bar>q\<bar> \<le> 2 ^ nat (32 - CLZ q) \<and> \<bar>s32 (- q)\<bar> \<le> 2 ^ nat (32 - CLZ q)"
  proof (cases "0 < q")
    case True
    have c: "CLZ q \<le> 31" "0 \<le> CLZ q" "q * 2 ^ nat (CLZ q) < 2 ^ 32" using CLZ_positive [of q] True assms by (auto simp: int32_def)
    have "(2 :: int) ^ 32 = 2 ^ nat (32 - CLZ q) * 2 ^ nat (CLZ q)"
      using c(1,2) by (simp add: nat_diff_distrib flip: power_add)
    then have "q * 2 ^ nat (CLZ q) < 2 ^ nat (32 - CLZ q) * 2 ^ nat (CLZ q)" using c(3) by simp
    then have "q < 2 ^ nat (32 - CLZ q)" by (simp only: mult_less_cancel_right) auto
    moreover have "s32 (- q) = - q" using True assms by (intro s32_id) (auto simp: int32_def)
    ultimately show ?thesis using True by simp
  next
    case False
    show ?thesis
    proof (cases "q = 0")
      case True
      have "s32 0 = 0" by (simp add: s32_def)
      then show ?thesis using True by simp
    next
      case False
      with \<open>\<not> 0 < q\<close> have "CLZ q = 0" using assms by (intro CLZ_negative) (auto simp: int32_def)
      then show ?thesis using assms s32_range [of "- q"] by (auto simp: int32_def abs_le_iff)
    qed
  qed
  then show "guarded q q" "guarded q (s32 (- q))" by (simp_all add: guarded_def)
qed

definition dq_inv :: "int list \<Rightarrow> dq_state \<Rightarrow> bool" where
  "dq_inv spec0 st \<longleftrightarrow> length (dq_spec st) = 1024 \<and> int32 (dq_ov st)
     \<and> (\<forall>i < 1024. dq_spec st ! i = spec0 ! i \<or> guarded (dq_ov st) (dq_spec st ! i))"

lemma dq_run_ok:
  "dq_inv spec0 st \<Longrightarrow> 0 \<le> pos \<Longrightarrow> pos + int k \<le> 1024 \<Longrightarrow> - 32 < ex \<Longrightarrow> ex < 32 \<Longrightarrow>
   wp (dq_run k pos ex frac pf st) (\<lambda>r. dq_inv spec0 (snd r))"
proof (induction k arbitrary: pos st)
  case (Suc k)
  have len: "length (dq_spec st) = 1024" "int32 (dq_ov st)" using Suc.prems(1) by (simp_all add: dq_inv_def)
  define x where "x = dq_spec st ! nat pos"
  have r: "rd (dq_spec st) pos = Some x" using len Suc.prems by (simp add: rd_band x_def)
  have IH: "dq_inv spec0 st' \<Longrightarrow> wp (dq_run k (pos + 1) ex frac pf st') (\<lambda>r. dq_inv spec0 (snd r))" for st'
    using Suc.prems by (intro Suc.IH) auto
  show ?case
  proof (cases "x = 0")
    case True
    then show ?thesis using IH [OF Suc.prems(1)] by (simp add: r)
  next
    case False
    obtain v where v: "iq_power (if x < 0 then - x else x) = Some v" "0 \<le> v" "v < 2 ^ 29"
      using wpD [OF iq_power_ok [of "if x < 0 then - x else x"]] by (force split: if_splits)
    obtain ok q where q: "iq_scale ex frac pf v = Some (ok, q)" "int32 q"
      using iq_scale_ok [of v ex frac pf] v Suc.prems(4,5) by (auto simp: wp_iff int32_def)
    show ?thesis
    proof (cases ok)
      case False
      then show ?thesis using \<open>x \<noteq> 0\<close> Suc.prems(1) by (simp add: r v(1) q(1))
    next
      case True
      define y where "y = (if x < 0 then s32 (- q) else q)"
      let ?S = "(dq_spec st)[nat pos := y]"
      let ?st = "st\<lparr>dq_spec := (dq_spec st)[nat pos := y], dq_ov := dq_ov st OR q\<rparr>"
      have "guarded (q OR dq_ov st) y"
        using guarded_self [OF q(2)] by (intro guarded_mono q(2) len(2)) (simp add: y_def)
      then have y: "guarded (dq_ov st OR q) y" by (simp add: or.commute)
      have "dq_inv spec0 ?st"
      proof -
        have "?S ! i = spec0 ! i \<or> guarded (dq_ov st OR q) (?S ! i)" if "i < 1024" for i
          using Suc.prems(1) y guarded_mono [OF len(2) q(2)] that len(1)
          by (cases "nat pos = i") (auto simp: dq_inv_def)
        then show ?thesis using Suc.prems(1) int32_or [OF len(2) q(2)] by (simp add: dq_inv_def)
      qed
      then show ?thesis
        using IH [of ?st] True \<open>x \<noteq> 0\<close> len Suc.prems
        by (simp add: r v(1) q(1) wr_band y_def)
    qed
  qed
qed simp

text \<open>The scale factors of a channel keep the shifts within a word: \<open>sf >> 2\<close> is at most 62.\<close>

definition scales_fit :: "AACDecoder \<Rightarrow> int \<Rightarrow> bool" where
  "scales_fit d ch \<longleftrightarrow> (\<forall>i < 120. sfb_cb d ! nat ch ! i \<le> ESC_HCB \<longrightarrow>
     0 \<le> scaleFactors d ! nat ch ! i \<and> scaleFactors d ! nat ch ! i \<le> 251)"

definition dq_ready :: "AACDecoder \<Rightarrow> int \<Rightarrow> ICS_Data \<Rightarrow> int list \<Rightarrow> int \<Rightarrow> bool" where
  "dq_ready d ch ics tab off \<longleftrightarrow> dec_ok d \<and> (ch = 0 \<or> ch = 1) \<and> sfb_table d ics = Some (tab, off) \<and> scales_fit d ch"

interpretation dq: band_tool "dq_body d ch tab off" "\<lambda>st. dq_ready d ch ics tab off \<and> dq_inv spec0 st" "sampRateIdx d" ics
  for d ch tab off spec0 ics
proof
  fix g p base sfb st
  assume i: "ics_ok (sampRateIdx d) ics" and s: "dq_ready d ch ics tab off \<and> dq_inv spec0 st" and v: "visited ics g p base sfb"
  have d: "dec_ok d" "ch = 0 \<or> ch = 1" "sfb_table d ics = Some (tab, off)" "scales_fit d ch" using s by (simp_all add: dq_ready_def)
  have ch: "0 \<le> ch" "ch < 2" "nat ch < 2" using d(2) by auto
  obtain b e where b: "rd tab (off + sfb) = Some b" "rd tab (off + (sfb + 1)) = Some e" "0 \<le> base + b" "b < e" "base + e \<le> 1024"
    using visited_band [OF i v d(3)] by blast
  note row = visited_row [OF i v]
  define cb where "cb = sfb_cb d ! nat ch ! nat (p + sfb)"
  define sf where "sf = scaleFactors d ! nat ch ! nat (p + sfb)"
  have lens: "length (sfb_cb d ! nat ch) = 128" "length (scaleFactors d ! nat ch) = 128"
    using dec_okD(13,14) [OF d(1)] ch by simp_all
  have rds: "rd (sfb_cb d) ch = Some (sfb_cb d ! nat ch)" "rd (sfb_cb d ! nat ch) (p + sfb) = Some cb"
    "rd (scaleFactors d) ch = Some (scaleFactors d ! nat ch)" "rd (scaleFactors d ! nat ch) (p + sfb) = Some sf"
    using dec_okD(3,4) [OF d(1)] ch lens row by (simp_all add: rd_band cb_def sf_def)
  have m: "0 \<le> sf AND 3" "sf AND 3 < 4" using take_bit_int_less_exp [of 2 sf] take_bit_nonnegative [of 2 sf]
    by (simp_all add: take_bit_eq_mask mask_numeral)
  then obtain pf where pf: "rd pow2_4_Q30 (sf AND 3) = Some pf" by (simp add: rd_def pow2_4_Q30_def)
  have run: "wp (dq_run (nat (e - b)) (base + b) (drop_bit 2 sf - 25 - 6) (sf AND 3) pf st) (\<lambda>r. dq_inv spec0 (snd r))"
    if "cb \<le> ESC_HCB"
  proof (rule dq_run_ok)
    have "nat (p + sfb) < 120" using row by auto
    then have "0 \<le> sf" "sf \<le> 251" using d(4) that by (auto simp: scales_fit_def sf_def cb_def)
    then show "- 32 < drop_bit 2 sf - 25 - 6" "drop_bit 2 sf - 25 - 6 < 32" by (auto simp: drop_bit_eq_div)
  qed (use s b in auto)
  have keep: "dq_inv spec0 (st\<lparr>dq_pns := x\<rparr>)" "dq_inv spec0 (st\<lparr>dq_intensity := x\<rparr>)" for x
    using s by (simp_all add: dq_inv_def)
  show "wp (dq_body d ch tab off g p base sfb st) (\<lambda>r. dq_ready d ch ics tab off \<and> dq_inv spec0 (snd r))"
    using s run keep by (auto simp: dq_body_def b rds pf intro: wp_mono)
qed


text \<open>What inverse quantisation changes, and the guard bits of a channel.\<close>

definition dq_frame :: "AACDecoder \<Rightarrow> AACDecoder" where
  "dq_frame d = d\<lparr>coef := [], pns_data_present := [], intensity_used := 0, gbCurrent := []\<rparr>"

definition rescaled :: "AACDecoder \<Rightarrow> AACDecoder \<Rightarrow> bool" where
  "rescaled d d' \<longleftrightarrow> rows_ok 2 1024 (coef d') \<and> length (pns_data_present d') = 2 \<and> length (gbCurrent d') = 2
     \<and> dq_frame d' = dq_frame d"

definition guard_bits :: "AACDecoder \<Rightarrow> AACDecoder \<Rightarrow> int \<Rightarrow> bool" where
  "guard_bits d d' ch \<longleftrightarrow> (\<forall>i < 1024. coef d' ! nat ch ! i = coef d ! nat ch ! i
     \<or> \<bar>coef d' ! nat ch ! i\<bar> \<le> 2 ^ nat (31 - gbCurrent d' ! nat ch))"

definition dq_wf :: "AACDecoder \<Rightarrow> bool" where
  "dq_wf d \<longleftrightarrow> dec_ok d \<and> length (pns_data_present d) = 2 \<and> length (gbCurrent d) = 2"

definition dq_fits :: "AACDecoder \<Rightarrow> int \<Rightarrow> bool" where
  "dq_fits d ch \<longleftrightarrow> ics_ok (sampRateIdx d) (ics_of d ch) \<and> scales_fit d ch"

lemma dq_channel_ok:
  assumes "dq_wf d" "ch = 0 \<or> ch = 1" "dq_fits d ch"
  shows "wp (dq_channel d ch) (\<lambda>(ret, d'). (ret = 0 \<or> ret = - 1) \<and> rescaled d d' \<and> dq_wf d'
     \<and> (\<forall>c. c \<noteq> nat ch \<longrightarrow> coef d' ! c = coef d ! c \<and> gbCurrent d' ! c = gbCurrent d ! c)
     \<and> (ret = 0 \<longrightarrow> guard_bits d d' ch))"
proof -
  have ok: "dec_ok d" "length (pns_data_present d) = 2" "length (gbCurrent d) = 2" using assms(1) by (simp_all add: dq_wf_def)
  have ch: "0 \<le> ch" "ch < 2" "nat ch < 2" using assms(2) by auto
  have i: "ics_ok (sampRateIdx d) (ics_of d ch)" "scales_fit d ch" using assms(3) by (simp_all add: dq_fits_def)
  define e where "e = d\<lparr>pns_data_present := (pns_data_present d)[nat ch := 0]\<rparr>"
  have e: "dec_ok e" "sampRateIdx e = sampRateIdx d" "scales_fit e ch" "coef e = coef d" "gbCurrent e = gbCurrent d"
    using ok(1) i(2) by (simp_all add: e_def dec_ok_def scales_fit_def)
  have ics: "rd (ics_data e) (if common_window e = 0 then ch else 0) = Some (ics_of d ch)"
    using dec_okD(1) [OF ok(1)] ch by (auto simp: rd_def ics_of_def e_def)
  obtain tab off where t: "sfb_table e (ics_of d ch) = Some (tab, off)"
    using sfb_table_total [of e] dec_okD(11,12) [OF e(1)] by blast
  have spec: "length (coef d ! nat ch) = 1024" using dec_okD(15) [OF ok(1)] ch by simp
  define st0 where "st0 = \<lparr>dq_spec = coef d ! nat ch, dq_ov = 0, dq_pns = 0, dq_intensity = intensity_used e\<rparr>"
  have "dq_inv (coef d ! nat ch) st0" using spec by (simp add: dq_inv_def st0_def int32_def)
  then have "wp (walk (ics_of d ch) (dq_body e ch tab off) st0) (\<lambda>r. dq_ready e ch (ics_of d ch) tab off \<and> dq_inv (coef d ! nat ch) (snd r))"
    using i e t assms(2) by (intro dq.walk_ok) (simp_all add: dq_ready_def)
  then obtain stop st where w: "walk (ics_of d ch) (dq_body e ch tab off) st0 = Some (stop, st)" "dq_inv (coef d ! nat ch) st"
    by (auto simp: wp_iff)
  have len: "length (coef d) = 2" "length (dq_spec st) = 1024" using dec_okD(9) [OF ok(1)] w(2) by (simp_all add: dq_inv_def)
  define ps where "ps = (pns_data_present d)[nat ch := 0, nat ch := dq_pns st]"
  define f where "f = e\<lparr>coef := (coef d)[nat ch := dq_spec st], pns_data_present := ps, intensity_used := dq_intensity st\<rparr>"
  have rds: "wr (pns_data_present d) ch 0 = Some ((pns_data_present d)[nat ch := 0])" "rd (coef e) ch = Some (coef d ! nat ch)"
    "wr (coef e) ch (dq_spec st) = Some ((coef d)[nat ch := dq_spec st])"
    "wr ((pns_data_present d)[nat ch := 0]) ch (dq_pns st) = Some ps"
    "wr (gbCurrent f) ch x = Some ((gbCurrent d)[nat ch := x])" for x
    using ok ch len by (simp_all add: rd_band wr_band e ps_def f_def)
  have f: "rescaled d f" "dq_wf f" "\<forall>c. c \<noteq> nat ch \<longrightarrow> coef f ! c = coef d ! c" "gbCurrent f = gbCurrent d"
    using dec_okD(15) [OF ok(1)] len ok by (auto simp: rescaled_def dq_frame_def f_def e_def dq_wf_def ps_def dec_ok_def)
  let ?g = "f\<lparr>gbCurrent := (gbCurrent d)[nat ch := CLZ (dq_ov st) - 1]\<rparr>"
  have g: "rescaled d ?g" "dq_wf ?g"
    using f(1,2) ok(3) by (auto simp: rescaled_def dq_frame_def dq_wf_def dec_ok_def)
  have "guard_bits d ?g ch"
    using w(2) ch len ok(3) by (auto simp: guard_bits_def f_def dq_inv_def guarded_def)
  moreover have "dq_channel d ch = (if stop then Some (- 1, f) else Some (0, ?g))"
    by (simp only: dq_channel_def rds(1) Let_def e_def [symmetric] ics t bind.bind_lunit prod.case rds(2) st0_def [symmetric] w(1)
        rds(3,4) f_def [symmetric] rds(5))
  ultimately show ?thesis using f g by auto
qed


lemma rescaled_trans: "rescaled d d' \<Longrightarrow> rescaled d' d'' \<Longrightarrow> rescaled d d''"
  by (simp add: rescaled_def)

lemma rescaled_fields:
  assumes "rescaled d d'"
  shows "sampRateIdx d' = sampRateIdx d" "ics_data d' = ics_data d" "common_window d' = common_window d"
    "sfb_cb d' = sfb_cb d" "scaleFactors d' = scaleFactors d"
proof -
  have o: "dq_frame d' = dq_frame d" using assms by (simp add: rescaled_def)
  show "sampRateIdx d' = sampRateIdx d" "ics_data d' = ics_data d" "common_window d' = common_window d"
    "sfb_cb d' = sfb_cb d" "scaleFactors d' = scaleFactors d"
    using arg_cong [OF o, of sampRateIdx] arg_cong [OF o, of ics_data] arg_cong [OF o, of common_window]
      arg_cong [OF o, of sfb_cb] arg_cong [OF o, of scaleFactors] by (simp_all add: dq_frame_def)
qed

lemma rescaled_fits: "rescaled d d' \<Longrightarrow> dq_fits d' = dq_fits d"
  using rescaled_fields [of d d'] by (simp add: dq_fits_def ics_of_def scales_fit_def fun_eq_iff)

lemma dq_channels_ok:
  "dq_wf d \<Longrightarrow> 0 \<le> ch \<Longrightarrow> ch + int k \<le> 2 \<Longrightarrow> \<forall>c. ch \<le> c \<and> c < ch + int k \<longrightarrow> dq_fits d c \<Longrightarrow>
   wp (dq_channels k ch d) (\<lambda>(ret, d'). (ret = 0 \<or> ret = - 1) \<and> rescaled d d' \<and> dq_wf d'
     \<and> (\<forall>c < nat ch. coef d' ! c = coef d ! c \<and> gbCurrent d' ! c = gbCurrent d ! c)
     \<and> (ret = 0 \<longrightarrow> (\<forall>c. ch \<le> c \<and> c < ch + int k \<longrightarrow> guard_bits d d' c)))"
proof (induction k arbitrary: ch d)
  case 0
  then show ?case by (auto simp: rescaled_def dq_wf_def dec_okD)
next
  case (Suc k)
  have c: "ch = 0 \<or> ch = 1" "dq_fits d ch" using Suc.prems by auto
  obtain ret e where e: "dq_channel d ch = Some (ret, e)" "ret = 0 \<or> ret = - 1" "rescaled d e" "dq_wf e"
      "\<forall>c. c \<noteq> nat ch \<longrightarrow> coef e ! c = coef d ! c \<and> gbCurrent e ! c = gbCurrent d ! c" "ret = 0 \<longrightarrow> guard_bits d e ch"
    using wpD [OF dq_channel_ok [OF Suc.prems(1) c]] by auto
  show ?case
  proof (cases "ret = 0")
    case False
    then show ?thesis using e by auto
  next
    case True
    obtain ret' f where f: "dq_channels k (ch + 1) e = Some (ret', f)" "ret' = 0 \<or> ret' = - 1" "rescaled e f" "dq_wf f"
        "\<forall>c < nat (ch + 1). coef f ! c = coef e ! c \<and> gbCurrent f ! c = gbCurrent e ! c"
        "ret' = 0 \<longrightarrow> (\<forall>c. ch + 1 \<le> c \<and> c < ch + 1 + int k \<longrightarrow> guard_bits e f c)"
      using wpD [OF Suc.IH [of e "ch + 1"]] Suc.prems e(3,4) rescaled_fits [OF e(3)] by (auto simp: add.assoc)
    have "guard_bits d f x" if "ret' = 0" "ch \<le> x" "x < ch + int (Suc k)" for x
    proof (cases "x = ch")
      case eq: True
      have "nat ch < nat (ch + 1)" using Suc.prems(2) by simp
      then show ?thesis using e(6) True f(5) by (auto simp: guard_bits_def eq)
    next
      case False
      then have "coef e ! nat x = coef d ! nat x" using e(5) that Suc.prems(2) by auto
      moreover have "guard_bits e f x" using f(6) that False by auto
      ultimately show ?thesis by (simp add: guard_bits_def)
    qed
    moreover have "\<forall>c < nat ch. coef f ! c = coef d ! c \<and> gbCurrent f ! c = gbCurrent d ! c"
      using e(5) f(5) by auto
    ultimately show ?thesis using True e(1) f(1-4) rescaled_trans [OF e(3) f(3)] by auto
  qed
qed

lemma dequant_ok:
  assumes "dq_wf d" "chans \<le> 2" "\<forall>c. 0 \<le> c \<and> c < chans \<longrightarrow> dq_fits d c"
  shows "wp (dequant_rescale d chans) (\<lambda>(ret, d'). (ret = 0 \<or> ret = - 1) \<and> rescaled d d' \<and> dq_wf d'
     \<and> (ret = 0 \<longrightarrow> (\<forall>c. 0 \<le> c \<and> c < chans \<longrightarrow> guard_bits d d' c)))"
proof -
  let ?d = "d\<lparr>intensity_used := 0\<rparr>"
  have d: "dq_wf ?d" "dq_fits ?d = dq_fits d" "\<And>e. rescaled ?d e = rescaled d e" "\<And>e. guard_bits ?d e = guard_bits d e"
    using assms(1) by (auto simp: dq_wf_def dec_ok_def dq_fits_def ics_of_def scales_fit_def rescaled_def dq_frame_def guard_bits_def fun_eq_iff)
  have "wp (dq_channels (nat chans) 0 ?d) (\<lambda>(ret, d'). (ret = 0 \<or> ret = - 1) \<and> rescaled ?d d' \<and> dq_wf d'
     \<and> (\<forall>c < nat 0. coef d' ! c = coef ?d ! c \<and> gbCurrent d' ! c = gbCurrent ?d ! c)
     \<and> (ret = 0 \<longrightarrow> (\<forall>c. 0 \<le> c \<and> c < 0 + int (nat chans) \<longrightarrow> guard_bits ?d d' c)))"
    using assms(2,3) d(2) by (intro dq_channels_ok d(1)) auto
  then show ?thesis unfolding dequant_rescale_def d by (rule wp_mono) auto
qed

section \<open>What the checks miss\<close>

text \<open>
  A scale factor of 252 to 255, which eight bits can hold, shifts by a whole word. The check against overflow
  looks at the value before the fraction multiplies it, which then wraps to a negative number.
\<close>

lemma iq_shift_undefined: "iq_scale (drop_bit 2 255 - 25 - 6) (255 AND 3) 1805811301 2048 = None"
  by (simp add: iq_scale_def sar_def drop_bit_eq_div)

lemma iq_overflow_missed:
  "iq_power 100 = Some 950597" "iq_scale 11 3 1805811301 950597 = Some (True, - 1020814912)"
  by code_simp+

end
