(* ===== verification/Stereo.thy ===== *)
theory Stereo
  imports Bands
begin

unbundle bit_operations_syntax

text \<open>
  Mid/side and intensity stereo, \<open>mi_decode\<close> of \<^verbatim>\<open>src/lc_stereo.c\<close>, on the two spectra of a channel pair. The
  branch for BSAC streams is compiled out: on its profile no band is touched.
\<close>

section \<open>Operations\<close>

definition pow05 :: "int list" where
  "pow05 = [451452825, 379625062, 319225354, 268435456, 225726413, 189812531, 159612677]"

type_synonym spectra = "int list \<times> int list"

text \<open>\<open>for (; size > 0; size--)\<close> of the two cases.\<close>

fun is_run :: "nat \<Rightarrow> int \<Rightarrow> int \<Rightarrow> int \<Rightarrow> int \<Rightarrow> spectra \<Rightarrow> spectra option" where
  "is_run 0 pos ex pow rvs st = Some st"
| "is_run (Suc k) pos ex pow rvs (l, r) =
     do { x \<leftarrow> rd l pos;
          y \<leftarrow> (if ex < 0 then sal x (- ex) else sar x ex);
          let y = MUL_28 y pow;
          let y = (if rvs < 0 then s32 (- y) else y);
          r \<leftarrow> wr r pos y;
          is_run k (pos + 1) ex pow rvs (l, r) }"

fun ms_run :: "nat \<Rightarrow> int \<Rightarrow> spectra \<Rightarrow> spectra option" where
  "ms_run 0 pos st = Some st"
| "ms_run (Suc k) pos (l, r) =
     do { x \<leftarrow> rd l pos; y \<leftarrow> rd r pos;
          l \<leftarrow> wr l pos (s32 (x + y));
          r \<leftarrow> wr r pos (s32 (x - y));
          ms_run k (pos + 1) (l, r) }"

definition mi_body :: "AACDecoder \<Rightarrow> int list \<Rightarrow> int \<Rightarrow> spectra walk_body" where
  "mi_body d tab off g p base sfb st =
     (if profile d = 22 then Some (False, st)
      else do {
        cbs \<leftarrow> rd (sfb_cb d) 1; cb \<leftarrow> rd cbs (p + sfb);
        e \<leftarrow> rd tab (off + (sfb + 1)); s \<leftarrow> rd tab (off + sfb);
        ms \<leftarrow> rd (ms_used d) g;
        if cb = INTENSITY_HCB \<or> cb = INTENSITY_HCB2 then
          do { sfs \<leftarrow> rd (scaleFactors d) 1; sf \<leftarrow> rd sfs (p + sfb);
               pow \<leftarrow> rd pow05 ((sf AND 3) + 3);
               rvs \<leftarrow> (if ms_mask_present d = 1 then do { u \<leftarrow> rd ms sfb; Some (1 - 2 * u) } else Some 1);
               st \<leftarrow> is_run (nat (e - s)) (base + s) (drop_bit 2 sf) pow rvs st;
               Some (False, st) }
        else do {
          u \<leftarrow> rd ms sfb;
          if (u \<noteq> 0 \<or> ms_mask_present d = 2) \<and> cb \<noteq> NOISE_HCB
          then do { st \<leftarrow> ms_run (nat (e - s)) (base + s) st; Some (False, st) }
          else Some (False, st) } })"

definition mi_decode :: "AACDecoder \<Rightarrow> int \<Rightarrow> AACDecoder option" where
  "mi_decode d chans =
     (if chans \<noteq> 2 \<or> common_window d = 0 \<or> \<not> (ms_mask_present d \<noteq> 0 \<or> intensity_used d \<noteq> 0) then Some d
      else do {
        ics \<leftarrow> rd (ics_data d) 0;
        (tab, off) \<leftarrow> sfb_table d ics;
        l \<leftarrow> rd (coef d) 0; r \<leftarrow> rd (coef d) 1;
        (_, l, r) \<leftarrow> walk ics (mi_body d tab off) (l, r);
        cs \<leftarrow> wr (coef d) 0 l; cs \<leftarrow> wr cs 1 r;
        Some (d\<lparr>coef := cs\<rparr>) })"

section \<open>One line\<close>

text \<open>What the standard says of a line of both channels: its prediction, the sum and difference, or nothing.\<close>

definition intensity_line :: "int \<Rightarrow> bool \<Rightarrow> int \<Rightarrow> int" where
  "intensity_line sf inverted x =
     (let y = MUL_28 (if drop_bit 2 sf < 0 then s32 (push_bit (nat (- drop_bit 2 sf)) x) else drop_bit (nat (drop_bit 2 sf)) x)
           (pow05 ! nat ((sf AND 3) + 3)) in
      if inverted then s32 (- y) else y)"

definition stereo_line :: "AACDecoder \<Rightarrow> int \<Rightarrow> int \<Rightarrow> int \<Rightarrow> int \<times> int \<Rightarrow> int \<times> int" where
  "stereo_line d g p sfb = (\<lambda>(x, y).
     let cb = sfb_cb d ! 1 ! nat (p + sfb); ms = ms_used d ! nat g ! nat sfb in
     if profile d = 22 then (x, y)
     else if cb = INTENSITY_HCB \<or> cb = INTENSITY_HCB2
     then (x, intensity_line (scaleFactors d ! 1 ! nat (p + sfb)) (ms_mask_present d = 1 \<and> 0 < ms) x)
     else if (ms \<noteq> 0 \<or> ms_mask_present d = 2) \<and> cb \<noteq> NOISE_HCB then (s32 (x + y), s32 (x - y))
     else (x, y))"

definition pair_line :: "spectra \<Rightarrow> int \<Rightarrow> int \<times> int" where
  "pair_line st i = (fst st ! nat i, snd st ! nat i)"

definition pair_ok :: "spectra \<Rightarrow> bool" where
  "pair_ok st \<longleftrightarrow> length (fst st) = 1024 \<and> length (snd st) = 1024"

text \<open>A run replaces the lines of its range.\<close>

definition runs_on :: "int \<Rightarrow> nat \<Rightarrow> (int \<times> int \<Rightarrow> int \<times> int) \<Rightarrow> spectra \<Rightarrow> spectra \<Rightarrow> bool" where
  "runs_on pos k f st st' \<longleftrightarrow> pair_ok st' \<and> (\<forall>i. 0 \<le> i \<and> i < 1024 \<longrightarrow>
     pair_line st' i = (if pos \<le> i \<and> i < pos + int k then f (pair_line st i) else pair_line st i))"

lemma runs_on_step:
  assumes "pair_ok st" "0 \<le> pos" "pos < 1024" "v = f (pair_line st pos)"
    and "runs_on (pos + 1) k f ((fst st)[nat pos := fst v], (snd st)[nat pos := snd v]) st'"
  shows "runs_on pos (Suc k) f st st'"
proof -
  let ?st = "((fst st)[nat pos := fst v], (snd st)[nat pos := snd v])"
  have "pair_line ?st i = (if i = pos then v else pair_line st i)" if "0 \<le> i" "i < 1024" for i
    using that assms(1-3) by (auto simp: pair_line_def pair_ok_def nth_list_update)
  then show ?thesis using assms(4,5) unfolding runs_on_def by auto
qed

lemma ms_run_ok:
  "pair_ok st \<Longrightarrow> 0 \<le> pos \<Longrightarrow> pos + int k \<le> 1024 \<Longrightarrow>
   wp (ms_run k pos st) (runs_on pos k (\<lambda>(x, y). (s32 (x + y), s32 (x - y))) st)"
proof (induction k arbitrary: pos st)
  case (Suc k)
  obtain l r where st: "st = (l, r)" by fastforce
  have len: "length l = 1024" "length r = 1024" using Suc.prems(1) by (simp_all add: st pair_ok_def)
  define x y where "x = l ! nat pos" "y = r ! nat pos"
  have r: "rd l pos = Some x" "rd r pos = Some y" "wr l pos v = Some (l[nat pos := v])" "wr r pos v = Some (r[nat pos := v])" for v
    using len Suc.prems by (simp_all add: rd_band wr_band x_y_def)
  have "pair_ok (l[nat pos := s32 (x + y)], r[nat pos := s32 (x - y)])" using len by (simp add: pair_ok_def)
  then have "wp (ms_run k (pos + 1) (l[nat pos := s32 (x + y)], r[nat pos := s32 (x - y)]))
      (runs_on (pos + 1) k (\<lambda>(x, y). (s32 (x + y), s32 (x - y))) (l[nat pos := s32 (x + y)], r[nat pos := s32 (x - y)]))"
    using Suc.prems by (intro Suc.IH) auto
  then have "wp (ms_run k (pos + 1) (l[nat pos := s32 (x + y)], r[nat pos := s32 (x - y)])) (runs_on pos (Suc k) (\<lambda>(x, y). (s32 (x + y), s32 (x - y))) st)"
    by (rule wp_mono) (rule runs_on_step [where v = "(s32 (x + y), s32 (x - y))"], use Suc.prems st in \<open>auto simp: pair_line_def x_y_def\<close>)
  then show ?case by (simp add: st r)
qed (auto simp: runs_on_def)

lemma is_run_ok:
  assumes "- 32 < drop_bit 2 sf" "drop_bit 2 sf < 32" "pow = pow05 ! nat ((sf AND 3) + 3)"
  shows "pair_ok st \<Longrightarrow> 0 \<le> pos \<Longrightarrow> pos + int k \<le> 1024 \<Longrightarrow>
   wp (is_run k pos (drop_bit 2 sf) pow rvs st) (runs_on pos k (\<lambda>(x, y). (x, intensity_line sf (rvs < 0) x)) st)"
proof (induction k arbitrary: pos st)
  case (Suc k)
  obtain l r where st: "st = (l, r)" by fastforce
  have len: "length l = 1024" "length r = 1024" using Suc.prems(1) by (simp_all add: st pair_ok_def)
  define x where "x = l ! nat pos"
  define y where "y = intensity_line sf (rvs < 0) x"
  have r: "rd l pos = Some x" "wr r pos v = Some (r[nat pos := v])" for v
    using len Suc.prems by (simp_all add: rd_band wr_band x_def)
  have "pair_ok (l, r[nat pos := y])" using len by (simp add: pair_ok_def)
  then have "wp (is_run k (pos + 1) (drop_bit 2 sf) pow rvs (l, r[nat pos := y]))
      (runs_on (pos + 1) k (\<lambda>(x, y). (x, intensity_line sf (rvs < 0) x)) (l, r[nat pos := y]))"
    using Suc.prems by (intro Suc.IH) auto
  then have "wp (is_run k (pos + 1) (drop_bit 2 sf) pow rvs (l, r[nat pos := y])) (runs_on pos (Suc k) (\<lambda>(x, y). (x, intensity_line sf (rvs < 0) x)) st)"
    by (rule wp_mono) (rule runs_on_step [where v = "(x, y)"], use Suc.prems st in \<open>auto simp: pair_line_def x_def y_def\<close>)
  moreover have "is_run (Suc k) pos (drop_bit 2 sf) pow rvs st = is_run k (pos + 1) (drop_bit 2 sf) pow rvs (l, r[nat pos := y])"
  proof -
    define ex where "ex = drop_bit 2 sf"
    have "(if ex < 0 then sal x (- ex) else sar x ex) = Some (if ex < 0 then s32 (push_bit (nat (- ex)) x) else drop_bit (nat ex) x)"
      using assms(1,2) by (simp add: sal_def sar_def ex_def [symmetric])
    then show ?thesis unfolding ex_def [symmetric] st by (simp add: r y_def intensity_line_def Let_def ex_def [symmetric] assms(3))
  qed
  ultimately show ?case by simp
qed (auto simp: runs_on_def)

section \<open>The walk\<close>

text \<open>The intensity positions keep the shifts within a word.\<close>

definition mi_ready :: "AACDecoder \<Rightarrow> bool" where
  "mi_ready d \<longleftrightarrow> dec_ok d \<and> ics_ok (sampRateIdx d) (ics_data d ! 0)
     \<and> (\<forall>i < 120. sfb_cb d ! 1 ! i \<in> {INTENSITY_HCB, INTENSITY_HCB2} \<longrightarrow>
           - 32 < drop_bit 2 (scaleFactors d ! 1 ! i) \<and> drop_bit 2 (scaleFactors d ! 1 ! i) < 32)"

lemma mi_body_runs:
  assumes "mi_ready d" "ics_ok (sampRateIdx d) ics" "sfb_table d ics = Some (tab, off)" "visited ics g p base sfb" "pair_ok st"
  shows "wp (mi_body d tab off g p base sfb st) (\<lambda>(stop, st'). \<not> stop \<and> pair_ok st' \<and> (\<forall>i. 0 \<le> i \<and> i < 1024 \<longrightarrow>
     pair_line st' i = (if in_band tab off base sfb i then stereo_line d g p sfb (pair_line st i) else pair_line st i)))"
proof -
  have d: "dec_ok d" using assms(1) by (simp add: mi_ready_def)
  obtain s e where b: "rd tab (off + sfb) = Some s" "rd tab (off + (sfb + 1)) = Some e" "0 \<le> base + s" "s < e" "base + e \<le> 1024"
    using visited_band [OF assms(2,4,3)] by blast
  have se: "s = offs tab off sfb" "e = offs tab off (sfb + 1)" using b(1,2) by (auto simp: rd_def offs_def split: if_splits)
  note row = visited_row [OF assms(2,4)]
  have sfb: "0 \<le> sfb" "sfb < 64"
  proof -
    have "nat (sampRateIdx d) < 12" using dec_okD(11,12) [OF d] by simp
    then show "0 \<le> sfb" "sfb < 64" using assms(2,4) nums(2,4) [of "nat (sampRateIdx d)"]
      by (auto simp: visited_def ics_ok_def split: if_splits)
  qed
  define cb where "cb = sfb_cb d ! 1 ! nat (p + sfb)"
  define sf where "sf = scaleFactors d ! 1 ! nat (p + sfb)"
  define u where "u = ms_used d ! nat g ! nat sfb"
  have lens: "length (sfb_cb d ! 1) = 128" "length (scaleFactors d ! 1) = 128" "length (ms_used d ! nat g) = 64" "length (ms_used d) = 8"
    using dec_okD(13,14,16) [OF d] row rows_ok_length [OF dec_okD(16) [OF d]] by simp_all
  have rds: "rd (sfb_cb d) 1 = Some (sfb_cb d ! 1)" "rd (sfb_cb d ! 1) (p + sfb) = Some cb"
    "rd (scaleFactors d) 1 = Some (scaleFactors d ! 1)" "rd (scaleFactors d ! 1) (p + sfb) = Some sf"
    "rd (ms_used d) g = Some (ms_used d ! nat g)" "rd (ms_used d ! nat g) sfb = Some u"
    using dec_okD(3,4) [OF d] lens row sfb by (simp_all add: rd_band cb_def sf_def u_def)
  have m: "0 \<le> sf AND 3" "sf AND 3 < 4" using take_bit_int_less_exp [of 2 sf] take_bit_nonnegative [of 2 sf]
    by (simp_all add: take_bit_eq_mask mask_numeral)
  then have pow: "rd pow05 ((sf AND 3) + 3) = Some (pow05 ! nat ((sf AND 3) + 3))" by (simp add: rd_def pow05_def)
  have range: "base + s \<le> i \<and> i < base + s + int (nat (e - s)) \<longleftrightarrow> in_band tab off base sfb i" for i
    using b(4) by (auto simp: in_band_def se)
  have fin: "runs_on (base + s) (nat (e - s)) (stereo_line d g p sfb) st st' \<Longrightarrow> pair_ok st' \<and> (\<forall>i. 0 \<le> i \<and> i < 1024 \<longrightarrow>
     pair_line st' i = (if in_band tab off base sfb i then stereo_line d g p sfb (pair_line st i) else pair_line st i))" for st'
    unfolding runs_on_def range by blast
  have fits: "0 \<le> base + s" "base + s + int (nat (e - s)) \<le> 1024" using b(3-5) by auto
  show ?thesis
  proof (cases "profile d = 22")
    case True
    then show ?thesis using assms(5) by (simp add: mi_body_def stereo_line_def split_beta)
  next
    case p22: False
    show ?thesis
    proof (cases "cb = INTENSITY_HCB \<or> cb = INTENSITY_HCB2")
      case True
      have "nat (p + sfb) < 120" using row by auto
      then have ex: "- 32 < drop_bit 2 sf" "drop_bit 2 sf < 32"
        using assms(1) True by (auto simp: mi_ready_def cb_def sf_def)
      define rv where "rv = (if ms_mask_present d = 1 then 1 - 2 * u else 1)"
      have rn: "rv < 0 \<longleftrightarrow> ms_mask_present d = 1 \<and> 0 < u" by (auto simp: rv_def)
      have f: "(\<lambda>(x, y). (x, intensity_line sf (rv < 0) x)) = stereo_line d g p sfb"
        using True p22 unfolding rn by (auto simp: fun_eq_iff stereo_line_def Let_def cb_def sf_def u_def)
      show ?thesis
        using is_run_ok [OF ex refl assms(5) fits, of rv] p22 True
        unfolding f by (auto simp: mi_body_def rds pow b rv_def wp_iff simp del: One_nat_def dest!: fin)
    next
      case False
      show ?thesis
      proof (cases "(u \<noteq> 0 \<or> ms_mask_present d = 2) \<and> cb \<noteq> NOISE_HCB")
        case True
        have f: "(\<lambda>(x, y). (s32 (x + y), s32 (x - y))) = stereo_line d g p sfb"
          using True False p22 by (auto simp: fun_eq_iff stereo_line_def Let_def cb_def u_def)
        show ?thesis
          using ms_run_ok [OF assms(5) fits] p22 True False
          unfolding f by (auto simp: mi_body_def rds b wp_iff simp del: One_nat_def dest!: fin)
      next
        case none: False
        have "stereo_line d g p sfb v = v" for v
          using none False p22 by (cases v) (auto simp: stereo_line_def Let_def cb_def u_def)
        then show ?thesis using assms(5) none False p22 by (auto simp: mi_body_def rds b simp del: One_nat_def)
      qed
    qed
  qed
qed

interpretation mi: line_tool "mi_body d tab off" "\<lambda>st. pair_ok st \<and> mi_ready d \<and> sfb_table d ics = Some (tab, off)"
    "sampRateIdx d" ics pair_line "stereo_line d" tab off
  for d ics tab off
proof
  fix st g p base sfb
  assume a: "ics_ok (sampRateIdx d) ics" "pair_ok st \<and> mi_ready d \<and> sfb_table d ics = Some (tab, off)" "visited ics g p base sfb"
  then show "wp (mi_body d tab off g p base sfb st) (\<lambda>r. pair_ok (snd r) \<and> mi_ready d \<and> sfb_table d ics = Some (tab, off))"
    using mi_body_runs [of d ics tab off g p base sfb st] by (auto simp: wp_iff)
  fix st' and i :: int
  assume b: "mi_body d tab off g p base sfb st = Some (False, st')" "0 \<le> i" "i < 1024"
  show "pair_line st' i = (if in_band tab off base sfb i then stereo_line d g p sfb (pair_line st i) else pair_line st i)"
    using mi_body_runs [of d ics tab off g p base sfb st] a b by auto
qed


lemma mi_body_goes_on: "mi_body d tab off g p base sfb st = Some r \<Longrightarrow> \<not> fst r"
  by (auto simp: mi_body_def bind_eq_Some_conv split: if_splits)

section \<open>The pair\<close>

definition mi_active :: "AACDecoder \<Rightarrow> int \<Rightarrow> bool" where
  "mi_active d chans \<longleftrightarrow> chans = 2 \<and> common_window d \<noteq> 0 \<and> (ms_mask_present d \<noteq> 0 \<or> intensity_used d \<noteq> 0)"

lemma mi_decode_run:
  assumes "mi_ready d"
  shows "\<exists>d'. mi_decode d chans = Some d' \<and> dec_ok d' \<and> (\<exists>cs. d' = d\<lparr>coef := cs\<rparr>)
     \<and> (mi_active d chans \<longrightarrow> (\<exists>tab off st'. sfb_table d (ics_data d ! 0) = Some (tab, off)
          \<and> walk (ics_data d ! 0) (mi_body d tab off) (coef d ! 0, coef d ! 1) = Some (False, st')
          \<and> coef d' ! 0 = fst st' \<and> coef d' ! 1 = snd st'))"
proof (cases "mi_active d chans")
  case False
  then have "mi_decode d chans = Some d" by (auto simp: mi_decode_def mi_active_def)
  moreover have "d = d\<lparr>coef := coef d\<rparr>" by simp
  ultimately show ?thesis using False assms unfolding mi_ready_def by blast
next
  case True
  have d: "dec_ok d" "ics_ok (sampRateIdx d) (ics_data d ! 0)" using assms by (simp_all add: mi_ready_def)
  obtain tab off where t: "sfb_table d (ics_data d ! 0) = Some (tab, off)"
    using sfb_table_total [OF dec_okD(11,12) [OF d(1)]] by blast
  have len: "length (coef d) = 2" "length (coef d ! 0) = 1024" "length (coef d ! 1) = 1024" "length (ics_data d) = 2"
    using dec_okD(1,9) [OF d(1)] dec_okD(15) [OF d(1)] by simp_all
  have "wp (walk (ics_data d ! 0) (mi_body d tab off) (coef d ! 0, coef d ! 1))
      (\<lambda>r. pair_ok (snd r) \<and> mi_ready d \<and> sfb_table d (ics_data d ! 0) = Some (tab, off))"
    using assms t len by (intro mi.walk_ok d(2)) (simp add: pair_ok_def)
  then obtain stop l r where w: "walk (ics_data d ! 0) (mi_body d tab off) (coef d ! 0, coef d ! 1) = Some (stop, l, r)"
      "length l = 1024" "length r = 1024" by (auto simp: wp_iff pair_ok_def)
  have "\<not> stop" using walk_goes_on [OF mi_body_goes_on w(1)] by simp
  define cs where "cs = (coef d)[0 := l, 1 := r]"
  have cs: "rows_ok 2 1024 cs" "cs ! 0 = l" "cs ! 1 = r" using dec_okD(15) [OF d(1)] w len by (simp_all add: cs_def)
  have rds: "rd (ics_data d) 0 = Some (ics_data d ! 0)" "rd (coef d) 0 = Some (coef d ! 0)" "rd (coef d) 1 = Some (coef d ! 1)"
    "wr (coef d) 0 l = Some ((coef d)[0 := l])" "wr ((coef d)[0 := l]) 1 r = Some cs"
    using len by (simp_all add: rd_def wr_def cs_def)
  have "mi_decode d chans = Some (d\<lparr>coef := cs\<rparr>)"
    using True by (simp add: mi_decode_def mi_active_def rds t w(1) del: One_nat_def)
  moreover have "dec_ok (d\<lparr>coef := cs\<rparr>)" using d(1) cs(1) by (rule dec_ok_arrays(6))
  ultimately show ?thesis using t w(1) cs(2,3) \<open>\<not> stop\<close>
    by (intro exI [of _ "d\<lparr>coef := cs\<rparr>"]) auto
qed

lemma mi_decode_line:
  assumes "mi_ready d" "mi_active d chans" "mi_decode d chans = Some d'" "ics = ics_data d ! 0" "sfb_table d ics = Some (tab, off)"
    and "0 \<le> g" "g < num_window_groups ics" "0 \<le> b" "b < window_group_length ics ! nat g" "0 \<le> sfb" "sfb < max_sfb ics"
    and "in_band tab off (win_base ics g b) sfb i"
  shows "(coef d' ! 0 ! nat i, coef d' ! 1 ! nat i) = stereo_line d g (g * max_sfb ics) sfb (coef d ! 0 ! nat i, coef d ! 1 ! nat i)"
proof -
  have d: "dec_ok d" "ics_ok (sampRateIdx d) ics" using assms(1,4) by (simp_all add: mi_ready_def)
  obtain st' where w: "walk ics (mi_body d tab off) (coef d ! 0, coef d ! 1) = Some (False, st')"
      "coef d' ! 0 = fst st'" "coef d' ! 1 = snd st'"
    using mi_decode_run [OF assms(1), of chans] assms(2,3,4,5) by auto
  have "pair_ok (coef d ! 0, coef d ! 1)" using dec_okD(15) [OF d(1)] by (simp add: pair_ok_def)
  then have "pair_line st' i = stereo_line d g (g * max_sfb ics) sfb (pair_line (coef d ! 0, coef d ! 1) i)"
    using assms(1,5) by (intro mi.walk_lines [OF d(2) sfb_table_bands [OF d(2) assms(5)] _ w(1) assms(6-12)]) simp
  then show ?thesis using w(2,3) by (simp add: pair_line_def)
qed

text \<open>An encoder that sends half of sum and difference gets its channels back.\<close>

lemma mid_side_inverse:
  assumes "- (2 ^ 31) \<le> x" "x < 2 ^ 31" "- (2 ^ 31) \<le> y" "y < 2 ^ 31" "even (x + y)"
  shows "s32 ((x + y) div 2 + (x - y) div 2) = x" "s32 ((x + y) div 2 - (x - y) div 2) = y"
proof -
  have "(x + y) div 2 + (x - y) div 2 = x" "(x + y) div 2 - (x - y) div 2 = y" using assms(5) by presburger+
  then show "s32 ((x + y) div 2 + (x - y) div 2) = x" "s32 ((x + y) div 2 - (x - y) div 2) = y"
    using assms by (simp_all add: s32_id)
qed

end
