(* ===== verification/Pns.thy ===== *)
theory Pns
  imports Bands ChannelMap
begin

unbundle bit_operations_syntax

text \<open>
  Perceptual noise substitution, \<open>pns_decode\<close> of \<^verbatim>\<open>src/lc_pns.c\<close>: random lines scaled to the energy the scale
  factor gives.
\<close>

section \<open>Operations\<close>

definition random2 :: "32 word \<Rightarrow> int \<times> 32 word" where
  "random2 last_r = (let r = 1664525 * last_r + 1013904223 in (sint r, r))"

definition pow14 :: "int list" where
  "pow14 = [1073741824, 1276901417, 1518500250, 1805811301]"

text \<open>\<open>X0_COEF_2\<close> is the constant \<open>0xc0000000\<close>, an \<open>unsigned int\<close>: widened to 64 bits it is not negative.\<close>

definition X0_COEF_2 :: int where "X0_COEF_2 = 0xc0000000"
definition X0_OFF_2 :: int where "X0_OFF_2 = 0x60000000"
definition Q26_3 :: int where "Q26_3 = 0x0c000000"

text \<open>\<open>for (i = 0; i < size; i++) currSpec[i] = random2(&tmpseed) >> 16\<close>\<close>

fun noise_run :: "nat \<Rightarrow> int \<Rightarrow> 32 word \<Rightarrow> int list \<Rightarrow> (32 word \<times> int list) option" where
  "noise_run 0 pos seed xs = Some (seed, xs)"
| "noise_run (Suc k) pos seed xs =
     (let (v, seed) = random2 seed in
      do { xs \<leftarrow> wr xs pos (drop_bit 16 v); noise_run k (pos + 1) seed xs })"

fun copy_run :: "nat \<Rightarrow> int \<Rightarrow> int list \<Rightarrow> int list \<Rightarrow> int list option" where
  "copy_run 0 pos xs ys = Some ys"
| "copy_run (Suc k) pos xs ys = do { v \<leftarrow> rd xs pos; ys \<leftarrow> wr ys pos v; copy_run k (pos + 1) xs ys }"

fun energy_run :: "nat \<Rightarrow> int \<Rightarrow> int list \<Rightarrow> int \<Rightarrow> int option" where
  "energy_run 0 pos xs e = Some e"
| "energy_run (Suc k) pos xs e =
     do { v \<leftarrow> rd xs pos; energy_run k (pos + 1) xs (s32 (e + drop_bit 8 (s32 (v * v)))) }"

text \<open>Newton's iteration for the inverse square root of \<open>r\<close>, starting from \<open>3 - 2 r\<close> as it is computed.\<close>

definition newton_step :: "int \<Rightarrow> int \<Rightarrow> int" where
  "newton_step r x = (let tmp = MULHIGH x x; tmp = s32 (Q26_3 - s32 (MULHIGH r tmp * 4)) in s32 (MULHIGH x tmp * 32))"

definition newton_start :: "int \<Rightarrow> int" where
  "newton_start r = s32 (s32 (MULHIGH r X0_COEF_2 * 4) + X0_OFF_2)"

definition inv_sqrt :: "int \<Rightarrow> int" where
  "inv_sqrt r = (let x = (newton_step r ^^ 4) (newton_start r) in if drop_bit 30 x \<noteq> 0 then 2 ^ 30 - 1 else x)"

text \<open>The factor and the shift for the energy and the scale factor \<open>sf\<close>.\<close>

definition noise_scale :: "int \<Rightarrow> int \<Rightarrow> (int \<times> int) option" where
  "noise_scale sf energy =
     do { scalef \<leftarrow> rd pow14 (sf AND 3);
          let scalei = drop_bit 2 sf + 5;
          let zero = (CLZ energy - 2) AND NOT 1;
          r \<leftarrow> sal energy zero;
          let x = inv_sqrt r;
          let scalei = scalei - (15 - zero div 2 + 4);
          let zero = CLZ x - 1;
          x \<leftarrow> sal x zero;
          Some (MULHIGH scalef x, scalei - (zero - 5)) }"

fun scale_run :: "nat \<Rightarrow> int \<Rightarrow> int \<Rightarrow> int \<Rightarrow> int list \<Rightarrow> int list option" where
  "scale_run 0 pos scalef scalei xs = Some xs"
| "scale_run (Suc k) pos scalef scalei xs =
     do { v \<leftarrow> rd xs pos;
          y \<leftarrow> (if scalei < 0 then sar (MULHIGH v scalef) (min (- scalei) 31)
                else do { v \<leftarrow> sal v (min scalei 16); Some (MULHIGH v scalef) });
          xs \<leftarrow> wr xs pos y;
          scale_run k (pos + 1) scalef scalei xs }"

text \<open>The prediction flags of a noise band are cleared.\<close>

definition unpredict :: "int \<Rightarrow> int \<Rightarrow> AACDecoder \<Rightarrow> AACDecoder option" where
  "unpredict i sfb d =
     do { l0 \<leftarrow> rd (ltp_data_of d) 0; us \<leftarrow> wr (long_used l0) sfb 0;
          ls \<leftarrow> wr (ltp_data_of d) 0 (l0\<lparr>long_used := us\<rparr>);
          l1 \<leftarrow> rd ls 1; us \<leftarrow> wr (long_used l1) sfb 0;
          ls \<leftarrow> wr ls 1 (l1\<lparr>long_used := us\<rparr>);
          ics \<leftarrow> rd (ics_data d) i; us \<leftarrow> wr (prediction_used ics) sfb 0;
          icss \<leftarrow> wr (ics_data d) i (ics\<lparr>prediction_used := us\<rparr>);
          Some (d\<lparr>ltp_data_of := ls, ics_data := icss\<rparr>) }"

text \<open>The random lines of a band: channel 0 hands them to a noisy channel 1, which keeps them where the noise is correlated.\<close>

definition noise_fill :: "int \<Rightarrow> int \<Rightarrow> int \<Rightarrow> int \<Rightarrow> int \<Rightarrow> nat \<Rightarrow> int \<Rightarrow> AACDecoder \<Rightarrow> AACDecoder option" where
  "noise_fill chans ch g sfb row k pos d =
     (if ch = 0 then
        do { xs \<leftarrow> rd (coef d) 0; (seed, xs) \<leftarrow> noise_run k pos (pns_seed d) xs;
             cs \<leftarrow> wr (coef d) 0 xs;
             let d = d\<lparr>coef := cs, pns_seed := seed\<rparr>;
             other \<leftarrow> (if chans = 2 then do { cbs \<leftarrow> rd (sfb_cb d) 1; cb \<leftarrow> rd cbs row; Some (cb = NOISE_HCB) } else Some False);
             if other then do { ys \<leftarrow> rd (coef d) 1; ys \<leftarrow> copy_run k pos xs ys; cs \<leftarrow> wr (coef d) 1 ys; Some (d\<lparr>coef := cs\<rparr>) }
             else Some d }
      else
        do { cbs \<leftarrow> rd (sfb_cb d) 0; cb \<leftarrow> rd cbs row;
             fresh \<leftarrow> (if cb \<noteq> NOISE_HCB then Some True
                        else do { ms \<leftarrow> rd (ms_used d) g; u \<leftarrow> rd ms sfb;
                                  Some (\<not> (ms_mask_present d = 1 \<and> u \<noteq> 0 \<or> ms_mask_present d = 2)) });
             if fresh then
               do { xs \<leftarrow> rd (coef d) ch; (seed, xs) \<leftarrow> noise_run k pos (pns_seed d) xs;
                    cs \<leftarrow> wr (coef d) ch xs; Some (d\<lparr>coef := cs, pns_seed := seed\<rparr>) }
             else Some d })"

definition pns_body :: "int \<Rightarrow> int \<Rightarrow> int \<Rightarrow> int list \<Rightarrow> int \<Rightarrow> AACDecoder walk_body" where
  "pns_body chans ch i tab off g p base sfb d =
     do { cbs \<leftarrow> rd (sfb_cb d) ch; cb \<leftarrow> rd cbs (p + sfb);
          noisy \<leftarrow> (if cb = NOISE_HCB then Some True
                     else do { fs \<leftarrow> rd (pns_sfb_flag d) ch; f \<leftarrow> rd fs cb; Some (f \<noteq> 0) });
          if \<not> noisy then Some (False, d)
          else do {
            e \<leftarrow> rd tab (off + (sfb + 1)); s \<leftarrow> rd tab (off + sfb);
            let k = nat (e - s);
            d \<leftarrow> unpredict i sfb d;
            d \<leftarrow> noise_fill chans ch g sfb (p + sfb) k (base + s) d;
            sfs \<leftarrow> rd (scaleFactors d) ch; sf \<leftarrow> rd sfs (p + sfb);
            xs \<leftarrow> rd (coef d) ch;
            energy \<leftarrow> energy_run k (base + s) xs 0;
            if energy = 0 then Some (True, d)
            else do {
              (scalef, scalei) \<leftarrow> noise_scale sf energy;
              xs \<leftarrow> scale_run k (base + s) scalef scalei xs;
              cs \<leftarrow> wr (coef d) ch xs;
              Some (False, d\<lparr>coef := cs\<rparr>) } } }"

definition pns_channel :: "int \<Rightarrow> int \<Rightarrow> AACDecoder \<Rightarrow> (bool \<times> AACDecoder) option" where
  "pns_channel chans ch d =
     do { present \<leftarrow> rd (pns_data_present d) ch;
          if present = 0 then Some (False, d)
          else do {
            en \<leftarrow> EnableDecodeCurrChannel d ch;
            if en = 0 then Some (False, d)
            else do {
              let i = (if common_window d \<noteq> 0 then 0 else ch);
              ics \<leftarrow> rd (ics_data d) i;
              (tab, off) \<leftarrow> sfb_table d ics;
              walk ics (pns_body chans ch i tab off) d } } }"

fun pns_channels :: "nat \<Rightarrow> int \<Rightarrow> int \<Rightarrow> AACDecoder \<Rightarrow> AACDecoder option" where
  "pns_channels 0 chans ch d = Some d"
| "pns_channels (Suc k) chans ch d =
     do { (stop, d) \<leftarrow> pns_channel chans ch d; if stop then Some d else pns_channels k chans (ch + 1) d }"

definition pns_decode :: "AACDecoder \<Rightarrow> int \<Rightarrow> AACDecoder option" where
  "pns_decode d chans = pns_channels (nat chans) chans 0 d"

section \<open>The inverse square root\<close>

text \<open>
  With the constant read as the negative number it stands for, four steps give the root; as it is widened they
  do not. Here the energy is \<open>2\<^sup>2\<^sup>2\<close>, whose inverse root is \<open>1\<close>, that is \<open>2\<^sup>3\<^sup>0\<close>.
\<close>

lemma four_times: "(f ^^ 4) x = f (f (f (f x)))"
  by (simp add: numeral_eq_Suc)

lemmas newton_defs = newton_step_def newton_start_def MULHIGH_def s32_def X0_OFF_2_def X0_COEF_2_def Q26_3_def Let_def

lemma newton_meant:
  "(newton_step (2 ^ 28) ^^ 4) (s32 (s32 (MULHIGH (2 ^ 28) (- 0x40000000) * 4) + X0_OFF_2)) = 1073741664"
  unfolding four_times by (simp add: newton_defs)

lemma newton_computed: "inv_sqrt (2 ^ 28) = 196549536"
  unfolding inv_sqrt_def four_times by (simp add: newton_defs)

end
