(* ===== verification/ToolExamples.thy ===== *)
theory ToolExamples
  imports Examples RawBlock Tns Dequant Stereo Pns
begin

unbundle bit_operations_syntax

text \<open>
  The example decoder is one that every tool accepts: the facts by which the witnesses discharge the hypotheses.
\<close>

lemma ics_example_ok: "ics_ok 4 ics_example"
  by (simp add: ics_ok_def ics_wf_def groups_ok_def ics_example_def EIGHT_SHORT_SEQUENCE_def sfBandTabLongNum_def)

lemma dec_example_raw: "good s \<Longrightarrow> raw_ok (dec_example s)"
  using dec_example_headers(1) [of s] dec_example_headers(3)
  by (simp add: raw_ok_def dec_run_def) (simp add: dec_example_def)

lemma dry_block_fits:
  assumes "raw_ok d" "dry (dbs d)"
  shows "block_fits malloc (headed d)"
proof -
  have "dec_ok (headed d)" using headed_ok(1) [OF assms(1)] by (simp add: raw_ok_def dec_run_def)
  moreover have "fst (BitStreamGetBits (dbs d) 3) = 0" "dry (snd (BitStreamGetBits (dbs d) 3))"
    using dry_get [OF assms(2), of 3] by simp_all
  ultimately have r: "dec_run dry (headed d)" "id_syn_ele (headed d) = ID_SCE"
    by (simp_all add: dec_run_def headed_def Let_def ID_SCE_def)
  have "stream_fits malloc (snd (dget (headed d) 4)) 0"
    using dry.dget_run(1) [OF r(1), of 4] headed_ok(3) [OF assms(1)] by (intro dry_fits) (auto simp: dget_simps)
  with r(2) show ?thesis by (simp add: block_fits_def)
qed

text \<open>An identifier of the end of a frame, and what follows it.\<close>

lemma end_block:
  assumes "raw_ok d" "fst (BitStreamGetBits (dbs d) 3) = 7"
  shows "raw_data_block malloc d = Some (0, headed d)"
proof -
  have "bs_inv (dbs d)" using assms(1) by (simp add: raw_ok_def dec_run_def good_def)
  moreover have "id_syn_ele (headed d) = 7" using assms(2) by (simp add: headed_def Let_def)
  ultimately show ?thesis
    by (simp add: raw_data_block_def raw_head_eq raw_element_def ID_SCE_def ID_CPE_def ID_CCE_def ID_LFE_def ID_DSE_def ID_PCE_def ID_FIL_def)
qed

definition end_stream :: BitStream where
  "end_stream = stream_of [True, True, True, False, False, False, False, False]"

lemma end_stream_good [simp]: "good end_stream"
proof -
  have "\<not> sublist (replicate 29 True) [True, True, True, False, False, False, False, False]"
    by (auto dest: sublist_length_le)
  then show ?thesis
    by (simp add: good_def end_stream_def stream_of_whole numeral_eq_Suc esc_free_def)
qed

lemma end_stream_read: "fst (BitStreamGetBits end_stream 3) = 7" "noBytes (snd (BitStreamGetBits end_stream 3)) = 0"
proof -
  have "bsbits end_stream = [True, True, True, False, False, False, False, False]"
    unfolding end_stream_def by (rule stream_of_whole) (simp add: numeral_eq_Suc)
  then show "fst (BitStreamGetBits end_stream 3) = 7"
    using bs_get [of end_stream 3] end_stream_good by (simp add: good_def padtake_take bval_def del: length_bsbits)
  show "noBytes (snd (BitStreamGetBits end_stream 3)) = 0"
    by code_simp
qed

lemma dec_example_dequant: "dq_wf (dec_example s)" "0 \<le> c \<Longrightarrow> c < 2 \<Longrightarrow> dq_fits (dec_example s) c"
proof -
  show "dq_wf (dec_example s)" by (simp add: dq_wf_def) (simp add: dec_example_def)
  assume "0 \<le> c" "c < 2"
  then have "c = 0 \<or> c = 1" by auto
  then show "dq_fits (dec_example s) c" using ics_example_ok
    by (auto simp: dq_fits_def ics_of_def scales_fit_def) (auto simp: dec_example_def)
qed

lemma dec_example_shape: "length (tns_lpc (dec_example s)) = 48" "0 \<le> c \<Longrightarrow> c < 2 \<Longrightarrow> shape_ready (dec_example s) c"
proof -
  show "length (tns_lpc (dec_example s)) = 48" by (simp add: dec_example_def)
  assume "0 \<le> c" "c < 2"
  then have c: "c = 0 \<or> c = 1" by auto
  have "tns_ready tns_example" by (simp add: tns_ready_def tns_wf_def tns_example_def rows_ok_def list_all_iff)
  then have t: "list_all tns_ready (tns_data (dec_example s) ! nat c)"
    using c by (auto simp: dec_example_def list_all_iff)
  have "rd (replicate 8 (0 :: int)) c = Some 0" "rd (replicate 8 (0 :: int)) 0 = Some 0" using c by (auto simp: rd_def)
  then have "EnableDecodeCurrChannel (dec_example s) c \<noteq> None"
    by (simp add: EnableDecodeCurrChannel_def dec_example_def)
  moreover have "ics_of (dec_example s) c = ics_example" using c by (auto simp: ics_of_def dec_example_def)
  ultimately show "shape_ready (dec_example s) c" using t ics_example_ok by (simp add: shape_ready_def)
qed

text \<open>A pair with a common window and mid/side stereo in every band.\<close>

definition pair_example :: AACDecoder where
  "pair_example = (dec_example dry_stream)\<lparr>common_window := 1, ms_mask_present := 2,
     coef := [replicate 1024 5, replicate 1024 3]\<rparr>"

lemma pair_example_ready: "mi_ready pair_example" "mi_active pair_example 2" "ics_data pair_example ! 0 = ics_example"
  "sfb_table pair_example ics_example = Some (sfBandTabLong, 90)"
proof -
  have "dec_ok pair_example" using dec_example_ok [of dry_stream] by (simp add: pair_example_def dec_ok_def rows_ok_def list_all_iff)
  then show "mi_ready pair_example"
    using ics_example_ok by (simp add: mi_ready_def pair_example_def) (simp add: dec_example_def hcb_defs)
  show "mi_active pair_example 2" "ics_data pair_example ! 0 = ics_example"
    by (simp_all add: mi_active_def pair_example_def) (simp add: dec_example_def)
  show "sfb_table pair_example ics_example = Some (sfBandTabLong, 90)"
    by (simp add: sfb_table_def pair_example_def ics_example_def EIGHT_SHORT_SEQUENCE_def sfBandTabLongOffset_def rd_def)
qed

end
