(* ===== verification/TransformTables.thy ===== *)
theory TransformTables
  imports Prelude
begin

text \<open>
  The tables of the filter bank, \<^verbatim>\<open>src/table.c\<close> for the build without \<open>ARMV7\<close>: the windows, the rotations before and behind
  the transform, the factors of its passes and the bit reversal. The parts of a table are its short and its long
  transform.
\<close>

section \<open>Tables\<close>

definition sinWindow_0 :: "int list" where
  "sinWindow_0 =
    [13176712, 2147443222, 39528151, 2147119825, 65873638, 2146473080, 92209205, 2145503083, 118530885, 2144209982,
     144834714, 2142593971, 171116733, 2140655293, 197372981, 2138394240, 223599506, 2135811153, 249792358,
     2132906420, 275947592, 2129680480, 302061269, 2126133817, 328129457, 2122266967, 354148230, 2118080511,
     380113669, 2113575080, 406021865, 2108751352, 431868915, 2103610054, 457650927, 2098151960, 483364019,
     2092377892, 509004318, 2086288720, 534567963, 2079885360, 560051104, 2073168777, 585449903, 2066139983,
     610760536, 2058800036, 635979190, 2051150040, 661102068, 2043191150, 686125387, 2034924562, 711045377,
     2026351522, 735858287, 2017473321, 760560380, 2008291295, 785147934, 1998806829, 809617249, 1989021350,
     833964638, 1978936331, 858186435, 1968553292, 882278992, 1957873796, 906238681, 1946899451, 930061894,
     1935631910, 953745043, 1924072871, 977284562, 1912224073, 1000676905, 1900087301, 1023918550, 1887664383,
     1047005996, 1874957189, 1069935768, 1861967634, 1092704411, 1848697674, 1115308496, 1835149306, 1137744621,
     1821324572, 1160009405, 1807225553, 1182099496, 1792854372, 1204011567, 1778213194, 1225742318, 1763304224,
     1247288478, 1748129707, 1268646800, 1732691928, 1289814068, 1716993211, 1310787095, 1701035922, 1331562723,
     1684822463, 1352137822, 1668355276, 1372509294, 1651636841, 1392674072, 1634669676, 1412629117, 1617456335,
     1432371426, 1599999411, 1451898025, 1582301533, 1471205974, 1564365367, 1490292364, 1546193612, 1509154322,
     1527789007]"

definition sinWindow_1 :: "int list" where
  "sinWindow_1 =
    [1647099, 2147483016, 4941294, 2147477963, 8235476, 2147467857, 11529640, 2147452697, 14823776, 2147432484,
     18117878, 2147407218, 21411936, 2147376899, 24705945, 2147341527, 27999895, 2147301102, 31293780, 2147255625,
     34587590, 2147205094, 37881320, 2147149511, 41174960, 2147088876, 44468503, 2147023188, 47761942, 2146952448,
     51055268, 2146876656, 54348475, 2146795813, 57641553, 2146709917, 60934496, 2146618971, 64227295, 2146522973,
     67519943, 2146421924, 70812432, 2146315824, 74104755, 2146204674, 77396903, 2146088474, 80688869, 2145967224,
     83980645, 2145840924, 87272224, 2145709574, 90563597, 2145573176, 93854758, 2145431729, 97145697, 2145285233,
     100436408, 2145133690, 103726882, 2144977098, 107017112, 2144815460, 110307091, 2144648774, 113596810,
     2144477042, 116886262, 2144300264, 120175438, 2144118439, 123464332, 2143931570, 126752935, 2143739656,
     130041240, 2143542697, 133329239, 2143340694, 136616925, 2143133648, 139904288, 2142921559, 143191323,
     2142704427, 146478021, 2142482254, 149764374, 2142255039, 153050374, 2142022783, 156336015, 2141785486,
     159621287, 2141543150, 162906184, 2141295774, 166190698, 2141043360, 169474820, 2140785908, 172758544,
     2140523418, 176041861, 2140255892, 179324764, 2139983329, 182607245, 2139705730, 185889297, 2139423097,
     189170911, 2139135429, 192452080, 2138842728, 195732795, 2138544994, 199013051, 2138242228, 202292838,
     2137934430, 205572149, 2137621601, 208850976, 2137303743, 212129312, 2136980855, 215407149, 2136652938,
     218684479, 2136319994, 221961294, 2135982023, 225237587, 2135639026, 228513350, 2135291003, 231788575,
     2134937956, 235063255, 2134579885, 238337382, 2134216791, 241610947, 2133848675, 244883945, 2133475538,
     248156366, 2133097381, 251428203, 2132714204, 254699448, 2132326009, 257970095, 2131932796, 261240134,
     2131534567, 264509558, 2131131322, 267778360, 2130723062, 271046532, 2130309789, 274314066, 2129891502,
     277580955, 2129468204, 280847190, 2129039895, 284112765, 2128606576, 287377671, 2128168248, 290641901,
     2127724913, 293905447, 2127276570, 297168301, 2126823222, 300430456, 2126364870, 303691904, 2125901514,
     306952638, 2125433155, 310212649, 2124959795, 313471930, 2124481435, 316730474, 2123998076, 319988272,
     2123509718, 323245317, 2123016364, 326501602, 2122518015, 329757119, 2122014670, 333011859, 2121506333,
     336265816, 2120993003, 339518981, 2120474683, 342771348, 2119951372, 346022908, 2119423074, 349273654,
     2118889788, 352523578, 2118351516, 355772673, 2117808259, 359020930, 2117260020, 362268343, 2116706797,
     365514903, 2116148595, 368760603, 2115585412, 372005435, 2115017252, 375249392, 2114444114, 378492466,
     2113866001, 381734649, 2113282914, 384975934, 2112694855, 388216313, 2112101824, 391455778, 2111503822,
     394694323, 2110900853, 397931939, 2110292916, 401168618, 2109680013, 404404353, 2109062146, 407639137,
     2108439317, 410872962, 2107811526, 414105819, 2107178775, 417337703, 2106541065, 420568604, 2105898399,
     423798515, 2105250778, 427027430, 2104598202, 430255339, 2103940674, 433482236, 2103278196, 436708113,
     2102610768, 439932963, 2101938393, 443156777, 2101261071, 446379549, 2100578805, 449601270, 2099891596,
     452821933, 2099199446, 456041530, 2098502357, 459260055, 2097800329, 462477499, 2097093365, 465693854,
     2096381466, 468909114, 2095664635, 472123270, 2094942872, 475336316, 2094216179, 478548243, 2093484559,
     481759043, 2092748012, 484968710, 2092006541, 488177236, 2091260147, 491384614, 2090508833, 494590835,
     2089752599, 497795892, 2088991448, 500999778, 2088225381, 504202485, 2087454400, 507404005, 2086678508,
     510604332, 2085897705, 513803457, 2085111994, 517001373, 2084321376, 520198072, 2083525854, 523393547,
     2082725429, 526587791, 2081920103, 529780796, 2081109879, 532972554, 2080294757, 536163058, 2079474740,
     539352300, 2078649830, 542540273, 2077820028, 545726969, 2076985338, 548912382, 2076145760, 552096502,
     2075301296, 555279324, 2074451950, 558460839, 2073597721, 561641039, 2072738614, 564819919, 2071874629,
     567997469, 2071005769, 571173682, 2070132035, 574348552, 2069253430, 577522070, 2068369957, 580694229,
     2067481616, 583865021, 2066588410, 587034440, 2065690341, 590202477, 2064787411, 593369126, 2063879623,
     596534378, 2062966978, 599698227, 2062049479, 602860664, 2061127128, 606021683, 2060199927, 609181276,
     2059267877, 612339436, 2058330983, 615496154, 2057389244, 618651424, 2056442665, 621805239, 2055491246,
     624957590, 2054534991, 628108471, 2053573901, 631257873, 2052607979, 634405791, 2051637227, 637552215,
     2050661647, 640697139, 2049681242, 643840556, 2048696014, 646982457, 2047705965, 650122837, 2046711097,
     653261686, 2045711414, 656398998, 2044706916, 659534766, 2043697608, 662668981, 2042683490, 665801638,
     2041664565, 668932727, 2040640837, 672062243, 2039612306, 675190177, 2038578976, 678316522, 2037540850,
     681441272, 2036497928, 684564417, 2035450215, 687685952, 2034397712, 690805869, 2033340422, 693924160,
     2032278347, 697040818, 2031211490, 700155836, 2030139853, 703269207, 2029063439, 706380923, 2027982251,
     709490976, 2026896291, 712599360, 2025805561, 715706067, 2024710064, 718811090, 2023609803, 721914422,
     2022504780, 725016055, 2021394998, 728115982, 2020280460, 731214195, 2019161167, 734310688, 2018037123,
     737405453, 2016908331, 740498483, 2015774793, 743589770, 2014636511, 746679308, 2013493489, 749767089,
     2012345729, 752853105, 2011193233, 755937350, 2010036005, 759019816, 2008874047, 762100496, 2007707362,
     765179382, 2006535953, 768256469, 2005359822, 771331747, 2004178973, 774405210, 2002993407, 777476851,
     2001803128, 780546663, 2000608139, 783614638, 1999408442, 786680769, 1998204040, 789745049, 1996994937,
     792807470, 1995781134, 795868026, 1994562635, 798926709, 1993339442, 801983513, 1992111559, 805038429,
     1990878989, 808091450, 1989641733, 811142571, 1988399796, 814191782, 1987153180, 817239078, 1985901888,
     820284450, 1984645923, 823327893, 1983385288, 826369398, 1982119985, 829408958, 1980850019, 832446567,
     1979575392, 835482217, 1978296106, 838515901, 1977012165, 841547612, 1975723572, 844577343, 1974430331,
     847605086, 1973132443, 850630835, 1971829912, 853654582, 1970522741, 856676321, 1969210933, 859696043,
     1967894492, 862713743, 1966573420, 865729413, 1965247720, 868743045, 1963917396, 871754633, 1962582451,
     874764170, 1961242888, 877771649, 1959898709, 880777062, 1958549919, 883780402, 1957196520, 886781663,
     1955838516, 889780838, 1954475909, 892777918, 1953108703, 895772898, 1951736902, 898765769, 1950360508,
     901756526, 1948979524, 904745161, 1947593954, 907731667, 1946203802, 910716038, 1944809070, 913698265,
     1943409761, 916678342, 1942005880, 919656262, 1940597428, 922632018, 1939184411, 925605603, 1937766830,
     928577010, 1936344689, 931546231, 1934917992, 934513261, 1933486742, 937478092, 1932050943, 940440717,
     1930610597, 943401129, 1929165708, 946359321, 1927716279, 949315286, 1926262315, 952269017, 1924803818,
     955220508, 1923340791, 958169751, 1921873239, 961116739, 1920401165, 964061465, 1918924571, 967003923,
     1917443462, 969944106, 1915957841, 972882006, 1914467712, 975817617, 1912973078, 978750932, 1911473942,
     981681943, 1909970309, 984610645, 1908462181, 987537030, 1906949562, 990461091, 1905432457, 993382821,
     1903910867, 996302214, 1902384797, 999219262, 1900854251, 1002133959, 1899319232, 1005046298, 1897779744,
     1007956272, 1896235790, 1010863875, 1894687374, 1013769098, 1893134500, 1016671936, 1891577171, 1019572382,
     1890015391, 1022470428, 1888449163, 1025366069, 1886878492, 1028259297, 1885303381, 1031150105, 1883723833,
     1034038487, 1882139853, 1036924436, 1880551444, 1039807944, 1878958610, 1042689006, 1877361354, 1045567615,
     1875759681, 1048443763, 1874153594, 1051317443, 1872543097, 1054188651, 1870928194, 1057057377, 1869308888,
     1059923616, 1867685184, 1062787361, 1866057085, 1065648605, 1864424594, 1068507342, 1862787717, 1071363564,
     1861146456, 1074217266, 1859500816, 1077068439, 1857850800, 1079917078, 1856196413, 1082763176, 1854537657,
     1085606726, 1852874538, 1088447722, 1851207059, 1091286156, 1849535224, 1094122023, 1847859036, 1096955314,
     1846178501, 1099786025, 1844493621, 1102614148, 1842804401, 1105439676, 1841110844, 1108262603, 1839412956,
     1111082922, 1837710739, 1113900627, 1836004197, 1116715710, 1834293336, 1119528166, 1832578158, 1122337987,
     1830858668, 1125145168, 1829134869, 1127949701, 1827406767, 1130751579, 1825674364, 1133550797, 1823937666,
     1136347348, 1822196675, 1139141224, 1820451397, 1141932420, 1818701835, 1144720929, 1816947994, 1147506745,
     1815189877, 1150289860, 1813427489, 1153070269, 1811660833, 1155847964, 1809889915, 1158622939, 1808114737,
     1161395188, 1806335305, 1164164704, 1804551623, 1166931481, 1802763694, 1169695512, 1800971523, 1172456790,
     1799175115, 1175215310, 1797374472, 1177971064, 1795569601, 1180724046, 1793760504, 1183474250, 1791947186,
     1186221669, 1790129652, 1188966297, 1788307905, 1191708127, 1786481950, 1194447153, 1784651792, 1197183368,
     1782817434, 1199916766, 1780978881, 1202647340, 1779136137, 1205375085, 1777289206, 1208099993, 1775438094,
     1210822059, 1773582803, 1213541275, 1771723340, 1216257636, 1769859707, 1218971135, 1767991909, 1221681765,
     1766119952, 1224389521, 1764243838, 1227094395, 1762363573, 1229796382, 1760479161, 1232495475, 1758590607,
     1235191668, 1756697914, 1237884955, 1754801087, 1240575329, 1752900132, 1243262783, 1750995052, 1245947312,
     1749085851, 1248628909, 1747172535, 1251307568, 1745255107, 1253983283, 1743333573, 1256656047, 1741407936,
     1259325853, 1739478202, 1261992697, 1737544374, 1264656571, 1735606458, 1267317469, 1733664458, 1269975384,
     1731718378, 1272630312, 1729768224, 1275282245, 1727813999, 1277931177, 1725855708, 1280577102, 1723893357,
     1283220013, 1721926948, 1285859905, 1719956488, 1288496772, 1717981981, 1291130606, 1716003431, 1293761402,
     1714020844, 1296389154, 1712034223, 1299013855, 1710043573, 1301635500, 1708048900, 1304254082, 1706050207,
     1306869594, 1704047500, 1309482032, 1702040783, 1312091388, 1700030061, 1314697657, 1698015339, 1317300832,
     1695996621, 1319900907, 1693973912, 1322497877, 1691947217, 1325091734, 1689916541, 1327682474, 1687881888,
     1330270089, 1685843263, 1332854574, 1683800672, 1335435923, 1681754118, 1338014129, 1679703608, 1340589187,
     1677649144, 1343161090, 1675590733, 1345729833, 1673528379, 1348295409, 1671462087, 1350857812, 1669391862,
     1353417037, 1667317709, 1355973077, 1665239632, 1358525926, 1663157637, 1361075579, 1661071729, 1363622028,
     1658981911, 1366165269, 1656888190, 1368705296, 1654790570, 1371242101, 1652689057, 1373775680, 1650583654,
     1376306026, 1648474367, 1378833134, 1646361202, 1381356997, 1644244162, 1383877610, 1642123253, 1386394966,
     1639998480, 1388909060, 1637869848, 1391419886, 1635737362, 1393927438, 1633601027, 1396431709, 1631460848,
     1398932695, 1629316830, 1401430389, 1627168978, 1403924785, 1625017297, 1406415878, 1622861793, 1408903661,
     1620702469, 1411388129, 1618539332, 1413869275, 1616372386, 1416347095, 1614201637, 1418821582, 1612027089,
     1421292730, 1609848749, 1423760534, 1607666620, 1426224988, 1605480708, 1428686085, 1603291018, 1431143821,
     1601097555, 1433598189, 1598900325, 1436049184, 1596699333, 1438496799, 1594494583, 1440941030, 1592286082,
     1443381870, 1590073833, 1445819314, 1587857843, 1448253355, 1585638117, 1450683988, 1583414660, 1453111208,
     1581187476, 1455535009, 1578956572, 1457955385, 1576721952, 1460372329, 1574483623, 1462785838, 1572241588,
     1465195904, 1569995854, 1467602523, 1567746425, 1470005688, 1565493307, 1472405394, 1563236506, 1474801636,
     1560976026, 1477194407, 1558711873, 1479583702, 1556444052, 1481969516, 1554172569, 1484351842, 1551897428,
     1486730675, 1549618636, 1489106011, 1547336197, 1491477842, 1545050118, 1493846163, 1542760402, 1496210969,
     1540467057, 1498572255, 1538170087, 1500930014, 1535869497, 1503284242, 1533565293, 1505634932, 1531257480,
     1507982079, 1528946064, 1510325678, 1526631051, 1512665723, 1524312445, 1515002208, 1521990252, 1517335128,
     1519664478]"

definition sinWindow :: "int list" where
  "sinWindow = sinWindow_0 @ sinWindow_1"

definition kbdWindow_0 :: "int list" where
  "kbdWindow_0 =
    [94051, 2147483646, 254850, 2147483633, 495460, 2147483591, 836387, 2147483485, 1300973, 2147483254, 1915549,
     2147482794, 2709535, 2147481939, 3715517, 2147480434, 4969293, 2147477899, 6509880, 2147473781, 8379492,
     2147467300, 10623473, 2147457371, 13290192, 2147442523, 16430893, 2147420789, 20099503, 2147389585, 24352393,
     2147345566, 29248099, 2147284463, 34846992, 2147200900, 41210910, 2147088186, 48402746, 2146938097, 56485996,
     2146740634, 65524275, 2146483773, 75580796, 2146153201, 86717820, 2145732052, 98996087, 2145200642, 112474223,
     2144536213, 127208139, 2143712692, 143250415, 2142700478, 160649696, 2141466249, 179450080, 2139972824,
     199690531, 2138179064, 221404307, 2136039829, 244618414, 2133506000, 269353093, 2130524567, 295621359,
     2127038794, 323428568, 2122988455, 352772060, 2118310150, 383640843, 2112937700, 416015351, 2106802612,
     449867271, 2099834626, 485159445, 2091962316, 521845839, 2083113760, 559871607, 2073217259, 599173223,
     2062202092, 639678700, 2049999312, 681307893, 2036542554, 723972875, 2021768853, 767578399, 2005619460,
     812022434, 1988040640, 857196765, 1968984440, 902987672, 1948409424, 949276659, 1926281351, 995941243,
     1902573799, 1042855792, 1877268712, 1089892394, 1850356881, 1136921770, 1821838332, 1183814193, 1791722627,
     1230440437, 1760029076, 1276672711, 1726786844, 1322385605, 1692034967, 1367457002, 1655822263, 1411768974,
     1618207150, 1455208642, 1579257366, 1497668982, 1539049589]"

definition kbdWindow_1 :: "int list" where
  "kbdWindow_1 =
    [628271, 2147483556, 923387, 2147483449, 1174117, 2147483327, 1406222, 2147483188, 1629300, 2147483030,
     1848110, 2147482853, 2065397, 2147482655, 2282906, 2147482435, 2501826, 2147482191, 2723012, 2147481922,
     2947103, 2147481626, 3174596, 2147481302, 3405888, 2147480947, 3641305, 2147480561, 3881121, 2147480141,
     4125569, 2147479685, 4374855, 2147479192, 4629160, 2147478659, 4888647, 2147478084, 5153463, 2147477464,
     5423747, 2147476799, 5699625, 2147476084, 5981218, 2147475318, 6268637, 2147474499, 6561992, 2147473622,
     6861385, 2147472687, 7166916, 2147471689, 7478682, 2147470626, 7796776, 2147469494, 8121290, 2147468292,
     8452313, 2147467014, 8789934, 2147465659, 9134238, 2147464222, 9485311, 2147462700, 9843236, 2147461089,
     10208098, 2147459386, 10579977, 2147457586, 10958956, 2147455685, 11345116, 2147453680, 11738536, 2147451565,
     12139297, 2147449337, 12547478, 2147446991, 12963159, 2147444522, 13386417, 2147441925, 13817331, 2147439196,
     14255980, 2147436329, 14702441, 2147433318, 15156792, 2147430160, 15619110, 2147426847, 16089474, 2147423374,
     16567959, 2147419736, 17054643, 2147415926, 17549603, 2147411938, 18052915, 2147407765, 18564657, 2147403402,
     19084905, 2147398842, 19613735, 2147394077, 20151224, 2147389100, 20697447, 2147383905, 21252482, 2147378483,
     21816404, 2147372828, 22389289, 2147366931, 22971213, 2147360785, 23562252, 2147354381, 24162482, 2147347711,
     24771979, 2147340767, 25390817, 2147333538, 26019072, 2147326018, 26656821, 2147318195, 27304138, 2147310062,
     27961098, 2147301608, 28627777, 2147292823, 29304249, 2147283698, 29990589, 2147274222, 30686873, 2147264384,
     31393175, 2147254174, 32109569, 2147243581, 32836130, 2147232593, 33572932, 2147221199, 34320049, 2147209387,
     35077556, 2147197146, 35845526, 2147184463, 36624033, 2147171325, 37413151, 2147157720, 38212952, 2147143635,
     39023511, 2147129056, 39844901, 2147113970, 40677194, 2147098364, 41520463, 2147082222, 42374780, 2147065531,
     43240219, 2147048277, 44116850, 2147030443, 45004747, 2147012015, 45903981, 2146992977, 46814623, 2146973314,
     47736745, 2146953009, 48670418, 2146932046, 49615713, 2146910408, 50572700, 2146888078, 51541450, 2146865039,
     52522032, 2146841274, 53514518, 2146816763, 54518975, 2146791490, 55535475, 2146765434, 56564085, 2146738578,
     57604874, 2146710902, 58657912, 2146682386, 59723266, 2146653011, 60801003, 2146622756, 61891193, 2146591600,
     62993901, 2146559523, 64109195, 2146526503, 65237141, 2146492519, 66377806, 2146457548, 67531255, 2146421568,
     68697555, 2146384557, 69876770, 2146346490, 71068965, 2146307345, 72274205, 2146267098, 73492553, 2146225725,
     74724075, 2146183201, 75968832, 2146139500, 77226888, 2146094599, 78498305, 2146048470, 79783146, 2146001088,
     81081473, 2145952426, 82393346, 2145902457, 83718826, 2145851154, 85057974, 2145798490, 86410851, 2145744436,
     87777515, 2145688963, 89158025, 2145632043, 90552441, 2145573647, 91960820, 2145513744, 93383221, 2145452305,
     94819700, 2145389299, 96270314, 2145324695, 97735119, 2145258461, 99214172, 2145190566, 100707528, 2145120978,
     102215240, 2145049664, 103737364, 2144976591, 105273954, 2144901726, 106825061, 2144825034, 108390740,
     2144746481, 109971042, 2144666032, 111566019, 2144583652, 113175722, 2144499306, 114800200, 2144412958,
     116439505, 2144324570, 118093685, 2144234106, 119762789, 2144141528, 121446866, 2144046799, 123145962,
     2143949881, 124860125, 2143850733, 126589402, 2143749319, 128333837, 2143645597, 130093476, 2143539527,
     131868364, 2143431070, 133658545, 2143320184, 135464061, 2143206828, 137284955, 2143090959, 139121270,
     2142972536, 140973047, 2142851516, 142840326, 2142727855, 144723147, 2142601510, 146621550, 2142472436,
     148535573, 2142340590, 150465255, 2142205925, 152410633, 2142068397, 154371743, 2141927959, 156348621,
     2141784566, 158341303, 2141638170, 160349823, 2141488723, 162374216, 2141336179, 164414513, 2141180489,
     166470747, 2141021604, 168542951, 2140859475, 170631155, 2140694053, 172735390, 2140525287, 174855684,
     2140353127, 176992067, 2140177522, 179144566, 2139998421, 181313209, 2139815772, 183498022, 2139629523,
     185699032, 2139439620, 187916262, 2139246011, 190149737, 2139048643, 192399481, 2138847460, 194665515,
     2138642409, 196947863, 2138433435, 199246544, 2138220483, 201561580, 2138003496, 203892989, 2137782418,
     206240790, 2137557193, 208605002, 2137327764, 210985640, 2137094073, 213382722, 2136856063, 215796262,
     2136613674, 218226275, 2136366848, 220672775, 2136115527, 223135775, 2135859650, 225615287, 2135599157,
     228111322, 2135333989, 230623890, 2135064083, 233153001, 2134789380, 235698663, 2134509817, 238260885,
     2134225332, 240839674, 2133935864, 243435034, 2133641348, 246046973, 2133341723, 248675493, 2133036924,
     251320599, 2132726887, 253982294, 2132411549, 256660578, 2132090844, 259355453, 2131764707, 262066918,
     2131433074, 264794974, 2131095878, 267539617, 2130753053, 270300846, 2130404532, 273078657, 2130050250,
     275873045, 2129690137, 278684005, 2129324128, 281511530, 2128952155, 284355614, 2128574148, 287216249,
     2128190040, 290093425, 2127799761, 292987132, 2127403243, 295897360, 2127000416, 298824097, 2126591211,
     301767330, 2126175556, 304727046, 2125753383, 307703231, 2125324620, 310695868, 2124889196, 313704941,
     2124447041, 316730434, 2123998082, 319772328, 2123542247, 322830603, 2123079466, 325905241, 2122609666,
     328996219, 2122132773, 332103517, 2121648716, 335227110, 2121157421, 338366976, 2120658815, 341523090,
     2120152824, 344695425, 2119639376, 347883956, 2119118395, 351088655, 2118589808, 354309493, 2118053541,
     357546441, 2117509518, 360799469, 2116957666, 364068545, 2116397910, 367353637, 2115830174, 370654713,
     2115254382, 373971737, 2114670461, 377304674, 2114078334, 380653490, 2113477925, 384018146, 2112869159,
     387398606, 2112251959, 390794829, 2111626250, 394206777, 2110991955, 397634409, 2110348998, 401077683,
     2109697303, 404536556, 2109036793, 408010985, 2108367391, 411500925, 2107689020, 415006332, 2107001605,
     418527158, 2106305067, 422063357, 2105599331, 425614880, 2104884318, 429181678, 2104159952, 432763701,
     2103426157, 436360898, 2102682854, 439973217, 2101929967, 443600606, 2101167419, 447243009, 2100395132,
     450900373, 2099613029, 454572643, 2098821034, 458259760, 2098019068, 461961669, 2097207056, 465678310,
     2096384919, 469409624, 2095552582, 473155552, 2094709966, 476916031, 2093856996, 480690999, 2092993593,
     484480394, 2092119682, 488284152, 2091235186, 492102208, 2090340029, 495934497, 2089434132, 499780950,
     2088517422, 503641503, 2087589820, 507516084, 2086651251, 511404627, 2085701639, 515307059, 2084740908,
     519223311, 2083768982, 523153310, 2082785786, 527096984, 2081791245, 531054258, 2080785283, 535025059,
     2079767825, 539009310, 2078738796, 543006936, 2077698122, 547017859, 2076645728, 551042001, 2075581541,
     555079284, 2074505485, 559129627, 2073417488, 563192950, 2072317476, 567269172, 2071205375, 571358210,
     2070081113, 575459981, 2068944617, 579574402, 2067795815, 583701386, 2066634634, 587840850, 2065461003,
     591992707, 2064274849, 596156868, 2063076103, 600333247, 2061864693, 604521754, 2060640548, 608722300,
     2059403598, 612934794, 2058153774, 617159145, 2056891006, 621395261, 2055615224, 625643049, 2054326360,
     629902416, 2053024346, 634173267, 2051709113, 638455507, 2050380595, 642749041, 2049038723, 647053771,
     2047683432, 651369600, 2046314654, 655696431, 2044932324, 660034163, 2043536376, 664382698, 2042126746,
     668741936, 2040703369, 673111775, 2039266181, 677492113, 2037815118, 681882848, 2036350117, 686283877,
     2034871116, 690695096, 2033378052, 695116400, 2031870864, 699547684, 2030349491, 703988843, 2028813872,
     708439768, 2027263948, 712900354, 2025699658, 717370492, 2024120944, 721850074, 2022527748, 726338990,
     2020920011, 730837130, 2019297677, 735344384, 2017660689, 739860641, 2016008991, 744385789, 2014342527,
     748919715, 2012661243, 753462307, 2010965084, 758013451, 2009253998, 762573032, 2007527930, 767140937,
     2005786829, 771717048, 2004030642, 776301252, 2002259320, 780893430, 2000472811, 785493467, 1998671067,
     790101243, 1996854037, 794716642, 1995021673, 799339545, 1993173929, 803969831, 1991310756, 808607382,
     1989432110, 813252078, 1987537943, 817903797, 1985628212, 822562418, 1983702873, 827227819, 1981761881,
     831899878, 1979805195, 836578473, 1977832773, 841263481, 1975844572, 845954776, 1973840555, 850652237,
     1971820679, 855355737, 1969784907, 860065153, 1967733201, 864780357, 1965665524, 869501226, 1963581838,
     874227633, 1961482109, 878959450, 1959366302, 883696551, 1957234381, 888438809, 1955086316, 893186095,
     1952922072, 897938282, 1950741618, 902695241, 1948544924, 907456844, 1946331959, 912222960, 1944102695,
     916993461, 1941857104, 921768216, 1939595157, 926547096, 1937316829, 931329970, 1935022094, 936116707,
     1932710928, 940907176, 1930383305, 945701246, 1928039204, 950498785, 1925678602, 955299661, 1923301478,
     960103742, 1920907812, 964910896, 1918497585, 969720990, 1916070777, 974533891, 1913627371, 979349466,
     1911167351, 984167582, 1908690700, 988988106, 1906197405, 993810903, 1903687450, 998635840, 1901160824,
     1003462782, 1898617514, 1008291597, 1896057508, 1013122148, 1893480798, 1017954303, 1890887373, 1022787925,
     1888277225, 1027622881, 1885650347, 1032459036, 1883006733, 1037296254, 1880346378, 1042134400, 1877669276,
     1046973339, 1874975425, 1051812937, 1872264822, 1056653057, 1869537465, 1061493565, 1866793355, 1066334324,
     1864032491, 1071175200, 1861254875, 1076016057, 1858460509, 1080856759, 1855649397, 1085697171, 1852821543,
     1090537157, 1849976953, 1095376582, 1847115633, 1100215309, 1844237591, 1105053205, 1841342834, 1109890133,
     1838431373, 1114725957, 1835503217, 1119560543, 1832558378, 1124393754, 1829596869, 1129225457, 1826618703,
     1134055515, 1823623894, 1138883793, 1820612459, 1143710157, 1817584412, 1148534471, 1814539773, 1153356602,
     1811478558, 1158176413, 1808400789, 1162993771, 1805306485, 1167808542, 1802195669, 1172620591, 1799068361,
     1177429783, 1795924587, 1182235986, 1792764371, 1187039066, 1789587739, 1191838889, 1786394716, 1196635321,
     1783185331, 1201428231, 1779959613, 1206217484, 1776717591, 1211002949, 1773459297, 1215784492, 1770184761,
     1220561983, 1766894016, 1225335288, 1763587098, 1230104277, 1760264039, 1234868817, 1756924877, 1239628779,
     1753569648, 1244384031, 1750198389, 1249134443, 1746811141, 1253879884, 1743407943, 1258620225, 1739988835,
     1263355337, 1736553861, 1268085090, 1733103062, 1272809356, 1729636483, 1277528006, 1726154168, 1282240912,
     1722656165, 1286947946, 1719142520, 1291648981, 1715613280, 1296343891, 1712068496, 1301032548, 1708508217,
     1305714828, 1704932494, 1310390603, 1701341379, 1315059749, 1697734925, 1319722141, 1694113187, 1324377655,
     1690476219, 1329026167, 1686824077, 1333667553, 1683156819, 1338301691, 1679474502, 1342928457, 1675777186,
     1347547731, 1672064930, 1352159391, 1668337795, 1356763315, 1664595844, 1361359384, 1660839139, 1365947477,
     1657067744, 1370527475, 1653281724, 1375099259, 1649481144, 1379662712, 1645666072, 1384217714, 1641836575,
     1388764149, 1637992722, 1393301901, 1634134582, 1397830853, 1630262226, 1402350890, 1626375725, 1406861898,
     1622475152, 1411363761, 1618560580, 1415856367, 1614632084, 1420339602, 1610689738, 1424813355, 1606733619,
     1429277512, 1602763804, 1433731964, 1598780370, 1438176600, 1594783397, 1442611311, 1590772965, 1447035986,
     1586749153, 1451450518, 1582712044, 1455854799, 1578661719, 1460248722, 1574598263, 1464632180, 1570521759,
     1469005069, 1566432292, 1473367282, 1562329949, 1477718717, 1558214816, 1482059268, 1554086981, 1486388835,
     1549946532, 1490707314, 1545793558, 1495014604, 1541628150, 1499310605, 1537450399, 1503595217, 1533260396,
     1507868342, 1529058234, 1512129880, 1524844007, 1516379734, 1520617809]"

definition kbdWindow :: "int list" where
  "kbdWindow = kbdWindow_0 @ kbdWindow_1"

definition cos4sin4tab_0 :: "int list" where
  "cos4sin4tab_0 =
    [- 1080309967, - 6588356, - 1093323988, - 1073559913, - 1106173359, - 32936819, - 1118856144, - 1072751542,
     - 1131370433, - 59265442, - 1143714343, - 1071296985, - 1155886013, - 85558366, - 1167883610, - 1069197120,
     - 1179705329, - 111799753, - 1191349389, - 1066453210, - 1202814036, - 137973796, - 1214097543, - 1063066909,
     - 1225198212, - 164064728, - 1236114370, - 1059040255, - 1246844374, - 190056834, - 1257386608, - 1054375676,
     - 1267739484, - 215934457, - 1277901444, - 1049075980, - 1287870956, - 241682010, - 1297646519, - 1043144360,
     - 1307226662, - 267283981, - 1316609941, - 1036584389, - 1325794943, - 292724951, - 1334780286, - 1029400018,
     - 1343564615, - 317989595, - 1352146609, - 1021595575, - 1360524974, - 343062693, - 1368698450, - 1013175761,
     - 1376665804, - 367929144, - 1384425838, - 1004145648, - 1391977382, - 392573967, - 1399319299, - 994510675,
     - 1406450484, - 416982319, - 1413369863, - 984276646, - 1420076394, - 441139496, - 1426569066, - 973449725,
     - 1432846902, - 465030947, - 1438908957, - 962036435, - 1444754317, - 488642281, - 1450382103, - 950043650,
     - 1455791466, - 511959275, - 1460981593, - 937478595, - 1465951701, - 534967884, - 1470701042, - 924348837,
     - 1475228901, - 557654248, - 1479534596, - 910662286, - 1483617479, - 580004702, - 1487476934, - 896427186,
     - 1491112381, - 602005783, - 1494523271, - 881652112, - 1497709092, - 623644239, - 1500669364, - 866345964,
     - 1503403640, - 644907034, - 1505911509, - 850517961, - 1508192593, - 665781362, - 1510246549, - 834177638,
     - 1512073068, - 686254647, - 1513671874, - 817334838, - 1515042726, - 706314559, - 1516185419, - 799999706,
     - 1517099779, - 725949013, - 1517785670, - 782182683, - 1518242988, - 745146182, - 1518471665, - 763894504]"

definition cos4sin4tab_1 :: "int list" where
  "cos4sin4tab_1 =
    [- 1074565058, - 823550, - 1076209628, - 1073738982, - 1077851667, - 4117738, - 1079491168, - 1073726348,
     - 1081128130, - 7411888, - 1082762548, - 1073703609, - 1084394418, - 10705968, - 1086023736, - 1073670764,
     - 1087650499, - 13999948, - 1089274702, - 1073627812, - 1090896342, - 17293795, - 1092515416, - 1073574756,
     - 1094131918, - 20587480, - 1095745846, - 1073511594, - 1097357195, - 23880971, - 1098965962, - 1073438328,
     - 1100572144, - 27174237, - 1102175735, - 1073354959, - 1103776733, - 30467248, - 1105375134, - 1073261486,
     - 1106970933, - 33759971, - 1108564128, - 1073157912, - 1110154715, - 37052377, - 1111742688, - 1073044237,
     - 1113328046, - 40344435, - 1114910785, - 1072920462, - 1116490899, - 43636112, - 1118068387, - 1072786588,
     - 1119643243, - 46927379, - 1121215465, - 1072642617, - 1122785049, - 50218204, - 1124351990, - 1072488549,
     - 1125916286, - 53508556, - 1127477933, - 1072324387, - 1129036926, - 56798405, - 1130593263, - 1072150132,
     - 1132146939, - 60087719, - 1133697951, - 1071965785, - 1135246296, - 63376468, - 1136791969, - 1071771349,
     - 1138334967, - 66664620, - 1139875286, - 1071566824, - 1141412924, - 69952144, - 1142947875, - 1071352214,
     - 1144480137, - 73239010, - 1146009706, - 1071127519, - 1147536578, - 76525187, - 1149060750, - 1070892743,
     - 1150582219, - 79810644, - 1152100979, - 1070647887, - 1153617029, - 83095349, - 1155130364, - 1070392954,
     - 1156640981, - 86379272, - 1158148876, - 1070127946, - 1159654047, - 89662382, - 1161156488, - 1069852865,
     - 1162656197, - 92944648, - 1164153170, - 1069567715, - 1165647404, - 96226040, - 1167138895, - 1069272497,
     - 1168627639, - 99506525, - 1170113634, - 1068967215, - 1171596875, - 102786074, - 1173077359, - 1068651871,
     - 1174555083, - 106064656, - 1176030044, - 1068326469, - 1177502236, - 109342239, - 1178971658, - 1067991011,
     - 1180438306, - 112618793, - 1181902176, - 1067645501, - 1183363265, - 115894288, - 1184821570, - 1067289942,
     - 1186277086, - 119168691, - 1187729811, - 1066924338, - 1189179741, - 122441972, - 1190626873, - 1066548690,
     - 1192071204, - 125714101, - 1193512729, - 1066163005, - 1194951446, - 128985047, - 1196387350, - 1065767284,
     - 1197820440, - 132254779, - 1199250711, - 1065361531, - 1200678160, - 135523266, - 1202102784, - 1064945751,
     - 1203524579, - 138790477, - 1204943543, - 1064519947, - 1206359670, - 142056382, - 1207772960, - 1064084124,
     - 1209183407, - 145320950, - 1210591009, - 1063638285, - 1211995762, - 148584150, - 1213397663, - 1063182435,
     - 1214796709, - 151845952, - 1216192896, - 1062716578, - 1217586222, - 155106324, - 1218976683, - 1062240717,
     - 1220364275, - 158365237, - 1221748995, - 1061754859, - 1223130841, - 161622659, - 1224509808, - 1061259007,
     - 1225885894, - 164878559, - 1227259096, - 1060753166, - 1228629410, - 168132908, - 1229996832, - 1060237341,
     - 1231361360, - 171385674, - 1232722991, - 1059711537, - 1234081721, - 174636827, - 1235437547, - 1059175758,
     - 1236790466, - 177886336, - 1238140475, - 1058630010, - 1239487570, - 181134171, - 1240831749, - 1058074297,
     - 1242173007, - 184380301, - 1243511343, - 1057508626, - 1244846753, - 187624696, - 1246179233, - 1056933001,
     - 1247508782, - 190867324, - 1248835394, - 1056347427, - 1250159068, - 194108156, - 1251479800, - 1055751911,
     - 1252797588, - 197347161, - 1254112427, - 1055146458, - 1255424316, - 200584309, - 1256733250, - 1054531073,
     - 1258039227, - 203819569, - 1259342244, - 1053905763, - 1260642297, - 207052910, - 1261939384, - 1053270533,
     - 1263233502, - 210284302, - 1264524647, - 1052625389, - 1265812816, - 213513715, - 1267098007, - 1051970337,
     - 1268380216, - 216741118, - 1269659441, - 1051305384, - 1270935678, - 219966481, - 1272208924, - 1050630536,
     - 1273479177, - 223189774, - 1274746433, - 1049945798, - 1276010690, - 226410966, - 1277271944, - 1049251178,
     - 1278530192, - 229630027, - 1279785432, - 1048546683, - 1281037660, - 232846927, - 1282286874, - 1047832317,
     - 1283533071, - 236061635, - 1284776247, - 1047108090, - 1286016401, - 239274121, - 1287253528, - 1046374006,
     - 1288487626, - 242484355, - 1289718692, - 1045630074, - 1290946723, - 245692307, - 1292171717, - 1044876299,
     - 1293393670, - 248897946, - 1294612579, - 1044112690, - 1295828442, - 252101242, - 1297041256, - 1043339254,
     - 1298251018, - 255302166, - 1299457725, - 1042555997, - 1300661374, - 258500686, - 1301861963, - 1041762927,
     - 1303059488, - 261696774, - 1304253947, - 1040960052, - 1305445337, - 264890398, - 1306633655, - 1040147378,
     - 1307818899, - 268081529, - 1309001065, - 1039324915, - 1310180151, - 271270136, - 1311356154, - 1038492669,
     - 1312529071, - 274456191, - 1313698899, - 1037650648, - 1314865637, - 277639662, - 1316029280, - 1036798861,
     - 1317189827, - 280820520, - 1318347274, - 1035937314, - 1319501619, - 283998734, - 1320652859, - 1035066018,
     - 1321800991, - 287174276, - 1322946013, - 1034184978, - 1324087922, - 290347114, - 1325226716, - 1033294205,
     - 1326362391, - 293517220, - 1327494944, - 1032393706, - 1328624375, - 296684563, - 1329750678, - 1031483489,
     - 1330873853, - 299849113, - 1331993896, - 1030563564, - 1333110805, - 303010842, - 1334224577, - 1029633939,
     - 1335335209, - 306169718, - 1336442699, - 1028694622, - 1337547045, - 309325712, - 1338648242, - 1027745623,
     - 1339746290, - 312478795, - 1340841186, - 1026786951, - 1341932926, - 315628937, - 1343021509, - 1025818614,
     - 1344106931, - 318776108, - 1345189191, - 1024840621, - 1346268285, - 321920278, - 1347344211, - 1023852982,
     - 1348416967, - 325061418, - 1349486550, - 1022855707, - 1350552957, - 328199499, - 1351616187, - 1021848804,
     - 1352676236, - 331334491, - 1353733102, - 1020832283, - 1354786782, - 334466364, - 1355837275, - 1019806153,
     - 1356884577, - 337595089, - 1357928686, - 1018770425, - 1358969600, - 340720636, - 1360007316, - 1017725107,
     - 1361041832, - 343842976, - 1362073145, - 1016670211, - 1363101253, - 346962080, - 1364126154, - 1015605745,
     - 1365147845, - 350077918, - 1366166323, - 1014531720, - 1367181587, - 353190461, - 1368193633, - 1013448145,
     - 1369202461, - 356299680, - 1370208066, - 1012355032, - 1371210447, - 359405545, - 1372209601, - 1011252390,
     - 1373205527, - 362508027, - 1374198221, - 1010140230, - 1375187681, - 365607098, - 1376173906, - 1009018562,
     - 1377156892, - 368702727, - 1378136638, - 1007887396, - 1379113141, - 371794885, - 1380086398, - 1006746744,
     - 1381056409, - 374883544, - 1382023169, - 1005596617, - 1382986677, - 377968675, - 1383946932, - 1004437024,
     - 1384903929, - 381050248, - 1385857668, - 1003267977, - 1386808145, - 384128234, - 1387755360, - 1002089486,
     - 1388699309, - 387202605, - 1389639990, - 1000901564, - 1390577401, - 390273331, - 1391511540, - 999704221,
     - 1392442405, - 393340384, - 1393369993, - 998497468, - 1394294302, - 396403735, - 1395215330, - 997281317,
     - 1396133076, - 399463355, - 1397047536, - 996055780, - 1397958709, - 402519214, - 1398866592, - 994820867,
     - 1399771183, - 405571285, - 1400672481, - 993576590, - 1401570483, - 408619539, - 1402465187, - 992322961,
     - 1403356590, - 411663946, - 1404244692, - 991059993, - 1405129489, - 414704479, - 1406010979, - 989787696,
     - 1406889162, - 417741109, - 1407764033, - 988506083, - 1408635592, - 420773806, - 1409503837, - 987215165,
     - 1410368764, - 423802543, - 1411230373, - 985914956, - 1412088662, - 426827291, - 1412943627, - 984605467,
     - 1413795268, - 429848022, - 1414643582, - 983286710, - 1415488567, - 432864706, - 1416330221, - 981958698,
     - 1417168542, - 435877317, - 1418003529, - 980621444, - 1418835179, - 438885824, - 1419663491, - 979274960,
     - 1420488461, - 441890201, - 1421310090, - 977919258, - 1422128373, - 444890419, - 1422943311, - 976554352,
     - 1423754900, - 447886449, - 1424563139, - 975180254, - 1425368025, - 450878263, - 1426169558, - 973796977,
     - 1426967735, - 453865834, - 1427762554, - 972404535, - 1428554013, - 456849132, - 1429342111, - 971002940,
     - 1430126845, - 459828131, - 1430908214, - 969592205, - 1431686216, - 462802801, - 1432460849, - 968172345,
     - 1433232112, - 465773116, - 1434000002, - 966743371, - 1434764517, - 468739046, - 1435525657, - 965305298,
     - 1436283418, - 471700564, - 1437037800, - 963858140, - 1437788801, - 474657643, - 1438536418, - 962401909,
     - 1439280650, - 477610254, - 1440021495, - 960936620, - 1440758952, - 480558369, - 1441493018, - 959462286,
     - 1442223693, - 483501962, - 1442950974, - 957978921, - 1443674859, - 486441003, - 1444395347, - 956486539,
     - 1445112437, - 489375466, - 1445826126, - 954985154, - 1446536413, - 492305322, - 1447243296, - 953474781,
     - 1447946774, - 495230545, - 1448646844, - 951955434, - 1449343506, - 498151107, - 1450036757, - 950427126,
     - 1450726596, - 501066980, - 1451413021, - 948889872, - 1452096031, - 503978136, - 1452775624, - 947343687,
     - 1453451799, - 506884549, - 1454124553, - 945788585, - 1454793886, - 509786191, - 1455459796, - 944224582,
     - 1456122280, - 512683035, - 1456781339, - 942651690, - 1457436969, - 515575053, - 1458089170, - 941069926,
     - 1458737940, - 518462218, - 1459383277, - 939479305, - 1460025180, - 521344503, - 1460663648, - 937879841,
     - 1461298678, - 524221881, - 1461930270, - 936271549, - 1462558422, - 527094325, - 1463183133, - 934654444,
     - 1463804400, - 529961808, - 1464422223, - 933028542, - 1465036600, - 532824303, - 1465647529, - 931393859,
     - 1466255010, - 535681782, - 1466859041, - 929750408, - 1467459620, - 538534220, - 1468056745, - 928098206,
     - 1468650417, - 541381588, - 1469240632, - 926437269, - 1469827390, - 544223861, - 1470410690, - 924767612,
     - 1470990529, - 547061011, - 1471566908, - 923089250, - 1472139823, - 549893013, - 1472709274, - 921402200,
     - 1473275260, - 552719838, - 1473837779, - 919706478, - 1474396830, - 555541461, - 1474952412, - 918002099,
     - 1475504523, - 558357855, - 1476053162, - 916289079, - 1476598327, - 561168994, - 1477140018, - 914567435,
     - 1477678234, - 563974850, - 1478212972, - 912837182, - 1478744231, - 566775399, - 1479272012, - 911098338,
     - 1479796311, - 569570612, - 1480317128, - 909350918, - 1480834462, - 572360465, - 1481348311, - 907594938,
     - 1481858674, - 575144930, - 1482365551, - 905830417, - 1482868939, - 577923982, - 1483368838, - 904057369,
     - 1483865247, - 580697594, - 1484358164, - 902275811, - 1484847588, - 583465740, - 1485333518, - 900485762,
     - 1485815952, - 586228395, - 1486294891, - 898687236, - 1486770332, - 588985532, - 1487242275, - 896880252,
     - 1487710718, - 591737125, - 1488175660, - 895064826, - 1488637101, - 594483148, - 1489095039, - 893240975,
     - 1489549472, - 597223576, - 1490000401, - 891408717, - 1490447823, - 599958383, - 1490891739, - 889568068,
     - 1491332146, - 602687543, - 1491769044, - 887719047, - 1492202431, - 605411029, - 1492632307, - 885861670,
     - 1493058671, - 608128818, - 1493481522, - 883995955, - 1493900858, - 610840882, - 1494316679, - 882121919,
     - 1494728984, - 613547198, - 1495137772, - 880239581, - 1495543041, - 616247738, - 1495944791, - 878348957,
     - 1496343021, - 618942478, - 1496737730, - 876450066, - 1497128917, - 621631392, - 1497516582, - 874542925,
     - 1497900722, - 624314455, - 1498281338, - 872627553, - 1498658428, - 626991641, - 1499031991, - 870703968,
     - 1499402027, - 629662927, - 1499768535, - 868772187, - 1500131514, - 632328285, - 1500490963, - 866832229,
     - 1500846881, - 634987692, - 1501199268, - 864884112, - 1501548122, - 637641122, - 1501893443, - 862927854,
     - 1502235229, - 640288551, - 1502573481, - 860963474, - 1502908197, - 642929953, - 1503239376, - 858990991,
     - 1503567019, - 645565303, - 1503891123, - 857010422, - 1504211688, - 648194577, - 1504528714, - 855021787,
     - 1504842200, - 650817750, - 1505152144, - 853025104, - 1505458547, - 653434797, - 1505761407, - 851020391,
     - 1506060724, - 656045694, - 1506356498, - 849007669, - 1506648726, - 658650416, - 1506937409, - 846986956,
     - 1507222547, - 661248938, - 1507504137, - 844958270, - 1507782181, - 663841237, - 1508056676, - 842921632,
     - 1508327623, - 666427287, - 1508595021, - 840877059, - 1508858868, - 669007064, - 1509119165, - 838824572,
     - 1509375912, - 671580545, - 1509629106, - 836764190, - 1509878748, - 674147704, - 1510124837, - 834695931,
     - 1510367373, - 676708518, - 1510606355, - 832619816, - 1510841782, - 679262963, - 1511073654, - 830535864,
     - 1511301970, - 681811014, - 1511526730, - 828444095, - 1511747933, - 684352648, - 1511965579, - 826344528,
     - 1512179667, - 686887840, - 1512390197, - 824237184, - 1512597168, - 689416567, - 1512800580, - 822122081,
     - 1513000432, - 691938805, - 1513196723, - 819999240, - 1513389454, - 694454530, - 1513578624, - 817868681,
     - 1513764233, - 696963719, - 1513946279, - 815730424, - 1514124763, - 699466348, - 1514299684, - 813584489,
     - 1514471041, - 701962393, - 1514638835, - 811430896, - 1514803065, - 704451830, - 1514963730, - 809269666,
     - 1515120831, - 706934638, - 1515274366, - 807100819, - 1515424336, - 709410791, - 1515570739, - 804924374,
     - 1515713577, - 711880267, - 1515852848, - 802740354, - 1515988552, - 714343043, - 1516120688, - 800548778,
     - 1516249257, - 716799095, - 1516374258, - 798349667, - 1516495691, - 719248400, - 1516613556, - 796143041,
     - 1516727852, - 721690935, - 1516838578, - 793928922, - 1516945736, - 724126677, - 1517049324, - 791707330,
     - 1517149342, - 726555604, - 1517245790, - 789478286, - 1517338668, - 728977692, - 1517427976, - 787241811,
     - 1517513713, - 731392919, - 1517595879, - 784997927, - 1517674474, - 733801261, - 1517749498, - 782746654,
     - 1517820950, - 736202697, - 1517888831, - 780488013, - 1517953140, - 738597203, - 1518013877, - 778222026,
     - 1518071042, - 740984758, - 1518124635, - 775948714, - 1518174656, - 743365338, - 1518221104, - 773668099,
     - 1518263980, - 745738921, - 1518303283, - 771380201, - 1518339013, - 748105485, - 1518371171, - 769085043,
     - 1518399755, - 750465007, - 1518424767, - 766782646, - 1518446206, - 752817466, - 1518464072, - 764473032,
     - 1518478364, - 755162839, - 1518489084, - 762156223, - 1518496230, - 757501104, - 1518499803, - 759832239]"

definition cos4sin4tab :: "int list" where
  "cos4sin4tab = cos4sin4tab_0 @ cos4sin4tab_1"

definition cos1sin1tab :: "int list" where
  "cos1sin1tab =
    [1073741824, 0, 1077030964, 3294193, 1080309967, 6588356, 1083578802, 9882456, 1086837437, 13176464,
     1090085843, 16470347, 1093323988, 19764076, 1096551843, 23057618, 1099769377, 26350943, 1102976559, 29644021,
     1106173359, 32936819, 1109359748, 36229307, 1112535695, 39521455, 1115701170, 42813230, 1118856144, 46104602,
     1122000587, 49395541, 1125134469, 52686014, 1128257761, 55975992, 1131370433, 59265442, 1134472457, 62554335,
     1137563802, 65842639, 1140644441, 69130324, 1143714343, 72417357, 1146773480, 75703709, 1149821823, 78989349,
     1152859343, 82274245, 1155886013, 85558366, 1158901802, 88841683, 1161906684, 92124163, 1164900630, 95405776,
     1167883610, 98686491, 1170855599, 101966277, 1173816567, 105245103, 1176766486, 108522939, 1179705329,
     111799753, 1182633069, 115075515, 1185549677, 118350194, 1188455126, 121623759, 1191349389, 124896179,
     1194232438, 128167423, 1197104247, 131437462, 1199964789, 134706263, 1202814036, 137973796, 1205651961,
     141240030, 1208478539, 144504935, 1211293741, 147768480, 1214097543, 151030634, 1216889917, 154291367,
     1219670837, 157550647, 1222440278, 160808445, 1225198212, 164064728, 1227944614, 167319468, 1230679458,
     170572633, 1233402719, 173824192, 1236114370, 177074115, 1238814387, 180322371, 1241502743, 183568930,
     1244179414, 186813762, 1246844374, 190056834, 1249497599, 193298119, 1252139062, 196537583, 1254768741,
     199775198, 1257386608, 203010932, 1259992641, 206244756, 1262586814, 209476638, 1265169103, 212706549,
     1267739484, 215934457, 1270297933, 219160334, 1272844425, 222384147, 1275378936, 225605867, 1277901444,
     228825464, 1280411923, 232042906, 1282910350, 235258165, 1285396702, 238471210, 1287870956, 241682010,
     1290333087, 244890535, 1292783074, 248096755, 1295220892, 251300640, 1297646519, 254502159, 1300059932,
     257701283, 1302461109, 260897982, 1304850026, 264092224, 1307226662, 267283981, 1309590993, 270473223,
     1311942998, 273659918, 1314282655, 276844038, 1316609941, 280025552, 1318924834, 283204430, 1321227314,
     286380643, 1323517357, 289554160, 1325794943, 292724951, 1328060050, 295892988, 1330312657, 299058239,
     1332552743, 302220676, 1334780286, 305380268, 1336995265, 308536985, 1339197660, 311690799, 1341387451,
     314841679, 1343564615, 317989595, 1345729134, 321134518, 1347880985, 324276419, 1350020151, 327415267,
     1352146609, 330551034, 1354260340, 333683689, 1356361325, 336813204, 1358449543, 339939549, 1360524974,
     343062693, 1362587600, 346182609, 1364637401, 349299266, 1366674357, 352412636, 1368698450, 355522689,
     1370709659, 358629395, 1372707968, 361732726, 1374693355, 364832652, 1376665804, 367929144, 1378625295,
     371022173, 1380571810, 374111709, 1382505330, 377197725, 1384425838, 380280190, 1386333314, 383359076,
     1388227743, 386434353, 1390109104, 389505993, 1391977382, 392573967, 1393832557, 395638246, 1395674614,
     398698801, 1397503533, 401755603, 1399319299, 404808624, 1401121894, 407857835, 1402911301, 410903207,
     1404687503, 413944711, 1406450484, 416982319, 1408200227, 420016002, 1409936715, 423045732, 1411659933,
     426071480, 1413369863, 429093217, 1415066490, 432110916, 1416749798, 435124548, 1418419771, 438134084,
     1420076394, 441139496, 1421719650, 444140756, 1423349524, 447137835, 1424966001, 450130706, 1426569066,
     453119340, 1428158703, 456103710, 1429734898, 459083786, 1431297636, 462059541, 1432846902, 465030947,
     1434382682, 467997976, 1435904960, 470960600, 1437413723, 473918791, 1438908957, 476872522, 1440390647,
     479821764, 1441858780, 482766489, 1443313341, 485706671, 1444754317, 488642281, 1446181695, 491573292,
     1447595461, 494499676, 1448995601, 497421405, 1450382103, 500338453, 1451754953, 503250791, 1453114139,
     506158392, 1454459648, 509061229, 1455791466, 511959275, 1457109582, 514852502, 1458413984, 517740883,
     1459704658, 520624391, 1460981593, 523502998, 1462244776, 526376678, 1463494197, 529245404, 1464729842,
     532109148, 1465951701, 534967884, 1467159762, 537821584, 1468354013, 540670223, 1469534444, 543513772,
     1470701042, 546352205, 1471853798, 549185496, 1472992700, 552013618, 1474117738, 554836544, 1475228901,
     557654248, 1476326179, 560466703, 1477409561, 563273883, 1478479036, 566075761, 1479534596, 568872310,
     1480576230, 571663506, 1481603928, 574449320, 1482617681, 577229728, 1483617479, 580004702, 1484603312,
     582774218, 1485575172, 585538248, 1486533049, 588296766, 1487476934, 591049748, 1488406819, 593797166,
     1489322693, 596538995, 1490224550, 599275210, 1491112381, 602005783, 1491986176, 604730691, 1492845928,
     607449906, 1493691629, 610163404, 1494523271, 612871159, 1495340846, 615573145, 1496144346, 618269338,
     1496933764, 620959711, 1497709092, 623644239, 1498470323, 626322897, 1499217450, 628995660, 1499950466,
     631662503, 1500669364, 634323400, 1501374136, 636978327, 1502064778, 639627258, 1502741281, 642270169,
     1503403640, 644907034, 1504051848, 647537830, 1504685900, 650162530, 1505305788, 652781111, 1505911509,
     655393548, 1506503055, 657999816, 1507080421, 660599890, 1507643603, 663193747, 1508192593, 665781362,
     1508727388, 668362709, 1509247982, 670937767, 1509754371, 673506508, 1510246549, 676068911, 1510724513,
     678624950, 1511188256, 681174602, 1511637776, 683717842, 1512073068, 686254647, 1512494127, 688784993,
     1512900951, 691308855, 1513293534, 693826211, 1513671874, 696337036, 1514035966, 698841307, 1514385808,
     701339000, 1514721396, 703830092, 1515042726, 706314559, 1515349797, 708792378, 1515642604, 711263525,
     1515921146, 713727978, 1516185419, 716185713, 1516435421, 718636707, 1516671150, 721080937, 1516892603,
     723518380, 1517099779, 725949013, 1517292676, 728372813, 1517471291, 730789757, 1517635623, 733199822,
     1517785670, 735602987, 1517921432, 737999228, 1518042906, 740388522, 1518150092, 742770848, 1518242988,
     745146182, 1518321595, 747514503, 1518385910, 749875788, 1518435933, 752230015, 1518471665, 754577161,
     1518493104, 756917205, 1518500250, 759250125]"

definition twidTabEven :: "int list" where
  "twidTabEven =
    [1073741824, 0, 1073741824, 0, 1073741824, 0, 1518500250, - 759250125, 1402911301, - 410903207, 1402911301,
     - 992008094, 1073741824, - 1073741824, 1518500250, - 759250125, 0, - 759250125, 0, - 759250125, 1402911301,
     - 992008094, - 1402911301, 410903207, 1073741824, 0, 1073741824, 0, 1073741824, 0, 1262586814, - 209476638,
     1173816567, - 105245103, 1339197660, - 311690799, 1402911301, - 410903207, 1262586814, - 209476638,
     1489322693, - 596538995, 1489322693, - 596538995, 1339197660, - 311690799, 1511188256, - 830013654,
     1518500250, - 759250125, 1402911301, - 410903207, 1402911301, - 992008094, 1489322693, - 892783698,
     1453114139, - 506158392, 1173816567, - 1068571464, 1402911301, - 992008094, 1489322693, - 596538995,
     843633538, - 1053110176, 1262586814, - 1053110176, 1511188256, - 681174602, 440797355, - 946955747,
     1073741824, - 1073741824, 1518500250, - 759250125, 0, - 759250125, 843633538, - 1053110176, 1511188256,
     - 830013654, - 440797355, - 506158392, 581104888, - 992008094, 1489322693, - 892783698, - 843633538,
     - 209476638, 296244703, - 892783698, 1453114139, - 946955747, - 1173816567, 105245103, 0, - 759250125,
     1402911301, - 992008094, - 1402911301, 410903207, - 296244703, - 596538995, 1339197660, - 1027506862,
     - 1511188256, 681174602, - 581104888, - 410903207, 1262586814, - 1053110176, - 1489322693, 892783698,
     - 843633538, - 209476638, 1173816567, - 1068571464, - 1339197660, 1027506862, 1073741824, 0, 1073741824, 0,
     1073741824, 0, 1125134469, - 52686014, 1099769377, - 26350943, 1149821823, - 78989349, 1173816567,
     - 105245103, 1125134469, - 52686014, 1219670837, - 157550647, 1219670837, - 157550647, 1149821823, - 78989349,
     1282910350, - 235258165, 1262586814, - 209476638, 1173816567, - 105245103, 1339197660, - 311690799,
     1302461109, - 260897982, 1197104247, - 131437462, 1388227743, - 386434353, 1339197660, - 311690799,
     1219670837, - 157550647, 1429734898, - 459083786, 1372707968, - 361732726, 1241502743, - 183568930,
     1463494197, - 529245404, 1402911301, - 410903207, 1262586814, - 209476638, 1489322693, - 596538995,
     1429734898, - 459083786, 1282910350, - 235258165, 1507080421, - 660599890, 1453114139, - 506158392,
     1302461109, - 260897982, 1516671150, - 721080937, 1472992700, - 552013618, 1321227314, - 286380643,
     1518042906, - 777654384, 1489322693, - 596538995, 1339197660, - 311690799, 1511188256, - 830013654,
     1502064778, - 639627258, 1356361325, - 336813204, 1496144346, - 877875009, 1511188256, - 681174602,
     1372707968, - 361732726, 1472992700, - 920979082, 1516671150, - 721080937, 1388227743, - 386434353,
     1441858780, - 959092290, 1518500250, - 759250125, 1402911301, - 410903207, 1402911301, - 992008094,
     1516671150, - 795590213, 1416749798, - 435124548, 1356361325, - 1019548121, 1511188256, - 830013654,
     1429734898, - 459083786, 1302461109, - 1041563127, 1502064778, - 862437520, 1441858780, - 482766489,
     1241502743, - 1057933813, 1489322693, - 892783698, 1453114139, - 506158392, 1173816567, - 1068571464,
     1472992700, - 920979082, 1463494197, - 529245404, 1099769377, - 1073418433, 1453114139, - 946955747,
     1472992700, - 552013618, 1019762441, - 1072448455, 1429734898, - 970651112, 1481603928, - 574449320,
     934229324, - 1065666786, 1402911301, - 992008094, 1489322693, - 596538995, 843633538, - 1053110176,
     1372707968, - 1010975242, 1496144346, - 618269338, 748466028, - 1034846671, 1339197660, - 1027506862,
     1502064778, - 639627258, 649242516, - 1010975242, 1302461109, - 1041563127, 1507080421, - 660599890,
     546500703, - 981625251, 1262586814, - 1053110176, 1511188256, - 681174602, 440797355, - 946955747, 1219670837,
     - 1062120190, 1514385808, - 701339000, 332705288, - 907154608, 1173816567, - 1068571464, 1516671150,
     - 721080937, 222810262, - 862437520, 1125134469, - 1072448455, 1518042906, - 740388522, 111707808,
     - 813046808, 1073741824, - 1073741824, 1518500250, - 759250125, 0, - 759250125, 1019762441, - 1072448455,
     1518042906, - 777654384, - 111707808, - 701339000, 963326361, - 1068571464, 1516671150, - 795590213,
     - 222810262, - 639627258, 904569543, - 1062120190, 1514385808, - 813046808, - 332705288, - 574449320,
     843633538, - 1053110176, 1511188256, - 830013654, - 440797355, - 506158392, 780665146, - 1041563127,
     1507080421, - 846480531, - 546500703, - 435124548, 715816063, - 1027506862, 1502064778, - 862437520,
     - 649242516, - 361732726, 649242516, - 1010975242, 1496144346, - 877875009, - 748466028, - 286380643,
     581104888, - 992008094, 1489322693, - 892783698, - 843633538, - 209476638, 511567327, - 970651112, 1481603928,
     - 907154608, - 934229324, - 131437462, 440797355, - 946955747, 1472992700, - 920979082, - 1019762441,
     - 52686014, 368965464, - 920979082, 1463494197, - 934248793, - 1099769377, 26350943, 296244703, - 892783698,
     1453114139, - 946955747, - 1173816567, 105245103, 222810262, - 862437520, 1441858780, - 959092290,
     - 1241502743, 183568930, 148839052, - 830013654, 1429734898, - 970651112, - 1302461109, 260897982, 74509276,
     - 795590213, 1416749798, - 981625251, - 1356361325, 336813204, 0, - 759250125, 1402911301, - 992008094,
     - 1402911301, 410903207, - 74509276, - 721080937, 1388227743, - 1001793390, - 1441858780, 482766489,
     - 148839052, - 681174602, 1372707968, - 1010975242, - 1472992700, 552013618, - 222810262, - 639627258,
     1356361325, - 1019548121, - 1496144346, 618269338, - 296244703, - 596538995, 1339197660, - 1027506862,
     - 1511188256, 681174602, - 368965464, - 552013618, 1321227314, - 1034846671, - 1518042906, 740388522,
     - 440797355, - 506158392, 1302461109, - 1041563127, - 1516671150, 795590213, - 511567327, - 459083786,
     1282910350, - 1047652185, - 1507080421, 846480531, - 581104888, - 410903207, 1262586814, - 1053110176,
     - 1489322693, 892783698, - 649242516, - 361732726, 1241502743, - 1057933813, - 1463494197, 934248793,
     - 715816063, - 311690799, 1219670837, - 1062120190, - 1429734898, 970651112, - 780665146, - 260897982,
     1197104247, - 1065666786, - 1388227743, 1001793390, - 843633538, - 209476638, 1173816567, - 1068571464,
     - 1339197660, 1027506862, - 904569543, - 157550647, 1149821823, - 1070832474, - 1282910350, 1047652185,
     - 963326361, - 105245103, 1125134469, - 1072448455, - 1219670837, 1062120190, - 1019762441, - 52686014,
     1099769377, - 1073418433, - 1149821823, 1070832474]"

definition twidTabOdd :: "int list" where
  "twidTabOdd =
    [1073741824, 0, 1073741824, 0, 1073741824, 0, 1402911301, - 410903207, 1262586814, - 209476638, 1489322693,
     - 596538995, 1518500250, - 759250125, 1402911301, - 410903207, 1402911301, - 992008094, 1402911301,
     - 992008094, 1489322693, - 596538995, 843633538, - 1053110176, 1073741824, - 1073741824, 1518500250,
     - 759250125, 0, - 759250125, 581104888, - 992008094, 1489322693, - 892783698, - 843633538, - 209476638, 0,
     - 759250125, 1402911301, - 992008094, - 1402911301, 410903207, - 581104888, - 410903207, 1262586814,
     - 1053110176, - 1489322693, 892783698, 1073741824, 0, 1073741824, 0, 1073741824, 0, 1173816567, - 105245103,
     1125134469, - 52686014, 1219670837, - 157550647, 1262586814, - 209476638, 1173816567, - 105245103, 1339197660,
     - 311690799, 1339197660, - 311690799, 1219670837, - 157550647, 1429734898, - 459083786, 1402911301,
     - 410903207, 1262586814, - 209476638, 1489322693, - 596538995, 1453114139, - 506158392, 1302461109,
     - 260897982, 1516671150, - 721080937, 1489322693, - 596538995, 1339197660, - 311690799, 1511188256,
     - 830013654, 1511188256, - 681174602, 1372707968, - 361732726, 1472992700, - 920979082, 1518500250,
     - 759250125, 1402911301, - 410903207, 1402911301, - 992008094, 1511188256, - 830013654, 1429734898,
     - 459083786, 1302461109, - 1041563127, 1489322693, - 892783698, 1453114139, - 506158392, 1173816567,
     - 1068571464, 1453114139, - 946955747, 1472992700, - 552013618, 1019762441, - 1072448455, 1402911301,
     - 992008094, 1489322693, - 596538995, 843633538, - 1053110176, 1339197660, - 1027506862, 1502064778,
     - 639627258, 649242516, - 1010975242, 1262586814, - 1053110176, 1511188256, - 681174602, 440797355,
     - 946955747, 1173816567, - 1068571464, 1516671150, - 721080937, 222810262, - 862437520, 1073741824,
     - 1073741824, 1518500250, - 759250125, 0, - 759250125, 963326361, - 1068571464, 1516671150, - 795590213,
     - 222810262, - 639627258, 843633538, - 1053110176, 1511188256, - 830013654, - 440797355, - 506158392,
     715816063, - 1027506862, 1502064778, - 862437520, - 649242516, - 361732726, 581104888, - 992008094,
     1489322693, - 892783698, - 843633538, - 209476638, 440797355, - 946955747, 1472992700, - 920979082,
     - 1019762441, - 52686014, 296244703, - 892783698, 1453114139, - 946955747, - 1173816567, 105245103, 148839052,
     - 830013654, 1429734898, - 970651112, - 1302461109, 260897982, 0, - 759250125, 1402911301, - 992008094,
     - 1402911301, 410903207, - 148839052, - 681174602, 1372707968, - 1010975242, - 1472992700, 552013618,
     - 296244703, - 596538995, 1339197660, - 1027506862, - 1511188256, 681174602, - 440797355, - 506158392,
     1302461109, - 1041563127, - 1516671150, 795590213, - 581104888, - 410903207, 1262586814, - 1053110176,
     - 1489322693, 892783698, - 715816063, - 311690799, 1219670837, - 1062120190, - 1429734898, 970651112,
     - 843633538, - 209476638, 1173816567, - 1068571464, - 1339197660, 1027506862, - 963326361, - 105245103,
     1125134469, - 1072448455, - 1219670837, 1062120190, 1073741824, 0, 1073741824, 0, 1073741824, 0, 1099769377,
     - 26350943, 1086837437, - 13176464, 1112535695, - 39521455, 1125134469, - 52686014, 1099769377, - 26350943,
     1149821823, - 78989349, 1149821823, - 78989349, 1112535695, - 39521455, 1185549677, - 118350194, 1173816567,
     - 105245103, 1125134469, - 52686014, 1219670837, - 157550647, 1197104247, - 131437462, 1137563802, - 65842639,
     1252139062, - 196537583, 1219670837, - 157550647, 1149821823, - 78989349, 1282910350, - 235258165, 1241502743,
     - 183568930, 1161906684, - 92124163, 1311942998, - 273659918, 1262586814, - 209476638, 1173816567,
     - 105245103, 1339197660, - 311690799, 1282910350, - 235258165, 1185549677, - 118350194, 1364637401,
     - 349299266, 1302461109, - 260897982, 1197104247, - 131437462, 1388227743, - 386434353, 1321227314,
     - 286380643, 1208478539, - 144504935, 1409936715, - 423045732, 1339197660, - 311690799, 1219670837,
     - 157550647, 1429734898, - 459083786, 1356361325, - 336813204, 1230679458, - 170572633, 1447595461,
     - 494499676, 1372707968, - 361732726, 1241502743, - 183568930, 1463494197, - 529245404, 1388227743,
     - 386434353, 1252139062, - 196537583, 1477409561, - 563273883, 1402911301, - 410903207, 1262586814,
     - 209476638, 1489322693, - 596538995, 1416749798, - 435124548, 1272844425, - 222384147, 1499217450,
     - 628995660, 1429734898, - 459083786, 1282910350, - 235258165, 1507080421, - 660599890, 1441858780,
     - 482766489, 1292783074, - 248096755, 1512900951, - 691308855, 1453114139, - 506158392, 1302461109,
     - 260897982, 1516671150, - 721080937, 1463494197, - 529245404, 1311942998, - 273659918, 1518385910,
     - 749875788, 1472992700, - 552013618, 1321227314, - 286380643, 1518042906, - 777654384, 1481603928,
     - 574449320, 1330312657, - 299058239, 1515642604, - 804379079, 1489322693, - 596538995, 1339197660,
     - 311690799, 1511188256, - 830013654, 1496144346, - 618269338, 1347880985, - 324276419, 1504685900,
     - 854523370, 1502064778, - 639627258, 1356361325, - 336813204, 1496144346, - 877875009, 1507080421,
     - 660599890, 1364637401, - 349299266, 1485575172, - 900036924, 1511188256, - 681174602, 1372707968,
     - 361732726, 1472992700, - 920979082, 1514385808, - 701339000, 1380571810, - 374111709, 1458413984,
     - 940673101, 1516671150, - 721080937, 1388227743, - 386434353, 1441858780, - 959092290, 1518042906,
     - 740388522, 1395674614, - 398698801, 1423349524, - 976211688, 1518500250, - 759250125, 1402911301,
     - 410903207, 1402911301, - 992008094, 1518042906, - 777654384, 1409936715, - 423045732, 1380571810,
     - 1006460100, 1516671150, - 795590213, 1416749798, - 435124548, 1356361325, - 1019548121, 1514385808,
     - 813046808, 1423349524, - 447137835, 1330312657, - 1031254418, 1511188256, - 830013654, 1429734898,
     - 459083786, 1302461109, - 1041563127, 1507080421, - 846480531, 1435904960, - 470960600, 1272844425,
     - 1050460278, 1502064778, - 862437520, 1441858780, - 482766489, 1241502743, - 1057933813, 1496144346,
     - 877875009, 1447595461, - 494499676, 1208478539, - 1063973603, 1489322693, - 892783698, 1453114139,
     - 506158392, 1173816567, - 1068571464, 1481603928, - 907154608, 1458413984, - 517740883, 1137563802,
     - 1071721163, 1472992700, - 920979082, 1463494197, - 529245404, 1099769377, - 1073418433, 1463494197,
     - 934248793, 1468354013, - 540670223, 1060484509, - 1073660973, 1453114139, - 946955747, 1472992700,
     - 552013618, 1019762441, - 1072448455, 1441858780, - 959092290, 1477409561, - 563273883, 977658359,
     - 1069782521, 1429734898, - 970651112, 1481603928, - 574449320, 934229324, - 1065666786, 1416749798,
     - 981625251, 1485575172, - 585538248, 889534193, - 1060106826, 1402911301, - 992008094, 1489322693,
     - 596538995, 843633538, - 1053110176, 1388227743, - 1001793390, 1492845928, - 607449906, 796589564,
     - 1044686319, 1372707968, - 1010975242, 1496144346, - 618269338, 748466028, - 1034846671, 1356361325,
     - 1019548121, 1499217450, - 628995660, 699328148, - 1023604567, 1339197660, - 1027506862, 1502064778,
     - 639627258, 649242516, - 1010975242, 1321227314, - 1034846671, 1504685900, - 650162530, 598277011,
     - 996975812, 1302461109, - 1041563127, 1507080421, - 660599890, 546500703, - 981625251, 1282910350,
     - 1047652185, 1509247982, - 670937767, 493983760, - 964944360, 1262586814, - 1053110176, 1511188256,
     - 681174602, 440797355, - 946955747, 1241502743, - 1057933813, 1512900951, - 691308855, 387013568,
     - 927683790, 1219670837, - 1062120190, 1514385808, - 701339000, 332705288, - 907154608, 1197104247,
     - 1065666786, 1515642604, - 711263525, 277946116, - 885396022, 1173816567, - 1068571464, 1516671150,
     - 721080937, 222810262, - 862437520, 1149821823, - 1070832474, 1517471291, - 730789757, 167372449,
     - 838310216, 1125134469, - 1072448455, 1518042906, - 740388522, 111707808, - 813046808, 1099769377,
     - 1073418433, 1518385910, - 749875788, 55891777, - 786681534, 1073741824, - 1073741824, 1518500250,
     - 759250125, 0, - 759250125, 1047067490, - 1073418433, 1518385910, - 768510122, - 55891777, - 730789757,
     1019762441, - 1072448455, 1518042906, - 777654384, - 111707808, - 701339000, 991843125, - 1070832474,
     1517471291, - 786681534, - 167372449, - 670937767, 963326361, - 1068571464, 1516671150, - 795590213,
     - 222810262, - 639627258, 934229324, - 1065666786, 1515642604, - 804379079, - 277946116, - 607449906,
     904569543, - 1062120190, 1514385808, - 813046808, - 332705288, - 574449320, 874364883, - 1057933813,
     1512900951, - 821592095, - 387013568, - 540670223, 843633538, - 1053110176, 1511188256, - 830013654,
     - 440797355, - 506158392, 812394020, - 1047652185, 1509247982, - 838310216, - 493983760, - 470960600,
     780665146, - 1041563127, 1507080421, - 846480531, - 546500703, - 435124548, 748466028, - 1034846671,
     1504685900, - 854523370, - 598277011, - 398698801, 715816063, - 1027506862, 1502064778, - 862437520,
     - 649242516, - 361732726, 682734916, - 1019548121, 1499217450, - 870221790, - 699328148, - 324276419,
     649242516, - 1010975242, 1496144346, - 877875009, - 748466028, - 286380643, 615359037, - 1001793390,
     1492845928, - 885396022, - 796589564, - 248096755, 581104888, - 992008094, 1489322693, - 892783698,
     - 843633538, - 209476638, 546500703, - 981625251, 1485575172, - 900036924, - 889534193, - 170572633,
     511567327, - 970651112, 1481603928, - 907154608, - 934229324, - 131437462, 476325801, - 959092290, 1477409561,
     - 914135678, - 977658359, - 92124163, 440797355, - 946955747, 1472992700, - 920979082, - 1019762441,
     - 52686014, 405003389, - 934248793, 1468354013, - 927683790, - 1060484509, - 13176464, 368965464, - 920979082,
     1463494197, - 934248793, - 1099769377, 26350943, 332705288, - 907154608, 1458413984, - 940673101,
     - 1137563802, 65842639, 296244703, - 892783698, 1453114139, - 946955747, - 1173816567, 105245103, 259605671,
     - 877875009, 1447595461, - 953095785, - 1208478539, 144504935, 222810262, - 862437520, 1441858780,
     - 959092290, - 1241502743, 183568930, 185880641, - 846480531, 1435904960, - 964944360, - 1272844425,
     222384147, 148839052, - 830013654, 1429734898, - 970651112, - 1302461109, 260897982, 111707808, - 813046808,
     1423349524, - 976211688, - 1330312657, 299058239, 74509276, - 795590213, 1416749798, - 981625251,
     - 1356361325, 336813204, 37265862, - 777654384, 1409936715, - 986890984, - 1380571810, 374111709, 0,
     - 759250125, 1402911301, - 992008094, - 1402911301, 410903207, - 37265862, - 740388522, 1395674614,
     - 996975812, - 1423349524, 447137835, - 74509276, - 721080937, 1388227743, - 1001793390, - 1441858780,
     482766489, - 111707808, - 701339000, 1380571810, - 1006460100, - 1458413984, 517740883, - 148839052,
     - 681174602, 1372707968, - 1010975242, - 1472992700, 552013618, - 185880641, - 660599890, 1364637401,
     - 1015338134, - 1485575172, 585538248, - 222810262, - 639627258, 1356361325, - 1019548121, - 1496144346,
     618269338, - 259605671, - 618269338, 1347880985, - 1023604567, - 1504685900, 650162530, - 296244703,
     - 596538995, 1339197660, - 1027506862, - 1511188256, 681174602, - 332705288, - 574449320, 1330312657,
     - 1031254418, - 1515642604, 711263525, - 368965464, - 552013618, 1321227314, - 1034846671, - 1518042906,
     740388522, - 405003389, - 529245404, 1311942998, - 1038283080, - 1518385910, 768510122, - 440797355,
     - 506158392, 1302461109, - 1041563127, - 1516671150, 795590213, - 476325801, - 482766489, 1292783074,
     - 1044686319, - 1512900951, 821592095, - 511567327, - 459083786, 1282910350, - 1047652185, - 1507080421,
     846480531, - 546500703, - 435124548, 1272844425, - 1050460278, - 1499217450, 870221790, - 581104888,
     - 410903207, 1262586814, - 1053110176, - 1489322693, 892783698, - 615359037, - 386434353, 1252139062,
     - 1055601479, - 1477409561, 914135678, - 649242516, - 361732726, 1241502743, - 1057933813, - 1463494197,
     934248793, - 682734916, - 336813204, 1230679458, - 1060106826, - 1447595461, 953095785, - 715816063,
     - 311690799, 1219670837, - 1062120190, - 1429734898, 970651112, - 748466028, - 286380643, 1208478539,
     - 1063973603, - 1409936715, 986890984, - 780665146, - 260897982, 1197104247, - 1065666786, - 1388227743,
     1001793390, - 812394020, - 235258165, 1185549677, - 1067199483, - 1364637401, 1015338134, - 843633538,
     - 209476638, 1173816567, - 1068571464, - 1339197660, 1027506862, - 874364883, - 183568930, 1161906684,
     - 1069782521, - 1311942998, 1038283080, - 904569543, - 157550647, 1149821823, - 1070832474, - 1282910350,
     1047652185, - 934229324, - 131437462, 1137563802, - 1071721163, - 1252139062, 1055601479, - 963326361,
     - 105245103, 1125134469, - 1072448455, - 1219670837, 1062120190, - 991843125, - 78989349, 1112535695,
     - 1073014240, - 1185549677, 1067199483, - 1019762441, - 52686014, 1099769377, - 1073418433, - 1149821823,
     1070832474, - 1047067490, - 26350943, 1086837437, - 1073660973, - 1112535695, 1073014240]"

definition BitRevTab :: "int list" where
  "BitRevTab =
    [1, 8, 2, 4, 3, 12, 5, 10, 7, 14, 11, 13, 0, 6, 9, 15, 0, 1, 64, 2, 32, 3, 96, 4, 16, 5, 80, 6, 48, 7, 112, 9,
     72, 10, 40, 11, 104, 12, 24, 13, 88, 14, 56, 15, 120, 17, 68, 18, 36, 19, 100, 21, 84, 22, 52, 23, 116, 25,
     76, 26, 44, 27, 108, 29, 92, 30, 60, 31, 124, 33, 66, 35, 98, 37, 82, 38, 50, 39, 114, 41, 74, 43, 106, 45,
     90, 46, 58, 47, 122, 49, 70, 51, 102, 53, 86, 55, 118, 57, 78, 59, 110, 61, 94, 63, 126, 67, 97, 69, 81, 71,
     113, 75, 105, 77, 89, 79, 121, 83, 101, 87, 117, 91, 109, 95, 125, 103, 115, 111, 123, 0, 8, 20, 28, 34, 42,
     54, 62, 65, 73, 85, 93, 99, 107, 119, 127, 0]"

definition sinWindowOffset :: "int list" where
  "sinWindowOffset = [0, 128]"

definition cos4sin4tabOffset :: "int list" where
  "cos4sin4tabOffset = [0, 128]"

definition kbdWindowOffset :: "int list" where
  "kbdWindowOffset = [0, 128]"

definition nfftTab :: "int list" where
  "nfftTab = [64, 512]"

definition nfftlog2Tab :: "int list" where
  "nfftlog2Tab = [6, 9]"

definition nmdctTab :: "int list" where
  "nmdctTab = [128, 1024]"

definition postSkip :: "int list" where
  "postSkip = [15, 1]"

section \<open>Power of the windows\<close>

text \<open>
  The two factors of a line lie, as a point in the plane, on the circle of radius \<open>2\<^sup>3\<^sup>1\<close>, up to the rounding: this is
  what makes the aliasing of neighbouring blocks cancel.
\<close>

fun complementary :: "int list \<Rightarrow> bool" where
  "complementary (x # y # ws) = (0 \<le> x \<and> x < 2 ^ 31 \<and> 0 \<le> y \<and> y < 2 ^ 31 \<and> \<bar>x * x + y * y - 2 ^ 62\<bar> < 2 ^ 32 \<and> complementary ws)"
| "complementary ws = (ws = [])"

lemma complementary_append: "even (length xs) \<Longrightarrow> complementary (xs @ ys) = (complementary xs \<and> complementary ys)"
  by (induction xs rule: complementary.induct) auto

lemma complementary_nth:
  "complementary ws \<Longrightarrow> Suc (2 * i) < length ws \<Longrightarrow> \<bar>ws ! (2 * i) * ws ! (2 * i) + ws ! Suc (2 * i) * ws ! Suc (2 * i) - 2 ^ 62\<bar> < 2 ^ 32"
proof (induction ws arbitrary: i rule: complementary.induct)
  case (1 x y ws)
  then show ?case by (cases i) auto
qed auto

lemma sin_complementary: "complementary sinWindow_0" "complementary sinWindow_1"
  by code_simp+

lemma kbd_complementary: "complementary kbdWindow_0" "complementary kbdWindow_1"
  by code_simp+

lemma length_sin_parts: "length sinWindow_0 = 128" "length sinWindow_1 = 1024"
  by (simp_all add: sinWindow_0_def sinWindow_1_def)

lemma length_kbd_parts: "length kbdWindow_0 = 128" "length kbdWindow_1 = 1024"
  by (simp_all add: kbdWindow_0_def kbdWindow_1_def)

lemma length_cos4_parts: "length cos4sin4tab_0 = 128" "length cos4sin4tab_1 = 1024"
  by (simp_all add: cos4sin4tab_0_def cos4sin4tab_1_def)

lemma length_tables [simp]: "length sinWindow = 1152" "length kbdWindow = 1152" "length cos4sin4tab = 1152"
  by (simp_all add: sinWindow_def kbdWindow_def cos4sin4tab_def length_sin_parts length_kbd_parts length_cos4_parts)

lemma length_twids [simp]: "length cos1sin1tab = 514" "length twidTabEven = 504" "length twidTabOdd = 1008" "length BitRevTab = 146"
  by (simp_all add: cos1sin1tab_def twidTabEven_def twidTabOdd_def BitRevTab_def)

lemma windows_complementary: "complementary sinWindow" "complementary kbdWindow"
  using sin_complementary kbd_complementary
  by (simp_all add: sinWindow_def kbdWindow_def complementary_append length_sin_parts length_kbd_parts)

end
