(* ===== verification/Transform.thy ===== *)
theory Transform
  imports Bands TransformTables
begin

unbundle bit_operations_syntax

text \<open>
  The transforms of the filter bank: the DCT-IV by a complex FFT of half its length (\<^verbatim>\<open>src/lc_imdct.c\<close>) and the forward
  transform of the long term prediction (\<^verbatim>\<open>src/lc_mdct.c\<close>). All of them work in place, on a block of an array;
  complex numbers are pairs of neighbouring entries.
\<close>

section \<open>Blocks of an array\<close>

definition rd_block :: "'a list \<Rightarrow> int \<Rightarrow> nat \<Rightarrow> 'a list option" where
  "rd_block xs p n = (if 0 \<le> p \<and> p + int n \<le> int (length xs) then Some (take n (drop (nat p) xs)) else None)"

definition wr_block :: "'a list \<Rightarrow> int \<Rightarrow> 'a list \<Rightarrow> 'a list option" where
  "wr_block xs p vs = (if 0 \<le> p \<and> p + int (length vs) \<le> int (length xs) then Some (overwrite xs p vs) else None)"

section \<open>Bit reversal\<close>

text \<open>The macro \<open>swap2\<close> exchanges two complex numbers. A pointer into the table is what is left of it.\<close>

definition swap2 :: "int \<Rightarrow> int \<Rightarrow> 'a list \<Rightarrow> 'a list option" where
  "swap2 p q x =
     do { t \<leftarrow> rd x p; t1 \<leftarrow> rd x (p + 1);
          u \<leftarrow> rd x q; x \<leftarrow> wr x p u; u1 \<leftarrow> rd x (q + 1); x \<leftarrow> wr x (p + 1) u1;
          x \<leftarrow> wr x q t; wr x (q + 1) t1 }"

fun shuffle_pairs :: "int list \<Rightarrow> int \<Rightarrow> int \<Rightarrow> 'a list \<Rightarrow> (int list \<times> 'a list) option" where
  "shuffle_pairs [] low high x = None"
| "shuffle_pairs (l # pTab) low high x =
     (if l = 0 then Some (pTab, x)
      else (case pTab of
        [] \<Rightarrow> None
      | h # pTab \<Rightarrow>
          do { x \<leftarrow> swap2 (low + 4 * l) (low + 4 * h) x;
               x \<leftarrow> swap2 (low + (4 * l + 2)) (high + 4 * h) x;
               x \<leftarrow> swap2 (high + 4 * l) (low + (4 * h + 2)) x;
               x \<leftarrow> swap2 (high + (4 * l + 2)) (high + (4 * h + 2)) x;
               shuffle_pairs pTab low high x }))"

fun shuffle_ones :: "int \<Rightarrow> int list \<Rightarrow> int \<Rightarrow> int \<Rightarrow> 'a list \<Rightarrow> 'a list option" where
  "shuffle_ones l [] low high x = None"
| "shuffle_ones l (l' # pTab) low high x =
     do { x \<leftarrow> swap2 (low + (4 * l + 2)) (high + 4 * l) x;
          if l' \<noteq> 0 then shuffle_ones l' pTab low high x else Some x }"

definition Shuffle :: "int \<Rightarrow> int \<Rightarrow> 'a list \<Rightarrow> 'a list option" where
  "Shuffle pos bLongWin x =
     (let (pTab, nFFT) = (if bLongWin \<noteq> 0 then (drop 17 BitRevTab, 512) else (BitRevTab, 64)) in
      do { (pTab, x) \<leftarrow> shuffle_pairs pTab pos (pos + nFFT) x; shuffle_ones 0 pTab pos (pos + nFFT) x })"

section \<open>The passes of the FFT\<close>

definition SQRT1_2 :: int where "SQRT1_2 = 0x5a82799a"

definition r4_block :: "int list \<Rightarrow> int list" where
  "r4_block x =
     (let ar = s32 (x ! 0 + x ! 2); br = s32 (x ! 0 - x ! 2); ai = s32 (x ! 1 + x ! 3); bi = s32 (x ! 1 - x ! 3);
          cr = s32 (x ! 4 + x ! 6); dr = s32 (x ! 4 - x ! 6); ci = s32 (x ! 5 + x ! 7); di = s32 (x ! 5 - x ! 7) in
      [s32 (ar + cr), s32 (ai + ci), s32 (br + di), s32 (bi - dr),
       s32 (ar - cr), s32 (ai - ci), s32 (br - di), s32 (bi + dr)])"

definition half :: "int \<Rightarrow> int" where "half x = drop_bit 1 (s32 x)"

definition r8_block :: "int list \<Rightarrow> int list" where
  "r8_block x =
     (let ar = s32 (x ! 0 + x ! 2); ai = s32 (x ! 1 + x ! 3); br = s32 (x ! 0 - x ! 2); bi = s32 (x ! 1 - x ! 3);
          cr = s32 (x ! 4 + x ! 6); ci = s32 (x ! 5 + x ! 7); dr = s32 (x ! 4 - x ! 6); di = s32 (x ! 5 - x ! 7);
          sr = half (ar + cr); ur = half (ar - cr); si = half (ai + ci); ui = half (ai - ci);
          tr = half (br - di); vr = half (br + di); ti = half (bi + dr); vi = half (bi - dr);
          ar = s32 (x ! 8 + x ! 10); ai = s32 (x ! 9 + x ! 11); br = s32 (x ! 8 - x ! 10); bi = s32 (x ! 9 - x ! 11);
          cr = s32 (x ! 12 + x ! 14); ci = s32 (x ! 13 + x ! 15); dr = s32 (x ! 12 - x ! 14); di = s32 (x ! 13 - x ! 15);
          wr = half (ar + cr); yr = half (ar - cr); wi = half (ai + ci); yi = half (ai - ci);
          b0 = s32 (sr + wr); b1 = s32 (si + wi); b8 = s32 (sr - wr); b9 = s32 (si - wi);
          b4 = s32 (ur + yi); b5 = s32 (ui - yr); b12 = s32 (ur - yi); b13 = s32 (ui + yr);
          ar = s32 (br - di); cr = s32 (br + di); ai = s32 (bi + dr); ci = s32 (bi - dr);
          xr = MULHIGH SQRT1_2 (s32 (ar - ai)); xi = MULHIGH SQRT1_2 (s32 (ar + ai));
          zr = MULHIGH SQRT1_2 (s32 (cr - ci)); zi = MULHIGH SQRT1_2 (s32 (cr + ci)) in
      [b0, b1, s32 (vr + zi), s32 (vi - zr), b4, b5, s32 (tr - xr), s32 (ti - xi),
       b8, b9, s32 (vr - zi), s32 (vi + zr), b12, b13, s32 (tr + xr), s32 (ti + xi)])"

text \<open>\<open>for (; bg != 0; bg--)\<close>: one block of \<open>n\<close> entries after the other.\<close>

fun block_loop :: "(int list \<Rightarrow> int list) \<Rightarrow> nat \<Rightarrow> nat \<Rightarrow> int \<Rightarrow> int list \<Rightarrow> int list option" where
  "block_loop f n 0 x buf = Some buf"
| "block_loop f n (Suc bg) x buf =
     do { vs \<leftarrow> rd_block buf x n; buf \<leftarrow> wr_block buf x (f vs); block_loop f n bg (x + int n) buf }"

definition R4FirstPass :: "int \<Rightarrow> nat \<Rightarrow> int list \<Rightarrow> int list option" where
  "R4FirstPass x bg buf = block_loop r4_block 8 bg x buf"

definition R8FirstPass :: "int \<Rightarrow> nat \<Rightarrow> int list \<Rightarrow> int list option" where
  "R8FirstPass xbuf step buf = block_loop r8_block 16 step xbuf buf"

text \<open>The product with a factor of the table, whose entries are \<open>ws\<close> and \<open>wi\<close>.\<close>

definition twiddle :: "int \<Rightarrow> int \<Rightarrow> int \<times> int \<Rightarrow> int \<times> int" where
  "twiddle ws wi = (\<lambda>(br, bi).
     let wd = s32 (ws + s32 (2 * wi)); tr = MULHIGH wi (s32 (br + bi)) in
     (s32 (MULHIGH wd br - tr), s32 (MULHIGH ws bi + tr)))"

definition rd_pair :: "int list \<Rightarrow> int \<Rightarrow> (int \<times> int) option" where
  "rd_pair buf p = do { r \<leftarrow> rd buf p; i \<leftarrow> rd buf (p + 1); Some (r, i) }"

definition wr_pair :: "int list \<Rightarrow> int \<Rightarrow> int \<Rightarrow> int \<Rightarrow> int list option" where
  "wr_pair buf p r i = do { buf \<leftarrow> wr buf p r; wr buf (p + 1) i }"

definition core_body :: "int list \<Rightarrow> int \<Rightarrow> int \<Rightarrow> int \<Rightarrow> int list \<Rightarrow> int list option" where
  "core_body tab skip xptr wptr buf =
     do { (ar, ai) \<leftarrow> rd_pair buf xptr;
          w \<leftarrow> rd_block tab wptr 6;
          b \<leftarrow> rd_pair buf (xptr + skip); let (br, bi) = twiddle (w ! 0) (w ! 1) b;
          c \<leftarrow> rd_pair buf (xptr + 2 * skip); let (cr, ci) = twiddle (w ! 2) (w ! 3) c;
          d \<leftarrow> rd_pair buf (xptr + 3 * skip); let (dr, di) = twiddle (w ! 4) (w ! 5) d;
          let tr = drop_bit 2 ar; let ti = drop_bit 2 ai;
          let ar = s32 (tr - br); let ai = s32 (ti - bi); let br = s32 (tr + br); let bi = s32 (ti + bi);
          let tr = cr; let ti = ci;
          let cr = s32 (tr + dr); let ci = s32 (di - ti); let dr = s32 (tr - dr); let di = s32 (di + ti);
          buf \<leftarrow> wr_pair buf (xptr + 3 * skip) (s32 (ar + ci)) (s32 (ai + dr));
          buf \<leftarrow> wr_pair buf (xptr + 2 * skip) (s32 (br - cr)) (s32 (bi - di));
          buf \<leftarrow> wr_pair buf (xptr + skip) (s32 (ar - ci)) (s32 (ai - dr));
          wr_pair buf xptr (s32 (br + cr)) (s32 (bi + di)) }"

fun core_js :: "int list \<Rightarrow> int \<Rightarrow> nat \<Rightarrow> int \<Rightarrow> int \<Rightarrow> int list \<Rightarrow> int list option" where
  "core_js tab skip 0 xptr wptr buf = Some buf"
| "core_js tab skip (Suc j) xptr wptr buf =
     do { buf \<leftarrow> core_body tab skip xptr wptr buf; core_js tab skip j (xptr + 2) (wptr + 6) buf }"

fun core_is :: "int list \<Rightarrow> nat \<Rightarrow> nat \<Rightarrow> int \<Rightarrow> int \<Rightarrow> int list \<Rightarrow> int list option" where
  "core_is tab loop 0 xptr wtab buf = Some buf"
| "core_is tab loop (Suc i) xptr wtab buf =
     (let skip = 2 * int loop in
      do { buf \<leftarrow> core_js tab skip loop xptr wtab buf;
           core_is tab loop i (xptr + 2 * int loop + 3 * skip) wtab buf })"

function R4Core :: "int list \<Rightarrow> int \<Rightarrow> nat \<Rightarrow> nat \<Rightarrow> int \<Rightarrow> int list \<Rightarrow> int list option" where
  "R4Core tab xbuf step loop wtab buf =
     (if step = 0 then Some buf
      else do { buf \<leftarrow> core_is tab loop step xbuf wtab buf;
                R4Core tab xbuf (step div 4) (loop * 4) (wtab + 3 * (2 * int loop)) buf })"
  by auto
termination by (relation "measure (\<lambda>(tab, xbuf, step, loop, wtab, buf). step)") auto

declare R4Core.simps [simp del]

definition ttRadix4FFT :: "int \<Rightarrow> int \<Rightarrow> int list \<Rightarrow> int list option" where
  "ttRadix4FFT tabidx x buf =
     do { order \<leftarrow> rd nfftlog2Tab tabidx; nfft \<leftarrow> rd nfftTab tabidx;
          buf \<leftarrow> Shuffle x tabidx buf;
          if order AND 1 \<noteq> 0 then
            do { buf \<leftarrow> R8FirstPass x (nat (drop_bit 3 nfft)) buf;
                 R4Core twidTabOdd x (nat (drop_bit 5 nfft)) 8 0 buf }
          else
            do { buf \<leftarrow> R4FirstPass x (nat (drop_bit 2 nfft)) buf;
                 R4Core twidTabEven x (nat (drop_bit 4 nfft)) 4 0 buf } }"

section \<open>The rotations\<close>

definition pre_rot :: "int \<Rightarrow> int \<Rightarrow> int \<Rightarrow> int \<Rightarrow> int \<times> int" where
  "pre_rot cps2 sin2 ar ai =
     (let t = MULHIGH sin2 (s32 (ar + ai)); z2 = s32 (MULHIGH cps2 ai - t);
          cms2 = s32 (cps2 - s32 (2 * sin2)); z1 = s32 (MULHIGH cms2 ar + t) in (z1, z2))"

fun pre_loop :: "nat \<Rightarrow> int \<Rightarrow> int \<Rightarrow> int \<Rightarrow> int list \<Rightarrow> int list option" where
  "pre_loop 0 zbuf1 zbuf2 csptr buf = Some buf"
| "pre_loop (Suc i) zbuf1 zbuf2 csptr buf =
     do { cs \<leftarrow> rd_block cos4sin4tab csptr 4;
          ar1 \<leftarrow> rd buf zbuf1; ai2 \<leftarrow> rd buf (zbuf1 + 1); ai1 \<leftarrow> rd buf zbuf2; ar2 \<leftarrow> rd buf (zbuf2 - 1);
          let (z1, z2) = pre_rot (cs ! 0) (cs ! 1) ar1 ai1;
          buf \<leftarrow> wr buf zbuf1 z1; buf \<leftarrow> wr buf (zbuf1 + 1) z2;
          let (z1, z2) = pre_rot (cs ! 2) (cs ! 3) ar2 ai2;
          buf \<leftarrow> wr buf zbuf2 z2; buf \<leftarrow> wr buf (zbuf2 - 1) z1;
          pre_loop i (zbuf1 + 2) (zbuf2 - 2) (csptr + 4) buf }"

definition PreMultiply :: "int \<Rightarrow> int \<Rightarrow> int list \<Rightarrow> int list option" where
  "PreMultiply tabidx zbuf1 buf =
     do { nmdct \<leftarrow> rd nmdctTab tabidx; off \<leftarrow> rd cos4sin4tabOffset tabidx;
          pre_loop (nat (drop_bit 2 nmdct)) zbuf1 (zbuf1 + nmdct - 1) off buf }"

fun pre_scale_loop :: "nat \<Rightarrow> int \<Rightarrow> int \<Rightarrow> int \<Rightarrow> int \<Rightarrow> int list \<Rightarrow> int list option" where
  "pre_scale_loop 0 es zbuf1 zbuf2 csptr buf = Some buf"
| "pre_scale_loop (Suc i) es zbuf1 zbuf2 csptr buf =
     do { cs \<leftarrow> rd_block cos4sin4tab csptr 4;
          v \<leftarrow> rd buf zbuf1; ar1 \<leftarrow> sar v es; v \<leftarrow> rd buf zbuf2; ai1 \<leftarrow> sar v es; v \<leftarrow> rd buf (zbuf1 + 1); ai2 \<leftarrow> sar v es;
          let (z1, z2) = pre_rot (cs ! 0) (cs ! 1) ar1 ai1;
          buf \<leftarrow> wr buf zbuf1 z1; buf \<leftarrow> wr buf (zbuf1 + 1) z2;
          v \<leftarrow> rd buf (zbuf2 - 1); ar2 \<leftarrow> sar v es;
          let (z1, z2) = pre_rot (cs ! 2) (cs ! 3) ar2 ai2;
          buf \<leftarrow> wr buf zbuf2 z2; buf \<leftarrow> wr buf (zbuf2 - 1) z1;
          pre_scale_loop i es (zbuf1 + 2) (zbuf2 - 2) (csptr + 4) buf }"

definition PreMultiplyRescale :: "int \<Rightarrow> int \<Rightarrow> int \<Rightarrow> int list \<Rightarrow> int list option" where
  "PreMultiplyRescale tabidx zbuf1 es buf =
     do { nmdct \<leftarrow> rd nmdctTab tabidx; off \<leftarrow> rd cos4sin4tabOffset tabidx;
          pre_scale_loop (nat (drop_bit 2 nmdct)) es zbuf1 (zbuf1 + nmdct - 1) off buf }"

text \<open>Each round reads the factors of the next one; \<open>csptr += skipFactor\<close> moves from the second of them.\<close>

fun post_loop :: "nat \<Rightarrow> int \<Rightarrow> int \<Rightarrow> int \<Rightarrow> int \<Rightarrow> int \<Rightarrow> int \<Rightarrow> int \<Rightarrow> int list \<Rightarrow> int list option" where
  "post_loop 0 skip cps2 sin2 cms2 fft1 fft2 csptr buf = Some buf"
| "post_loop (Suc i) skip cps2 sin2 cms2 fft1 fft2 csptr buf =
     do { ar1 \<leftarrow> rd buf fft1; ai1 \<leftarrow> rd buf (fft1 + 1); ar2 \<leftarrow> rd buf (fft2 - 1); ai2 \<leftarrow> rd buf fft2;
          let t = MULHIGH sin2 (s32 (ar1 + ai1));
          buf \<leftarrow> wr buf fft2 (s32 (t - MULHIGH cps2 ai1));
          buf \<leftarrow> wr buf fft1 (s32 (t + MULHIGH cms2 ar1));
          cps2 \<leftarrow> rd cos1sin1tab csptr; sin2 \<leftarrow> rd cos1sin1tab (csptr + 1);
          let ai2 = s32 (- ai2);
          let t = MULHIGH sin2 (s32 (ar2 + ai2));
          buf \<leftarrow> wr buf (fft2 - 1) (s32 (t - MULHIGH cps2 ai2));
          let cms2 = s32 (cps2 - s32 (2 * sin2));
          buf \<leftarrow> wr buf (fft1 + 1) (s32 (t + MULHIGH cms2 ar2));
          post_loop i skip cps2 sin2 cms2 (fft1 + 2) (fft2 - 2) (csptr + 1 + skip) buf }"

definition PostMultiply :: "int \<Rightarrow> int \<Rightarrow> int list \<Rightarrow> int list option" where
  "PostMultiply tabidx fft1 buf =
     do { nmdct \<leftarrow> rd nmdctTab tabidx; skip \<leftarrow> rd postSkip tabidx;
          cps2 \<leftarrow> rd cos1sin1tab 0; sin2 \<leftarrow> rd cos1sin1tab 1;
          post_loop (nat (drop_bit 2 nmdct)) skip cps2 sin2 (s32 (cps2 - s32 (2 * sin2))) fft1 (fft1 + nmdct - 1) (1 + skip) buf }"

definition CLIP_2N_SHIFT :: "int \<Rightarrow> int \<Rightarrow> int option" where
  "CLIP_2N_SHIFT y n =
     (let sgn = drop_bit 31 y in
      do { top \<leftarrow> sar y (30 - n); if sgn \<noteq> top then Some (sgn XOR 0x3fffffff) else sal y n })"

fun post_scale_loop :: "nat \<Rightarrow> int \<Rightarrow> int \<Rightarrow> int \<Rightarrow> int \<Rightarrow> int \<Rightarrow> int \<Rightarrow> int \<Rightarrow> int list \<Rightarrow> int list option" where
  "post_scale_loop 0 skip es cs2 sin2 fft1 fft2 csptr buf = Some buf"
| "post_scale_loop (Suc i) skip es cs2 sin2 fft1 fft2 csptr buf =
     do { ar1 \<leftarrow> rd buf fft1; ai1 \<leftarrow> rd buf (fft1 + 1); ai2 \<leftarrow> rd buf fft2;
          let t = MULHIGH sin2 (s32 (ar1 + ai1));
          z \<leftarrow> CLIP_2N_SHIFT (s32 (t - MULHIGH cs2 ai1)) es; buf \<leftarrow> wr buf fft2 z;
          let cs2 = s32 (cs2 - s32 (2 * sin2));
          z \<leftarrow> CLIP_2N_SHIFT (s32 (t + MULHIGH cs2 ar1)) es; buf \<leftarrow> wr buf fft1 z;
          cs2 \<leftarrow> rd cos1sin1tab csptr; sin2 \<leftarrow> rd cos1sin1tab (csptr + 1);
          ar2 \<leftarrow> rd buf (fft2 - 1);
          let ai2 = s32 (- ai2);
          let t = MULHIGH sin2 (s32 (ar2 + ai2));
          z \<leftarrow> CLIP_2N_SHIFT (s32 (t - MULHIGH cs2 ai2)) es; buf \<leftarrow> wr buf (fft2 - 1) z;
          let cs2 = s32 (cs2 - s32 (2 * sin2));
          z \<leftarrow> CLIP_2N_SHIFT (s32 (t + MULHIGH cs2 ar2)) es; buf \<leftarrow> wr buf (fft1 + 1) z;
          let cs2 = s32 (cs2 + s32 (2 * sin2));
          post_scale_loop i skip es cs2 sin2 (fft1 + 2) (fft2 - 2) (csptr + 1 + skip) buf }"

definition PostMultiplyRescale :: "int \<Rightarrow> int \<Rightarrow> int \<Rightarrow> int list \<Rightarrow> int list option" where
  "PostMultiplyRescale tabidx fft1 es buf =
     do { nmdct \<leftarrow> rd nmdctTab tabidx; skip \<leftarrow> rd postSkip tabidx;
          cs2 \<leftarrow> rd cos1sin1tab 0; sin2 \<leftarrow> rd cos1sin1tab 1;
          post_scale_loop (nat (drop_bit 2 nmdct)) skip es cs2 sin2 fft1 (fft1 + nmdct - 1) (1 + skip) buf }"

text \<open>A block with fewer than four guard bits is scaled down before and up behind the transform.\<close>

definition GBITS_IN_DCT4 :: int where "GBITS_IN_DCT4 = 4"

definition ttIMDCT :: "int \<Rightarrow> int \<Rightarrow> int \<Rightarrow> int list \<Rightarrow> int list option" where
  "ttIMDCT tabidx coef_pos gb buf =
     (if gb < GBITS_IN_DCT4 then
        (let es = GBITS_IN_DCT4 - gb in
         do { buf \<leftarrow> PreMultiplyRescale tabidx coef_pos es buf;
              buf \<leftarrow> ttRadix4FFT tabidx coef_pos buf;
              PostMultiplyRescale tabidx coef_pos es buf })
      else
        do { buf \<leftarrow> PreMultiply tabidx coef_pos buf;
             buf \<leftarrow> ttRadix4FFT tabidx coef_pos buf;
             PostMultiply tabidx coef_pos buf })"

section \<open>The region of a transform\<close>

text \<open>\<open>ys\<close> comes from \<open>xs\<close> by changes to the \<open>n\<close> entries from \<open>p\<close> on, which are all inside the array.\<close>

definition region :: "int \<Rightarrow> int \<Rightarrow> 'a list \<Rightarrow> 'a list \<Rightarrow> bool" where
  "region p n xs ys \<longleftrightarrow> 0 \<le> p \<and> p + n \<le> int (length xs) \<and> length ys = length xs
     \<and> (\<forall>i. (int i < p \<or> p + n \<le> int i) \<and> i < length xs \<longrightarrow> ys ! i = xs ! i)"

lemma region_refl: "0 \<le> p \<Longrightarrow> p + n \<le> int (length xs) \<Longrightarrow> region p n xs xs"
  by (simp add: region_def)

lemma region_length: "region p n xs ys \<Longrightarrow> length ys = length xs"
  by (simp add: region_def)

lemma region_upd [intro]: "region p n xs ys \<Longrightarrow> p \<le> k \<Longrightarrow> k < p + n \<Longrightarrow> region p n xs (ys[nat k := v])"
  by (auto simp: region_def nth_list_update)

lemma region_overwrite:
  assumes "region p n xs ys" "p \<le> k" "k + int (length vs) \<le> p + n"
  shows "region p n xs (overwrite ys k vs)"
proof -
  have "overwrite ys k vs ! i = ys ! i" if "int i < p \<or> p + n \<le> int i" "i < length ys" for i
    using assms that by (auto simp: overwrite_def nth_append region_def)
  then show ?thesis using assms by (auto simp: region_def)
qed

lemma wp_region_rd: "region p n xs ys \<Longrightarrow> p \<le> k \<Longrightarrow> k < p + n \<Longrightarrow> wp (rd ys k) Q = Q (ys ! nat k)"
  by (simp add: region_def)

lemma wp_region_wr: "region p n xs ys \<Longrightarrow> p \<le> k \<Longrightarrow> k < p + n \<Longrightarrow> wp (wr ys k v) Q = Q (ys[nat k := v])"
  by (simp add: region_def)

lemma wp_rd_block: "0 \<le> k \<Longrightarrow> k + int n \<le> int (length ys) \<Longrightarrow> wp (rd_block ys k n) Q = Q (take n (drop (nat k) ys))"
  by (simp add: rd_block_def)

lemma wp_wr_region:
  assumes "region p n xs ys" "p \<le> k" "k < p + n" "\<And>zs. region p n xs zs \<Longrightarrow> wp (f zs) Q"
  shows "wp (Option.bind (wr ys k v) f) Q"
  using assms by (simp add: wp_region_wr region_upd)

lemma wp_rd_region:
  assumes "region p n xs ys" "p \<le> k" "k < p + n" "\<And>v. wp (f v) Q"
  shows "wp (Option.bind (rd ys k) f) Q"
  using assms by (simp add: wp_region_rd)

lemma wp_Let: "(\<And>v. wp (f v) Q) \<Longrightarrow> wp (Let x f) Q"
  by simp

lemma wp_case_prod: "(\<And>a b. wp (f a b) Q) \<Longrightarrow> wp (case x of (a, b) \<Rightarrow> f a b) Q"
  by (cases x) simp

lemma wp_wr_end: "region p n xs ys \<Longrightarrow> p \<le> k \<Longrightarrow> k < p + n \<Longrightarrow> wp (wr ys k v) (region p n xs)"
  by (simp add: wp_region_wr region_upd)

lemmas region_run = wp_Let wp_case_prod wp_rd_region wp_wr_region wp_wr_end

lemma wp_bind_region: "wp m (region p n xs) \<Longrightarrow> (\<And>zs. region p n xs zs \<Longrightarrow> wp (f zs) Q) \<Longrightarrow> wp (Option.bind m f) Q"
  by (auto intro: wp_mono)

lemma swap2_region:
  assumes "region p n xs ys" "p \<le> i" "i + 1 < p + n" "p \<le> j" "j + 1 < p + n"
  shows "wp (swap2 i j ys) (region p n xs)"
  unfolding swap2_def by (intro region_run) (use assms in auto)

text \<open>The table of the bit reversal keeps the exchanges inside the block: of \<open>2 m\<close> entries for indices up to \<open>m div 4\<close>.\<close>

fun pairs_fit :: "int \<Rightarrow> int list \<Rightarrow> bool" where
  "pairs_fit m [] = False"
| "pairs_fit m (l # ts) =
     (if l = 0 then 0 \<in> set ts \<and> list_all (\<lambda>t. 0 \<le> t \<and> 4 * t + 3 < m) (takeWhile (\<lambda>t. t \<noteq> 0) ts)
      else (case ts of [] \<Rightarrow> False | h # ts \<Rightarrow> 0 \<le> l \<and> 4 * l + 3 < m \<and> 0 \<le> h \<and> 4 * h + 3 < m \<and> pairs_fit m ts))"

lemma shuffle_ones_region:
  "region p n xs ys \<Longrightarrow> n = 2 * m \<Longrightarrow> 0 \<le> l \<Longrightarrow> 4 * l + 3 < m \<Longrightarrow> 0 \<in> set ts \<Longrightarrow> list_all (\<lambda>t. 0 \<le> t \<and> 4 * t + 3 < m) (takeWhile (\<lambda>t. t \<noteq> 0) ts) \<Longrightarrow>
   wp (shuffle_ones l ts p (p + m) ys) (region p n xs)"
proof (induction ts arbitrary: l ys)
  case (Cons l' ts)
  show ?case
    unfolding shuffle_ones.simps
    by (rule wp_bind_region [OF swap2_region]) (use Cons in auto)
qed simp

lemma shuffle_pairs_region:
  "pairs_fit m ts \<Longrightarrow> region p n xs ys \<Longrightarrow> n = 2 * m \<Longrightarrow>
   wp (shuffle_pairs ts p (p + m) ys) (\<lambda>(ts', ys'). region p n xs ys' \<and> 0 \<in> set ts' \<and> list_all (\<lambda>t. 0 \<le> t \<and> 4 * t + 3 < m) (takeWhile (\<lambda>t. t \<noteq> 0) ts'))"
proof (induction m ts arbitrary: ys rule: pairs_fit.induct)
  case (2 m l ts)
  show ?case
  proof (cases "l = 0")
    case True
    then show ?thesis using 2 by simp
  next
    case False
    then obtain h us where ts: "ts = h # us" using 2 by (cases ts) auto
    have b: "0 \<le> l" "4 * l + 3 < m" "0 \<le> h" "4 * h + 3 < m" "pairs_fit m us" using 2(2) False ts by auto
    note IH = 2(1) [OF False ts b(5) _ 2(4)]
    have sw: "region p n xs zs \<Longrightarrow> i \<in> {4 * l, 4 * l + 2, m + 4 * l, m + (4 * l + 2)} \<Longrightarrow> j \<in> {4 * h, 4 * h + 2, m + 4 * h, m + (4 * h + 2)} \<Longrightarrow>
        wp (swap2 (p + i) (p + j) zs) (region p n xs)" for zs i j
      using b 2(4) by (intro swap2_region) auto
    have "wp (shuffle_pairs (l # h # us) p (p + m) ys) (\<lambda>(ts', ys'). region p n xs ys' \<and> 0 \<in> set ts' \<and> list_all (\<lambda>t. 0 \<le> t \<and> 4 * t + 3 < m) (takeWhile (\<lambda>t. t \<noteq> 0) ts'))"
      unfolding shuffle_pairs.simps using False
      by (simp only: if_False list.case add.assoc) (intro wp_bind_region [OF sw] IH 2(3); simp)
    then show ?thesis unfolding ts .
  qed
qed simp

lemma pairs_fit_tab: "pairs_fit 64 BitRevTab" "pairs_fit 512 (drop 17 BitRevTab)"
  by (simp_all add: BitRevTab_def)

text \<open>The two transforms.\<close>

definition fft_ok :: "int \<Rightarrow> int \<Rightarrow> bool" where
  "fft_ok tabidx n \<longleftrightarrow> tabidx = 0 \<and> n = 128 \<or> tabidx = 1 \<and> n = 1024"

lemma Shuffle_region:
  assumes "fft_ok idx n" "region p n xs ys"
  shows "wp (Shuffle p idx ys) (region p n xs)"
proof -
  have "wp (Shuffle p idx ys) (region p n xs)" if "(ts, m) = (if idx \<noteq> 0 then (drop 17 BitRevTab, 512) else (BitRevTab, 64))" "n = 2 * m" "pairs_fit m ts" "3 < m" for ts m
  proof -
    have "wp (shuffle_pairs ts p (p + m) ys) (\<lambda>(ts', ys'). wp (shuffle_ones 0 ts' p (p + m) ys') (region p n xs))"
      using shuffle_pairs_region [OF that(3) assms(2) that(2)]
    proof (rule wp_mono, safe)
      fix ts' ys'
      assume "region p n xs ys'" "0 \<in> set ts'" "list_all (\<lambda>t. 0 \<le> t \<and> 4 * t + 3 < m) (takeWhile (\<lambda>t. t \<noteq> 0) ts')"
      moreover have "4 * 0 + 3 < m" using that(4) by simp
      ultimately show "wp (shuffle_ones 0 ts' p (p + m) ys') (region p n xs)" using that(2) by (intro shuffle_ones_region) auto
    qed
    then show ?thesis unfolding Shuffle_def that(1) [symmetric] by (simp add: case_prod_beta')
  qed
  from this [of "drop 17 BitRevTab" 512] this [of BitRevTab 64] show ?thesis
    using assms(1) pairs_fit_tab by (auto simp: fft_ok_def)
qed

lemma block_loop_region:
  assumes "\<And>vs. length vs = m \<Longrightarrow> length (f vs) = m"
  shows "region p n xs ys \<Longrightarrow> p \<le> x \<Longrightarrow> x + int m * int k \<le> p + n \<Longrightarrow> wp (block_loop f m k x ys) (region p n xs)"
proof (induction k arbitrary: x ys)
  case (Suc k)
  define q where "q = int m * int k"
  have "0 \<le> q" "x + int m + q \<le> p + n" using Suc.prems(3) by (simp_all add: q_def algebra_simps)
  then have r: "0 \<le> x" "x + int m \<le> int (length ys)" "length ys = length xs" "x + int m \<le> p + n"
    using Suc.prems(1,2) by (auto simp: region_def)
  define vs where "vs = take m (drop (nat x) ys)"
  have vs: "length (f vs) = m" using r by (intro assms) (simp add: vs_def)
  have "region p n xs (overwrite ys x (f vs))" using Suc.prems r vs by (intro region_overwrite) auto
  then have "wp (block_loop f m k (x + int m) (overwrite ys x (f vs))) (region p n xs)"
    using Suc.prems by (intro Suc.IH) (auto simp: algebra_simps)
  then show ?case using r vs by (simp add: rd_block_def wr_block_def vs_def [symmetric])
qed simp

lemma pair_region:
  assumes "region p n xs ys" "p \<le> k" "k + 1 < p + n"
  shows "wp (rd_pair ys k) Q \<longleftrightarrow> Q (ys ! nat k, ys ! nat (k + 1))" "wp (wr_pair ys k r i) (region p n xs)"
proof -
  show "wp (rd_pair ys k) Q \<longleftrightarrow> Q (ys ! nat k, ys ! nat (k + 1))"
    using assms by (simp add: rd_pair_def wp_region_rd [OF assms(1)])
  show "wp (wr_pair ys k r i) (region p n xs)"
    unfolding wr_pair_def by (intro region_run) (use assms in auto)
qed

lemma wp_rd_pair_region:
  assumes "region p n xs ys" "p \<le> k" "k + 1 < p + n" "\<And>v. wp (f v) Q"
  shows "wp (Option.bind (rd_pair ys k) f) Q"
  using assms pair_region(1) [OF assms(1-3)] by simp

lemma wp_rd_block_bind:
  "0 \<le> k \<Longrightarrow> k + int n \<le> int (length ys) \<Longrightarrow> (\<And>v. wp (f v) Q) \<Longrightarrow> wp (Option.bind (rd_block ys k n) f) Q"
  by (simp add: rd_block_def)

lemma core_body_region:
  assumes "region p n xs ys" "p \<le> x" "0 \<le> skip" "x + 3 * skip + 1 < p + n" "0 \<le> w" "w + 6 \<le> int (length tab)"
  shows "wp (core_body tab skip x w ys) (region p n xs)"
  unfolding core_body_def
  by (intro wp_Let wp_case_prod wp_rd_pair_region [OF assms(1)] wp_rd_block_bind wp_bind_region [OF pair_region(2)] pair_region(2))
    (use assms in auto)

lemma core_js_region:
  "region p n xs ys \<Longrightarrow> p \<le> x \<Longrightarrow> 0 \<le> skip \<Longrightarrow> x + 2 * int j + 3 * skip \<le> p + n \<Longrightarrow> 0 \<le> w \<Longrightarrow> w + 6 * int j \<le> int (length tab) \<Longrightarrow>
   wp (core_js tab skip j x w ys) (region p n xs)"
proof (induction j arbitrary: x w ys)
  case (Suc j)
  show ?case
    unfolding core_js.simps by (rule wp_bind_region [OF core_body_region]) (use Suc in auto)
qed simp

lemma core_is_region:
  "region p n xs ys \<Longrightarrow> p \<le> x \<Longrightarrow> x + 8 * int loop * int i \<le> p + n \<Longrightarrow> 0 \<le> w \<Longrightarrow> w + 6 * int loop \<le> int (length tab) \<Longrightarrow>
   wp (core_is tab loop i x w ys) (region p n xs)"
proof (induction i arbitrary: x ys)
  case (Suc i)
  define q where "q = 8 * int loop * int i"
  have "0 \<le> q" "x + 8 * int loop + q \<le> p + n" using Suc.prems(3) by (simp_all add: q_def algebra_simps)
  then have b: "x + 8 * int loop \<le> p + n" by linarith
  have b': "x + 8 * int loop + 8 * int loop * int i \<le> p + n" using \<open>x + 8 * int loop + q \<le> p + n\<close> by (simp add: q_def)
  show ?case
    unfolding core_is.simps Let_def
    by (rule wp_bind_region [OF core_js_region]) (use Suc.prems Suc.IH b b' in auto)
qed simp

text \<open>The passes of a transform: three or two of them for the sizes of the code.\<close>

fun passes_fit :: "int \<Rightarrow> int \<Rightarrow> nat list \<Rightarrow> nat \<Rightarrow> int \<Rightarrow> bool" where
  "passes_fit n len [] loop w = True"
| "passes_fit n len (step # ss) loop w = (8 * int loop * int step \<le> n \<and> w + 6 * int loop \<le> len
     \<and> passes_fit n len ss (loop * 4) (w + 6 * int loop))"

fun quarters :: "nat \<Rightarrow> nat list \<Rightarrow> bool" where
  "quarters step [] = (step = 0)"
| "quarters step (s # ss) = (step = s \<and> s \<noteq> 0 \<and> quarters (step div 4) ss)"

lemma R4Core_region:
  "quarters step ss \<Longrightarrow> passes_fit n (int (length tab)) ss loop w \<Longrightarrow> region p n xs ys \<Longrightarrow> 0 \<le> w \<Longrightarrow>
   wp (R4Core tab p step loop w ys) (region p n xs)"
proof (induction ss arbitrary: step loop w ys)
  case (Cons s ss)
  have s: "step = s" "s \<noteq> 0" "quarters (s div 4) ss" using Cons.prems(1) by auto
  show ?case
    unfolding R4Core.simps [of tab p step loop w] using s
    by (simp only: if_False) (rule wp_bind_region [OF core_is_region [OF Cons.prems(3)]]; use Cons.prems Cons.IH s in auto)
qed (simp add: R4Core.simps)

lemma r4_length: "length (r4_block vs) = 8"
  by (simp add: r4_block_def Let_def)

lemma r8_length: "length (r8_block vs) = 16"
  by (simp add: r8_block_def Let_def)

lemma fft_region:
  assumes "fft_ok idx n" "region p n xs ys"
  shows "wp (ttRadix4FFT idx p ys) (region p n xs)"
proof -
  have 8: "wp (R8FirstPass p 64 ys') (region p 1024 xs)" "wp (R4Core twidTabOdd p 16 8 0 ys') (region p 1024 xs)"
    if "region p 1024 xs ys'" for ys'
  proof -
    show "wp (R8FirstPass p 64 ys') (region p 1024 xs)"
      unfolding R8FirstPass_def using that by (intro block_loop_region) (simp_all add: r8_length)
    show "wp (R4Core twidTabOdd p 16 8 0 ys') (region p 1024 xs)"
      using that by (intro R4Core_region [where ss = "[16, 4, 1]"]) simp_all
  qed
  have 4: "wp (R4FirstPass p 16 ys') (region p 128 xs)" "wp (R4Core twidTabEven p 4 4 0 ys') (region p 128 xs)"
    if "region p 128 xs ys'" for ys'
  proof -
    show "wp (R4FirstPass p 16 ys') (region p 128 xs)"
      unfolding R4FirstPass_def using that by (intro block_loop_region) (simp_all add: r4_length)
    show "wp (R4Core twidTabEven p 4 4 0 ys') (region p 128 xs)"
      using that by (intro R4Core_region [where ss = "[4, 1]"]) simp_all
  qed
  consider "idx = 0" "n = 128" | "idx = 1" "n = 1024" using assms(1) by (auto simp: fft_ok_def)
  then show ?thesis
  proof cases
    case 1
    have "ttRadix4FFT idx p ys = do { ys \<leftarrow> Shuffle p idx ys; ys \<leftarrow> R4FirstPass p 16 ys; R4Core twidTabEven p 4 4 0 ys }"
      using 1(1) by (simp add: ttRadix4FFT_def rd_def nfftlog2Tab_def nfftTab_def)
    then show ?thesis using assms 1 4 by (auto intro!: wp_bind_region [OF Shuffle_region] wp_bind_region [OF 4(1)] simp del: wp_bind)
  next
    case 2
    have "ttRadix4FFT idx p ys = do { ys \<leftarrow> Shuffle p idx ys; ys \<leftarrow> R8FirstPass p 64 ys; R4Core twidTabOdd p 16 8 0 ys }"
      using 2(1) by (simp add: ttRadix4FFT_def rd_def nfftlog2Tab_def nfftTab_def)
    then show ?thesis using assms 2 8 by (auto intro!: wp_bind_region [OF Shuffle_region] wp_bind_region [OF 8(1)] simp del: wp_bind)
  qed
qed

text \<open>The rotations work from both ends of the block.\<close>

lemma pre_loop_region:
  "region p n xs ys \<Longrightarrow> p \<le> z \<Longrightarrow> z + 2 * int i \<le> p + n \<Longrightarrow> z' < p + n \<Longrightarrow> p + 2 * int i \<le> z' + 1 \<Longrightarrow> 0 \<le> c \<Longrightarrow> c + 4 * int i \<le> 1152 \<Longrightarrow>
   wp (pre_loop i z z' c ys) (region p n xs)"
proof (induction i arbitrary: z z' c ys)
  case (Suc i)
  show ?case
    unfolding pre_loop.simps
    by (intro wp_rd_block_bind region_run Suc.IH) (use Suc.prems in auto)
qed simp

lemma wp_sar: "0 \<le> n \<Longrightarrow> n < 32 \<Longrightarrow> (\<And>v. wp (f v) Q) \<Longrightarrow> wp (Option.bind (sar x n) f) Q"
  by (simp add: sar_def)

lemma pre_scale_region:
  "region p n xs ys \<Longrightarrow> 0 \<le> es \<Longrightarrow> es < 32 \<Longrightarrow> p \<le> z \<Longrightarrow> z + 2 * int i \<le> p + n \<Longrightarrow> z' < p + n \<Longrightarrow> p + 2 * int i \<le> z' + 1 \<Longrightarrow> 0 \<le> c \<Longrightarrow> c + 4 * int i \<le> 1152 \<Longrightarrow>
   wp (pre_scale_loop i es z z' c ys) (region p n xs)"
proof (induction i arbitrary: z z' c ys)
  case (Suc i)
  show ?case
    unfolding pre_scale_loop.simps
    by (intro wp_rd_block_bind wp_sar region_run Suc.IH) (use Suc.prems in auto)
qed simp

text \<open>The place of the factors: \<open>i\<close> rounds read two each, \<open>skip + 1\<close> apart.\<close>

definition factors_left :: "nat \<Rightarrow> int \<Rightarrow> int \<Rightarrow> bool" where
  "factors_left i skip c \<longleftrightarrow> 0 \<le> c \<and> 0 \<le> skip \<and> c + (1 + skip) * int i \<le> 513 + skip"

lemma factors_step:
  assumes "factors_left (Suc i) skip c"
  shows "c + 1 < 514" "0 \<le> c" "factors_left i skip (c + 1 + skip)"
proof -
  define q where "q = (1 + skip) * int i"
  have "0 \<le> q" "c + (1 + skip) + q \<le> 513 + skip" using assms by (simp_all add: q_def factors_left_def algebra_simps)
  then show "c + 1 < 514" by linarith
  show "0 \<le> c" "factors_left i skip (c + 1 + skip)" using assms by (simp_all add: factors_left_def algebra_simps)
qed

lemma wp_factor: "0 \<le> c \<Longrightarrow> c < 514 \<Longrightarrow> (\<And>v. wp (f v) Q) \<Longrightarrow> wp (Option.bind (rd cos1sin1tab c) f) Q"
  by simp

lemma post_loop_region:
  "region p n xs ys \<Longrightarrow> factors_left i skip c \<Longrightarrow> p \<le> z \<Longrightarrow> z + 2 * int i \<le> p + n \<Longrightarrow> z' < p + n \<Longrightarrow> p + 2 * int i \<le> z' + 1 \<Longrightarrow>
   wp (post_loop i skip u v w z z' c ys) (region p n xs)"
proof (induction i arbitrary: u v w z z' c ys)
  case (Suc i)
  note fac = factors_step [OF Suc.prems(2)]
  show ?case
    unfolding post_loop.simps
    by (intro wp_factor region_run Suc.IH) (use Suc.prems fac in auto)
qed simp

lemma wp_clip: "0 \<le> n \<Longrightarrow> n \<le> 30 \<Longrightarrow> (\<And>v. wp (f v) Q) \<Longrightarrow> wp (Option.bind (CLIP_2N_SHIFT y n) f) Q"
  by (simp add: CLIP_2N_SHIFT_def sar_def sal_def Let_def)

lemma post_scale_region:
  "region p n xs ys \<Longrightarrow> factors_left i skip c \<Longrightarrow> 0 \<le> es \<Longrightarrow> es \<le> 30 \<Longrightarrow> p \<le> z \<Longrightarrow> z + 2 * int i \<le> p + n \<Longrightarrow> z' < p + n \<Longrightarrow> p + 2 * int i \<le> z' + 1 \<Longrightarrow>
   wp (post_scale_loop i skip es u v z z' c ys) (region p n xs)"
proof (induction i arbitrary: u v z z' c ys)
  case (Suc i)
  note fac = factors_step [OF Suc.prems(2)]
  show ?case
    unfolding post_scale_loop.simps
    by (intro wp_factor wp_clip region_run Suc.IH) (use Suc.prems fac in auto)
qed simp

lemma fft_ok_cases:
  assumes "fft_ok idx n"
  shows "rd nmdctTab idx = Some n" "nat (drop_bit 2 n) = nat n div 4" "\<exists>off. rd cos4sin4tabOffset idx = Some off \<and> 0 \<le> off \<and> off + n \<le> 1152"
    "\<exists>skip. rd postSkip idx = Some skip \<and> factors_left (nat n div 4) skip (1 + skip)"
  using assms by (auto simp: fft_ok_def rd_def nmdctTab_def cos4sin4tabOffset_def postSkip_def factors_left_def drop_bit_eq_div)

lemma ttIMDCT_region:
  assumes "fft_ok idx n" "region p n xs ys" "- 26 \<le> gb"
  shows "wp (ttIMDCT idx p gb ys) (region p n xs)"
proof -
  note f = fft_ok_cases [OF assms(1)]
  obtain off skip where t: "rd cos4sin4tabOffset idx = Some off" "0 \<le> off" "off + n \<le> 1152" "rd postSkip idx = Some skip"
      "factors_left (nat n div 4) skip (1 + skip)"
    using f by blast
  have n: "2 * int (nat n div 4) \<le> n" "4 * int (nat n div 4) \<le> n" "0 \<le> n" using assms(1) by (auto simp: fft_ok_def)
  have c: "rd cos1sin1tab 0 = Some (cos1sin1tab ! 0)" "rd cos1sin1tab 1 = Some (cos1sin1tab ! 1)"
    by (simp_all add: rd_def)
  note tabs = f(1,2) t(1,4) c bind.bind_lunit
  show ?thesis
  proof (cases "gb < GBITS_IN_DCT4")
    case True
    let ?es = "GBITS_IN_DCT4 - gb"
    have es: "0 \<le> ?es" "?es \<le> 30" using True assms(3) by (simp_all add: GBITS_IN_DCT4_def)
    have r: "wp (PreMultiplyRescale idx p ?es zs) (region p n xs)" "wp (PostMultiplyRescale idx p ?es zs) (region p n xs)" if "region p n xs zs" for zs
      unfolding PreMultiplyRescale_def PostMultiplyRescale_def tabs
      using es n t that by (intro pre_scale_region post_scale_region; simp)+
    show ?thesis
      unfolding ttIMDCT_def Let_def using True
      by (simp only: if_True) (rule wp_bind_region [OF r(1) [OF assms(2)]], rule wp_bind_region [OF fft_region [OF assms(1)]], assumption, rule r(2))
  next
    case False
    have r: "wp (PreMultiply idx p zs) (region p n xs)" "wp (PostMultiply idx p zs) (region p n xs)" if "region p n xs zs" for zs
      unfolding PreMultiply_def PostMultiply_def tabs
      using n t that by (intro pre_loop_region post_loop_region; simp)+
    show ?thesis
      unfolding ttIMDCT_def Let_def using False
      by (simp only: if_False) (rule wp_bind_region [OF r(1) [OF assms(2)]], rule wp_bind_region [OF fft_region [OF assms(1)]], assumption, rule r(2))
  qed
qed

end
