(* ===== verification/Windows.thy ===== *)
theory Windows
  imports Transform
begin

unbundle bit_operations_syntax

text \<open>
  Window and overlap-add of the filter bank, \<^verbatim>\<open>src/lc_imdct.c\<close>: the four window shapes. The arrays are the
  coefficients of a channel, the overlap buffer of its output channel and the samples; the cursors of the loops, which
  walk from both ends towards the middle, are one record.
\<close>

section \<open>The cursors and the loops\<close>

record Win_Ptrs =
  p_in :: int
  p_in1 :: int
  p_over :: int
  p_over1 :: int
  p_out :: int
  p_out1 :: int
  p_prev :: int
  p_curr :: int

definition advance :: "Win_Ptrs \<Rightarrow> Win_Ptrs" where
  "advance q = \<lparr>p_in = p_in q + 1, p_in1 = p_in1 q - 1, p_over = p_over q + 1, p_over1 = p_over1 q - 1,
     p_out = p_out q + 1, p_out1 = p_out1 q - 1, p_prev = p_prev q + 2, p_curr = p_curr q + 2\<rparr>"

lemma advance_fields [simp]:
  "p_in (advance q) = p_in q + 1" "p_in1 (advance q) = p_in1 q - 1"
  "p_over (advance q) = p_over q + 1" "p_over1 (advance q) = p_over1 q - 1"
  "p_out (advance q) = p_out q + 1" "p_out1 (advance q) = p_out1 q - 1"
  "p_prev (advance q) = p_prev q + 2" "p_curr (advance q) = p_curr q + 2"
  by (simp_all add: advance_def)

text \<open>\<open>for (i = 0; i < n; i++)\<close> and \<open>do \<dots> while (overlap < overlap1)\<close>. A loop advances also the cursors its body does
  not use; they are set anew before the next use.\<close>

fun win_for :: "nat \<Rightarrow> (Win_Ptrs \<Rightarrow> 's \<Rightarrow> 's option) \<Rightarrow> Win_Ptrs \<Rightarrow> 's \<Rightarrow> (Win_Ptrs \<times> 's) option" where
  "win_for 0 body q s = Some (q, s)"
| "win_for (Suc n) body q s = do { s \<leftarrow> body q s; win_for n body (advance q) s }"

lemma win_for_none: "win_for 0 body q = (\<lambda>s. Some (q, s))"
  by (rule ext) simp

function win_do :: "(Win_Ptrs \<Rightarrow> 's \<Rightarrow> 's option) \<Rightarrow> Win_Ptrs \<Rightarrow> 's \<Rightarrow> (Win_Ptrs \<times> 's) option" where
  "win_do body q s =
     do { s \<leftarrow> body q s;
          let q = advance q;
          if p_over q < p_over1 q then win_do body q s else Some (q, s) }"
  by auto
termination by (relation "measure (\<lambda>(body, q, s). nat (p_over1 q - p_over q))") auto

declare win_do.simps [simp del]

text \<open>The loops that end in the middle of a block of \<open>2 m\<close> entries run \<open>m\<close> times.\<close>

lemma win_do_for:
  "0 < m \<Longrightarrow> p_over1 q = p_over q + 2 * int m - 1 \<Longrightarrow> win_do body q s = win_for m body q s"
proof (induction m arbitrary: q s)
  case (Suc m)
  show ?case
  proof (cases "m = 0")
    case True
    then show ?thesis using Suc.prems by (simp add: win_do.simps [of body q s] Let_def win_for_none)
  next
    case False
    have "win_do body (advance q) = win_for m body (advance q)"
      by (rule ext, rule Suc.IH) (use False Suc.prems in auto)
    then show ?thesis using Suc.prems False by (simp add: win_do.simps [of body q s] Let_def)
  qed
qed simp

section \<open>The bodies\<close>

text \<open>Two products with the window, the samples that are finished, and what is kept for the next block.\<close>

definition win_taps :: "int list \<Rightarrow> int \<Rightarrow> int \<Rightarrow> (int \<times> int) option" where
  "win_taps wnd p inData =
     do { win0 \<leftarrow> rd wnd p; win1 \<leftarrow> rd wnd (p + 1); Some (MULHIGH win0 inData, MULHIGH win1 inData) }"

definition emit_add :: "int list \<Rightarrow> int list \<Rightarrow> Win_Ptrs \<Rightarrow> int list \<Rightarrow> int list \<Rightarrow> int list option" where
  "emit_add wndPrev inBuf q overl out =
     do { inData \<leftarrow> rd inBuf (p_in q);
          (tmp0, tmp1) \<leftarrow> win_taps wndPrev (p_prev q) inData;
          inData \<leftarrow> rd overl (p_over q); out \<leftarrow> wr out (p_out q) (s32 (inData - tmp0));
          inData \<leftarrow> rd overl (p_over1 q); wr out (p_out1 q) (s32 (inData + tmp1)) }"

definition store_win :: "int list \<Rightarrow> int \<Rightarrow> int list \<Rightarrow> Win_Ptrs \<Rightarrow> int list \<Rightarrow> int list option" where
  "store_win wnd p inBuf q overl =
     do { inData \<leftarrow> rd inBuf (p_in1 q);
          (tmp0, tmp1) \<leftarrow> win_taps wnd p inData;
          overl \<leftarrow> wr overl (p_over1 q) tmp0; wr overl (p_over q) tmp1 }"

definition same_body :: "int list \<Rightarrow> int list \<Rightarrow> Win_Ptrs \<Rightarrow> int list \<times> int list \<Rightarrow> (int list \<times> int list) option" where
  "same_body wnd inBuf q = (\<lambda>(overl, out).
     do { out \<leftarrow> emit_add wnd inBuf q overl out; overl \<leftarrow> store_win wnd (p_prev q) inBuf q overl; Some (overl, out) })"

definition long_body :: "int list \<Rightarrow> int list \<Rightarrow> int list \<Rightarrow> Win_Ptrs \<Rightarrow> int list \<times> int list \<Rightarrow> (int list \<times> int list) option" where
  "long_body wndPrev wndCurr inBuf q = (\<lambda>(overl, out).
     do { out \<leftarrow> emit_add wndPrev inBuf q overl out; overl \<leftarrow> store_win wndCurr (p_curr q) inBuf q overl; Some (overl, out) })"

definition start_body :: "int list \<Rightarrow> int list \<Rightarrow> Win_Ptrs \<Rightarrow> int list \<times> int list \<Rightarrow> (int list \<times> int list) option" where
  "start_body wndPrev inBuf q = (\<lambda>(overl, out).
     do { out \<leftarrow> emit_add wndPrev inBuf q overl out;
          inData \<leftarrow> rd inBuf (p_in1 q);
          overl \<leftarrow> wr overl (p_over1 q) 0; overl \<leftarrow> wr overl (p_over q) (drop_bit 1 inData); Some (overl, out) })"

definition stop_body :: "int list \<Rightarrow> int list \<Rightarrow> Win_Ptrs \<Rightarrow> int list \<times> int list \<Rightarrow> (int list \<times> int list) option" where
  "stop_body wndCurr inBuf q = (\<lambda>(overl, out).
     do { inData \<leftarrow> rd inBuf (p_in q); let tmp1 = drop_bit 1 inData;
          inData \<leftarrow> rd overl (p_over q); out \<leftarrow> wr out (p_out q) inData;
          inData \<leftarrow> rd overl (p_over1 q); out \<leftarrow> wr out (p_out1 q) (s32 (inData + tmp1));
          overl \<leftarrow> store_win wndCurr (p_curr q) inBuf q overl; Some (overl, out) })"

section \<open>Long blocks\<close>

definition window_of :: "int \<Rightarrow> int list" where
  "window_of winType = (if winType = 1 then kbdWindow else sinWindow)"

definition long_ptrs :: "int \<Rightarrow> int \<Rightarrow> int \<Rightarrow> Win_Ptrs" where
  "long_ptrs out wndPrev wndCurr = \<lparr>p_in = 512, p_in1 = 511, p_over = 0, p_over1 = 1023, p_out = out, p_out1 = out + 1023,
     p_prev = wndPrev, p_curr = wndCurr\<rparr>"

definition WinLong :: "int list \<Rightarrow> int list \<Rightarrow> int \<Rightarrow> int list \<Rightarrow> int \<Rightarrow> int \<Rightarrow> (int list \<times> int list) option" where
  "WinLong inBuf overl out tmpBuf winTypeCurr winTypePrev =
     (let q = long_ptrs out 128 128 in
      if winTypeCurr = winTypePrev
      then map_option snd (win_do (same_body (window_of winTypePrev) inBuf) q (overl, tmpBuf))
      else map_option snd (win_do (long_body (window_of winTypePrev) (window_of winTypeCurr) inBuf) q (overl, tmpBuf)))"

definition WinLongStart :: "int list \<Rightarrow> int list \<Rightarrow> int \<Rightarrow> int list \<Rightarrow> int \<Rightarrow> int \<Rightarrow> (int list \<times> int list) option" where
  "WinLongStart inBuf overl out tmpBuf winTypeCurr winTypePrev =
     do { (q, s) \<leftarrow> win_for 448 (start_body (window_of winTypePrev) inBuf) (long_ptrs out 128 0) (overl, tmpBuf);
          map_option snd (win_do (long_body (window_of winTypePrev) (window_of winTypeCurr) inBuf) (q\<lparr>p_curr := 0\<rparr>) s) }"

definition WinLongStop :: "int list \<Rightarrow> int list \<Rightarrow> int \<Rightarrow> int list \<Rightarrow> int \<Rightarrow> int \<Rightarrow> (int list \<times> int list) option" where
  "WinLongStop inBuf overl out tmpBuf winTypeCurr winTypePrev =
     do { (q, s) \<leftarrow> win_for 448 (stop_body (window_of winTypeCurr) inBuf) (long_ptrs out 0 128) (overl, tmpBuf);
          map_option snd (win_do (long_body (window_of winTypePrev) (window_of winTypeCurr) inBuf) (q\<lparr>p_prev := 0\<rparr>) s) }"

section \<open>Eight short blocks\<close>

text \<open>The later blocks take the window from \<open>wndCurr\<close>. The first four are added to the overlap and written to the
  samples, the fifth half and half, the last three into the overlap.\<close>

definition short_body :: "int list \<Rightarrow> int list \<Rightarrow> Win_Ptrs \<Rightarrow> int list \<times> int list \<Rightarrow> (int list \<times> int list) option" where
  "short_body wnd inBuf q = (\<lambda>(overl, out).
     do { inData \<leftarrow> rd inBuf (p_in q);
          (tmp0, tmp1) \<leftarrow> win_taps wnd (p_curr q) inData;
          a \<leftarrow> rd overl (p_over q - 128); b \<leftarrow> rd overl (p_over q); out \<leftarrow> wr out (p_out q) (s32 (s32 (a + b) - tmp0));
          a \<leftarrow> rd overl (p_over1 q - 128); b \<leftarrow> rd overl (p_over1 q); out \<leftarrow> wr out (p_out1 q) (s32 (s32 (a + b) + tmp1));
          overl \<leftarrow> store_win wnd (p_curr q) inBuf q overl; Some (overl, out) })"

definition middle_body :: "int list \<Rightarrow> int list \<Rightarrow> Win_Ptrs \<Rightarrow> int list \<times> int list \<Rightarrow> (int list \<times> int list) option" where
  "middle_body wnd inBuf q = (\<lambda>(overl, out).
     do { inData \<leftarrow> rd inBuf (p_in q);
          (tmp0, tmp1) \<leftarrow> win_taps wnd (p_curr q) inData;
          a \<leftarrow> rd overl (p_over q + 768); b \<leftarrow> rd overl (p_over q + 896); out \<leftarrow> wr out (p_out q) (s32 (s32 (a + b) - tmp0));
          a \<leftarrow> rd overl (p_over1 q + 768); overl \<leftarrow> wr overl (p_over1 q - 128) (s32 (a + tmp1));
          overl \<leftarrow> store_win wnd (p_curr q) inBuf q overl; Some (overl, out) })"

definition tail_body :: "int list \<Rightarrow> int list \<Rightarrow> Win_Ptrs \<Rightarrow> int list \<times> int list \<Rightarrow> (int list \<times> int list) option" where
  "tail_body wnd inBuf q = (\<lambda>(overl, out).
     do { inData \<leftarrow> rd inBuf (p_in q);
          (tmp0, tmp1) \<leftarrow> win_taps wnd (p_curr q) inData;
          a \<leftarrow> rd overl (p_over q - 128); overl \<leftarrow> wr overl (p_over q - 128) (s32 (a - tmp0));
          a \<leftarrow> rd overl (p_over1 q - 128); overl \<leftarrow> wr overl (p_over1 q - 128) (s32 (a + tmp1));
          overl \<leftarrow> store_win wnd (p_curr q) inBuf q overl; Some (overl, out) })"

text \<open>From the end of a block to the next: \<open>+= 64\<close> on the cursors at the front, those at the back behind them.\<close>

definition next_block :: "Win_Ptrs \<Rightarrow> Win_Ptrs" where
  "next_block q = q\<lparr>p_in := p_in q + 64, p_in1 := p_in q + 63, p_over := p_over q + 64, p_over1 := p_over q + 191,
     p_out := p_out q + 64, p_out1 := p_out q + 191, p_curr := p_curr q - 128\<rparr>"

fun blocks_run :: "nat \<Rightarrow> (Win_Ptrs \<Rightarrow> 's \<Rightarrow> 's option) \<Rightarrow> Win_Ptrs \<Rightarrow> 's \<Rightarrow> (Win_Ptrs \<times> 's) option" where
  "blocks_run 0 body q s = Some (q, s)"
| "blocks_run (Suc i) body q s = do { (q, s) \<leftarrow> win_do body (next_block q) s; blocks_run i body q s }"

fun copy_fours :: "nat \<Rightarrow> int \<Rightarrow> int \<Rightarrow> int list \<Rightarrow> int list \<Rightarrow> int list option" where
  "copy_fours 0 p dst overl out = Some out"
| "copy_fours (Suc i) p dst overl out =
     do { vs \<leftarrow> rd_block overl p 4; out \<leftarrow> wr_block out dst vs; copy_fours i (p + 4) (dst + 4) overl out }"

fun zero_fours :: "nat \<Rightarrow> int \<Rightarrow> int list \<Rightarrow> int list option" where
  "zero_fours 0 p overl = Some overl"
| "zero_fours (Suc i) p overl = do { overl \<leftarrow> wr_block overl p [0, 0, 0, 0]; zero_fours i (p + 4) overl }"

definition WinShort :: "int list \<Rightarrow> int list \<Rightarrow> int \<Rightarrow> int list \<Rightarrow> int \<Rightarrow> int \<Rightarrow> (int list \<times> int list) option" where
  "WinShort inBuf overl out0 tmpBuf winTypeCurr winTypePrev =
     (let wndPrev = window_of winTypePrev; wndCurr = window_of winTypeCurr in
      do { tmpBuf \<leftarrow> copy_fours 112 0 out0 overl tmpBuf;
           (q, s) \<leftarrow> win_do (long_body wndPrev wndCurr inBuf)
             \<lparr>p_in = 64, p_in1 = 63, p_over = 448, p_over1 = 575, p_out = out0 + 448, p_out1 = out0 + 575, p_prev = 0, p_curr = 0\<rparr>
             (overl, tmpBuf);
           (q, s) \<leftarrow> blocks_run 3 (short_body wndCurr inBuf) q s;
           let overlap = p_over q - 832;
           (q, s) \<leftarrow> win_do (middle_body wndCurr inBuf) ((next_block q)\<lparr>p_over := overlap, p_over1 := overlap + 127\<rparr>) s;
           (q, s) \<leftarrow> blocks_run 3 (tail_body wndCurr inBuf) q s;
           overl \<leftarrow> zero_fours 112 (p_over q + 64) (fst s);
           Some (overl, snd s) })"

section \<open>Steps of a loop\<close>

definition shift_ptrs :: "nat \<Rightarrow> Win_Ptrs \<Rightarrow> Win_Ptrs" where
  "shift_ptrs k q = \<lparr>p_in = p_in q + int k, p_in1 = p_in1 q - int k, p_over = p_over q + int k, p_over1 = p_over1 q - int k,
     p_out = p_out q + int k, p_out1 = p_out1 q - int k, p_prev = p_prev q + 2 * int k, p_curr = p_curr q + 2 * int k\<rparr>"

lemma shift_fields [simp]:
  "p_in (shift_ptrs k q) = p_in q + int k" "p_in1 (shift_ptrs k q) = p_in1 q - int k"
  "p_over (shift_ptrs k q) = p_over q + int k" "p_over1 (shift_ptrs k q) = p_over1 q - int k"
  "p_out (shift_ptrs k q) = p_out q + int k" "p_out1 (shift_ptrs k q) = p_out1 q - int k"
  "p_prev (shift_ptrs k q) = p_prev q + 2 * int k" "p_curr (shift_ptrs k q) = p_curr q + 2 * int k"
  by (simp_all add: shift_ptrs_def)

lemma shift_0 [simp]: "shift_ptrs 0 q = q"
  by (simp add: shift_ptrs_def)

lemma advance_shift: "advance (shift_ptrs k q) = shift_ptrs (Suc k) q" "shift_ptrs k (advance q) = shift_ptrs (Suc k) q"
  by (simp_all add: advance_def shift_ptrs_def)

lemma win_for_snoc: "win_for (Suc n) body q s = do { (q, s) \<leftarrow> win_for n body q s; s \<leftarrow> body q s; Some (advance q, s) }"
proof (induction n arbitrary: q s)
  case (Suc n)
  have IH: "win_for (Suc n) body (advance q) = (\<lambda>s. do { (q, s) \<leftarrow> win_for n body (advance q) s; s \<leftarrow> body q s; Some (advance q, s) })"
    by (rule ext) (rule Suc.IH)
  show ?case unfolding win_for.simps(2) [of "Suc n"] IH by simp
qed (simp add: win_for_none)

lemma win_for_rule:
  assumes "I 0 s" "\<And>k s. k < n \<Longrightarrow> I k s \<Longrightarrow> wp (body (shift_ptrs k q) s) (I (Suc k))"
  shows "wp (win_for n body q s) (\<lambda>(q', s'). q' = shift_ptrs n q \<and> I n s')"
  using assms(2)
proof (induction n)
  case (Suc n)
  have A: "wp (win_for n body q s) (\<lambda>(q', s'). q' = shift_ptrs n q \<and> I n s')" by (rule Suc.IH) (simp add: Suc.prems)
  show ?case
    unfolding win_for_snoc wp_bind
  proof (rule wp_mono [OF A], clarify)
    fix q' s' assume "I n s'"
    then have "wp (body (shift_ptrs n q) s') (I (Suc n))" by (intro Suc.prems) auto
    then show "wp (do { s \<leftarrow> body (shift_ptrs n q) s'; Some (advance (shift_ptrs n q), s) })
        (\<lambda>(q', s'). q' = shift_ptrs (Suc n) q \<and> I (Suc n) s')"
      unfolding wp_bind by (rule wp_mono) (simp add: advance_shift)
  qed
qed (use assms(1) in simp)

section \<open>The long blocks, entry by entry\<close>

text \<open>A loop from both ends: \<open>F\<close> and \<open>G\<close> are stored into the overlap, \<open>H\<close> and \<open>J\<close> make samples of what was there.\<close>

definition ends_done :: "nat \<Rightarrow> nat \<Rightarrow> nat \<Rightarrow> nat \<Rightarrow> nat \<Rightarrow> (nat \<Rightarrow> int) \<Rightarrow> (nat \<Rightarrow> int) \<Rightarrow> (nat \<Rightarrow> int \<Rightarrow> int) \<Rightarrow> (nat \<Rightarrow> int \<Rightarrow> int)
    \<Rightarrow> int list \<times> int list \<Rightarrow> int list \<times> int list \<Rightarrow> bool" where
  "ends_done n a b c d F G H J = (\<lambda>(overl, out) (overl', out').
     length overl' = length overl \<and> length out' = length out
     \<and> (\<forall>k < n. overl' ! (a + k) = F k \<and> overl' ! (b - k) = G k
          \<and> out' ! (c + k) = H k (overl ! (a + k)) \<and> out' ! (d - k) = J k (overl ! (b - k)))
     \<and> (\<forall>i < length overl. \<not> (a \<le> i \<and> i < a + n) \<and> \<not> (b < i + n \<and> i \<le> b) \<longrightarrow> overl' ! i = overl ! i)
     \<and> (\<forall>i < length out. \<not> (c \<le> i \<and> i < c + n) \<and> \<not> (d < i + n \<and> i \<le> d) \<longrightarrow> out' ! i = out ! i))"

lemma ends_done_step:
  assumes "ends_done n a b c d F G H J (overl, out) (overl', out')" "a + 2 * n < b" "c + 2 * n < d" "b < length overl" "d < length out"
  shows "ends_done (Suc n) a b c d F G H J (overl, out)
    (overl'[b - n := G n, a + n := F n], out'[c + n := H n (overl' ! (a + n)), d - n := J n (overl' ! (b - n))])"
proof -
  have len: "length overl' = length overl" "length out' = length out" using assms(1) by (auto simp: ends_done_def)
  have old: "overl' ! (a + k) = F k" "overl' ! (b - k) = G k" "out' ! (c + k) = H k (overl ! (a + k))" "out' ! (d - k) = J k (overl ! (b - k))"
    if "k < n" for k using assms(1) that by (auto simp: ends_done_def)
  have rest: "i < length overl \<Longrightarrow> \<not> (a \<le> i \<and> i < a + n) \<Longrightarrow> \<not> (b < i + n \<and> i \<le> b) \<Longrightarrow> overl' ! i = overl ! i"
    "i < length out \<Longrightarrow> \<not> (c \<le> i \<and> i < c + n) \<Longrightarrow> \<not> (d < i + n \<and> i \<le> d) \<Longrightarrow> out' ! i = out ! i" for i
    using assms(1) by (auto simp: ends_done_def)
  have same: "overl' ! (a + n) = overl ! (a + n)" "overl' ! (b - n) = overl ! (b - n)"
    by (rule rest(1); use assms(2,4) in auto)+
  let ?o = "overl'[b - n := G n, a + n := F n]" and ?s = "out'[c + n := H n (overl' ! (a + n)), d - n := J n (overl' ! (b - n))]"
  have new: "?o ! (a + k) = F k \<and> ?o ! (b - k) = G k \<and> ?s ! (c + k) = H k (overl ! (a + k)) \<and> ?s ! (d - k) = J k (overl ! (b - k))"
    if "k < Suc n" for k
  proof (cases "k = n")
    case True
    then show ?thesis using assms(2-5) len by (simp add: nth_list_update same)
  next
    case False
    then have k: "k < n" using that by simp
    then have "a + k \<noteq> b - n" "b - k \<noteq> b - n" "b - k \<noteq> a + n" "c + k \<noteq> d - n" "d - k \<noteq> d - n" "d - k \<noteq> c + n" using assms(2-5) by auto
    then show ?thesis using k old [OF k] by (simp add: nth_list_update)
  qed
  show ?thesis
    unfolding ends_done_def prod.case
    using assms(2-5) len by (intro conjI allI impI new [THEN conjunct1] new [THEN conjunct2, THEN conjunct1]
        new [THEN conjunct2, THEN conjunct2, THEN conjunct1] new [THEN conjunct2, THEN conjunct2, THEN conjunct2])
      (auto simp: nth_list_update intro!: rest)
qed

lemma ends_done_0: "ends_done 0 a b c d F G H J s s"
  by (cases s) (simp add: ends_done_def)

lemma win_for_ends:
  assumes step: "\<And>k overl' out'. k < m \<Longrightarrow> length overl' = length overl \<Longrightarrow> length out' = length out \<Longrightarrow>
      body (shift_ptrs k q) (overl', out') = Some (overl'[b - (n + k) := G (n + k), a + (n + k) := F (n + k)],
        out'[c + (n + k) := H (n + k) (overl' ! (a + (n + k))), d - (n + k) := J (n + k) (overl' ! (b - (n + k)))])"
    and bounds: "a + 2 * (n + m) \<le> b + 1" "c + 2 * (n + m) \<le> d + 1" "b < length overl" "d < length out"
    and start: "ends_done n a b c d F G H J (overl, out) s"
  shows "wp (win_for m body q s) (\<lambda>(q', s'). q' = shift_ptrs m q \<and> ends_done (n + m) a b c d F G H J (overl, out) s')"
proof (rule win_for_rule)
  show "ends_done (n + 0) a b c d F G H J (overl, out) s" using start by simp
next
  fix k s assume k: "k < m" and d: "ends_done (n + k) a b c d F G H J (overl, out) s"
  obtain overl' out' where s: "s = (overl', out')" by fastforce
  have "length overl' = length overl" "length out' = length out" using d by (simp_all add: s ends_done_def)
  note eq = step [OF k this]
  have "ends_done (Suc (n + k)) a b c d F G H J (overl, out) (overl'[b - (n + k) := G (n + k), a + (n + k) := F (n + k)],
      out'[c + (n + k) := H (n + k) (overl' ! (a + (n + k))), d - (n + k) := J (n + k) (overl' ! (b - (n + k)))])"
    by (rule ends_done_step [OF d [unfolded s]]) (use k bounds in auto)
  then show "wp (body (shift_ptrs k q) s) (ends_done (n + Suc k) a b c d F G H J (overl, out))"
    by (simp add: s eq)
qed

text \<open>The slope of a long block: half of a long window, or 0, the short window and the factor \<open>1/2\<close>.\<close>

definition slope :: "int list \<Rightarrow> bool \<Rightarrow> nat \<Rightarrow> int \<Rightarrow> int \<times> int" where
  "slope wnd short k x =
     (if \<not> short then (MULHIGH (wnd ! (128 + 2 * k)) x, MULHIGH (wnd ! (129 + 2 * k)) x)
      else if k < 448 then (0, drop_bit 1 x)
      else (MULHIGH (wnd ! (2 * (k - 448))) x, MULHIGH (wnd ! (2 * (k - 448) + 1)) x))"

text \<open>What a long block makes of overlap and samples, \<open>p\<close> and \<open>c\<close> say which of its slopes are short.\<close>

definition long_block :: "nat \<Rightarrow> int list \<Rightarrow> nat \<Rightarrow> int list \<Rightarrow> bool \<Rightarrow> int list \<Rightarrow> bool
    \<Rightarrow> int list \<times> int list \<Rightarrow> int list \<times> int list \<Rightarrow> bool" where
  "long_block n inBuf out wndPrev p wndCurr c =
     ends_done n 0 1023 out (out + 1023)
       (\<lambda>k. snd (slope wndCurr c k (inBuf ! (511 - k)))) (\<lambda>k. fst (slope wndCurr c k (inBuf ! (511 - k))))
       (\<lambda>k x. if p \<and> k < 448 then x else s32 (x - fst (slope wndPrev p k (inBuf ! (512 + k)))))
       (\<lambda>k x. s32 (x + snd (slope wndPrev p k (inBuf ! (512 + k)))))"

lemma win_taps_run:
  "0 \<le> p \<Longrightarrow> p + 1 < int (length wnd) \<Longrightarrow> win_taps wnd p x = Some (MULHIGH (wnd ! nat p) x, MULHIGH (wnd ! nat (p + 1)) x)"
  by (simp add: win_taps_def rd_Some)

lemma length_window [simp]: "length (window_of w) = 1152"
  by (simp add: window_of_def)

lemma cursor_nats: "nat (1023 - int k) = 1023 - k" "nat (511 - int k) = 511 - k" "nat (512 + int k) = 512 + k"
  "nat (128 + 2 * int k) = 128 + 2 * k" "nat (129 + 2 * int k) = 129 + 2 * k" "nat (2 * int k + 129) = 129 + 2 * k"
  "nat (int d + int k) = d + k" "nat (int d + 1023 - int k) = d + 1023 - k"
  "nat (575 - int k) = 575 - k" "nat (448 + int k) = 448 + k" "nat (63 - int k) = 63 - k" "nat (960 + int k) = 960 + k"
  "nat (1024 + 2 * int k) = 1024 + 2 * k" "nat (1025 + 2 * int k) = 1025 + 2 * k" "nat (2 * int k) = 2 * k"
  "nat (2 * int k + 1) = Suc (2 * k)" "nat (int d + 448 + int k) = d + (448 + k)" "nat (575 + int d - int k) = 575 + d - k"
  by auto

lemmas long_run = long_body_def start_body_def stop_body_def emit_add_def store_win_def long_ptrs_def
  rd_Some wr_Some win_taps_run slope_def cursor_nats

lemma WinLong_block:
  assumes len: "length inBuf = 1024" "length overl = 1024" "dst + 1024 \<le> length tmpBuf"
  shows "wp (WinLong inBuf overl (int dst) tmpBuf winTypeCurr winTypePrev)
    (long_block 512 inBuf dst (window_of winTypePrev) False (window_of winTypeCurr) False (overl, tmpBuf))"
proof -
  let ?q = "long_ptrs (int dst) 128 128"
  have eq: "WinLong inBuf overl (int dst) tmpBuf winTypeCurr winTypePrev =
      map_option snd (win_for 512 (long_body (window_of winTypePrev) (window_of winTypeCurr) inBuf) ?q (overl, tmpBuf))"
  proof -
    have "win_for n (same_body w inBuf) q s = win_for n (long_body w w inBuf) q s" if "p_prev q = p_curr q" for n w q s
      using that by (induction n arbitrary: q s) (simp_all add: same_body_def long_body_def cong: Option.bind_cong)
    then show ?thesis by (simp add: WinLong_def Let_def win_do_for [of 512] long_ptrs_def)
  qed
  have "wp (win_for 512 (long_body (window_of winTypePrev) (window_of winTypeCurr) inBuf) ?q (overl, tmpBuf))
    (\<lambda>(q', s'). q' = shift_ptrs 512 ?q \<and> long_block (0 + 512) inBuf dst (window_of winTypePrev) False (window_of winTypeCurr) False (overl, tmpBuf) s')"
    unfolding long_block_def
  proof (rule win_for_ends, goal_cases)
    case (1 k overl' out')
    then show ?case using len by (simp add: long_run)
  qed (use len in \<open>auto intro: ends_done_0\<close>)
  then show ?thesis unfolding eq by (auto simp: wp_iff)
qed

text \<open>The loop over the long part, then the one over the short slope.\<close>

lemma two_loops:
  assumes "wp (win_for 448 f q s) (\<lambda>(q', s'). q' = shift_ptrs 448 q \<and> P s')"
    and "\<And>s'. P s' \<Longrightarrow> wp (win_for 64 g (h (shift_ptrs 448 q)) s') (\<lambda>(q', s''). q' = shift_ptrs 64 (h (shift_ptrs 448 q)) \<and> Q s'')"
    and "p_over1 (h (shift_ptrs 448 q)) = p_over (h (shift_ptrs 448 q)) + 127"
  shows "wp (do { (q, s) \<leftarrow> win_for 448 f q s; map_option snd (win_do g (h q) s) }) Q"
proof -
  obtain s' where s': "win_for 448 f q s = Some (shift_ptrs 448 q, s')" "P s'"
    using assms(1) by (auto simp: wp_iff)
  show ?thesis
    using assms(2) [OF s'(2)] assms(3) by (auto simp: s'(1) win_do_for [of 64] wp_iff)
qed

lemma WinLongStart_block:
  assumes len: "length inBuf = 1024" "length overl = 1024" "dst + 1024 \<le> length tmpBuf"
  shows "wp (WinLongStart inBuf overl (int dst) tmpBuf winTypeCurr winTypePrev)
    (long_block (448 + 64) inBuf dst (window_of winTypePrev) False (window_of winTypeCurr) True (overl, tmpBuf))"
  unfolding WinLongStart_def
proof (rule two_loops)
  let ?q = "long_ptrs (int dst) 128 0"
  let ?P = "\<lambda>n. long_block n inBuf dst (window_of winTypePrev) False (window_of winTypeCurr) True (overl, tmpBuf)"
  show "wp (win_for 448 (start_body (window_of winTypePrev) inBuf) ?q (overl, tmpBuf)) (\<lambda>(q', s'). q' = shift_ptrs 448 ?q \<and> ?P (0 + 448) s')"
    unfolding long_block_def
  proof (rule win_for_ends, goal_cases)
    case (1 k overl' out')
    then show ?case using len by (simp add: long_run)
  qed (use len in \<open>auto intro: ends_done_0\<close>)
  fix s' assume filled: "?P (0 + 448) s'"
  let ?r = "(shift_ptrs 448 ?q)\<lparr>p_curr := 0\<rparr>"
  show "wp (win_for 64 (long_body (window_of winTypePrev) (window_of winTypeCurr) inBuf) ?r s')
     (\<lambda>(q', s''). q' = shift_ptrs 64 ?r \<and> ?P (448 + 64) s'')"
    unfolding long_block_def
  proof (rule win_for_ends, goal_cases)
    case (1 k overl' out')
    then show ?case using len by (simp add: long_run)
  qed (use len filled in \<open>auto simp: long_block_def\<close>)
qed (simp add: long_ptrs_def)

lemma WinLongStop_block:
  assumes len: "length inBuf = 1024" "length overl = 1024" "dst + 1024 \<le> length tmpBuf"
  shows "wp (WinLongStop inBuf overl (int dst) tmpBuf winTypeCurr winTypePrev)
    (long_block (448 + 64) inBuf dst (window_of winTypePrev) True (window_of winTypeCurr) False (overl, tmpBuf))"
  unfolding WinLongStop_def
proof (rule two_loops)
  let ?q = "long_ptrs (int dst) 0 128"
  let ?P = "\<lambda>n. long_block n inBuf dst (window_of winTypePrev) True (window_of winTypeCurr) False (overl, tmpBuf)"
  show "wp (win_for 448 (stop_body (window_of winTypeCurr) inBuf) ?q (overl, tmpBuf)) (\<lambda>(q', s'). q' = shift_ptrs 448 ?q \<and> ?P (0 + 448) s')"
    unfolding long_block_def
  proof (rule win_for_ends, goal_cases)
    case (1 k overl' out')
    then show ?case using len by (simp add: long_run)
  qed (use len in \<open>auto intro: ends_done_0\<close>)
  fix s' assume filled: "?P (0 + 448) s'"
  let ?r = "(shift_ptrs 448 ?q)\<lparr>p_prev := 0\<rparr>"
  show "wp (win_for 64 (long_body (window_of winTypePrev) (window_of winTypeCurr) inBuf) ?r s')
     (\<lambda>(q', s''). q' = shift_ptrs 64 ?r \<and> ?P (448 + 64) s'')"
    unfolding long_block_def
  proof (rule win_for_ends, goal_cases)
    case (1 k overl' out')
    then show ?case using len by (simp add: long_run)
  qed (use len filled in \<open>auto simp: long_block_def\<close>)
qed (simp add: long_ptrs_def)

end
