(* ===== verification/ShortBlocks.thy ===== *)
theory ShortBlocks
  imports Windows
begin

text \<open>
  The window of eight short blocks, \<open>WinShort\<close> of \<^verbatim>\<open>src/lc_imdct.c\<close>, keeps the halves of the blocks in the overlap
  buffer while it runs. What it computes is the sum of the eight windowed blocks, each 128 entries behind the one
  before, and of the overlap.
\<close>

section \<open>Arrays that are filled with given values\<close>

definition filled :: "(nat \<Rightarrow> int) \<Rightarrow> nat set \<Rightarrow> int list \<Rightarrow> int list \<Rightarrow> bool" where
  "filled g A xs ys \<longleftrightarrow> length ys = length xs \<and> (\<forall>i < length xs. ys ! i = (if i \<in> A then g i else xs ! i))"

lemma filled_length: "filled g A xs ys \<Longrightarrow> length ys = length xs"
  by (simp add: filled_def)

lemma filled_in: "filled g A xs ys \<Longrightarrow> i \<in> A \<Longrightarrow> i < length xs \<Longrightarrow> ys ! i = g i"
  by (simp add: filled_def)

lemma filled_out: "filled g A xs ys \<Longrightarrow> i \<notin> A \<Longrightarrow> i < length xs \<Longrightarrow> ys ! i = xs ! i"
  by (simp add: filled_def)

lemma filled_refl: "filled g {} xs xs"
  by (simp add: filled_def)

lemma filled_upd: "filled g A xs ys \<Longrightarrow> v = g n \<Longrightarrow> filled g (insert n A) xs (ys[n := v])"
  unfolding filled_def by (metis insert_iff length_list_update nth_list_update_eq nth_list_update_neq)

text \<open>The first and the last \<open>k\<close> entries of the 128 from \<open>p\<close> on.\<close>

definition done_idx :: "nat \<Rightarrow> nat \<Rightarrow> nat set" where
  "done_idx p k = {i. p \<le> i \<and> i < p + k \<or> p + 127 < i + k \<and> i \<le> p + 127}"

lemma done_idx_0 [simp]: "done_idx p 0 = {}"
  by (simp add: done_idx_def)

lemma done_idx_all: "done_idx p 64 = {p..<p + 128}"
  by (auto simp: done_idx_def)

lemma done_idx_Suc: "k < 64 \<Longrightarrow> done_idx p (Suc k) = insert (p + k) (insert (p + 127 - k) (done_idx p k))"
  by (auto simp: done_idx_def)

lemma in_done_idx: "i \<in> done_idx p k \<longleftrightarrow> p \<le> i \<and> i < p + k \<or> p + 127 < i + k \<and> i \<le> p + 127"
  by (auto simp: done_idx_def)

lemma filled_ends:
  assumes "filled g (A \<union> done_idx p k) xs ys" "k < 64" "u = g (p + 127 - k)" "v = g (p + k)"
  shows "filled g (A \<union> done_idx p (Suc k)) xs (ys[p + 127 - k := u, p + k := v])"
    "filled g (A \<union> done_idx p (Suc k)) xs (ys[p + k := v, p + 127 - k := u])"
  using filled_upd [OF filled_upd [OF assms(1,3)] assms(4)] filled_upd [OF filled_upd [OF assms(1,4)] assms(3)] assms(2)
  by (simp_all add: done_idx_Suc insert_commute)

section \<open>What the window is\<close>

text \<open>Entry \<open>j\<close> of the 256 that block \<open>b\<close> contributes: the output of the transform unfolded and weighted with the window.\<close>

definition short_part :: "int list \<Rightarrow> int list \<Rightarrow> int list \<Rightarrow> nat \<Rightarrow> nat \<Rightarrow> int" where
  "short_part wndPrev wndCurr inBuf b j =
     (let w = (if b = 0 then wndPrev else wndCurr) in
      if j < 64 then - MULHIGH (w ! (2 * j)) (inBuf ! (128 * b + (64 + j)))
      else if j < 128 then MULHIGH (w ! (2 * (127 - j) + 1)) (inBuf ! (128 * b + (64 + (127 - j))))
      else if j < 192 then MULHIGH (wndCurr ! (2 * (j - 128) + 1)) (inBuf ! (128 * b + (63 - (j - 128))))
      else if j < 256 then MULHIGH (wndCurr ! (2 * (255 - j))) (inBuf ! (128 * b + (63 - (255 - j)))) else 0)"

definition short_time :: "int list \<Rightarrow> int list \<Rightarrow> int list \<Rightarrow> int list \<Rightarrow> nat \<Rightarrow> int" where
  "short_time wndPrev wndCurr inBuf overl i =
     (if i < 1024 then overl ! i else 0)
     + (\<Sum>b<8. if 448 + 128 * b \<le> i then short_part wndPrev wndCurr inBuf b (i - (448 + 128 * b)) else 0)"

lemma short_part_0: "256 \<le> j \<Longrightarrow> short_part wa wb x b j = 0"
  by (simp add: short_part_def)

lemma short_time_at:
  assumes "j < 128" "b \<le> 8"
  shows "short_time wa wb x v (448 + 128 * b + j) = (if 448 + 128 * b + j < 1024 then v ! (448 + 128 * b + j) else 0)
     + (if b = 0 then 0 else short_part wa wb x (b - 1) (128 + j)) + (if b = 8 then 0 else short_part wa wb x b j)"
proof -
  let ?f = "\<lambda>c. if 128 * c \<le> 128 * b + j then short_part wa wb x c (128 * b + j - 128 * c) else 0"
  have z: "?f c = 0" if "c < 8" "c \<noteq> b" "Suc c \<noteq> b" for c
  proof (cases "c < b")
    case True
    then have "c + 2 \<le> b" using that by simp
    then have "256 \<le> 128 * b + j - 128 * c" by simp
    then show ?thesis by (simp add: short_part_0)
  qed (use that assms in auto)
  have "sum ?f {..<8} = sum ?f ((if b = 8 then {} else {b}) \<union> (if b = 0 then {} else {b - 1}))"
  proof (rule sum.mono_neutral_right)
    show "\<forall>i \<in> {..<8} - ((if b = 8 then {} else {b}) \<union> (if b = 0 then {} else {b - 1})). ?f i = 0"
    proof (intro ballI, rule z)
      fix i assume i: "i \<in> {..<8} - ((if b = 8 then {} else {b}) \<union> (if b = 0 then {} else {b - 1}))"
      then show "i < 8" "i \<noteq> b" "Suc i \<noteq> b" using assms(2) by (auto split: if_splits)
    qed
  qed (use assms(2) in auto)
  also have "\<dots> = (if b = 0 then 0 else short_part wa wb x (b - 1) (128 + j)) + (if b = 8 then 0 else short_part wa wb x b j)"
    by (cases b) (simp_all add: add.commute)
  finally have "sum ?f {..<8} = \<dots>" .
  moreover have "(\<Sum>c<8. if 448 + 128 * c \<le> 448 + 128 * b + j then short_part wa wb x c (448 + 128 * b + j - (448 + 128 * c)) else 0) = sum ?f {..<8}"
    by (rule sum.cong) auto
  ultimately show ?thesis unfolding short_time_def by (simp only: add.assoc)
qed

lemma short_time_low: "i < 448 \<Longrightarrow> short_time wa wb x v i = v ! i"
  by (simp add: short_time_def)

lemma short_time_last: "j < 128 \<Longrightarrow> short_time wa wb x v (1472 + j) = short_part wa wb x 7 (128 + j)"
  using short_time_at [of j 8 wa wb x v] by simp

lemma short_time_high:
  assumes "1600 \<le> i"
  shows "short_time wa wb x v i = 0"
proof -
  have "256 \<le> i - (448 + 128 * b)" if "b < 8" for b using that assms by simp
  then show ?thesis using assms by (simp add: short_time_def short_part_0 sum.neutral)
qed

section \<open>The loops of the eight blocks\<close>

text \<open>Sums are taken modulo \<open>2 ^ 32\<close>.\<close>

lemma s32_add: "s32 (s32 a + b) = s32 (a + b)" "s32 (s32 a - b) = s32 (a - b)"
proof -
  have t: "take_bit 32 (s32 a) = take_bit 32 a" by (simp add: s32_def take_bit_signed_take_bit)
  have "take_bit 32 (s32 a + b) = take_bit 32 (a + b)"
    using take_bit_add [of 32 "s32 a" b] take_bit_add [of 32 a b] by (simp only: t)
  moreover have "take_bit 32 (s32 a - b) = take_bit 32 (a - b)"
    using take_bit_diff [of 32 "s32 a" b] take_bit_diff [of 32 a b] by (simp only: t)
  moreover have "s32 u = s32 v" if "take_bit 32 u = take_bit 32 v" for u v
    using that signed_take_bit_eq_iff_take_bit_eq [of 31 u v] by (simp add: s32_def)
  ultimately show "s32 (s32 a + b) = s32 (a + b)" "s32 (s32 a - b) = s32 (a - b)" by blast+
qed

text \<open>The halves of a block, as the loops see them.\<close>

lemma short_parts:
  assumes "k < 64"
  shows "short_part wa wb x b k = - MULHIGH ((if b = 0 then wa else wb) ! (2 * k)) (x ! (128 * b + (64 + k)))"
    "short_part wa wb x b (127 - k) = MULHIGH ((if b = 0 then wa else wb) ! (2 * k + 1)) (x ! (128 * b + (64 + k)))"
    "short_part wa wb x b (128 + k) = MULHIGH (wb ! (2 * k + 1)) (x ! (128 * b + (63 - k)))"
    "short_part wa wb x b (255 - k) = MULHIGH (wb ! (2 * k)) (x ! (128 * b + (63 - k)))"
proof -
  have "\<not> 127 - k < 64" "127 - k < 128" "127 - (127 - k) = k" "\<not> 255 - k < 192" "255 - k < 256" "255 - (255 - k) = k" using assms by auto
  then show "short_part wa wb x b k = - MULHIGH ((if b = 0 then wa else wb) ! (2 * k)) (x ! (128 * b + (64 + k)))"
    "short_part wa wb x b (127 - k) = MULHIGH ((if b = 0 then wa else wb) ! (2 * k + 1)) (x ! (128 * b + (64 + k)))"
    "short_part wa wb x b (128 + k) = MULHIGH (wb ! (2 * k + 1)) (x ! (128 * b + (63 - k)))"
    "short_part wa wb x b (255 - k) = MULHIGH (wb ! (2 * k)) (x ! (128 * b + (63 - k)))"
    using assms by (simp_all add: short_part_def Let_def)
qed

text \<open>One step of each loop, from cursors inside the arrays.\<close>

definition cursors :: "Win_Ptrs \<Rightarrow> nat \<Rightarrow> nat \<Rightarrow> nat \<Rightarrow> nat \<Rightarrow> nat \<Rightarrow> bool" where
  "cursors q i i1 v v1 c \<longleftrightarrow> p_in q = int i \<and> p_in1 q = int i1 \<and> p_over q = int v \<and> p_over1 q = int v1 \<and> p_curr q = int c"

definition cursors_fit :: "nat \<Rightarrow> nat \<Rightarrow> nat \<Rightarrow> nat \<Rightarrow> nat \<Rightarrow> int list \<Rightarrow> int list \<Rightarrow> int list \<Rightarrow> bool" where
  "cursors_fit i i1 v v1 c w x ov \<longleftrightarrow> i < length x \<and> i1 < length x \<and> v < length ov \<and> v1 < length ov \<and> c + 1 < length w"

lemma rd_int: "i < length xs \<Longrightarrow> rd xs (int i) = Some (xs ! i)"
  and wr_int: "i < length xs \<Longrightarrow> wr xs (int i) y = Some (xs[i := y])"
  by (simp_all add: rd_Some wr_Some)

lemma rd_back: "128 \<le> i \<Longrightarrow> i < length xs + 128 \<Longrightarrow> rd xs (int i - 128) = Some (xs ! (i - 128))"
  and wr_back: "128 \<le> i \<Longrightarrow> i < length xs + 128 \<Longrightarrow> wr xs (int i - 128) y = Some (xs[i - 128 := y])"
  by (simp_all add: rd_Some wr_Some nat_diff_distrib)

lemma taps_int: "c + 1 < length w \<Longrightarrow> win_taps w (int c) y = Some (MULHIGH (w ! c) y, MULHIGH (w ! (c + 1)) y)"
  by (simp add: win_taps_run nat_add_distrib)

lemma store_win_int:
  assumes "cursors q i i1 v v1 c" "cursors_fit i i1 v v1 c w x ov"
  shows "store_win w (p_curr q) x q ov = Some (ov[v1 := MULHIGH (w ! c) (x ! i1), v := MULHIGH (w ! (c + 1)) (x ! i1)])"
  using assms by (simp add: store_win_def cursors_def cursors_fit_def rd_int wr_int taps_int)

lemma long_body_int:
  assumes "cursors q i i1 v v1 c" "cursors_fit i i1 v v1 c w x ov" "cursors_fit i i1 v v1 c wa x ov" "p_prev q = int c"
    "p_out q = int d" "p_out1 q = int d1" "d < length t" "d1 < length t"
  shows "long_body wa w x q (ov, t) = Some (ov[v1 := MULHIGH (w ! c) (x ! i1), v := MULHIGH (w ! (c + 1)) (x ! i1)],
    t[d := s32 (ov ! v - MULHIGH (wa ! c) (x ! i)), d1 := s32 (ov ! v1 + MULHIGH (wa ! (c + 1)) (x ! i))])"
  using assms unfolding long_body_def prod.case store_win_int [OF assms(1,2)]
  by (simp add: emit_add_def cursors_def cursors_fit_def rd_int wr_int taps_int)

lemma short_body_int:
  assumes "cursors q i i1 v v1 c" "cursors_fit i i1 v v1 c w x ov" "128 \<le> v" "128 \<le> v1"
    "p_out q = int d" "p_out1 q = int d1" "d < length t" "d1 < length t"
  shows "short_body w x q (ov, t) = Some (ov[v1 := MULHIGH (w ! c) (x ! i1), v := MULHIGH (w ! (c + 1)) (x ! i1)],
    t[d := s32 (ov ! (v - 128) + ov ! v - MULHIGH (w ! c) (x ! i)), d1 := s32 (ov ! (v1 - 128) + ov ! v1 + MULHIGH (w ! (c + 1)) (x ! i))])"
  using assms unfolding short_body_def prod.case store_win_int [OF assms(1,2)]
  by (simp add: cursors_def cursors_fit_def rd_int wr_int rd_back taps_int s32_add)

lemma middle_body_int:
  assumes "cursors q i i1 v v1 c" "cursors_fit i i1 v v1 c w x ov" "128 \<le> v1" "v + 896 < length ov" "v1 + 768 < length ov"
    "p_out q = int d" "d < length t"
  shows "middle_body w x q (ov, t) =
    Some (ov[v1 - 128 := s32 (ov ! (v1 + 768) + MULHIGH (w ! (c + 1)) (x ! i)),
             v1 := MULHIGH (w ! c) (x ! i1), v := MULHIGH (w ! (c + 1)) (x ! i1)],
    t[d := s32 (ov ! (v + 768) + ov ! (v + 896) - MULHIGH (w ! c) (x ! i))])"
proof -
  let ?ov = "ov[v1 - 128 := s32 (ov ! (v1 + 768) + MULHIGH (w ! (c + 1)) (x ! i))]"
  have fit: "cursors_fit i i1 v v1 c w x ?ov" using assms(2) by (simp add: cursors_fit_def)
  have r: "rd ov (int v + 768) = Some (ov ! (v + 768))" "rd ov (int v + 896) = Some (ov ! (v + 896))" "rd ov (int v1 + 768) = Some (ov ! (v1 + 768))"
    using assms rd_int [of "v + 768" ov] rd_int [of "v + 896" ov] rd_int [of "v1 + 768" ov] by simp_all
  show ?thesis
    using assms store_win_int [OF assms(1) fit] unfolding middle_body_def prod.case
    by (simp add: cursors_def cursors_fit_def rd_int wr_int wr_back taps_int s32_add r)
qed

lemma tail_body_int:
  assumes "cursors q i i1 v v1 c" "cursors_fit i i1 v v1 c w x ov" "128 \<le> v" "128 \<le> v1" "v \<noteq> v1"
  shows "tail_body w x q (ov, t) =
    Some (ov[v - 128 := s32 (ov ! (v - 128) - MULHIGH (w ! c) (x ! i)), v1 - 128 := s32 (ov ! (v1 - 128) + MULHIGH (w ! (c + 1)) (x ! i)),
             v1 := MULHIGH (w ! c) (x ! i1), v := MULHIGH (w ! (c + 1)) (x ! i1)], t)"
proof -
  let ?ov = "ov[v - 128 := s32 (ov ! (v - 128) - MULHIGH (w ! c) (x ! i)), v1 - 128 := s32 (ov ! (v1 - 128) + MULHIGH (w ! (c + 1)) (x ! i))]"
  have fit: "cursors_fit i i1 v v1 c w x ?ov" using assms(2) by (simp add: cursors_fit_def)
  have ne: "v - 128 \<noteq> v1 - 128" using assms by simp
  show ?thesis
    using assms ne store_win_int [OF assms(1) fit] unfolding tail_body_def prod.case
    by (simp add: cursors_def cursors_fit_def rd_int wr_int rd_back wr_back taps_int)
qed

text \<open>A loop over a block starts in its middle of the input, at place \<open>p\<close> of the overlap.\<close>

definition at_block :: "Win_Ptrs \<Rightarrow> nat \<Rightarrow> nat \<Rightarrow> bool" where
  "at_block q b p \<longleftrightarrow> p_in q = int (128 * b + 64) \<and> p_in1 q = int (128 * b + 63) \<and> p_over q = int p \<and> p_over1 q = int (p + 127) \<and> p_curr q = 0"

lemma at_block_cursors: "at_block q b p \<Longrightarrow> k < 64 \<Longrightarrow>
    cursors (shift_ptrs k q) (128 * b + (64 + k)) (128 * b + (63 - k)) (p + k) (p + 127 - k) (2 * k)"
  by (auto simp: at_block_def cursors_def of_nat_diff)

lemma at_block_do: "at_block q b p \<Longrightarrow> win_do body q s = win_for 64 body q s"
  by (rule win_do_for) (auto simp: at_block_def)

lemma at_block_fit: "k < 64 \<Longrightarrow> b < 8 \<Longrightarrow> length x = 1024 \<Longrightarrow> length w = 1152 \<Longrightarrow> p + 128 \<le> length ov \<Longrightarrow>
    cursors_fit (128 * b + (64 + k)) (128 * b + (63 - k)) (p + k) (p + 127 - k) (2 * k) w x ov"
  by (auto simp: cursors_fit_def)

text \<open>The second halves the buffer keeps while the samples are made.\<close>

definition kept :: "int list \<Rightarrow> int list \<Rightarrow> int list \<Rightarrow> nat \<Rightarrow> int" where
  "kept wa wb x i = short_part wa wb x ((i - 448) div 128) (128 + (i - 448) mod 128)"

lemma kept_at: "j < 128 \<Longrightarrow> kept wa wb x (448 + 128 * b + j) = short_part wa wb x b (128 + j)"
  by (simp add: kept_def)

lemma short_loop:
  assumes len: "length x = 1024" "length wb = 1152" "length v = 1024" "dst + 1024 \<le> length t"
    and b: "0 < b" "b \<le> 3" "p = 448 + 128 * b" and q: "at_block q b p" "p_out q = int (dst + p)" "p_out1 q = int (dst + p + 127)"
    and v': "filled (kept wa wb x) {448..<p} v v'" and t': "filled h {dst..<dst + p} t t'"
    and h: "\<And>i. 448 \<le> i \<Longrightarrow> h (dst + i) = s32 (short_time wa wb x v i)"
  shows "wp (win_do (short_body wb x) q (v', t')) (\<lambda>(q', v', t'). q' = shift_ptrs 64 q
    \<and> filled (kept wa wb x) {448..<p + 128} v v' \<and> filled h {dst..<dst + p + 128} t t')"
proof -
  let ?I = "\<lambda>k (v', t'). filled (kept wa wb x) ({448..<p} \<union> done_idx p k) v v' \<and> filled h ({dst..<dst + p} \<union> done_idx (dst + p) k) t t'"
  have "wp (win_for 64 (short_body wb x) q (v', t')) (\<lambda>(q', s'). q' = shift_ptrs 64 q \<and> ?I 64 s')"
  proof (rule win_for_rule [where I = ?I])
    show "?I 0 (v', t')" using v' t' by simp
    fix k s assume k: "k < 64" and I: "?I k s"
    obtain ov out where s: "s = (ov, out)" by fastforce
    have f: "filled (kept wa wb x) ({448..<p} \<union> done_idx p k) v ov" "filled h ({dst..<dst + p} \<union> done_idx (dst + p) k) t out"
      using I by (simp_all add: s)
    have l: "length ov = 1024" "length out = length t" using f len by (simp_all add: filled_length)
    have fit: "cursors_fit (128 * b + (64 + k)) (128 * b + (63 - k)) (p + k) (p + 127 - k) (2 * k) wb x ov"
      by (rule at_block_fit) (use k b len l in auto)
    have run: "short_body wb x (shift_ptrs k q) (ov, out) =
      Some (ov[p + 127 - k := MULHIGH (wb ! (2 * k)) (x ! (128 * b + (63 - k))), p + k := MULHIGH (wb ! (2 * k + 1)) (x ! (128 * b + (63 - k)))],
        out[dst + p + k := s32 (ov ! (p + k - 128) + ov ! (p + k) - MULHIGH (wb ! (2 * k)) (x ! (128 * b + (64 + k)))),
            dst + p + 127 - k := s32 (ov ! (p + 127 - k - 128) + ov ! (p + 127 - k) + MULHIGH (wb ! (2 * k + 1)) (x ! (128 * b + (64 + k))))])"
      by (rule short_body_int [OF at_block_cursors [OF q(1) k] fit]) (use k b len l q in \<open>auto simp: of_nat_diff\<close>)
    have prev_half: "ov ! (p + k - 128) = short_part wa wb x (b - 1) (128 + k)" "ov ! (p + 127 - k - 128) = short_part wa wb x (b - 1) (128 + (127 - k))"
    proof -
      have i: "p + k - 128 = 448 + 128 * (b - 1) + k" "p + 127 - k - 128 = 448 + 128 * (b - 1) + (127 - k)" using b k by (auto simp: algebra_simps)
      have "ov ! (p + k - 128) = kept wa wb x (p + k - 128)" "ov ! (p + 127 - k - 128) = kept wa wb x (p + 127 - k - 128)"
        by (rule filled_in [OF f(1)]; use b k len in auto)+
      then show "ov ! (p + k - 128) = short_part wa wb x (b - 1) (128 + k)" "ov ! (p + 127 - k - 128) = short_part wa wb x (b - 1) (128 + (127 - k))"
        unfolding i using k kept_at [of k wa wb x "b - 1"] kept_at [of "127 - k" wa wb x "b - 1"] by simp_all
    qed
    have now_v: "ov ! (p + k) = v ! (p + k)" "ov ! (p + 127 - k) = v ! (p + 127 - k)"
      by (rule filled_out [OF f(1)]; use b k len in \<open>auto simp: in_done_idx\<close>)+
    have F: "filled (kept wa wb x) ({448..<p} \<union> done_idx p (Suc k)) v
        (ov[p + 127 - k := MULHIGH (wb ! (2 * k)) (x ! (128 * b + (63 - k))), p + k := MULHIGH (wb ! (2 * k + 1)) (x ! (128 * b + (63 - k)))])"
    proof (rule filled_ends(1) [OF f(1) k])
      have i: "p + 127 - k = 448 + 128 * b + (127 - k)" using b k by simp
      show "MULHIGH (wb ! (2 * k)) (x ! (128 * b + (63 - k))) = kept wa wb x (p + 127 - k)"
        unfolding i using k short_parts(4) [OF k, of wa wb x b] kept_at [of "127 - k" wa wb x b] by simp
      show "MULHIGH (wb ! (2 * k + 1)) (x ! (128 * b + (63 - k))) = kept wa wb x (p + k)"
        unfolding b(3) using k short_parts(3) [OF k, of wa wb x b] by (simp add: kept_at)
    qed
    have T: "short_time wa wb x v (448 + 128 * b + j) = v ! (448 + 128 * b + j) + short_part wa wb x (b - 1) (128 + j) + short_part wa wb x b j"
      if "j < 128" for j using short_time_at [of j b wa wb x v] that b by simp
    have kk: "k < 128" and lt127: "127 < (128 :: nat)" using k by auto
    note T = T [of k] T [of "127 - k"]
    have H: "filled h ({dst..<dst + p} \<union> done_idx (dst + p) (Suc k)) t
      (out[dst + p + k := s32 (ov ! (p + k - 128) + ov ! (p + k) - MULHIGH (wb ! (2 * k)) (x ! (128 * b + (64 + k)))),
            dst + p + 127 - k := s32 (ov ! (p + 127 - k - 128) + ov ! (p + 127 - k) + MULHIGH (wb ! (2 * k + 1)) (x ! (128 * b + (64 + k))))])"
    proof (rule filled_ends(2) [OF f(2) k])
      have i: "dst + p + 127 - k = dst + (448 + 128 * b + (127 - k))" using b k by simp
      have le: "448 \<le> 448 + 128 * b + (127 - k)" "448 \<le> p + k" using b by auto
      show "s32 (ov ! (p + 127 - k - 128) + ov ! (p + 127 - k) + MULHIGH (wb ! (2 * k + 1)) (x ! (128 * b + (64 + k)))) = h (dst + p + 127 - k)"
        unfolding i h [OF le(1)] prev_half now_v T(2) [OF less_imp_diff_less [OF lt127]] using short_parts(2) [OF k, of wa wb x b] b k by (simp add: add.commute)
      show "s32 (ov ! (p + k - 128) + ov ! (p + k) - MULHIGH (wb ! (2 * k)) (x ! (128 * b + (64 + k)))) = h (dst + p + k)"
        unfolding add.assoc [of dst p k] h [OF le(2)] prev_half now_v T(1) [OF kk, folded b(3)] using short_parts(1) [OF k, of wa wb x b] b k by (simp add: add.commute)
    qed
    show "wp (short_body wb x (shift_ptrs k q) s) (?I (Suc k))" unfolding s run wp_Some prod.case using F H by blast
  qed
  moreover have "{448..<p} \<union> done_idx p 64 = {448..<p + 128}" "{dst..<dst + p} \<union> done_idx (dst + p) 64 = {dst..<dst + p + 128}"
    using b by (auto simp: done_idx_all)
  ultimately show ?thesis unfolding at_block_do [OF q(1)] by (auto simp: wp_iff)
qed

text \<open>The first block takes the window of the block before and finds nothing kept.\<close>

lemma first_loop:
  assumes len: "length x = 1024" "length wa = 1152" "length wb = 1152" "length v = 1024" "dst + 1024 \<le> length t"
    and q: "at_block q 0 448" "p_prev q = 0" "p_out q = int (dst + 448)" "p_out1 q = int (dst + 448 + 127)"
    and t': "filled h {dst..<dst + 448} t t'" and h: "\<And>i. 448 \<le> i \<Longrightarrow> h (dst + i) = s32 (short_time wa wb x v i)"
  shows "wp (win_do (long_body wa wb x) q (v, t')) (\<lambda>(q', v', t'). q' = shift_ptrs 64 q
    \<and> filled (kept wa wb x) {448..<576} v v' \<and> filled h {dst..<dst + 576} t t')"
proof -
  let ?I = "\<lambda>k (v', t'). filled (kept wa wb x) ({} \<union> done_idx 448 k) v v' \<and> filled h ({dst..<dst + 448} \<union> done_idx (dst + 448) k) t t'"
  have "wp (win_for 64 (long_body wa wb x) q (v, t')) (\<lambda>(q', s'). q' = shift_ptrs 64 q \<and> ?I 64 s')"
  proof (rule win_for_rule [where I = ?I])
    show "?I 0 (v, t')" using t' by (simp add: filled_refl)
    fix k s assume k: "k < 64" and I: "?I k s"
    obtain ov out where s: "s = (ov, out)" by fastforce
    have f: "filled (kept wa wb x) ({} \<union> done_idx 448 k) v ov" "filled h ({dst..<dst + 448} \<union> done_idx (dst + 448) k) t out"
      using I by (simp_all add: s)
    have l: "length ov = 1024" "length out = length t" using f len by (simp_all add: filled_length)
    have fit: "cursors_fit (128 * 0 + (64 + k)) (128 * 0 + (63 - k)) (448 + k) (448 + 127 - k) (2 * k) wb x ov"
      "cursors_fit (128 * 0 + (64 + k)) (128 * 0 + (63 - k)) (448 + k) (448 + 127 - k) (2 * k) wa x ov"
      by (rule at_block_fit; use k len l in auto)+
    have run: "long_body wa wb x (shift_ptrs k q) (ov, out) =
      Some (ov[448 + 127 - k := MULHIGH (wb ! (2 * k)) (x ! (128 * 0 + (63 - k))), 448 + k := MULHIGH (wb ! (2 * k + 1)) (x ! (128 * 0 + (63 - k)))],
        out[dst + 448 + k := s32 (ov ! (448 + k) - MULHIGH (wa ! (2 * k)) (x ! (128 * 0 + (64 + k)))),
            dst + 448 + 127 - k := s32 (ov ! (448 + 127 - k) + MULHIGH (wa ! (2 * k + 1)) (x ! (128 * 0 + (64 + k))))])"
      by (rule long_body_int [OF at_block_cursors [OF q(1) k] fit]) (use k len l q in \<open>auto simp: of_nat_diff\<close>)
    have now_v: "ov ! (448 + k) = v ! (448 + k)" "ov ! (448 + 127 - k) = v ! (448 + (127 - k))"
    proof -
      show "ov ! (448 + k) = v ! (448 + k)" by (rule filled_out [OF f(1)]; use k len in \<open>auto simp: in_done_idx\<close>)
      have "ov ! (448 + 127 - k) = v ! (448 + 127 - k)" by (rule filled_out [OF f(1)]; use k len in \<open>auto simp: in_done_idx\<close>)
      then show "ov ! (448 + 127 - k) = v ! (448 + (127 - k))" using k by simp
    qed
    have F: "filled (kept wa wb x) ({} \<union> done_idx 448 (Suc k)) v
        (ov[448 + 127 - k := MULHIGH (wb ! (2 * k)) (x ! (128 * 0 + (63 - k))), 448 + k := MULHIGH (wb ! (2 * k + 1)) (x ! (128 * 0 + (63 - k)))])"
      by (rule filled_ends(1) [OF f(1) k])
        (use k short_parts(3,4) [OF k, of wa wb x 0] kept_at [of "127 - k" wa wb x 0] kept_at [of k wa wb x 0] in simp_all)
    have T: "short_time wa wb x v (448 + j) = v ! (448 + j) + short_part wa wb x 0 j" if "j < 128" for j
      using short_time_at [of j 0 wa wb x v] that by simp
    have H: "filled h ({dst..<dst + 448} \<union> done_idx (dst + 448) (Suc k)) t
      (out[dst + 448 + k := s32 (ov ! (448 + k) - MULHIGH (wa ! (2 * k)) (x ! (128 * 0 + (64 + k)))),
            dst + 448 + 127 - k := s32 (ov ! (448 + 127 - k) + MULHIGH (wa ! (2 * k + 1)) (x ! (128 * 0 + (64 + k))))])"
    proof (rule filled_ends(2) [OF f(2) k])
      have i: "dst + 448 + 127 - k = dst + (448 + (127 - k))" "127 - k < 128" "k < 128" using k by auto
      have le: "448 \<le> 448 + (127 - k)" "448 \<le> 448 + k" by auto
      show "s32 (ov ! (448 + 127 - k) + MULHIGH (wa ! (2 * k + 1)) (x ! (128 * 0 + (64 + k)))) = h (dst + 448 + 127 - k)"
        unfolding i(1) h [OF le(1)] now_v T [OF i(2)] using short_parts(2) [OF k, of wa wb x 0] by simp
      show "s32 (ov ! (448 + k) - MULHIGH (wa ! (2 * k)) (x ! (128 * 0 + (64 + k)))) = h (dst + 448 + k)"
        unfolding add.assoc [of dst 448 k] h [OF le(2)] now_v T [OF i(3)] using short_parts(1) [OF k, of wa wb x 0] by simp
    qed
    show "wp (long_body wa wb x (shift_ptrs k q) s) (?I (Suc k))" unfolding s run wp_Some prod.case using F H by blast
  qed
  moreover have "{} \<union> done_idx 448 64 = {448..<576}" "{dst..<dst + 448} \<union> done_idx (dst + 448) 64 = {dst..<dst + 576}"
    by (auto simp: done_idx_all)
  ultimately show ?thesis unfolding at_block_do [OF q(1)] by (auto simp: wp_iff)
qed

text \<open>The block in the middle of the frame: its first half goes to the last samples and to the first overlap.\<close>

definition tail_fill :: "int list \<Rightarrow> int list \<Rightarrow> int list \<Rightarrow> int list \<Rightarrow> nat \<Rightarrow> nat \<Rightarrow> int" where
  "tail_fill wa wb x v b i =
     (if i < 64 + 128 * (b - 4) then s32 (short_time wa wb x v (1024 + i)) else short_part wa wb x b (128 + (i - (64 + 128 * (b - 4)))))"

lemma middle_loop:
  assumes len: "length x = 1024" "length wb = 1152" "length v = 1024" "dst + 1024 \<le> length t"
    and q: "at_block q 4 64" "p_out q = int (dst + 960)"
    and v': "filled (kept wa wb x) {448..<960} v v'" and t': "filled h {dst..<dst + 960} t t'"
    and h: "\<And>i. 448 \<le> i \<Longrightarrow> h (dst + i) = s32 (short_time wa wb x v i)"
  shows "wp (win_do (middle_body wb x) q (v', t')) (\<lambda>(q', v'', t'). q' = shift_ptrs 64 q
    \<and> filled (tail_fill wa wb x v 4) {..<192} v' v'' \<and> filled h {dst..<dst + 1024} t t')"
proof -
  let ?A = "\<lambda>k. {i. 63 < i + k \<and> i \<le> 63} \<union> done_idx 64 k"
  let ?I = "\<lambda>k (v'', t'). filled (tail_fill wa wb x v 4) (?A k) v' v'' \<and> filled h {dst..<dst + 960 + k} t t'"
  have lv: "length v' = 1024" using v' len by (simp add: filled_length)
  have "wp (win_for 64 (middle_body wb x) q (v', t')) (\<lambda>(q', s'). q' = shift_ptrs 64 q \<and> ?I 64 s')"
  proof (rule win_for_rule [where I = ?I])
    show "?I 0 (v', t')" using t' by (simp add: filled_def)
    fix k s assume k: "k < 64" and I: "?I k s"
    obtain ov out where s: "s = (ov, out)" by fastforce
    have f: "filled (tail_fill wa wb x v 4) (?A k) v' ov" "filled h {dst..<dst + 960 + k} t out"
      using I by (simp_all add: s)
    have l: "length ov = 1024" "length out = length t" using f len lv by (simp_all add: filled_length)
    have fit: "cursors_fit (128 * 4 + (64 + k)) (128 * 4 + (63 - k)) (64 + k) (64 + 127 - k) (2 * k) wb x ov"
      by (rule at_block_fit) (use k len l in auto)
    have run: "middle_body wb x (shift_ptrs k q) (ov, out) =
      Some (ov[64 + 127 - k - 128 := s32 (ov ! (64 + 127 - k + 768) + MULHIGH (wb ! (2 * k + 1)) (x ! (128 * 4 + (64 + k)))),
               64 + 127 - k := MULHIGH (wb ! (2 * k)) (x ! (128 * 4 + (63 - k))), 64 + k := MULHIGH (wb ! (2 * k + 1)) (x ! (128 * 4 + (63 - k)))],
        out[dst + 960 + k := s32 (ov ! (64 + k + 768) + ov ! (64 + k + 896) - MULHIGH (wb ! (2 * k)) (x ! (128 * 4 + (64 + k))))])"
      by (rule middle_body_int [OF at_block_cursors [OF q(1) k] fit]) (use k len l q in \<open>auto simp: of_nat_diff\<close>)
    have old: "ov ! (64 + 127 - k + 768) = short_part wa wb x 3 (128 + (127 - k))" "ov ! (64 + k + 768) = short_part wa wb x 3 (128 + k)"
      "ov ! (64 + k + 896) = v ! (960 + k)"
    proof -
      have "ov ! (64 + 127 - k + 768) = v' ! (64 + 127 - k + 768)" "ov ! (64 + k + 768) = v' ! (64 + k + 768)"
        "ov ! (64 + k + 896) = v' ! (64 + k + 896)"
        by (rule filled_out [OF f(1)]; use k lv in \<open>auto simp: in_done_idx\<close>)+
      moreover have "v' ! (64 + 127 - k + 768) = kept wa wb x (64 + 127 - k + 768)" "v' ! (64 + k + 768) = kept wa wb x (64 + k + 768)"
        by (rule filled_in [OF v']; use k len in auto)+
      moreover have "v' ! (64 + k + 896) = v ! (64 + k + 896)"
        by (rule filled_out [OF v']; use k len in auto)
      moreover have "64 + 127 - k + 768 = 448 + 128 * 3 + (127 - k)" "64 + k + 768 = 448 + 128 * 3 + k" "64 + k + 896 = 960 + k" using k by auto
      moreover have "kept wa wb x (448 + 128 * 3 + k) = short_part wa wb x 3 (128 + k)"
        "kept wa wb x (448 + 128 * 3 + (127 - k)) = short_part wa wb x 3 (128 + (127 - k))"
        by (rule kept_at; use k in simp)+
      ultimately have "ov ! (64 + 127 - k + 768) = short_part wa wb x 3 (128 + (127 - k)) \<and> ov ! (64 + k + 768) = short_part wa wb x 3 (128 + k)
        \<and> ov ! (64 + k + 896) = v ! (960 + k)" by metis
      then show "ov ! (64 + 127 - k + 768) = short_part wa wb x 3 (128 + (127 - k))" "ov ! (64 + k + 768) = short_part wa wb x 3 (128 + k)"
        "ov ! (64 + k + 896) = v ! (960 + k)" by blast+
    qed
    have T: "short_time wa wb x v (448 + 128 * 4 + j) = (if j < 64 then v ! (960 + j) else 0) + short_part wa wb x 3 (128 + j) + short_part wa wb x 4 j"
      if "j < 128" for j using short_time_at [of j 4 wa wb x v] that by simp
    have lt: "127 - k < 128" "k < 128" "\<not> 127 - k < 64" using k by auto
    have val: "s32 (ov ! (64 + 127 - k + 768) + MULHIGH (wb ! (2 * k + 1)) (x ! (128 * 4 + (64 + k)))) = tail_fill wa wb x v 4 (64 + 127 - k - 128)"
    proof -
      have i: "1024 + (64 + 127 - k - 128) = 448 + 128 * 4 + (127 - k)" "64 + 127 - k - 128 < 64" using k by auto
      show ?thesis unfolding tail_fill_def i(1) T [OF lt(1)] old using i(2) lt short_parts(2) [OF k, of wa wb x 4] by simp
    qed
    have "filled (tail_fill wa wb x v 4) (insert (64 + 127 - k - 128) (?A k)) v'
        (ov[64 + 127 - k - 128 := s32 (ov ! (64 + 127 - k + 768) + MULHIGH (wb ! (2 * k + 1)) (x ! (128 * 4 + (64 + k))))])"
      by (rule filled_upd [OF f(1) val])
    moreover have "insert (64 + 127 - k - 128) (?A k) = {i. 63 < i + Suc k \<and> i \<le> 63} \<union> done_idx 64 k" using k by auto
    ultimately have g: "filled (tail_fill wa wb x v 4) ({i. 63 < i + Suc k \<and> i \<le> 63} \<union> done_idx 64 k) v'
        (ov[64 + 127 - k - 128 := s32 (ov ! (64 + 127 - k + 768) + MULHIGH (wb ! (2 * k + 1)) (x ! (128 * 4 + (64 + k))))])"
      by simp
    have F: "filled (tail_fill wa wb x v 4) (?A (Suc k)) v'
       (ov[64 + 127 - k - 128 := s32 (ov ! (64 + 127 - k + 768) + MULHIGH (wb ! (2 * k + 1)) (x ! (128 * 4 + (64 + k)))),
               64 + 127 - k := MULHIGH (wb ! (2 * k)) (x ! (128 * 4 + (63 - k))), 64 + k := MULHIGH (wb ! (2 * k + 1)) (x ! (128 * 4 + (63 - k)))])"
      by (rule filled_ends(1) [OF g k]) (use k short_parts(3,4) [OF k, of wa wb x 4] in \<open>auto simp: tail_fill_def\<close>)
    have le: "448 \<le> 960 + k" by simp
    have "s32 (ov ! (64 + k + 768) + ov ! (64 + k + 896) - MULHIGH (wb ! (2 * k)) (x ! (128 * 4 + (64 + k)))) = h (dst + 960 + k)"
      unfolding add.assoc [of dst 960 k] h [OF le] old using T [OF lt(2)] k short_parts(1) [OF k, of wa wb x 4] by (simp add: add.commute)
    note H = filled_upd [OF f(2) this]
    have "insert (dst + 960 + k) {dst..<dst + 960 + k} = {dst..<dst + 960 + Suc k}" by auto
    note H = H [unfolded this]
    show "wp (middle_body wb x (shift_ptrs k q) s) (?I (Suc k))" unfolding s run wp_Some prod.case using F H by blast
  qed
  moreover have "?A 64 = {..<192}" by (auto simp: done_idx_all)
  ultimately show ?thesis unfolding at_block_do [OF q(1)] by (auto simp: wp_iff add.commute)
qed

definition tail_ok :: "int list \<Rightarrow> int list \<Rightarrow> int list \<Rightarrow> int list \<Rightarrow> nat \<Rightarrow> int list \<Rightarrow> bool" where
  "tail_ok wa wb x v b v' \<longleftrightarrow> length v' = 1024 \<and> (\<forall>i < 192 + 128 * (b - 4). v' ! i = tail_fill wa wb x v b i)"

lemma tail_loop:
  assumes len: "length x = 1024" "length wb = 1152"
    and b: "4 < b" "b < 8" "p = 64 + 128 * (b - 4)" and q: "at_block q b p" and v': "tail_ok wa wb x v (b - 1) v'"
  shows "wp (win_do (tail_body wb x) q (v', t)) (\<lambda>(q', v'', t'). q' = shift_ptrs 64 q \<and> tail_ok wa wb x v b v'' \<and> t' = t)"
proof -
  let ?A = "\<lambda>k. done_idx (p - 128) k \<union> done_idx p k"
  let ?I = "\<lambda>k (v'', t'). filled (tail_fill wa wb x v b) (?A k) v' v'' \<and> t' = t"
  have lv: "length v' = 1024" using v' by (simp add: tail_ok_def)
  have p: "192 \<le> p" "p \<le> 448" using b by auto
  have "wp (win_for 64 (tail_body wb x) q (v', t)) (\<lambda>(q', s'). q' = shift_ptrs 64 q \<and> ?I 64 s')"
  proof (rule win_for_rule [where I = ?I])
    show "?I 0 (v', t)" by (simp add: filled_refl)
    fix k s assume k: "k < 64" and I: "?I k s"
    obtain ov where s: "s = (ov, t)" using I by (cases s) auto
    have f: "filled (tail_fill wa wb x v b) (?A k) v' ov" using I by (simp add: s)
    have l: "length ov = 1024" using f lv by (simp add: filled_length)
    have fit: "cursors_fit (128 * b + (64 + k)) (128 * b + (63 - k)) (p + k) (p + 127 - k) (2 * k) wb x ov"
      by (rule at_block_fit) (use k len l p b in auto)
    have run: "tail_body wb x (shift_ptrs k q) (ov, t) =
      Some (ov[p + k - 128 := s32 (ov ! (p + k - 128) - MULHIGH (wb ! (2 * k)) (x ! (128 * b + (64 + k)))),
               p + 127 - k - 128 := s32 (ov ! (p + 127 - k - 128) + MULHIGH (wb ! (2 * k + 1)) (x ! (128 * b + (64 + k)))),
               p + 127 - k := MULHIGH (wb ! (2 * k)) (x ! (128 * b + (63 - k))), p + k := MULHIGH (wb ! (2 * k + 1)) (x ! (128 * b + (63 - k)))], t)"
      by (rule tail_body_int [OF at_block_cursors [OF q k] fit]) (use k p in auto)
    have e: "p + k - 128 = p - 128 + k" "p + 127 - k - 128 = p - 128 + 127 - k" "1024 + (p - 128 + k) = 448 + 128 * b + k"
      "1024 + (p - 128 + 127 - k) = 448 + 128 * b + (127 - k)" using k b by auto
    have old: "ov ! (p - 128 + k) = short_part wa wb x (b - 1) (128 + k) \<and> ov ! (p - 128 + 127 - k) = short_part wa wb x (b - 1) (128 + (127 - k))"
    proof -
      have "ov ! (p - 128 + k) = v' ! (p - 128 + k)" "ov ! (p - 128 + 127 - k) = v' ! (p - 128 + 127 - k)"
        by (rule filled_out [OF f]; use k lv p in \<open>auto simp: in_done_idx\<close>)+
      moreover have "v' ! (p - 128 + k) = tail_fill wa wb x v (b - 1) (p - 128 + k)"
        "v' ! (p - 128 + 127 - k) = tail_fill wa wb x v (b - 1) (p - 128 + 127 - k)"
        using v' k b by (auto simp: tail_ok_def)
      moreover have "64 + 128 * (b - 1 - 4) = p - 128" "p - 128 + 127 - k - (p - 128) = 127 - k" using b k by auto
      moreover have "\<not> p - 128 + 127 - k < p - 128" using k by simp
      ultimately show ?thesis by (simp add: tail_fill_def)
    qed
    have T: "short_time wa wb x v (448 + 128 * b + j) = short_part wa wb x (b - 1) (128 + j) + short_part wa wb x b j"
      if "j < 128" for j using short_time_at [of j b wa wb x v] that b by simp
    have lt: "127 - k < 128" "k < 128" using k by auto
    have "filled (tail_fill wa wb x v b) (done_idx p k \<union> done_idx (p - 128) k) v' ov" using f by (simp add: Un_commute)
    then have g: "filled (tail_fill wa wb x v b) (done_idx p k \<union> done_idx (p - 128) (Suc k)) v'
      (ov[p - 128 + k := s32 (ov ! (p - 128 + k) - MULHIGH (wb ! (2 * k)) (x ! (128 * b + (64 + k)))),
          p - 128 + 127 - k := s32 (ov ! (p - 128 + 127 - k) + MULHIGH (wb ! (2 * k + 1)) (x ! (128 * b + (64 + k))))])"
    proof (rule filled_ends(2) [OF _ k])
      have low: "p - 128 + 127 - k < 64 + 128 * (b - 4)" "p - 128 + k < 64 + 128 * (b - 4)" using b k by auto
      show "s32 (ov ! (p - 128 + 127 - k) + MULHIGH (wb ! (2 * k + 1)) (x ! (128 * b + (64 + k)))) = tail_fill wa wb x v b (p - 128 + 127 - k)"
        unfolding tail_fill_def if_P [OF low(1)] e(4) T [OF lt(1)] using old short_parts(2) [OF k, of wa wb x b] b by simp
      show "s32 (ov ! (p - 128 + k) - MULHIGH (wb ! (2 * k)) (x ! (128 * b + (64 + k)))) = tail_fill wa wb x v b (p - 128 + k)"
        unfolding tail_fill_def if_P [OF low(2)] e(3) T [OF lt(2)] using old short_parts(1) [OF k, of wa wb x b] b by simp
    qed
    then have g': "filled (tail_fill wa wb x v b) (done_idx (p - 128) (Suc k) \<union> done_idx p k) v'
      (ov[p - 128 + k := s32 (ov ! (p - 128 + k) - MULHIGH (wb ! (2 * k)) (x ! (128 * b + (64 + k)))),
          p - 128 + 127 - k := s32 (ov ! (p - 128 + 127 - k) + MULHIGH (wb ! (2 * k + 1)) (x ! (128 * b + (64 + k))))])"
      by (simp add: Un_commute)
    have F: "filled (tail_fill wa wb x v b) (?A (Suc k)) v'
      (ov[p - 128 + k := s32 (ov ! (p - 128 + k) - MULHIGH (wb ! (2 * k)) (x ! (128 * b + (64 + k)))),
          p - 128 + 127 - k := s32 (ov ! (p - 128 + 127 - k) + MULHIGH (wb ! (2 * k + 1)) (x ! (128 * b + (64 + k)))),
          p + 127 - k := MULHIGH (wb ! (2 * k)) (x ! (128 * b + (63 - k))), p + k := MULHIGH (wb ! (2 * k + 1)) (x ! (128 * b + (63 - k)))])"
    proof (rule filled_ends(1) [OF g' k])
      have i: "p + 127 - k - p = 127 - k" "p + k - p = k" "\<not> p + 127 - k < p" "128 + (127 - k) = 255 - k" using k by auto
      show "MULHIGH (wb ! (2 * k)) (x ! (128 * b + (63 - k))) = tail_fill wa wb x v b (p + 127 - k)"
        unfolding tail_fill_def b(3) [symmetric] using i b short_parts(4) [OF k, of wa wb x b] by simp
      show "MULHIGH (wb ! (2 * k + 1)) (x ! (128 * b + (63 - k))) = tail_fill wa wb x v b (p + k)"
        unfolding tail_fill_def b(3) [symmetric] using i b short_parts(3) [OF k, of wa wb x b] by simp
    qed
    show "wp (tail_body wb x (shift_ptrs k q) s) (?I (Suc k))" unfolding s run wp_Some prod.case e(1,2) using F by blast
  qed
  then obtain v'' where r: "win_for 64 (tail_body wb x) q (v', t) = Some (shift_ptrs 64 q, v'', t)"
      and f: "filled (tail_fill wa wb x v b) (?A 64) v' v''" by (auto simp: wp_iff)
  have A: "?A 64 = {p - 128..<p + 128}" using p by (auto simp: done_idx_all)
  have "v'' ! i = tail_fill wa wb x v b i" if "i < p + 128" for i
  proof (cases "p - 128 \<le> i")
    case True
    then show ?thesis using filled_in [OF f] that p lv by (simp add: A)
  next
    case False
    then have "v'' ! i = v' ! i" using filled_out [OF f] lv p by (simp add: A)
    also have "\<dots> = tail_fill wa wb x v (b - 1) i" using v' False b by (simp add: tail_ok_def)
    also have "i < 64 + 128 * (b - 1 - 4)" "i < 64 + 128 * (b - 4)" using False b by auto
    then have "tail_fill wa wb x v (b - 1) i = tail_fill wa wb x v b i" by (simp add: tail_fill_def)
    finally show ?thesis .
  qed
  then have "tail_ok wa wb x v b v''" using f lv b by (simp add: tail_ok_def filled_length)
  then show ?thesis unfolding at_block_do [OF q] r by simp
qed

section \<open>The window\<close>

lemma overwrite_filled:
  assumes "p + length vs \<le> length xs" "\<And>j. j < length vs \<Longrightarrow> vs ! j = g (p + j)"
  shows "filled g {p..<p + length vs} xs (overwrite xs (int p) vs)"
  using assms(1) assms(2) [of "i - p" for i] by (auto simp: filled_def overwrite_def nth_append)

lemma filled_append:
  assumes "filled g {p..<q} xs ys" "filled g {q..<r} ys zs" "p \<le> q" "q \<le> r"
  shows "filled g {p..<r} xs zs"
  using assms by (auto simp: filled_def)

lemma copy_fours_fill:
  "p + 4 * n \<le> length v \<Longrightarrow> d + 4 * n \<le> length t \<Longrightarrow> (\<And>j. j < 4 * n \<Longrightarrow> g (d + j) = v ! (p + j)) \<Longrightarrow>
     wp (copy_fours n (int p) (int d) v t) (filled g {d..<d + 4 * n} t)"
proof (induction n arbitrary: p d t)
  case (Suc n)
  let ?vs = "take 4 (drop p v)"
  have l: "length ?vs = 4" using Suc.prems by simp
  have a: "filled g {d..<d + 4} t (overwrite t (int d) ?vs)"
    using overwrite_filled [of d ?vs t g] Suc.prems l by simp
  have "wp (copy_fours n (int (p + 4)) (int (d + 4)) v (overwrite t (int d) ?vs)) (filled g {d + 4..<d + 4 + 4 * n} (overwrite t (int d) ?vs))"
  proof (rule Suc.IH)
    show "g (d + 4 + j) = v ! (p + 4 + j)" if "j < 4 * n" for j
      using Suc.prems(3) [of "4 + j"] that by (simp add: add.assoc add.commute add.left_commute)
  qed (use Suc.prems a in \<open>simp_all add: filled_length\<close>)
  then have "wp (copy_fours n (int (p + 4)) (int (d + 4)) v (overwrite t (int d) ?vs)) (filled g {d..<d + 4 * Suc n} t)"
    by (rule wp_mono) (use filled_append [OF a] in \<open>simp add: add.assoc add.commute\<close>)
  then show ?case using Suc.prems l by (simp add: rd_block_def wr_block_def add.commute)
qed (simp add: filled_refl)

lemma zero_fours_fill:
  "p + 4 * n \<le> length v \<Longrightarrow> wp (zero_fours n (int p) v) (filled (\<lambda>i. 0) {p..<p + 4 * n} v)"
proof (induction n arbitrary: p v)
  case (Suc n)
  let ?v = "overwrite v (int p) [0, 0, 0, 0]"
  have z: "[0, 0, 0, 0] ! j = (0 :: int)" if "j < 4" for j using that by (simp add: nth_Cons')
  have a: "filled (\<lambda>i. 0) {p..<p + 4} v ?v"
  proof -
    have "p + length [0, 0, 0, 0 :: int] = p + 4" by simp
    then show ?thesis using overwrite_filled [of p "[0, 0, 0, 0]" v "\<lambda>i. 0"] Suc.prems z by (simp only:) simp
  qed
  have "wp (zero_fours n (int (p + 4)) ?v) (filled (\<lambda>i. 0) {p + 4..<p + 4 + 4 * n} ?v)"
    by (rule Suc.IH) (use Suc.prems a in \<open>simp add: filled_length\<close>)
  then have "wp (zero_fours n (int (p + 4)) ?v) (filled (\<lambda>i. 0) {p..<p + 4 * Suc n} v)"
    by (rule wp_mono) (use filled_append [OF a] in \<open>simp add: add.assoc add.commute\<close>)
  then show ?case using Suc.prems by (simp add: wr_block_def add.commute)
qed (simp add: filled_refl)

lemma s32_MULHIGH [simp]: "s32 (MULHIGH a b) = MULHIGH a b"
  unfolding MULHIGH_def by (rule s32_id [OF s32_range])

lemma s32_short_part: "128 \<le> j \<Longrightarrow> s32 (short_part wa wb x b j) = short_part wa wb x b j"
  by (simp add: short_part_def s32_id)

text \<open>The cursors behind a loop, and where the next block begins.\<close>

lemma next_at_block: "at_block q b p \<Longrightarrow> b' = Suc b \<Longrightarrow> p' = p + 128 \<Longrightarrow> at_block (next_block (shift_ptrs 64 q)) b' p'"
  by (simp add: at_block_def next_block_def)

lemma next_out: "p_out q = int d \<Longrightarrow> p_out (next_block (shift_ptrs 64 q)) = int (d + 128) \<and> p_out1 (next_block (shift_ptrs 64 q)) = int (d + 255)"
  by (simp add: next_block_def)

lemma WinShort_block:
  fixes winTypeCurr winTypePrev :: int
  assumes len: "length inBuf = 1024" "length overl = 1024" "dst + 1024 \<le> length tmpBuf"
  defines "T \<equiv> short_time (window_of winTypePrev) (window_of winTypeCurr) inBuf overl"
  shows "wp (WinShort inBuf overl (int dst) tmpBuf winTypeCurr winTypePrev) (\<lambda>(overl', tmpBuf').
    filled (\<lambda>i. s32 (T (1024 + i))) {..<1024} overl overl' \<and> filled (\<lambda>i. if i < dst + 448 then overl ! (i - dst) else s32 (T (i - dst))) {dst..<dst + 1024} tmpBuf tmpBuf')"
proof -
  let ?wa = "window_of winTypePrev" and ?wb = "window_of winTypeCurr" and ?h = "\<lambda>i. if i < dst + 448 then overl ! (i - dst) else s32 (T (i - dst))"
  let ?q = "\<lparr>p_in = 64, p_in1 = 63, p_over = 448, p_over1 = 575, p_out = int dst + 448, p_out1 = int dst + 575, p_prev = 0, p_curr = 0\<rparr>"
  have h: "448 \<le> i \<Longrightarrow> ?h (dst + i) = s32 (short_time ?wa ?wb inBuf overl i)" for i by (simp add: T_def)
  obtain t0 where t0: "copy_fours 112 0 (int dst) overl tmpBuf = Some t0" "filled ?h {dst..<dst + 448} tmpBuf t0"
  proof -
    have "wp (copy_fours 112 (int 0) (int dst) overl tmpBuf) (filled ?h {dst..<dst + 4 * 112} tmpBuf)"
      by (rule copy_fours_fill) (use len in auto)
    then show thesis using that by (auto simp: wp_iff)
  qed
  define q1 where "q1 = next_block (shift_ptrs 64 ?q)"
  define q2 where "q2 = next_block (shift_ptrs 64 q1)"
  define q3 where "q3 = next_block (shift_ptrs 64 q2)"
  define q4 where "q4 = (next_block (shift_ptrs 64 q3))\<lparr>p_over := p_over (shift_ptrs 64 q3) - 832, p_over1 := p_over (shift_ptrs 64 q3) - 832 + 127\<rparr>"
  define q5 where "q5 = next_block (shift_ptrs 64 q4)"
  define q6 where "q6 = next_block (shift_ptrs 64 q5)"
  define q7 where "q7 = next_block (shift_ptrs 64 q6)"
  have at0: "at_block ?q 0 448" by (simp add: at_block_def)
  have at1: "at_block q1 1 576" unfolding q1_def by (rule next_at_block [OF at0]) simp_all
  have at2: "at_block q2 2 704" unfolding q2_def by (rule next_at_block [OF at1]) simp_all
  have at3: "at_block q3 3 832" unfolding q3_def by (rule next_at_block [OF at2]) simp_all
  have at4: "at_block q4 4 64" using at3 by (simp add: q4_def at_block_def next_block_def)
  have at5: "at_block q5 5 192" unfolding q5_def by (rule next_at_block [OF at4]) simp_all
  have at6: "at_block q6 6 320" unfolding q6_def by (rule next_at_block [OF at5]) simp_all
  have at7: "at_block q7 7 448" unfolding q7_def by (rule next_at_block [OF at6]) simp_all
  have out1: "p_out q1 = int (dst + 576)" "p_out1 q1 = int (dst + 576 + 127)" by (simp_all add: q1_def next_block_def)
  have out2: "p_out q2 = int (dst + 704)" "p_out1 q2 = int (dst + 704 + 127)" using out1 by (simp_all add: q2_def next_block_def)
  have out3: "p_out q3 = int (dst + 832)" "p_out1 q3 = int (dst + 832 + 127)" using out2 by (simp_all add: q3_def next_block_def)
  have out4: "p_out q4 = int (dst + 960)" using out3 by (simp add: q4_def next_block_def)
  obtain v0 t1 where l0: "win_do (long_body ?wa ?wb inBuf) ?q (overl, t0) = Some (shift_ptrs 64 ?q, v0, t1)"
      "filled (kept ?wa ?wb inBuf) {448..<576} overl v0" "filled ?h {dst..<dst + 576} tmpBuf t1"
    using first_loop [OF len(1) length_window length_window len(2,3) at0 _ _ _ t0(2) h] by (auto simp: wp_iff)
  obtain v1 t2 where l1: "win_do (short_body ?wb inBuf) q1 (v0, t1) = Some (shift_ptrs 64 q1, v1, t2)"
      "filled (kept ?wa ?wb inBuf) {448..<704} overl v1" "filled ?h {dst..<dst + 704} tmpBuf t2"
    using short_loop [OF len(1) length_window len(2,3) _ _ _ at1 out1 l0(2,3) h] by (auto simp: wp_iff add.commute)
  obtain v2 t3 where l2: "win_do (short_body ?wb inBuf) q2 (v1, t2) = Some (shift_ptrs 64 q2, v2, t3)"
      "filled (kept ?wa ?wb inBuf) {448..<832} overl v2" "filled ?h {dst..<dst + 832} tmpBuf t3"
    using short_loop [OF len(1) length_window len(2,3) _ _ _ at2 out2 l1(2,3) h] by (auto simp: wp_iff add.commute)
  obtain v3 t4 where l3: "win_do (short_body ?wb inBuf) q3 (v2, t3) = Some (shift_ptrs 64 q3, v3, t4)"
      "filled (kept ?wa ?wb inBuf) {448..<960} overl v3" "filled ?h {dst..<dst + 960} tmpBuf t4"
    using short_loop [OF len(1) length_window len(2,3) _ _ _ at3 out3 l2(2,3) h] by (auto simp: wp_iff add.commute)
  obtain v4 t5 where l4: "win_do (middle_body ?wb inBuf) q4 (v3, t4) = Some (shift_ptrs 64 q4, v4, t5)"
      "filled (tail_fill ?wa ?wb inBuf overl 4) {..<192} v3 v4" "filled ?h {dst..<dst + 1024} tmpBuf t5"
    using middle_loop [OF len(1) length_window len(2,3) at4 out4 l3(2,3) h] by (auto simp: wp_iff)
  have lv3: "length v3 = 1024" using l3(2) len by (simp add: filled_length)
  have ok4: "tail_ok ?wa ?wb inBuf overl 4 v4" using l4(2) lv3 by (simp add: tail_ok_def filled_def)
  obtain v5 where l5: "win_do (tail_body ?wb inBuf) q5 (v4, t5) = Some (shift_ptrs 64 q5, v5, t5)" "tail_ok ?wa ?wb inBuf overl 5 v5"
    using tail_loop [OF len(1) length_window _ _ _ at5] ok4 by (fastforce simp: wp_iff)
  obtain v6 where l6: "win_do (tail_body ?wb inBuf) q6 (v5, t5) = Some (shift_ptrs 64 q6, v6, t5)" "tail_ok ?wa ?wb inBuf overl 6 v6"
    using tail_loop [OF len(1) length_window _ _ _ at6] l5(2) by (fastforce simp: wp_iff)
  obtain v7 where l7: "win_do (tail_body ?wb inBuf) q7 (v6, t5) = Some (shift_ptrs 64 q7, v7, t5)" "tail_ok ?wa ?wb inBuf overl 7 v7"
    using tail_loop [OF len(1) length_window _ _ _ at7] l6(2) by (fastforce simp: wp_iff)
  have lv7: "length v7 = 1024" using l7(2) by (simp add: tail_ok_def)
  have p7: "p_over (shift_ptrs 64 q7) + 64 = int 576" using at7 by (simp add: at_block_def)
  obtain v8 where l8: "zero_fours 112 (p_over (shift_ptrs 64 q7) + 64) v7 = Some v8" "filled (\<lambda>i. 0) {576..<1024} v7 v8"
    using zero_fours_fill [of 576 112 v7] lv7 unfolding p7 by (auto simp: wp_iff)
  have "v8 ! i = s32 (T (1024 + i))" if i: "i < 1024" for i
  proof (cases "576 \<le> i")
    case True
    then show ?thesis using filled_in [OF l8(2)] i lv7 by (simp add: T_def short_time_high s32_id)
  next
    case False
    then have "v8 ! i = v7 ! i" using filled_out [OF l8(2)] i lv7 by simp
    also have "\<dots> = tail_fill ?wa ?wb inBuf overl 7 i" using l7(2) False by (simp add: tail_ok_def)
    also have "\<dots> = s32 (T (1024 + i))"
    proof (cases "i < 448")
      case False
      with \<open>\<not> 576 \<le> i\<close> have "1024 + i = 1472 + (i - 448)" "i - 448 < 128" by auto
      then show ?thesis using False short_time_last [of "i - 448" ?wa ?wb inBuf overl]
        by (simp add: tail_fill_def T_def s32_short_part)
    qed (simp add: tail_fill_def T_def)
    finally show ?thesis .
  qed
  then have "filled (\<lambda>i. s32 (T (1024 + i))) {..<1024} overl v8" using l8(2) lv7 len by (simp add: filled_def)
  moreover have "WinShort inBuf overl (int dst) tmpBuf winTypeCurr winTypePrev = Some (v8, t5)"
    unfolding WinShort_def Let_def t0(1) Option.bind.bind_lunit l0(1) prod.case numeral_3_eq_3 blocks_run.simps q1_def [symmetric] l1(1)
      q2_def [symmetric] l2(1) q3_def [symmetric] l3(1) q4_def [symmetric] l4(1) q5_def [symmetric] l5(1) q6_def [symmetric] l6(1)
      q7_def [symmetric] l7(1) fst_conv snd_conv l8(1) by (rule refl)
  ultimately show ?thesis using l4(3) by simp
qed

end
