(* ===== verification/FilterBank.thy ===== *)
theory FilterBank
  imports ShortBlocks ChannelMap DownMix
begin

unbundle bit_operations_syntax

text \<open>
  The filter bank of a syntax element, \<open>filter_bank\<close> of \<^verbatim>\<open>src/lc_imdct.c\<close>: for every channel the transform, the window
  of its sequence with the overlap of its output channel, and the samples, rounded to 16 bits and interleaved.
\<close>

section \<open>Windows and samples\<close>

definition window_block :: "int \<Rightarrow> int list \<Rightarrow> int list \<Rightarrow> int \<Rightarrow> int list \<Rightarrow> int \<Rightarrow> int \<Rightarrow> (int list \<times> int list) option" where
  "window_block wseq inBuf overl out tmpBuf winTypeCurr winTypePrev =
     (if wseq = ONLY_LONG_SEQUENCE then WinLong inBuf overl out tmpBuf winTypeCurr winTypePrev
      else if wseq = LONG_START_SEQUENCE then WinLongStart inBuf overl out tmpBuf winTypeCurr winTypePrev
      else if wseq = EIGHT_SHORT_SEQUENCE then WinShort inBuf overl out tmpBuf winTypeCurr winTypePrev
      else if wseq = LONG_STOP_SEQUENCE then WinLongStop inBuf overl out tmpBuf winTypeCurr winTypePrev
      else Some (overl, tmpBuf))"

definition SCLAE_IMDCT :: nat where "SCLAE_IMDCT = 3"
definition RND_VAL :: int where "RND_VAL = push_bit (SCLAE_IMDCT - 1) 1"

definition pcm_of :: "int \<Rightarrow> int" where
  "pcm_of x = s16 (CLIPTOSHORT (drop_bit SCLAE_IMDCT (s32 (x + RND_VAL))))"

fun pcm_loop :: "nat \<Rightarrow> int \<Rightarrow> int list \<Rightarrow> int \<Rightarrow> int \<Rightarrow> int list \<Rightarrow> int list option" where
  "pcm_loop 0 i tmpBuf outbuf stride pcm = Some pcm"
| "pcm_loop (Suc n) i tmpBuf outbuf stride pcm =
     do { x \<leftarrow> rd tmpBuf i; pcm \<leftarrow> wr pcm outbuf (pcm_of x); pcm_loop n (i + 1) tmpBuf (outbuf + stride) stride pcm }"

section \<open>The channels of an element\<close>

fun imdct_shorts :: "nat \<Rightarrow> int \<Rightarrow> int \<Rightarrow> int list \<Rightarrow> int list option" where
  "imdct_shorts 0 p gb buf = Some buf"
| "imdct_shorts (Suc i) p gb buf = do { buf \<leftarrow> ttIMDCT 0 p gb buf; imdct_shorts i (p + 128) gb buf }"

definition fb_transform :: "int \<Rightarrow> int \<Rightarrow> int list \<Rightarrow> int list option" where
  "fb_transform wseq gb buf = (if wseq = 2 then imdct_shorts 8 0 gb buf else ttIMDCT 1 0 gb buf)"

text \<open>The output channel, the place of its first sample and the distance of its samples.\<close>

definition fb_place :: "AACDecoder \<Rightarrow> int \<Rightarrow> int \<Rightarrow> int \<Rightarrow> (int \<times> int \<times> int) option" where
  "fb_place d ch chOut channel_stride =
     (if channelNum d > 2 then
        (if seletedChs d = CH_ALL then do { outCh \<leftarrow> rd (channel_offsize d) chOut; Some (chOut, outCh, channel_stride) }
         else (let chOut = seletedChDecoded d + ch in Some (chOut, chOut, 2)))
      else Some (chOut, chOut, channel_stride))"

definition fb_windowed :: "AACDecoder \<Rightarrow> ICS_Data \<Rightarrow> int \<Rightarrow> int \<Rightarrow> int \<Rightarrow> int \<Rightarrow> int list \<Rightarrow> int list \<Rightarrow> (AACDecoder \<times> int list) option" where
  "fb_windowed d ics ch chOut outbuf stride overl pcm =
     do { inBuf \<leftarrow> rd (coef d) ch;
          prevShape \<leftarrow> rd (prevWinShape d) chOut;
          (overl, tmpBuf) \<leftarrow> window_block (window_sequence ics) inBuf overl (1024 * ch) (tmpBuffer d) (window_shape ics) prevShape;
          overls \<leftarrow> wr (overlap d) chOut (Some overl);
          pcm \<leftarrow> pcm_loop 1024 (1024 * ch) tmpBuf outbuf stride pcm;
          raws \<leftarrow> wr (rawSampleBuf d) ch (nat (1024 * ch));
          shapes \<leftarrow> wr (prevWinShape d) chOut (window_shape ics);
          Some (d\<lparr>overlap := overls, tmpBuffer := tmpBuf, rawSampleBuf := raws, rawSampleBytes := 4,
            rawSampleFBits := int SCLAE_IMDCT, prevWinShape := shapes\<rparr>, pcm) }"

definition fb_channel :: "(string \<Rightarrow> bool) \<Rightarrow> AACDecoder \<Rightarrow> int \<Rightarrow> int \<Rightarrow> int \<Rightarrow> int list
    \<Rightarrow> (int \<times> int \<times> int \<times> AACDecoder \<times> int list) option" where
  "fb_channel malloc d ch chOut stride pcm =
     do { ics \<leftarrow> (if common_window d \<noteq> 0 then rd (ics_data d) 0 else rd (ics_data d) ch);
          (chOut, outbuf, stride) \<leftarrow> fb_place d ch chOut stride;
          row \<leftarrow> rd (coef d) ch; gb \<leftarrow> rd (gbCurrent d) ch;
          row \<leftarrow> fb_transform (window_sequence ics) gb row;
          rows \<leftarrow> wr (coef d) ch row;
          let d = d\<lparr>coef := rows\<rparr>;
          overl \<leftarrow> rd (overlap d) chOut;
          (case (case overl of None \<Rightarrow> malloc_ints malloc ''overlap'' 1024 | Some v \<Rightarrow> Some v) of
             None \<Rightarrow> Some (TTKErrNoMemory, chOut, stride, d, pcm)
           | Some v \<Rightarrow> do { (d, pcm) \<leftarrow> fb_windowed d ics ch chOut outbuf stride v pcm; Some (0, chOut, stride, d, pcm) }) }"

fun fb_loop :: "(string \<Rightarrow> bool) \<Rightarrow> nat \<Rightarrow> int \<Rightarrow> int \<Rightarrow> int \<Rightarrow> AACDecoder \<Rightarrow> int list \<Rightarrow> (int \<times> AACDecoder \<times> int list) option" where
  "fb_loop malloc 0 ch chOut stride d pcm = Some (0, d, pcm)"
| "fb_loop malloc (Suc n) ch chOut stride d pcm =
     do { en \<leftarrow> EnableDecodeCurrChannel d ch;
          if en = 0 then fb_loop malloc n (ch + 1) (chOut + 1) stride d pcm
          else do { (err, chOut, stride, d, pcm) \<leftarrow> fb_channel malloc d ch chOut stride pcm;
                    if err \<noteq> 0 then Some (err, d, pcm) else fb_loop malloc n (ch + 1) (chOut + 1) stride d pcm } }"

definition filter_bank :: "(string \<Rightarrow> bool) \<Rightarrow> AACDecoder \<Rightarrow> int list \<Rightarrow> (int \<times> AACDecoder \<times> int list) option" where
  "filter_bank malloc d pcm =
     fb_loop malloc (nat (elementChans d)) 0 (decodedChans d)
       (if chSpec d = CHAN_DUALONE \<and> channelNum d = 1 then 2 else channelNum d) d pcm"

section \<open>Windowed overlap-add\<close>

text \<open>The 2048 values of a long block: the output of the transform, unfolded and weighted.\<close>

definition long_part :: "int list \<Rightarrow> bool \<Rightarrow> int list \<Rightarrow> bool \<Rightarrow> int list \<Rightarrow> nat \<Rightarrow> int" where
  "long_part wndPrev p wndCurr c inBuf i =
     (if i < 512 then - fst (slope wndPrev p i (inBuf ! (512 + i)))
      else if i < 1024 then snd (slope wndPrev p (1023 - i) (inBuf ! (512 + (1023 - i))))
      else if i < 1536 then snd (slope wndCurr c (i - 1024) (inBuf ! (511 - (i - 1024))))
      else fst (slope wndCurr c (2047 - i) (inBuf ! (511 - (2047 - i)))))"

text \<open>The overlap and the block that begins with it.\<close>

definition block_time :: "int \<Rightarrow> int list \<Rightarrow> int list \<Rightarrow> int list \<Rightarrow> int list \<Rightarrow> nat \<Rightarrow> int" where
  "block_time wseq wndPrev wndCurr inBuf overl i =
     (if wseq = EIGHT_SHORT_SEQUENCE then short_time wndPrev wndCurr inBuf overl i
      else (if i < 1024 then overl ! i else 0)
        + long_part wndPrev (wseq = LONG_STOP_SEQUENCE) wndCurr (wseq = LONG_START_SEQUENCE) inBuf i)"

lemmas wseq_defs = ONLY_LONG_SEQUENCE_def LONG_START_SEQUENCE_def EIGHT_SHORT_SEQUENCE_def LONG_STOP_SEQUENCE_def

lemma long_block_time:
  assumes b: "long_block 512 inBuf dst wa p wb c (overl, tmpBuf) (overl', tmpBuf')" and len: "length overl = 1024" "dst + 1024 \<le> length tmpBuf"
  shows "length overl' = 1024 \<and> length tmpBuf' = length tmpBuf
     \<and> (\<forall>i<1024. overl' ! i = long_part wa p wb c inBuf (1024 + i))
     \<and> (\<forall>i<1024. tmpBuf' ! (dst + i) = (if p \<and> i < 448 then overl ! i else s32 (overl ! i + long_part wa p wb c inBuf i)))
     \<and> (\<forall>i<length tmpBuf. i < dst \<or> dst + 1024 \<le> i \<longrightarrow> tmpBuf' ! i = tmpBuf ! i)"
proof -
  have e: "k < 512 \<Longrightarrow> overl' ! k = snd (slope wb c k (inBuf ! (511 - k)))"
    "k < 512 \<Longrightarrow> overl' ! (1023 - k) = fst (slope wb c k (inBuf ! (511 - k)))"
    "k < 512 \<Longrightarrow> tmpBuf' ! (dst + k) = (if p \<and> k < 448 then overl ! k else s32 (overl ! k - fst (slope wa p k (inBuf ! (512 + k)))))"
    "k < 512 \<Longrightarrow> tmpBuf' ! (dst + 1023 - k) = s32 (overl ! (1023 - k) + snd (slope wa p k (inBuf ! (512 + k))))" for k
    using b by (simp_all add: long_block_def ends_done_def)
  have A: "overl' ! i = long_part wa p wb c inBuf (1024 + i)" if i: "i < 1024" for i
  proof (cases "i < 512")
    case True
    then show ?thesis using e(1) by (simp add: long_part_def)
  next
    case False
    then show ?thesis using e(2) [of "1023 - i"] i by (simp add: long_part_def)
  qed
  have B: "tmpBuf' ! (dst + i) = (if p \<and> i < 448 then overl ! i else s32 (overl ! i + long_part wa p wb c inBuf i))" if i: "i < 1024" for i
  proof (cases "i < 512")
    case True
    then show ?thesis using e(3) by (simp add: long_part_def)
  next
    case False
    then show ?thesis using e(4) [of "1023 - i"] i by (simp add: long_part_def)
  qed
  have "tmpBuf' ! i = tmpBuf ! i" if "i < length tmpBuf" "i < dst \<or> dst + 1024 \<le> i" for i
    using b that by (auto simp: long_block_def ends_done_def)
  moreover have "length overl' = 1024" "length tmpBuf' = length tmpBuf" using b len by (simp_all add: long_block_def ends_done_def)
  ultimately show ?thesis using A B by blast
qed

lemma window_block_time:
  fixes winTypeCurr winTypePrev :: int
  assumes len: "length inBuf = 1024" "length overl = 1024" "dst + 1024 \<le> length tmpBuf" and wseq: "0 \<le> wseq" "wseq < 4"
  defines "T \<equiv> block_time wseq (window_of winTypePrev) (window_of winTypeCurr) inBuf overl"
  shows "wp (window_block wseq inBuf overl (int dst) tmpBuf winTypeCurr winTypePrev) (\<lambda>(overl', tmpBuf').
    length overl' = 1024 \<and> length tmpBuf' = length tmpBuf
    \<and> (\<forall>i<1024. overl' ! i = (if wseq = EIGHT_SHORT_SEQUENCE then s32 (T (1024 + i)) else T (1024 + i)))
    \<and> (\<forall>i<1024. tmpBuf' ! (dst + i) = (if EIGHT_SHORT_SEQUENCE \<le> wseq \<and> i < 448 then overl ! i else s32 (T i)))
    \<and> (\<forall>i<length tmpBuf. i < dst \<or> dst + 1024 \<le> i \<longrightarrow> tmpBuf' ! i = tmpBuf ! i))"
proof -
  have long: "wp m (\<lambda>(overl', tmpBuf'). length overl' = 1024 \<and> length tmpBuf' = length tmpBuf
      \<and> (\<forall>i<1024. overl' ! i = (if wseq = EIGHT_SHORT_SEQUENCE then s32 (T (1024 + i)) else T (1024 + i)))
      \<and> (\<forall>i<1024. tmpBuf' ! (dst + i) = (if EIGHT_SHORT_SEQUENCE \<le> wseq \<and> i < 448 then overl ! i else s32 (T i)))
      \<and> (\<forall>i<length tmpBuf. i < dst \<or> dst + 1024 \<le> i \<longrightarrow> tmpBuf' ! i = tmpBuf ! i))"
    if "wp m (long_block 512 inBuf dst (window_of winTypePrev) (wseq = LONG_STOP_SEQUENCE) (window_of winTypeCurr) (wseq = LONG_START_SEQUENCE) (overl, tmpBuf))"
      "wseq \<noteq> EIGHT_SHORT_SEQUENCE" for m
    using that(1)
  proof (rule wp_mono, clarify, goal_cases)
    case (1 a b)
    have "EIGHT_SHORT_SEQUENCE \<le> wseq \<longleftrightarrow> wseq = LONG_STOP_SEQUENCE" using wseq that(2) by (auto simp: wseq_defs)
    then show ?case using long_block_time [OF 1(1) len(2,3)] that(2) by (simp add: T_def block_time_def)
  qed
  consider "wseq = 0" | "wseq = 1" | "wseq = 2" | "wseq = 3" using wseq by linarith
  then show ?thesis
  proof cases
    case 1
    have eq: "window_block wseq inBuf overl (int dst) tmpBuf winTypeCurr winTypePrev = WinLong inBuf overl (int dst) tmpBuf winTypeCurr winTypePrev"
      using 1 by (simp add: window_block_def wseq_defs)
    show ?thesis unfolding eq
      by (rule long) (use WinLong_block [OF len, of winTypeCurr winTypePrev] 1 in \<open>simp_all add: wseq_defs\<close>)
  next
    case 2
    have eq: "window_block wseq inBuf overl (int dst) tmpBuf winTypeCurr winTypePrev = WinLongStart inBuf overl (int dst) tmpBuf winTypeCurr winTypePrev"
      using 2 by (simp add: window_block_def wseq_defs)
    show ?thesis unfolding eq
      by (rule long) (use WinLongStart_block [OF len, of winTypeCurr winTypePrev] 2 in \<open>simp_all add: wseq_defs\<close>)
  next
    case 3
    have T: "T = short_time (window_of winTypePrev) (window_of winTypeCurr) inBuf overl"
      by (rule ext) (use 3 in \<open>simp add: T_def block_time_def wseq_defs\<close>)
    have "wp (WinShort inBuf overl (int dst) tmpBuf winTypeCurr winTypePrev) (\<lambda>(overl', tmpBuf').
      filled (\<lambda>i. s32 (T (1024 + i))) {..<1024} overl overl' \<and> filled (\<lambda>i. if i < dst + 448 then overl ! (i - dst) else s32 (T (i - dst))) {dst..<dst + 1024} tmpBuf tmpBuf')"
      unfolding T by (rule WinShort_block [OF len])
    moreover have "window_block wseq inBuf overl (int dst) tmpBuf winTypeCurr winTypePrev = WinShort inBuf overl (int dst) tmpBuf winTypeCurr winTypePrev"
      using 3 by (simp add: window_block_def wseq_defs)
    ultimately show ?thesis using 3 len by (auto simp: wp_iff filled_def wseq_defs)
  next
    case 4
    have eq: "window_block wseq inBuf overl (int dst) tmpBuf winTypeCurr winTypePrev = WinLongStop inBuf overl (int dst) tmpBuf winTypeCurr winTypePrev"
      using 4 by (simp add: window_block_def wseq_defs)
    show ?thesis unfolding eq
      by (rule long) (use WinLongStop_block [OF len, of winTypeCurr winTypePrev] 4 in \<open>simp_all add: wseq_defs\<close>)
  qed
qed

lemma s32_half: "s32 x = x \<Longrightarrow> s32 (drop_bit 1 x) = drop_bit 1 x"
  using s32_range [of x] by (intro s32_id) (simp_all add: drop_bit_eq_div)

lemma s32_slope: "s32 x = x \<Longrightarrow> s32 (fst (slope w c k x)) = fst (slope w c k x)" "s32 x = x \<Longrightarrow> s32 (snd (slope w c k x)) = snd (slope w c k x)"
  by (simp_all add: slope_def s32_half s32_id del: One_nat_def)

text \<open>On 32-bit values the copied parts are sums as well.\<close>

lemma window_block_sums:
  fixes winTypeCurr winTypePrev :: int
  assumes len: "length inBuf = 1024" "length overl = 1024" "dst + 1024 \<le> length tmpBuf" and wseq: "0 \<le> wseq" "wseq < 4"
    and s: "list_all (\<lambda>x. s32 x = x) inBuf" "list_all (\<lambda>x. s32 x = x) overl"
  defines "T \<equiv> block_time wseq (window_of winTypePrev) (window_of winTypeCurr) inBuf overl"
  shows "wp (window_block wseq inBuf overl (int dst) tmpBuf winTypeCurr winTypePrev) (\<lambda>(overl', tmpBuf').
    (\<forall>i<1024. tmpBuf' ! (dst + i) = s32 (T i) \<and> overl' ! i = s32 (T (1024 + i)))
    \<and> (\<forall>i<length tmpBuf. i < dst \<or> dst + 1024 \<le> i \<longrightarrow> tmpBuf' ! i = tmpBuf ! i))"
proof -
  have low: "overl ! i = s32 (T i)" if "EIGHT_SHORT_SEQUENCE \<le> wseq" "i < 448" for i
    using that wseq s(2) len by (auto simp: T_def block_time_def short_time_low long_part_def slope_def wseq_defs list_all_length)
  have high: "T (1024 + i) = s32 (T (1024 + i))" if "wseq \<noteq> EIGHT_SHORT_SEQUENCE" "i < 1024" for i
    using that s(1) len by (auto simp: T_def block_time_def long_part_def list_all_length s32_slope)
  obtain v t where r: "window_block wseq inBuf overl (int dst) tmpBuf winTypeCurr winTypePrev = Some (v, t)"
      "\<forall>i<1024. v ! i = (if wseq = EIGHT_SHORT_SEQUENCE then s32 (T (1024 + i)) else T (1024 + i))"
      "\<forall>i<1024. t ! (dst + i) = (if EIGHT_SHORT_SEQUENCE \<le> wseq \<and> i < 448 then overl ! i else s32 (T i))"
      "\<forall>i<length tmpBuf. i < dst \<or> dst + 1024 \<le> i \<longrightarrow> t ! i = tmpBuf ! i"
    using window_block_time [OF len wseq, of winTypeCurr winTypePrev] unfolding T_def by (auto simp: wp_iff)
  have "t ! (dst + i) = s32 (T i)" if "i < 1024" for i
    using spec [OF r(3), of i] low [of i] that by (metis (no_types, lifting))
  moreover have "v ! i = s32 (T (1024 + i))" if "i < 1024" for i
    using spec [OF r(2), of i] high [OF _ that] that by (metis (no_types, lifting))
  ultimately show ?thesis using r(1,4) by simp
qed

section \<open>The samples\<close>

lemma s16_range: "- 32768 \<le> s16 x" "s16 x < 32768"
  using signed_take_bit_int_greater_eq_minus_exp [of 15 x] signed_take_bit_int_less_exp [of 15 x] by (simp_all add: s16_def)

text \<open>A sample is an eighth of the sum, rounded and clipped.\<close>

lemma pcm_of_rounds:
  assumes "- (2 ^ 31) \<le> x" "x < 2 ^ 31 - 4"
  shows "pcm_of x = max (- 32768) (min 32767 ((x + 4) div 8))"
proof -
  let ?v = "(x + 4) div 8"
  have v: "- (2 ^ 28) \<le> ?v" "?v < 2 ^ 28" using assms by auto
  have e: "pcm_of x = s16 (CLIPTOSHORT ?v)"
    using assms by (simp add: pcm_of_def RND_VAL_def SCLAE_IMDCT_def s32_id drop_bit_eq_div)
  consider "- 32768 \<le> ?v" "?v < 32768" | "32768 \<le> ?v" | "?v < - 32768" by linarith
  then show ?thesis
  proof cases
    case 1
    then show ?thesis using clip_id [of ?v] e by simp
  next
    case 2
    have "drop_bit 31 ?v = 0" "drop_bit 15 ?v \<noteq> 0" using 2 v by (simp_all add: drop_bit_eq_div)
    then show ?thesis using 2 e by (simp add: CLIPTOSHORT_def s16_def)
  next
    case 3
    have "w div 2147483648 = - 1" if "w < 0" "- 2147483648 \<le> w" for w :: int
      using that by (auto simp: div_eq_minus1 intro: div_pos_neg_trivial)
    then have "?v div 2147483648 = - 1" using 3 v by simp
    then have "drop_bit 31 ?v = - 1" by (simp add: drop_bit_eq_div)
    moreover have "drop_bit 15 ?v < - 1" using 3 by (simp add: drop_bit_eq_div)
    ultimately show ?thesis using 3 e by (simp add: CLIPTOSHORT_def s16_def)
  qed
qed

definition interleaved :: "nat \<Rightarrow> int \<Rightarrow> int \<Rightarrow> int list \<Rightarrow> int \<Rightarrow> int list \<Rightarrow> int list \<Rightarrow> bool" where
  "interleaved n p stride tmpBuf i pcm pcm' \<longleftrightarrow> length pcm' = length pcm
     \<and> (\<forall>k<n. pcm' ! nat (p + int k * stride) = pcm_of (tmpBuf ! nat (i + int k)))
     \<and> (\<forall>j<length pcm. (\<forall>k<n. int j \<noteq> p + int k * stride) \<longrightarrow> pcm' ! j = pcm ! j)"

lemma pcm_loop_run:
  "0 < stride \<Longrightarrow> 0 \<le> p \<Longrightarrow> p + (int n - 1) * stride < int (length pcm) \<Longrightarrow> 0 \<le> i \<Longrightarrow> i + int n \<le> int (length tmpBuf) \<Longrightarrow>
     wp (pcm_loop n i tmpBuf p stride pcm) (interleaved n p stride tmpBuf i pcm)"
proof (induction n arbitrary: i p pcm)
  case (Suc n)
  have "0 \<le> int n * stride" using Suc.prems(1) by simp
  moreover have "(int (Suc n) - 1) * stride = int n * stride" by simp
  ultimately have p: "p < int (length pcm)" using Suc.prems(3) by linarith
  let ?pcm = "pcm[nat p := pcm_of (tmpBuf ! nat i)]"
  have "wp (pcm_loop n (i + 1) tmpBuf (p + stride) stride ?pcm) (interleaved n (p + stride) stride tmpBuf (i + 1) ?pcm)"
    by (rule Suc.IH) (use Suc.prems in \<open>auto simp: algebra_simps\<close>)
  then obtain q where q: "pcm_loop n (i + 1) tmpBuf (p + stride) stride ?pcm = Some q" "interleaved n (p + stride) stride tmpBuf (i + 1) ?pcm q"
    by (auto simp: wp_iff)
  have far: "p + stride + int k * stride \<noteq> p" for k
  proof -
    have "0 \<le> int k * stride" using Suc.prems(1) by simp
    then show ?thesis using Suc.prems(1) by linarith
  qed
  have q0: "q ! nat p = pcm_of (tmpBuf ! nat i)"
  proof -
    have "q ! nat p = ?pcm ! nat p"
      using q(2) far p Suc.prems(2) by (auto simp: interleaved_def)
    then show ?thesis using p Suc.prems(2) by simp
  qed
  have "q ! nat (p + int k * stride) = pcm_of (tmpBuf ! nat (i + int k))" if "k < Suc n" for k
  proof (cases k)
    case (Suc m)
    have e: "p + int (Suc m) * stride = p + stride + int m * stride" "i + int (Suc m) = i + 1 + int m" by (simp_all add: algebra_simps)
    show ?thesis unfolding Suc e using q(2) that Suc by (simp add: interleaved_def)
  qed (use q0 in simp)
  moreover have "q ! j = pcm ! j" if j: "j < length pcm" "\<forall>k<Suc n. int j \<noteq> p + int k * stride" for j
  proof -
    have "int j \<noteq> p + stride + int k * stride" if "k < n" for k
      using j(2) that by (auto dest!: spec [of _ "Suc k"] simp: algebra_simps)
    then have "q ! j = ?pcm ! j" using q(2) j(1) by (simp add: interleaved_def)
    moreover have "j \<noteq> nat p" using j(2) Suc.prems(2) by (auto dest!: spec [of _ 0])
    ultimately show ?thesis by simp
  qed
  ultimately have "interleaved (Suc n) p stride tmpBuf i pcm q"
    using q(2) by (simp add: interleaved_def)
  then show ?case using Suc.prems p q(1) by simp
qed (simp add: interleaved_def)

section \<open>Safety\<close>

lemma window_block_safe:
  assumes "length inBuf = 1024" "length overl = 1024" "dst + 1024 \<le> length tmpBuf"
  shows "wp (window_block wseq inBuf overl (int dst) tmpBuf wcur wprev) (\<lambda>(overl', tmpBuf'). length overl' = 1024 \<and> length tmpBuf' = length tmpBuf)"
proof (cases "0 \<le> wseq \<and> wseq < 4")
  case True
  then show ?thesis using window_block_time [OF assms, of wseq wcur wprev] by (auto simp: wp_iff)
next
  case False
  then show ?thesis using assms by (auto simp: window_block_def wseq_defs)
qed

lemma imdct_shorts_ok:
  "region 0 1024 xs ys \<Longrightarrow> - 26 \<le> gb \<Longrightarrow> length xs = 1024 \<Longrightarrow> 0 \<le> p \<Longrightarrow> p + 128 * int n \<le> 1024 \<Longrightarrow>
     wp (imdct_shorts n p gb ys) (\<lambda>zs. length zs = 1024)"
proof (induction n arbitrary: p ys)
  case (Suc n)
  have l: "length ys = 1024" using Suc.prems by (simp add: region_length)
  have "wp (ttIMDCT 0 p gb ys) (region p 128 ys)"
    by (rule ttIMDCT_region) (use Suc.prems l in \<open>auto simp: fft_ok_def intro: region_refl\<close>)
  then obtain zs where zs: "ttIMDCT 0 p gb ys = Some zs" "length zs = 1024" using l by (auto simp: wp_iff region_def)
  have "region 0 1024 xs zs" using zs(2) Suc.prems(3) by (auto simp: region_def)
  then show ?case using Suc.IH [of zs "p + 128"] Suc.prems zs(1) by simp
qed (simp add: region_length)

lemma fb_transform_ok:
  assumes "length buf = 1024" "- 26 \<le> gb"
  shows "wp (fb_transform wseq gb buf) (\<lambda>b. length b = 1024)"
proof (cases "wseq = 2")
  case True
  then show ?thesis using imdct_shorts_ok [of buf buf gb 0 8] assms by (simp add: fb_transform_def region_refl)
next
  case False
  have "wp (ttIMDCT 1 0 gb buf) (region 0 1024 buf)"
    by (rule ttIMDCT_region) (use assms in \<open>auto simp: fft_ok_def intro: region_refl\<close>)
  then show ?thesis using False assms by (auto simp: fb_transform_def wp_iff region_def)
qed

definition overlap_wf :: "int list option \<Rightarrow> bool" where
  "overlap_wf v = (case v of None \<Rightarrow> True | Some xs \<Rightarrow> length xs = 1024)"

definition fb_ok :: "AACDecoder \<Rightarrow> bool" where
  "fb_ok d \<longleftrightarrow> dec_ok d \<and> length (gbCurrent d) = 2 \<and> list_all (\<lambda>g. - 26 \<le> g) (gbCurrent d)
     \<and> length (overlap d) = 8 \<and> list_all overlap_wf (overlap d) \<and> length (tmpBuffer d) = 4096
     \<and> length (rawSampleBuf d) = 8 \<and> length (prevWinShape d) = 8"

text \<open>What the filter bank reads of the state and does not change.\<close>

definition fb_changed :: "AACDecoder \<Rightarrow> AACDecoder \<Rightarrow> bool" where
  "fb_changed d d' \<longleftrightarrow> channelNum d' = channelNum d \<and> seletedChs d' = seletedChs d \<and> channel_offsize d' = channel_offsize d \<and> 
     channel_position d' = channel_position d \<and> seletedChDecoded d' = seletedChDecoded d \<and> decodedChans d' = decodedChans d \<and> elementChans d' = elementChans d \<and> 
     common_window d' = common_window d \<and> ics_data d' = ics_data d \<and> chSpec d' = chSpec d \<and> profile d' = profile d \<and> 
     id_syn_ele d' = id_syn_ele d \<and> dbs d' = dbs d \<and> sbrEnabled d' = sbrEnabled d"

lemma fb_changed_refl [simp]: "fb_changed d d"
  by (simp add: fb_changed_def)

lemma fb_changed_trans: "fb_changed a b \<Longrightarrow> fb_changed b c \<Longrightarrow> fb_changed a c"
  by (simp add: fb_changed_def)

lemma fb_changed_upd [simp]: "fb_changed d (e\<lparr>coef := c\<rparr>) = fb_changed d e"
  "fb_changed d (e\<lparr>overlap := v\<rparr>) = fb_changed d e"
  "fb_changed d (e\<lparr>tmpBuffer := t\<rparr>) = fb_changed d e"
  "fb_changed d (e\<lparr>rawSampleBuf := r\<rparr>) = fb_changed d e"
  "fb_changed d (e\<lparr>rawSampleBytes := b\<rparr>) = fb_changed d e"
  "fb_changed d (e\<lparr>rawSampleFBits := f\<rparr>) = fb_changed d e"
  "fb_changed d (e\<lparr>prevWinShape := s\<rparr>) = fb_changed d e"
  by (simp_all add: fb_changed_def)

lemma fb_changed_head:
  "fb_changed d d' \<Longrightarrow> fb_place d' = fb_place d \<and> EnableDecodeCurrChannel d' = EnableDecodeCurrChannel d"
  by (simp add: fb_changed_def fb_place_def EnableDecodeCurrChannel_def fun_eq_iff)

text \<open>Where the samples of a channel go is inside the arrays.\<close>

definition fb_fits :: "AACDecoder \<Rightarrow> int list \<Rightarrow> int \<Rightarrow> int \<Rightarrow> int \<Rightarrow> bool" where
  "fb_fits d pcm ch chOut stride \<longleftrightarrow> wp (fb_place d ch chOut stride)
     (\<lambda>(co, ob, st). 0 \<le> co \<and> co < 8 \<and> 0 \<le> ob \<and> 0 < st \<and> ob + 1023 * st < int (length pcm))"

lemma fb_windowed_ok:
  assumes "fb_ok d" "ch = 0 \<or> ch = 1" "0 \<le> co" "co < 8" "0 \<le> ob" "0 < st" "ob + 1023 * st < int (length pcm)" "length v = 1024"
  shows "wp (fb_windowed d ics ch co ob st v pcm) (\<lambda>(d', pcm'). fb_ok d' \<and> fb_changed d d' \<and> length pcm' = length pcm)"
proof -
  have ch: "0 \<le> ch" "ch < 2" "nat ch < 2" using assms(2) by auto
  obtain base where base: "1024 * ch = int base" "base + 1024 \<le> 4096"
  proof -
    have "1024 * ch = int (nat (1024 * ch))" "nat (1024 * ch) + 1024 \<le> 4096" using assms(2) by auto
    with that show thesis by blast
  qed
  have ok: "dec_ok d" using assms(1) by (simp add: fb_ok_def)
  have len: "length (overlap d) = 8" "length (tmpBuffer d) = 4096" "length (rawSampleBuf d) = 8" "length (prevWinShape d) = 8"
    "length (coef d) = 2" "length (coef d ! nat ch) = 1024"
    using assms(1) dec_okD(9,15) [OF ok] ch(3) by (simp_all add: fb_ok_def)
  obtain v' t where w: "window_block (window_sequence ics) (coef d ! nat ch) v (1024 * ch) (tmpBuffer d) (window_shape ics) (prevWinShape d ! nat co) = Some (v', t)"
      "length v' = 1024" "length t = 4096"
  proof -
    have "wp (window_block (window_sequence ics) (coef d ! nat ch) v (1024 * ch) (tmpBuffer d) (window_shape ics) (prevWinShape d ! nat co))
      (\<lambda>(v', t). length v' = 1024 \<and> length t = length (tmpBuffer d))"
      unfolding base(1) by (rule window_block_safe) (use len assms(8) base(2) in simp_all)
    then show thesis using that len(2) by (auto simp: wp_iff)
  qed
  obtain p where p: "pcm_loop 1024 (1024 * ch) t ob st pcm = Some p" "length p = length pcm"
    using pcm_loop_run [of st ob 1024 pcm "1024 * ch" t] assms(2,5-7) w(3) by (auto simp: wp_iff interleaved_def)
  let ?d = "d\<lparr>overlap := (overlap d)[nat co := Some v'], tmpBuffer := t, rawSampleBuf := (rawSampleBuf d)[nat ch := nat (1024 * ch)],
      rawSampleBytes := 4, rawSampleFBits := int SCLAE_IMDCT, prevWinShape := (prevWinShape d)[nat co := window_shape ics]\<rparr>"
  have "fb_windowed d ics ch co ob st v pcm = Some (?d, p)"
    using len ch assms(3,4) by (simp add: fb_windowed_def rd_Some wr_Some w(1) p(1))
  moreover have "fb_ok ?d"
    using assms(1) w(2,3) by (simp add: fb_ok_def dec_ok_def overlap_wf_def list_all_upd)
  ultimately show ?thesis using p(2) by simp
qed

lemma fb_channel_ok:
  assumes "fb_ok d" "ch = 0 \<or> ch = 1" "fb_fits d pcm ch chOut stride"
  shows "wp (fb_channel malloc d ch chOut stride pcm) (\<lambda>(err, co, st, d', pcm'). (err = 0 \<or> err = TTKErrNoMemory) \<and> fb_ok d' \<and> fb_changed d d'
    \<and> length pcm' = length pcm \<and> (\<exists>ob. fb_place d ch chOut stride = Some (co, ob, st)))"
proof -
  obtain co ob st where pl: "fb_place d ch chOut stride = Some (co, ob, st)" and spot: "0 \<le> co" "co < 8" "0 \<le> ob" "0 < st" "ob + 1023 * st < int (length pcm)"
    using assms(3) by (auto simp: fb_fits_def wp_iff)
  have ch: "0 \<le> ch" "ch < 2" "nat ch < 2" using assms(2) by auto
  have len: "length (ics_data d) = 2" "length (coef d) = 2" "length (coef d ! nat ch) = 1024" "length (gbCurrent d) = 2" "length (overlap d) = 8"
    "- 26 \<le> gbCurrent d ! nat ch" "overlap_wf (overlap d ! nat co)"
  proof -
    have ok: "dec_ok d" "length (gbCurrent d) = 2" "list_all (\<lambda>g. - 26 \<le> g) (gbCurrent d)" "length (overlap d) = 8" "list_all overlap_wf (overlap d)"
      using assms(1) by (simp_all add: fb_ok_def)
    show "length (ics_data d) = 2" "length (coef d) = 2" "length (coef d ! nat ch) = 1024" "length (gbCurrent d) = 2" "length (overlap d) = 8"
      using dec_okD(1,9,15) [OF ok(1)] ok ch(3) by simp_all
    show "- 26 \<le> gbCurrent d ! nat ch" "overlap_wf (overlap d ! nat co)"
      using list_all_rd [OF ok(3)] list_all_rd [OF ok(5)] ok(2,4) ch(3) spot by simp_all
  qed
  obtain row where row: "fb_transform (window_sequence (ics_of d ch)) (gbCurrent d ! nat ch) (coef d ! nat ch) = Some row" "length row = 1024"
    using fb_transform_ok [OF len(3,6)] by (auto simp: wp_iff)
  let ?d = "d\<lparr>coef := (coef d)[nat ch := row]\<rparr>"
  have ok: "fb_ok ?d" using assms(1) row(2) by (simp add: fb_ok_def dec_ok_def)
  have ics: "(if common_window d \<noteq> 0 then rd (ics_data d) 0 else rd (ics_data d) ch) = Some (ics_of d ch)"
    using len(1) ch by (simp add: rd_Some ics_of_def)
  have run: "fb_channel malloc d ch chOut stride pcm =
      (case (case overlap d ! nat co of None \<Rightarrow> malloc_ints malloc ''overlap'' 1024 | Some v \<Rightarrow> Some v) of
             None \<Rightarrow> Some (TTKErrNoMemory, co, st, ?d, pcm)
           | Some v \<Rightarrow> do { (d, pcm) \<leftarrow> fb_windowed ?d (ics_of d ch) ch co ob st v pcm; Some (0, co, st, d, pcm) })"
    unfolding fb_channel_def ics using len ch spot row(1) by (simp add: pl rd_Some wr_Some Let_def)
  show ?thesis
  proof (cases "case overlap d ! nat co of None \<Rightarrow> malloc_ints malloc ''overlap'' 1024 | Some v \<Rightarrow> Some v")
    case None
    then show ?thesis using ok pl unfolding run by simp
  next
    case (Some v)
    have v: "length v = 1024"
      using Some len(7) by (auto simp: overlap_wf_def malloc_ints_def malloc_of_def split: option.splits if_splits)
    obtain d' pcm' where w: "fb_windowed ?d (ics_of d ch) ch co ob st v pcm = Some (d', pcm')" "fb_ok d'" "fb_changed ?d d'" "length pcm' = length pcm"
      using fb_windowed_ok [OF ok assms(2) spot v, of "ics_of d ch"] by (auto simp: wp_iff)
    then show ?thesis using fb_changed_trans [OF _ w(3)] pl unfolding run Some by simp
  qed
qed

definition fb_stride :: "AACDecoder \<Rightarrow> int" where
  "fb_stride d = (if chSpec d = CHAN_DUALONE \<and> channelNum d = 1 then 2 else channelNum d)"

text \<open>Every channel of the element has a slot in the channel map and its samples a place in the output.\<close>

definition fb_slots :: "AACDecoder \<Rightarrow> int list \<Rightarrow> bool" where
  "fb_slots d pcm \<longleftrightarrow> elementChans d \<le> 2 \<and> (\<forall>ch. 0 \<le> ch \<and> ch < elementChans d \<longrightarrow>
     EnableDecodeCurrChannel d ch \<noteq> None \<and> fb_fits d pcm ch (decodedChans d + ch) (fb_stride d))"

lemma fb_place_step:
  assumes "fb_place d ch chOut stride = Some (co, ob, st)" "fb_place d ch chOut stride = fb_place d ch (decodedChans d + ch) (fb_stride d)"
    and "channelNum d > 2 \<and> seletedChs d \<noteq> CH_ALL \<or> chOut = decodedChans d + ch \<and> stride = fb_stride d"
  shows "fb_place d (ch + 1) (co + 1) st = fb_place d (ch + 1) (decodedChans d + (ch + 1)) (fb_stride d)"
    "channelNum d > 2 \<and> seletedChs d \<noteq> CH_ALL \<or> co + 1 = decodedChans d + (ch + 1) \<and> st = fb_stride d"
  using assms by (auto simp: fb_place_def add.assoc split: if_splits Option.bind_splits)

lemma fb_loop_ok:
  "fb_ok d \<Longrightarrow> fb_slots d0 pcm0 \<Longrightarrow> fb_changed d0 d \<Longrightarrow> length pcm = length pcm0 \<Longrightarrow> 0 \<le> ch \<Longrightarrow> ch + int n \<le> elementChans d0 \<Longrightarrow>
     channelNum d0 > 2 \<and> seletedChs d0 \<noteq> CH_ALL \<or> chOut = decodedChans d0 + ch \<and> stride = fb_stride d0 \<Longrightarrow>
     wp (fb_loop malloc n ch chOut stride d pcm) (\<lambda>(err, d', pcm'). (err = 0 \<or> err = TTKErrNoMemory) \<and> fb_ok d' \<and> fb_changed d0 d'
       \<and> length pcm' = length pcm0)"
proof (induction n arbitrary: ch chOut stride d pcm)
  case (Suc n)
  have ch: "ch = 0 \<or> ch = 1" "0 \<le> ch \<and> ch < elementChans d0" using Suc.prems by (auto simp: fb_slots_def)
  have slot: "EnableDecodeCurrChannel d0 ch \<noteq> None" "fb_fits d0 pcm0 ch (decodedChans d0 + ch) (fb_stride d0)"
    using Suc.prems(2) ch(2) by (auto simp: fb_slots_def)
  have head: "fb_place d = fb_place d0" "EnableDecodeCurrChannel d = EnableDecodeCurrChannel d0"
    using fb_changed_head [OF Suc.prems(3)] by auto
  obtain en where en: "EnableDecodeCurrChannel d ch = Some en" using slot(1) head by auto
  have pl: "fb_place d0 ch chOut stride = fb_place d0 ch (decodedChans d0 + ch) (fb_stride d0)"
    using Suc.prems(7) by (auto simp: fb_place_def)
  show ?case
  proof (cases "en = 0")
    case True
    have "wp (fb_loop malloc n (ch + 1) (chOut + 1) stride d pcm) (\<lambda>(err, d', pcm'). (err = 0 \<or> err = TTKErrNoMemory) \<and> fb_ok d' \<and> fb_changed d0 d'
       \<and> length pcm' = length pcm0)"
      by (rule Suc.IH) (use Suc.prems in auto)
    then show ?thesis using en True by simp
  next
    case False
    have fits: "fb_fits d pcm ch chOut stride"
      using slot(2) Suc.prems(4) pl by (simp add: fb_fits_def head)
    obtain err co st d' pcm' ob where c: "fb_channel malloc d ch chOut stride pcm = Some (err, co, st, d', pcm')"
        "err = 0 \<or> err = TTKErrNoMemory" "fb_ok d'" "fb_changed d d'" "length pcm' = length pcm" "fb_place d0 ch chOut stride = Some (co, ob, st)"
      using wpD [OF fb_channel_ok [OF Suc.prems(1) ch(1) fits, of malloc]] head(1) that by (auto simp: split_beta)
    have d': "fb_changed d0 d'" using fb_changed_trans [OF Suc.prems(3) c(4)] .
    have "wp (fb_loop malloc n (ch + 1) (co + 1) st d' pcm') (\<lambda>(err, d', pcm'). (err = 0 \<or> err = TTKErrNoMemory) \<and> fb_ok d' \<and> fb_changed d0 d'
       \<and> length pcm' = length pcm0)"
      by (rule Suc.IH [OF c(3) Suc.prems(2) d' _ _ _ fb_place_step(2) [OF c(6) pl Suc.prems(7)]]) (use Suc.prems c(5) in auto)
    then show ?thesis using en False c d' Suc.prems(4) by auto
  qed
qed auto

lemma filter_bank_ok:
  assumes "fb_ok d" "fb_slots d pcm"
  shows "wp (filter_bank malloc d pcm) (\<lambda>(err, d', pcm'). (err = 0 \<or> err = TTKErrNoMemory) \<and> fb_ok d' \<and> fb_changed d d' \<and> length pcm' = length pcm)"
proof (cases "0 \<le> elementChans d")
  case True
  then show ?thesis unfolding filter_bank_def fb_stride_def [symmetric]
    by (intro fb_loop_ok [OF assms fb_changed_refl]) auto
next
  case False
  then show ?thesis using assms by (simp add: filter_bank_def)
qed

section \<open>What a channel plays\<close>

text \<open>The samples of a channel are those of the block that begins with its overlap.\<close>

lemma fb_windowed_samples:
  assumes "fb_ok d" "ch = 0 \<or> ch = 1" "0 \<le> co" "co < 8" "0 \<le> ob" "0 < st" "ob + 1023 * st < int (length pcm)" "length v = 1024"
    and wseq: "0 \<le> window_sequence ics" "window_sequence ics < 4" and v: "list_all (\<lambda>x. s32 x = x) v"
  defines "T \<equiv> block_time (window_sequence ics) (window_of (prevWinShape d ! nat co)) (window_of (window_shape ics)) (coef d ! nat ch) v"
  shows "wp (fb_windowed d ics ch co ob st v pcm) (\<lambda>(d', pcm').
    (\<forall>k<1024. pcm' ! nat (ob + int k * st) = pcm_of (s32 (T k))))"
proof -
  obtain base where base: "1024 * ch = int base" "base + 1024 \<le> 4096"
  proof -
    have "1024 * ch = int (nat (1024 * ch))" "nat (1024 * ch) + 1024 \<le> 4096" using assms(2) by auto
    with that show thesis by blast
  qed
  have ch: "0 \<le> ch" "ch < 2" "nat ch < 2" using assms(2) by auto
  have ok: "dec_ok d" using assms(1) by (simp add: fb_ok_def)
  have len: "length (overlap d) = 8" "length (tmpBuffer d) = 4096" "length (rawSampleBuf d) = 8" "length (prevWinShape d) = 8"
    "length (coef d) = 2" "length (coef d ! nat ch) = 1024"
    using assms(1) dec_okD(9,15) [OF ok] ch(3) by (simp_all add: fb_ok_def)
  have fit: "base + 1024 \<le> length (tmpBuffer d)" using base(2) len by simp
  obtain v' t where w: "window_block (window_sequence ics) (coef d ! nat ch) v (1024 * ch) (tmpBuffer d) (window_shape ics) (prevWinShape d ! nat co) = Some (v', t)"
      "length t = 4096" "\<forall>i<1024. t ! (base + i) = (if EIGHT_SHORT_SEQUENCE \<le> window_sequence ics \<and> i < 448 then v ! i else s32 (T i))"
    using window_block_time [OF len(6) assms(8) fit wseq, of "window_shape ics" "prevWinShape d ! nat co"] len(2)
    unfolding base(1) T_def by (auto simp: wp_iff)
  obtain p where p: "pcm_loop 1024 (1024 * ch) t ob st pcm = Some p" "interleaved 1024 ob st t (1024 * ch) pcm p"
    using pcm_loop_run [of st ob 1024 pcm "1024 * ch" t] assms(2,5-7) w(2) by (auto simp: wp_iff)
  have low: "s32 (T i) = v ! i" if "EIGHT_SHORT_SEQUENCE \<le> window_sequence ics" "i < 448" for i
    using that wseq v assms(8) by (auto simp: T_def block_time_def short_time_low long_part_def slope_def wseq_defs list_all_length)
  have t: "t ! (base + k) = s32 (T k)" if "k < 1024" for k using w(3) low that by auto
  have "p ! nat (ob + int k * st) = pcm_of (s32 (T k))" if "k < 1024" for k
    using p(2) t [OF that] that by (simp add: interleaved_def base(1) flip: of_nat_add)
  then show ?thesis
    using len ch assms(3,4) by (simp add: fb_windowed_def rd_Some wr_Some w(1) p(1))
qed

end
