(* ===== verification/BitReversal.thy ===== *)
theory BitReversal
  imports Transform
begin

text \<open>
  The table of \<open>Shuffle\<close> is right: it brings every complex number of the block to the place whose binary digits are
  those of its own in the opposite order.
\<close>

section \<open>Exchanges\<close>

text \<open>The exchanges of the table, as positions in the block of \<open>2 m\<close> entries.\<close>

fun exchanges :: "int \<Rightarrow> int list \<Rightarrow> (int \<times> int) list" where
  "exchanges m [] = []"
| "exchanges m (l # ts) =
     (if l = 0 then map (\<lambda>l. (4 * l + 2, m + 4 * l)) (0 # takeWhile (\<lambda>t. t \<noteq> 0) ts)
      else (case ts of [] \<Rightarrow> []
        | h # ts \<Rightarrow> [(4 * l, 4 * h), (4 * l + 2, m + 4 * h), (m + 4 * l, 4 * h + 2), (m + (4 * l + 2), m + (4 * h + 2))] @ exchanges m ts))"

fun do_swaps :: "int \<Rightarrow> (int \<times> int) list \<Rightarrow> 'a list \<Rightarrow> 'a list option" where
  "do_swaps p [] x = Some x"
| "do_swaps p ((i, j) # es) x = do { x \<leftarrow> swap2 (p + i) (p + j) x; do_swaps p es x }"

lemma do_swaps_run [simp]:
  "do_swaps p [] = Some" "do_swaps p ((i, j) # es) = (\<lambda>x. do { x \<leftarrow> swap2 (p + i) (p + j) x; do_swaps p es x })"
  by (auto simp: fun_eq_iff)

lemma ones_swaps:
  "0 \<in> set ts \<Longrightarrow> shuffle_ones l ts p (p + m) = do_swaps p (map (\<lambda>l. (4 * l + 2, m + 4 * l)) (l # takeWhile (\<lambda>t. t \<noteq> 0) ts))"
proof (induction ts arbitrary: l)
  case (Cons l' ts)
  have "shuffle_ones l (l' # ts) p (p + m) = (\<lambda>x. do { x \<leftarrow> swap2 (p + (4 * l + 2)) (p + m + 4 * l) x;
      if l' \<noteq> 0 then shuffle_ones l' ts p (p + m) x else Some x })"
    by (simp add: fun_eq_iff)
  then show ?case using Cons by (cases "l' = 0") (simp_all add: add.assoc)
qed simp

lemma pairs_swaps:
  "pairs_fit m ts \<Longrightarrow>
     do { (ts, x) \<leftarrow> shuffle_pairs ts p (p + m) x; shuffle_ones 0 ts p (p + m) x } = do_swaps p (exchanges m ts) x"
proof (induction m ts arbitrary: x rule: pairs_fit.induct)
  case (2 m l ts)
  show ?case
  proof (cases "l = 0")
    case True
    then show ?thesis using 2(2) fun_cong [OF ones_swaps [of ts 0 p m], of x] by auto
  next
    case False
    then obtain h us where ts: "ts = h # us" using 2(2) by (cases ts) auto
    have "pairs_fit m us" using 2(2) False ts by auto
    from 2(1) [OF False ts this] show ?thesis using False by (simp add: ts add.assoc)
  qed
qed simp

definition places_of :: "(int \<times> int) list \<Rightarrow> int list" where
  "places_of es = concat (map (\<lambda>(i, j). [i, j]) es)"

text \<open>The number that is at \<open>k\<close> after an exchange.\<close>

definition exchanged :: "int \<Rightarrow> int \<Rightarrow> int \<Rightarrow> int" where
  "exchanged i j k = (if k = i \<or> k = i + 1 then k - i + j else if k = j \<or> k = j + 1 then k - j + i else k)"

lemma swap2_eq:
  assumes "0 \<le> i" "0 \<le> j" "even i" "even j" "i \<noteq> j" "i + 1 < int (length x)" "j + 1 < int (length x)"
  shows "\<exists>y. swap2 i j x = Some y \<and> length y = length x
     \<and> (\<forall>k. 0 \<le> k \<and> k < int (length x) \<longrightarrow> y ! nat k = x ! nat (exchanged i j k))"
proof -
  obtain a b where ab: "i = int a" "j = int b" using assms(1,2) by (metis nonneg_int_cases)
  have ne: "a \<noteq> b" "a \<noteq> Suc b" "b \<noteq> Suc a" using assms(3-5) unfolding ab by auto
  have n: "nat (int a + 1) = Suc a" "nat (int b + 1) = Suc b" by auto
  let ?y = "x[a := x ! b, Suc a := x ! Suc b, b := x ! a, Suc b := x ! Suc a]"
  have "Suc a < length x" "Suc b < length x" using assms(6,7) unfolding ab by auto
  then have "swap2 i j x = Some ?y"
    using ne by (simp add: swap2_def rd_Some wr_Some ab n)
  moreover have "?y ! nat k = x ! nat (exchanged i j k)" if k: "0 \<le> k" "k < int (length x)" for k
  proof -
    obtain m where m: "k = int m" using k(1) by (metis nonneg_int_cases)
    have "?y ! m = x ! (if m = a then b else if m = Suc a then Suc b else if m = b then a else if m = Suc b then Suc a else m)"
      using ne k(2) unfolding m by (auto simp: nth_list_update)
    also have "(if m = a then b else if m = Suc a then Suc b else if m = b then a else if m = Suc b then Suc a else m) = nat (exchanged i j k)"
      using ne by (auto simp: exchanged_def m ab)
    finally show ?thesis by (simp add: m)
  qed
  ultimately show ?thesis by (intro exI [of _ ?y]) simp
qed

definition fits_in :: "int \<Rightarrow> 'a list \<Rightarrow> int \<Rightarrow> bool" where
  "fits_in p x i \<longleftrightarrow> 0 \<le> i \<and> even i \<and> p + i + 1 < int (length x)"

definition at_place :: "int \<Rightarrow> 'a list \<Rightarrow> int \<Rightarrow> 'a \<times> 'a" where
  "at_place p x i = (x ! nat (p + i), x ! nat (p + i + 1))"

lemma swap2_places:
  assumes "0 \<le> p" "even p" "fits_in p x i" "fits_in p x j" "i \<noteq> j"
  shows "\<exists>y. swap2 (p + i) (p + j) x = Some y \<and> length y = length x
     \<and> (\<forall>k. fits_in p x k \<longrightarrow> at_place p y k = at_place p x (if k = i then j else if k = j then i else k))"
proof -
  obtain y where y: "swap2 (p + i) (p + j) x = Some y" "length y = length x"
      "\<And>k. 0 \<le> k \<Longrightarrow> k < int (length x) \<Longrightarrow> y ! nat k = x ! nat (exchanged (p + i) (p + j) k)"
    using swap2_eq [of "p + i" "p + j" x] assms by (auto simp: fits_in_def)
  have "at_place p y k = at_place p x (if k = i then j else if k = j then i else k)" if k: "fits_in p x k" for k
  proof -
    have "k + 1 \<noteq> i" "k \<noteq> i + 1" "k + 1 \<noteq> j" "k \<noteq> j + 1" using assms k by (auto simp: fits_in_def)
    then have "exchanged (p + i) (p + j) (p + k) = p + (if k = i then j else if k = j then i else k)"
        "exchanged (p + i) (p + j) (p + k + 1) = p + (if k = i then j else if k = j then i else k) + 1"
      by (auto simp: exchanged_def)
    then show ?thesis using y(3) [of "p + k"] y(3) [of "p + k + 1"] assms(1) k by (simp add: at_place_def fits_in_def)
  qed
  with y(1,2) show ?thesis by blast
qed

lemma do_swaps_eq:
  "0 \<le> p \<Longrightarrow> even p \<Longrightarrow> distinct (places_of es) \<Longrightarrow> \<forall>i \<in> set (places_of es). fits_in p x i \<Longrightarrow>
   \<exists>y. do_swaps p es x = Some y \<and> length y = length x
     \<and> (\<forall>i j. (i, j) \<in> set es \<longrightarrow> at_place p y i = at_place p x j \<and> at_place p y j = at_place p x i)
     \<and> (\<forall>k. fits_in p x k \<and> k \<notin> set (places_of es) \<longrightarrow> at_place p y k = at_place p x k)"
proof (induction es arbitrary: x)
  case (Cons e es)
  obtain i j where e: "e = (i, j)" by fastforce
  have ij: "fits_in p x i" "fits_in p x j" "i \<noteq> j" "i \<notin> set (places_of es)" "j \<notin> set (places_of es)" "distinct (places_of es)"
      "\<forall>i \<in> set (places_of es). fits_in p x i"
    using Cons.prems by (auto simp: e places_of_def)
  obtain y where y: "swap2 (p + i) (p + j) x = Some y" "length y = length x"
      "\<And>k. fits_in p x k \<Longrightarrow> at_place p y k = at_place p x (if k = i then j else if k = j then i else k)"
    using swap2_places [OF Cons.prems(1,2) ij(1-3)] by blast
  have fy: "fits_in p y = fits_in p x" by (simp add: fits_in_def fun_eq_iff y(2))
  have "\<forall>i \<in> set (places_of es). fits_in p y i" using ij(7) by (simp add: fy)
  from Cons.IH [OF Cons.prems(1,2) ij(6) this] obtain z where z: "do_swaps p es y = Some z" "length z = length y"
      "\<And>i j. (i, j) \<in> set es \<Longrightarrow> at_place p z i = at_place p y j \<and> at_place p z j = at_place p y i"
      "\<And>k. fits_in p x k \<Longrightarrow> k \<notin> set (places_of es) \<Longrightarrow> at_place p z k = at_place p y k"
    unfolding fy by blast
  have mem: "a \<in> set (places_of es)" "b \<in> set (places_of es)" if "(a, b) \<in> set es" for a b
    using that by (auto simp: places_of_def)
  have A: "at_place p z a = at_place p x b \<and> at_place p z b = at_place p x a" if "(a, b) \<in> set (e # es)" for a b
  proof (cases "(a, b) \<in> set es")
    case True
    with mem ij have "a \<noteq> i" "a \<noteq> j" "b \<noteq> i" "b \<noteq> j" "fits_in p x a" "fits_in p x b" by blast+
    then show ?thesis using z(3) [OF True] y(3) by simp
  next
    case False
    then have "a = i" "b = j" using that by (auto simp: e)
    then show ?thesis using z(4) y(3) ij by simp
  qed
  have B: "at_place p z k = at_place p x k" if "fits_in p x k" "k \<notin> set (places_of (e # es))" for k
  proof -
    have "k \<noteq> i" "k \<noteq> j" "k \<notin> set (places_of es)" using that(2) by (auto simp: e places_of_def)
    then show ?thesis using z(4) y(3) that(1) by simp
  qed
  have "do_swaps p (e # es) x = Some z" "length z = length x" using y(1,2) z(1,2) by (simp_all add: e)
  with A B show ?case by blast
qed (simp add: places_of_def)

section \<open>Reversals\<close>

fun bitrev :: "nat \<Rightarrow> int \<Rightarrow> int" where
  "bitrev 0 k = 0"
| "bitrev (Suc b) k = (k mod 2) * 2 ^ b + bitrev b (k div 2)"

text \<open>What the tables say: every number that is less than its reversal is exchanged with it, and no other.\<close>

definition reverses :: "nat \<Rightarrow> (int \<times> int) list \<Rightarrow> bool" where
  "reverses b es \<longleftrightarrow> list_all (\<lambda>k. bitrev b (bitrev b k) = k \<and> 0 \<le> bitrev b k \<and> bitrev b k < 2 ^ b) [0..2 ^ b - 1]
     \<and> list_all (\<lambda>(i, j). j = 2 * bitrev b (i div 2) \<and> i = 2 * bitrev b (j div 2)) es
     \<and> sort (map (\<lambda>(i, j). min i j) es) = map (\<lambda>k. 2 * k) (filter (\<lambda>k. k < bitrev b k) [0..2 ^ b - 1])"

lemma short_reverses: "reverses 6 (exchanges 64 BitRevTab)"
  by code_simp

lemma long_reverses: "reverses 9 (exchanges 512 (drop 17 BitRevTab))"
  by code_simp

lemma places_distinct:
  "(\<And>i j. (i, j) \<in> set es \<Longrightarrow> j = f i \<and> i = f j \<and> i \<noteq> j) \<Longrightarrow> distinct (map (\<lambda>(i, j). min i j) es) \<Longrightarrow> distinct (places_of es)"
proof (induction es)
  case (Cons e es)
  obtain i j where e: "e = (i, j)" by fastforce
  have new: "min i j \<noteq> min a b" if "(a, b) \<in> set es" for a b
    using Cons.prems(2) that by (force simp: e)
  have r: "j = f i \<and> i = f j \<and> i \<noteq> j" by (rule Cons.prems(1)) (simp add: e)
  have "i \<noteq> a \<and> i \<noteq> b \<and> j \<noteq> a \<and> j \<noteq> b" if ab: "(a, b) \<in> set es" for a b
  proof -
    have "b = f a \<and> a = f b \<and> a \<noteq> b" by (rule Cons.prems(1)) (simp add: ab)
    then show ?thesis using r new [OF ab] by (metis min.commute)
  qed
  then have "i \<notin> set (places_of es)" "j \<notin> set (places_of es)" by (auto simp: places_of_def)
  moreover have "distinct (places_of es)"
  proof (rule Cons.IH)
    show "b = f a \<and> a = f b \<and> a \<noteq> b" if "(a, b) \<in> set es" for a b by (rule Cons.prems(1)) (simp add: that)
  qed (use Cons.prems(2) in simp)
  moreover have "i \<noteq> j" using r by blast
  ultimately show ?case by (simp add: e places_of_def)
qed (simp add: places_of_def)

lemma bitrev_exchange:
  assumes "reverses b es"
  shows "distinct (places_of es)" "i \<in> set (places_of es) \<Longrightarrow> even i \<and> 0 \<le> i \<and> i + 2 \<le> 2 * 2 ^ b"
    "(i, j) \<in> set es \<Longrightarrow> j = 2 * bitrev b (i div 2) \<and> i = 2 * bitrev b (j div 2)"
    "0 \<le> k \<Longrightarrow> k < 2 ^ b \<Longrightarrow> (\<exists>j. (2 * k, j) \<in> set es \<or> (j, 2 * k) \<in> set es) \<or> bitrev b k = k"
proof -
  define lows where "lows = map (\<lambda>(i, j). min i j) es"
  have inv: "bitrev b (bitrev b k) = k" "0 \<le> bitrev b k" "bitrev b k < 2 ^ b" if "0 \<le> k" "k < 2 ^ b" for k
    using assms that by (auto simp: reverses_def list_all_iff)
  have pair: "j = 2 * bitrev b (i div 2)" "i = 2 * bitrev b (j div 2)" if "(i, j) \<in> set es" for i j
    using assms that by (auto simp: reverses_def list_all_iff)
  then show "(i, j) \<in> set es \<Longrightarrow> j = 2 * bitrev b (i div 2) \<and> i = 2 * bitrev b (j div 2)" by blast
  have srt: "sort lows = map (\<lambda>k. 2 * k) (filter (\<lambda>k. k < bitrev b k) [0..2 ^ b - 1])" using assms by (simp add: reverses_def lows_def)
  have dist: "distinct lows" using arg_cong [OF srt, of distinct] by (simp add: distinct_map inj_on_def)
  have lows: "set lows = {2 * k | k. 0 \<le> k \<and> k < 2 ^ b \<and> k < bitrev b k}" using arg_cong [OF srt, of set] by auto
  have low: "\<exists>k. 0 \<le> k \<and> k < 2 ^ b \<and> k < bitrev b k \<and> (i = 2 * k \<and> j = 2 * bitrev b k \<or> j = 2 * k \<and> i = 2 * bitrev b k)"
    if "(i, j) \<in> set es" for i j
  proof -
    have "min i j \<in> set lows" using that by (force simp: lows_def)
    then obtain k where k: "min i j = 2 * k" "0 \<le> k" "k < 2 ^ b" "k < bitrev b k" using lows by auto
    then have "i = 2 * k \<or> j = 2 * k" by (auto simp: min_def split: if_splits)
    then have "i = 2 * k \<and> j = 2 * bitrev b k \<or> j = 2 * k \<and> i = 2 * bitrev b k"
    proof
      assume "i = 2 * k"
      then have "i div 2 = k" by simp
      then show ?thesis using pair(1) [OF that] \<open>i = 2 * k\<close> by metis
    next
      assume "j = 2 * k"
      then have "j div 2 = k" by simp
      then show ?thesis using pair(2) [OF that] \<open>j = 2 * k\<close> by metis
    qed
    with k(2-4) show ?thesis by blast
  qed
  have ne: "i \<noteq> j" if "(i, j) \<in> set es" for i j
    using low [OF that] by auto
  show "distinct (places_of es)"
  proof (rule places_distinct [where f = "\<lambda>i. 2 * bitrev b (i div 2)"])
    show "j = 2 * bitrev b (i div 2) \<and> i = 2 * bitrev b (j div 2) \<and> i \<noteq> j" if "(i, j) \<in> set es" for i j
      by (intro conjI pair ne that)
  qed (use dist in \<open>simp add: lows_def\<close>)
  show "even i \<and> 0 \<le> i \<and> i + 2 \<le> 2 * 2 ^ b" if i: "i \<in> set (places_of es)"
  proof -
    obtain j where "(i, j) \<in> set es \<or> (j, i) \<in> set es" using i by (auto simp: places_of_def)
    then obtain k where "0 \<le> k" "k < 2 ^ b" "i = 2 * k \<or> i = 2 * bitrev b k" using low by blast
    then show ?thesis using inv [of k] by auto
  qed
  show "(\<exists>j. (2 * k, j) \<in> set es \<or> (j, 2 * k) \<in> set es) \<or> bitrev b k = k" if k: "0 \<le> k" "k < 2 ^ b"
  proof -
    have up: "\<exists>j. (2 * m, j) \<in> set es \<or> (j, 2 * m) \<in> set es" if "0 \<le> m" "m < 2 ^ b" "m < bitrev b m" for m
    proof -
      have "2 * m \<in> set lows" using that lows by auto
      then show ?thesis by (auto simp: lows_def min_def split: if_splits)
    qed
    consider "k < bitrev b k" | "bitrev b k < k" | "bitrev b k = k" by linarith
    then show ?thesis
    proof cases
      case 2
      then obtain j where "(2 * bitrev b k, j) \<in> set es \<or> (j, 2 * bitrev b k) \<in> set es"
        using up [of "bitrev b k"] inv [OF k] by auto
      then show ?thesis
      proof
        assume m: "(2 * bitrev b k, j) \<in> set es"
        have "j = 2 * k" using pair(1) [OF m] inv(1) [OF k] by simp
        with m show ?thesis by blast
      next
        assume m: "(j, 2 * bitrev b k) \<in> set es"
        have "j = 2 * k" using pair(2) [OF m] inv(1) [OF k] by simp
        with m show ?thesis by blast
      qed
    next
      case 1
      with up [OF k] show ?thesis by blast
    next
      case 3
      then show ?thesis by blast
    qed
  qed
qed

text \<open>Both sizes: complex number \<open>k\<close> of the result is number \<open>bitrev k\<close> of the input.\<close>

lemma shuffled:
  assumes "reverses b (exchanges m ts)" "pairs_fit m ts" "m = 2 ^ b" "0 \<le> p" "even p" "p + 2 * m \<le> int (length x)"
  shows "\<exists>y. do { (ts, x) \<leftarrow> shuffle_pairs ts p (p + m) x; shuffle_ones 0 ts p (p + m) x } = Some y
    \<and> (\<forall>k. 0 \<le> k \<and> k < m \<longrightarrow> at_place p y (2 * k) = at_place p x (2 * bitrev b k))"
proof -
  let ?es = "exchanges m ts"
  note ex = bitrev_exchange [OF assms(1)]
  have "fits_in p x i" if "i \<in> set (places_of ?es)" for i
    using ex(2) [OF that] assms(3,6) by (auto simp: fits_in_def)
  then obtain y where y: "do_swaps p ?es x = Some y"
      "\<And>i j. (i, j) \<in> set ?es \<Longrightarrow> at_place p y i = at_place p x j \<and> at_place p y j = at_place p x i"
      "\<And>k. fits_in p x k \<Longrightarrow> k \<notin> set (places_of ?es) \<Longrightarrow> at_place p y k = at_place p x k"
    using do_swaps_eq [OF assms(4,5) ex(1), of x] by blast
  have "at_place p y (2 * k) = at_place p x (2 * bitrev b k)" if k: "0 \<le> k" "k < m" for k
  proof (cases "2 * k \<in> set (places_of ?es)")
    case True
    then obtain j where "(2 * k, j) \<in> set ?es \<or> (j, 2 * k) \<in> set ?es" by (auto simp: places_of_def)
    then show ?thesis using y(2) ex(3) by fastforce
  next
    case False
    then have "bitrev b k = k" using ex(4) [of k] k assms(3) by (force simp: places_of_def)
    then show ?thesis using y(3) [of "2 * k"] False k assms(6) by (simp add: fits_in_def)
  qed
  then show ?thesis using y(1) pairs_swaps [OF assms(2), of p x] by (intro exI [of _ y]) simp
qed

lemma Shuffle_reverses:
  assumes "fft_ok idx n" "0 \<le> p" "even p" "p + n \<le> int (length x)"
  shows "\<exists>y. Shuffle p idx x = Some y
    \<and> (\<forall>k. 0 \<le> k \<and> k < n div 2 \<longrightarrow> at_place p y (2 * k) = at_place p x (2 * bitrev (if idx = 0 then 6 else 9) k))"
  using shuffled [OF short_reverses pairs_fit_tab(1) _ assms(2,3), of x] shuffled [OF long_reverses pairs_fit_tab(2) _ assms(2,3), of x]
    assms(1,4) by (auto simp: fft_ok_def Shuffle_def)

text \<open>The same in indices of the array.\<close>

lemma bitrev_nonneg: "0 \<le> k \<Longrightarrow> 0 \<le> bitrev b k"
  by (induction b arbitrary: k) simp_all

lemma Shuffle_places:
  assumes "idx = 0 \<or> idx = 1" "even p" "p + (if idx = 0 then 128 else 1024) \<le> length x"
  shows "\<exists>y. Shuffle (int p) idx x = Some y \<and> (\<forall>k < (if idx = 0 then 64 else 512).
     y ! (p + 2 * k) = x ! (p + 2 * nat (bitrev (if idx = 0 then 6 else 9) (int k)))
     \<and> y ! (p + 2 * k + 1) = x ! (p + 2 * nat (bitrev (if idx = 0 then 6 else 9) (int k)) + 1))"
proof -
  let ?n = "if idx = 0 then 128 else 1024 :: int" and ?b = "if idx = 0 then 6 else 9 :: nat"
  have "fft_ok idx ?n" using assms(1) by (auto simp: fft_ok_def)
  then obtain y where y: "Shuffle (int p) idx x = Some y"
      "\<forall>k. 0 \<le> k \<and> k < ?n div 2 \<longrightarrow> at_place (int p) y (2 * k) = at_place (int p) x (2 * bitrev ?b k)"
    using Shuffle_reverses [of idx ?n "int p" x] assms by (auto split: if_splits)
  have "y ! (p + 2 * k) = x ! (p + 2 * nat (bitrev ?b (int k))) \<and> y ! (p + 2 * k + 1) = x ! (p + 2 * nat (bitrev ?b (int k)) + 1)"
    if "k < (if idx = 0 then 64 else 512)" for k
  proof -
    have "at_place (int p) y (2 * int k) = at_place (int p) x (2 * bitrev ?b (int k))"
      using y(2) that by (auto split: if_splits)
    moreover have "nat (int p + 2 * int k) = p + 2 * k" "nat (int p + 2 * int k + 1) = p + 2 * k + 1" by auto
    moreover have "nat (int p + 2 * bitrev ?b (int k)) = p + 2 * nat (bitrev ?b (int k))"
      "nat (int p + 2 * bitrev ?b (int k) + 1) = p + 2 * nat (bitrev ?b (int k)) + 1"
      using bitrev_nonneg [of "int k" ?b] by (simp_all add: nat_add_distrib nat_mult_distrib)
    ultimately show ?thesis by (simp add: at_place_def)
  qed
  with y(1) show ?thesis by blast
qed

end
