(* ===== verification/FilterExamples.thy ===== *)
theory FilterExamples
  imports ToolExamples FilterBank BitReversal
begin

text \<open>Decoders and blocks on which the filter bank runs, for the witnesses.\<close>

lemma dec_example_fb: "fb_ok (dec_example s)"
  unfolding fb_ok_def using dec_example_ok [of s]
  by (simp add: dec_example_def list_all_iff overlap_wf_def)

definition filter_example :: AACDecoder where
  "filter_example = (dec_example dry_stream)\<lparr>elementChans := 1, gbCurrent := [4, 4]\<rparr>"

lemma filter_example_ok: "fb_ok filter_example" "fb_slots filter_example (replicate 2048 0)"
proof -
  show "fb_ok filter_example"
    using dec_example_fb [of dry_stream] by (simp add: fb_ok_def filter_example_def dec_ok_def)
  have f: "channelNum filter_example = 2" "decodedChans filter_example = 0" "elementChans filter_example = 1"
    "chSpec filter_example = 0x31" "channel_offsize filter_example = replicate 8 0" "channel_position filter_example = replicate 8 0"
    by (simp_all add: filter_example_def dec_example_def)
  show "fb_slots filter_example (replicate 2048 0)"
    unfolding fb_slots_def
  proof (intro conjI allI impI)
    fix ch assume "0 \<le> ch \<and> ch < elementChans filter_example"
    then have ch: "ch = 0" by (simp add: f)
    show "EnableDecodeCurrChannel filter_example ch \<noteq> None" by (simp add: EnableDecodeCurrChannel_def f ch rd_def)
    show "fb_fits filter_example (replicate 2048 0) ch (decodedChans filter_example + ch) (fb_stride filter_example)"
      by (simp add: fb_fits_def fb_place_def fb_stride_def f ch CHAN_DUALONE_def)
  qed (simp add: f)
qed

end
