(* ===== verification/Spec2Isabelle.thy ===== *)
theory Spec2Isabelle
  imports StreamOf SectionCode DownMix ToolExamples FilterExamples
begin

text \<open>
  The AAC decoder of the player, \<^verbatim>\<open>src/code/codec/gk/aacdec\<close> (C sources under \<^verbatim>\<open>src/\<close> and \<^verbatim>\<open>inc/\<close> there), for the
  build that \<^verbatim>\<open>inc/global.h\<close> configures: \<open>MAIN_DEC\<close>, \<open>LTP_DEC\<close>, \<open>SBR_DEC\<close> and \<open>PS_DEC\<close> are defined, \<open>BSAC_DEC\<close> is
  not, a frame has at most 8 channels and an element at most 2.

  \<^bold>\<open>The program.\<close> A bit reader (\<open>BitStream\<close>) turns the bytes of a frame into bits. A header parser (ADTS, ADIF or the LATM
  transport) finds the frame and sets rate, profile and channels of the decoder; \<open>raw_data_block\<close> then parses one
  syntax element after the other into the arrays of the decoder: window data, sections, scale factors, pulses,
  noise shaping filters and, by Huffman codes, the quantised spectrum. The tools turn each element into a
  spectrum: inverse quantisation, stereo, noise substitution, noise shaping. The filter bank turns spectra into
  samples, which are mixed down to the channels of the output.

  \<^bold>\<open>The model.\<close> Structs are records, C integers are \<open>int\<close> with the wrap-around of their width written out (\<open>s32\<close>,
  \<open>u8\<close>, \<dots>) or, where the code works on bits, words. Every array access is checked (\<open>rd\<close>, \<open>wr\<close>): an operation whose
  result is \<open>None\<close> leaves an array, or shifts by more than a word. So \<open>f x = Some y\<close> says that the code is defined
  there and returns. Error codes are values. Memory that is allocated is an oracle \<open>malloc\<close>. Loops are recursive
  functions on their counters; the one loop bounded by the data only, the prefix of an escape, terminates since
  each of its steps consumes a bit and reading past the end gives zeros.

  \<^bold>\<open>Theories.\<close>
  \<^item> \<open>Prelude\<close>, \<open>Checked\<close>: arrays, errors, \<open>wp\<close> (the result is defined and has a property) and \<open>wlp\<close> (if it is defined).
  \<^item> \<open>BitSource\<close>, \<open>BitStream\<close>, \<open>StreamOf\<close>: \<^verbatim>\<open>inc/bitstream.h\<close>. The interface of a source of bits is a locale, which the
    reader implements: \<open>bsbits\<close> is the list of bits it still holds, \<open>bs_inv\<close> its invariant.
  \<^item> \<open>HufTab\<close>, \<open>Huffman\<close>, \<open>Codebooks\<close>: \<^verbatim>\<open>inc/lc_huff.h\<close> and the tables of \<^verbatim>\<open>src/lc_hufftab.c\<close>; the walk over a table decodes
    the code words that are read off the table, and each book is a complete prefix code.
  \<^item> \<open>AACTypes\<close>, \<open>AACTables\<close>, \<open>AACState\<close>: \<^verbatim>\<open>inc/struct.h\<close>, the tables of \<^verbatim>\<open>src/table.c\<close>, and the record of the decoder.
  \<^item> \<open>Spectral\<close>, \<open>SpectralCode\<close>, \<open>SpectralReader\<close>: \<^verbatim>\<open>src/lc_huff.c\<close>; safety for every stream, and the encoder whose bits
    are decoded to what was encoded.
  \<^item> \<open>Syntax\<close>, \<open>SyntaxSafe\<close>, \<open>SectionCode\<close>, \<open>Elements\<close>, \<open>ElementsSafe\<close>, \<open>Channels\<close>, \<open>Outer\<close>, \<open>RawBlock\<close>: \<^verbatim>\<open>src/lc_syntax.c\<close>. \<open>dec_ok\<close> is
    the well-formedness of the arrays of the decoder; the locale \<open>reader\<close> states what the parsers need of a stream, and
    \<open>spectral_reader\<close> adds what the escapes need. They are interpreted on all streams (\<open>any\<close>), on those without 29
    ones in a row (\<open>esc\<close>, where no escape shifts by a whole word), and on those that have made progress (\<open>spent\<close>).
  \<^item> \<open>Header\<close>, \<open>HeaderSafe\<close>, \<open>HeaderCode\<close>: \<^verbatim>\<open>src/Header.c\<close>; \<open>ChannelMap\<close>: \<^verbatim>\<open>src/unit.c\<close>; \<open>Latm\<close>: \<^verbatim>\<open>src/latmheader.c\<close>; \<open>DownMix\<close>:
    \<^verbatim>\<open>src/downMatrix.c\<close>.
  \<^item> \<open>Bands\<close>: the walk over window groups, windows and bands that the tools share, with the contract of a tool as the
    locales \<open>band_tool\<close> (an invariant its body keeps) and \<open>line_tool\<close> (what its body does to a line), and the arithmetic
    of \<^verbatim>\<open>inc/global.h\<close>. \<open>QuantTable\<close>, \<open>Dequant\<close>: \<^verbatim>\<open>src/lc_dequant.c\<close>; \<open>Stereo\<close>: \<^verbatim>\<open>src/lc_stereo.c\<close>; \<open>Tns\<close>: \<^verbatim>\<open>src/lc_tns.c\<close>;
    \<open>Pns\<close>: \<^verbatim>\<open>src/lc_pns.c\<close>.
  \<^item> \<open>Examples\<close>, \<open>ToolExamples\<close>: the concrete decoders and streams of the witnesses.

  \<^bold>\<open>What is shown.\<close> Round trips: the bits an encoder of the standard writes are read back exactly (spectra, scale
  factors, sections, ADTS headers, program configurations, payload lengths, audio configurations). Safety: on every
  stream, or every stream with the property that a named lemma shows to be needed, the parsers and tools return,
  stay inside their arrays and keep the decoder well formed. Equivalence with reference definitions: bit reader and
  list of bits, in-place and frame-wise mix, stereo decoding line by line, filters and recurrences, tables and
  the functions they tabulate. Where the code lacks a guard, a theorem gives the exact bound or an input beyond it.
  \<^bold>\<open>Not modelled.\<close> The filter bank (\<^verbatim>\<open>lc_imdct.c\<close>, \<^verbatim>\<open>lc_mdct.c\<close>), whose contract is numeric accuracy; main and long term prediction, the frame loop and the interface of the decoder (\<^verbatim>\<open>ic_predict.c\<close>, \<^verbatim>\<open>ltp_dec.c\<close>,
  \<^verbatim>\<open>decframe.c\<close>, \<^verbatim>\<open>decoder.c\<close>); spectral band replication and parametric stereo; BSAC, which is
  compiled out; platform assembly. Elsewhere in the repository: the third-party decoders and libraries and the C++
  framework around threads, sockets and platform services.
\<close>

unbundle bit_operations_syntax

section \<open>Spectral data\<close>

text \<open>C1. Spectral data round trip: for every sample rate, every section layout of a channel of long
  windows and all coefficients its code books can carry, \<open>spectral_data\<close> reads exactly the bits the
  encoder wrote and leaves exactly the encoded coefficients, followed by zeros.\<close>

theorem spectral_data_roundtrip:
  assumes "long_ok idx ics" "window_sequence ics \<noteq> EIGHT_SHORT_SEQUENCE"
    and "max_sfb ics \<le> int (length cbs)" "length cs = 1024"
    and "good_channel (long_bands_of idx ics cbs) vss"
    and "bs_inv s" "bsbits s = channel_bits (long_bands_of idx ics cbs) vss @ r"
  shows "\<exists>s'. spectral_data idx ics cbs 0 pulse s cs
      = Some (0, s', concat vss @ replicate (1024 - length (concat vss)) 0)
    \<and> bs_inv s' \<and> bsbits s' = r"
  using long_coefs_enc [OF assms(5-7)] spectral_long_run [OF assms(1,3,4)] assms(2)
  by (auto simp: spectral_data_def)

lemma example_bands: "long_bands_of 3 ics_example [3, 11] = [(3, 4), (11, 4)]"
  by (simp add: long_bands_of_def ics_example_def band_list_def offs_def upt_conv_Cons numeral_2_eq_2
      sfBandTabLong_def sfBandTabLongOffset_def)

lemma spectral_data_roundtrip_witness:
  "\<exists>s'. spectral_data 3 ics_example [3, 11] 0 pulse_example
      (stream_of (channel_bits [(3, 4), (11, 4)] [[0, 1, - 2, 0], [17, - 1, 0, 5000]])) (replicate 1024 0)
      = Some (0, s', concat [[0, 1, - 2, 0], [17, - 1, 0, 5000]] @ replicate 1016 0)"
  using spectral_data_roundtrip [of 3 ics_example "[3, 11]" "replicate 1024 0" "[[0, 1, - 2, 0], [17, - 1, 0, 5000]]"
      "stream_of (channel_bits [(3, 4), (11, 4)] [[0, 1, - 2, 0], [17, - 1, 0, 5000]])", unfolded example_bands, OF _ _ _ _ _ stream_of_inv
      stream_of_bits, of pulse_example]
  by (auto simp: long_ok_def ics_example_def sfBandTabLongNum_def EIGHT_SHORT_SEQUENCE_def good_channel_def
      good_band_def lav_def)



section \<open>Huffman codes\<close>

text \<open>C3. The scale factor code: each of the 121 differences has a code word that \<open>DecodeHuffmanData\<close>
  decodes back, consuming exactly its bits, whatever follows in the stream or in memory.\<close>

theorem scale_factor_code_roundtrip:
  assumes "- 60 \<le> v" "v \<le> 60" "bs_inv s"
    and "bsbits s = book_encode GET_VALUE (the_book huffTabScaleInfo) v @ r"
  shows "\<exists>s'. DecodeHuffmanData huffTabScaleInfo s = Some (v, s') \<and> bs_inv s' \<and> bsbits s' = r"
  using scale_code [OF _ assms(3,4)] assms(1,2) by auto

lemma scale_factor_code_roundtrip_witness:
  "\<exists>s'. DecodeHuffmanData huffTabScaleInfo (stream_of (book_encode GET_VALUE (the_book huffTabScaleInfo) (- 7))) = Some (- 7, s')"
  using scale_factor_code_roundtrip [of "- 7" "stream_of (book_encode GET_VALUE (the_book huffTabScaleInfo) (- 7))",
      OF _ _ _ stream_of_bits] by auto

text \<open>C4. Termination of the escape decoding: the unary prefix ends on every stream, also past its end.\<close>

theorem escape_terminates: "\<exists>n' s'. esc_prefix s n = Some (n', s') \<and> n \<le> n'"
  by (rule esc_prefix_total)

text \<open>C5. The code books are complete prefix codes: each tuple of the alphabet of a book (1 to 11) has
  exactly one code word in its table, no longer than the look-ahead \<open>maxBits\<close> of its descriptor.\<close>

theorem books_complete:
  assumes "cb \<in> {1..11}" "xs \<in> alphabet cb"
  shows "\<exists>c. words_for cb xs = {c} \<and> length c \<le> maxBits (sinfo cb)"
  using assms by (rule books_words)

lemma books_complete_witness:
  "\<exists>c. words_for 6 [- 4, 3] = {c} \<and> length c \<le> maxBits (sinfo 6)"
  using books_complete [of 6 "[- 4, 3]"] by (simp add: alphabet_def)

section \<open>The bit reader\<close>



text \<open>C7. Looking ahead agrees with reading: within the data, \<open>BitStreamShowBits\<close> shows what
  \<open>BitStreamGetBits\<close> would return, and \<open>BitStreamSkip\<close> leaves the state the read would leave.\<close>

theorem show_then_skip:
  assumes "bs_inv s" "0 < n" "n \<le> 32" "n \<le> bslen s"
  shows "uint (BitStreamShowBits s n) = fst (BitStreamGetBits s n) \<and> BitStreamSkip s (int n) = snd (BitStreamGetBits s n)"
proof (rule conjI)
  have "padtake n (bsbits s) = lookahead s n"
    using take_lookahead [OF assms(1) order_refl assms(4)] assms(4) by (simp add: padtake_take)
  then show "uint (BitStreamShowBits s n) = fst (BitStreamGetBits s n)" using assms
    by (simp add: show_value bs_get)
  show "BitStreamSkip s (int n) = snd (BitStreamGetBits s n)"
    using assms(2) by (simp add: skip_advance get_advance)
qed

lemma show_then_skip_witness:
  "BitStreamSkip (stream_of [True, False, True, True, True, True, False, False]) 3
     = snd (BitStreamGetBits (stream_of [True, False, True, True, True, True, False, False]) 3)"
  using show_then_skip [of "stream_of [True, False, True, True, True, True, False, False]" 3]
  by (simp add: stream_of_def)

text \<open>\<open>BitStreamByteAlign\<close> drops at most seven bits and leaves whole bytes.\<close>

lemma byte_align_whole:
  assumes "bs_inv s"
  shows "\<exists>k < 8. bsbits (BitStreamByteAlign s) = drop k (bsbits s) \<and> 8 dvd length (bsbits (BitStreamByteAlign s))"
proof (intro exI conjI)
  show "nat (cachedBits s mod 8) < 8" by (simp add: nat_less_iff)
  show "bsbits (BitStreamByteAlign s) = drop (nat (cachedBits s mod 8)) (bsbits s)" by (rule align_bits [OF assms])
  show "8 dvd length (bsbits (BitStreamByteAlign s))" using align_whole_bytes [OF assms] by simp
qed

lemma byte_align_whole_witness:
  "\<exists>k < 8. bsbits (BitStreamByteAlign (stream_of (replicate 21 True))) = drop k (bsbits (stream_of (replicate 21 True)))"
  using byte_align_whole [of "stream_of (replicate 21 True)"] by auto

section \<open>Window data and sections\<close>

text \<open>C8. Window data: on every stream \<open>ics_info\<close> returns, keeps the decoder well formed, and when it
  reports success the window data is in range: \<open>max_sfb\<close> below the number of bands of the sample rate,
  one to eight groups of at least one window, eight windows in all for short windows.\<close>

theorem ics_info_safe:
  assumes "dec_run bs_inv d" "i = 0 \<or> i = 1"
  shows "\<exists>ret d'. ics_info malloc d i = Some (ret, d') \<and> dec_run bs_inv d' \<and> (ret = 0 \<or> ret = TTKErrNoMemory)
    \<and> (ret = 0 \<longrightarrow> ics_ok (sampRateIdx d) (ics_data d' ! nat i))"
  using any.ics_info_ok [OF assms, of malloc] by (auto simp: wp_iff)

lemma ics_info_safe_witness:
  "\<exists>ret d'. ics_info (\<lambda>_. True) (dec_example (stream_of (replicate 40 True))) 1 = Some (ret, d') \<and> dec_run bs_inv d'"
  using ics_info_safe [of "dec_example (stream_of (replicate 40 True))" 1 "\<lambda>_. True"] by (auto simp: dec_run_def)

text \<open>C9. Section data round trip: \<open>section_data\<close> reads back the code books of every group from the bits
  the encoder of the standard writes, runs with escaped lengths included.\<close>

theorem section_data_roundtrip:
  assumes "ics_ok idx ics" "length row = 128" "int (length sss) = num_window_groups ics"
    and "list_all (\<lambda>ss. good_sections ss (max_sfb ics)) sss"
    and "bs_inv s" "bsbits s = concat (map (section_bits (sect_width ics)) sss) @ r"
  shows "\<exists>s'. section_data ics row s = Some (0, overwrite row 0 (concat (map section_row sss)), s')
    \<and> bs_inv s' \<and> bsbits s' = r"
  using assms by (rule section_data_enc)

lemma section_data_roundtrip_witness:
  "\<exists>s'. section_data ics_example (replicate 128 0) (stream_of (concat (map (section_bits 5) [[(1, 1), (11, 1)]])))
     = Some (0, overwrite (replicate 128 0) 0 [1, 11], s')"
  using section_data_roundtrip [OF ics_example_ok, of "replicate 128 0" "[[(1, 1), (11, 1)]]"
      "stream_of (concat (map (section_bits 5) [[(1, 1), (11, 1)]]))", OF _ _ _ stream_of_inv]
  by (auto simp: ics_example_def sect_width_def EIGHT_SHORT_SEQUENCE_def good_sections_def section_row_def stream_of_bits)

text \<open>C10. Section data is safe where it has room: when the groups before the last leave the bound the code
  checks (120 or 51 entries) inside the row, \<open>section_data\<close> returns on every stream without a write
  outside the row. Long windows always have the room.\<close>

theorem section_data_safe:
  assumes "bs_inv bs" "ics_ok idx ics" "length row = 128" "sections_fit ics"
  shows "\<exists>ret row' bs'. section_data ics row bs = Some (ret, row', bs') \<and> length row' = 128 \<and> bs_inv bs' \<and> (ret = 0 \<or> ret = - 1)"
  using any.section_data_ok [OF assms] by (auto simp: wp_iff)

lemma section_data_safe_witness:
  "\<exists>ret row' bs'. section_data ics_example (replicate 128 0) (stream_of (replicate 99 True)) = Some (ret, row', bs')"
  using section_data_safe [OF _ ics_example_ok, of "stream_of (replicate 99 True)" "replicate 128 0"]
    sections_fit_long [OF ics_example_ok] by (auto simp: ics_example_def EIGHT_SHORT_SEQUENCE_def)

text \<open>C11. Without the room it is not safe: two groups of short windows, whose second has a section of 120
  bands, make \<open>section_data\<close> write past the end of the row, because the bound is checked per group while
  the pointer runs on.\<close>

theorem section_data_overruns:
  assumes "window_sequence ics = EIGHT_SHORT_SEQUENCE" "num_window_groups ics = 2" "8 < max_sfb ics" "max_sfb ics \<le> 15"
    and "length row = 128" "bs_inv s"
    and "bsbits s = section_bits 3 [(1, max_sfb ics)] @ section_bits 3 [(1, 120)] @ r"
  shows "section_data ics row s = None"
  using assms by (rule section_data_overflow)

lemma section_data_overruns_witness:
  "section_data (ics_example\<lparr>window_sequence := 2, num_window_groups := 2, max_sfb := 14\<rparr>) (replicate 128 0)
     (stream_of (section_bits 3 [(1, 14)] @ section_bits 3 [(1, 120)])) = None"
  using section_data_overruns [of "ics_example\<lparr>window_sequence := 2, num_window_groups := 2, max_sfb := 14\<rparr>" "replicate 128 0"
      "stream_of (section_bits 3 [(1, 14)] @ section_bits 3 [(1, 120)])"]
  by (simp add: EIGHT_SHORT_SEQUENCE_def stream_of_bits)

section \<open>Channel elements\<close>





text \<open>C14. A fill element is safe on every stream: it copies at most 269 bytes into the buffer of 269, and
  its only error is the failed allocation of the SBR state.\<close>

theorem fill_element_safe:
  assumes "dec_run bs_inv d"
  shows "\<exists>ret d'. fill_element malloc d = Some (ret, d') \<and> dec_run bs_inv d' \<and> 0 \<le> fillCount d' \<and> fillCount d' \<le> 269
    \<and> (ret = 0 \<or> ret = TT_AACDEC_ERR_AAC_FAILDECSBR)"
  using any.fill_element_ok [OF assms, of malloc] by (auto simp: wp_iff)

lemma fill_element_safe_witness:
  "\<exists>ret d'. fill_element (\<lambda>_. False) (dec_example (stream_of (replicate 999 True))) = Some (ret, d') \<and> fillCount d' \<le> 269"
  using fill_element_safe [of "dec_example (stream_of (replicate 999 True))" "\<lambda>_. False"] by (auto simp: dec_run_def)

text \<open>A data stream element is skipped safely on every stream.\<close>

lemma data_stream_safe:
  assumes "dec_run bs_inv d"
  shows "\<exists>d'. data_stream_element d = Some (0, d') \<and> dec_run bs_inv d'"
  using any.data_stream_ok [OF assms] by (auto simp: wp_iff)

lemma data_stream_safe_witness: "\<exists>d'. data_stream_element (dec_example (stream_of (replicate 999 True))) = Some (0, d')"
  using data_stream_safe [of "dec_example (stream_of (replicate 999 True))"] by (auto simp: dec_run_def)

section \<open>Headers\<close>

text \<open>C15. The ADTS header round trip: \<open>adts_fields\<close> reads back every field of a header the standard writes,
  with or without its checksum, and leaves exactly the bits behind it.\<close>

theorem adts_header_roundtrip:
  assumes "adts_fits h" "at s (adts_bits h @ r)" "8 dvd length r"
  shows "\<exists>s'. adts_fields s h0 = (h\<lparr>crc_check := if protection_absent h = 0 then crc_check h else crc_check h0\<rparr>, s') \<and> at s' r"
  using assms by (rule adts_fields_enc)

lemma adts_header_roundtrip_witness:
  "\<exists>s'. adts_fields (stream_of (adts_bits adts_header_example)) adts_example = (adts_header_example, s')"
proof -
  have "adts_fits adts_header_example"
    by (simp add: adts_fits_def fits_def adts_header_example_def adts_example_def)
  moreover have "at (stream_of (adts_bits adts_header_example)) (adts_bits adts_header_example @ [])"
    by (simp add: at_def stream_of_whole adts_bits_def adts_fixed_bits_def adts_variable_bits_def adts_header_example_def)
  ultimately show ?thesis
    using adts_header_roundtrip [of adts_header_example "stream_of (adts_bits adts_header_example)" "[]" adts_example]
    by (auto simp: adts_header_example_def adts_example_def)
qed



text \<open>C17. The search does not find every syncword, and does not need one: where the bytes of the frame buffer
  contain no 0xFF at all, the first frame is accepted in the middle of the buffer whenever the bytes there
  read as a plausible length and sample rate.\<close>

theorem adts_accepts_unsynced:
  assumes "10 < fs_length (Fstream d)" "decoderNum d = 0"
    and "\<forall>j < nat (fs_length (Fstream d)). uint (mem (this_frame (Fstream d) + j)) \<noteq> 255"
    and "mid = nat (fs_length (Fstream d)) div 2"
    and "peek_header mem (this_frame (Fstream d) + mid) (fs_length (Fstream d) - int mid) = Some (fl, sfi, pr, chan)"
    and "0 < fl" "fl \<le> frame_buffer_len (adts d)" "sfi < 12"
  shows "\<exists>d'. adts_frame mem d = Some (0, d')"
  using assms by (rule adts_frame_unsynced)

lemma adts_accepts_unsynced_witness:
  "\<exists>d'. adts_frame (\<lambda>i. if i = 14 then 1 else 0) ((dec_example dry_stream)\<lparr>Fstream := fs_example\<lparr>fs_length := 21\<rparr>\<rparr>) = Some (0, d')"
  using adts_accepts_unsynced [of "(dec_example dry_stream)\<lparr>Fstream := fs_example\<lparr>fs_length := 21\<rparr>\<rparr>" "\<lambda>i. if i = 14 then 1 else 0"
      10 8 0 1 0]
  by (simp add: dec_example_def fs_example_def adts_example_def frame_buffer_len_def peek_header_def buf_at_def)

text \<open>C18. The program configuration round trip: \<open>program_config_element\<close> reads back the scalar fields, the
  element lists, the mixdown data behind their flags and skips padding and comment, for any configuration the
  standard can write; the numbers of channels are those of the elements.\<close>

theorem program_config_roundtrip:
  assumes "pce_wf c0" "pce_code c e" "at s (pce_bits c e pad @ r)" "length pad < 8" "8 dvd length r"
  shows "\<exists>s'. program_config_element s c0 = Some (pce_result c0 c e, s') \<and> at s' r"
  using assms by (rule program_config_enc)

lemma program_config_roundtrip_witness:
  "\<exists>c' s'. program_config_element (stream_of (pce_bits pce_code_example pce_lists_example (replicate 7 False))) pce_example = Some (c', s')
     \<and> channels c' = 6 \<and> num_front_channels c' = 3"
proof -
  have k: "pce_code pce_code_example pce_lists_example"
    by (simp add: pce_code_def pce_head_fits_def mixdown_fits_def fits_def pce_code_example_def pce_example_def pce_lists_example_def)
  have "length (pce_bits pce_code_example pce_lists_example (replicate 7 False)) = 88"
    by (simp add: pce_bits_def pce_head_bits_def mixdown_bits_def pce_list_bits_def elem_bits_def tag_bits_def pce_code_example_def
        pce_example_def pce_lists_example_def)
  then have "at (stream_of (pce_bits pce_code_example pce_lists_example (replicate 7 False))) (pce_bits pce_code_example pce_lists_example (replicate 7 False) @ [])"
    by (simp add: at_def stream_of_whole)
  from program_config_roundtrip [OF dec_example_headers(3) k this] show ?thesis
    by (auto simp: pce_result_def pce_lists_example_def)
qed

text \<open>C19. The program configuration is parsed safely on every stream: all lists stay inside their sixteen
  entries, the channel counts are the sums over the elements and fit their bytes.\<close>

theorem program_config_safe:
  assumes "bs_inv s" "pce_wf c"
  shows "\<exists>c' s'. program_config_element s c = Some (c', s') \<and> bs_inv s' \<and> pce_wf c'
    \<and> channels c' = num_front_channels c' + num_side_channels c' + num_back_channels c' + num_lfe_channels c' \<and> channels c' \<le> 93"
  using any.program_config_ok [OF assms] by (auto simp: wp_iff pce_parsed_def pce_headed_def)

lemma program_config_safe_witness:
  "\<exists>c' s'. program_config_element (stream_of (replicate 999 True)) pce_example = Some (c', s') \<and> channels c' \<le> 93"
  using program_config_safe [of "stream_of (replicate 999 True)" pce_example] by auto



text \<open>The program configuration of an ADIF header is not used to place the channels: the header is parsed
  into its own array while the channel map is laid out from the configuration of the decoder, so that without
  one in the stream an empty layout leaves the map as it was.\<close>

lemma adif_layout_unused:
  assumes "bs_inv (dbs d)" "adif_wf (adif d)" "map_ok d" "ParseADIFHeader d = Some (0, d')" "2 < channelNum d'"
    and "pce_counts (pce d)" "pce_slots (pce d) = 0"
  shows "\<exists>d''. Channelconfig d' = Some d'' \<and> channel_position d'' = channel_position d \<and> channel_offsize d'' = channel_offsize d"
proof -
  have a: "pce d' = pce d" "channel_position d' = channel_position d" "channel_offsize d' = channel_offsize d" "pce_set d' = 1"
    using any.adif_header_ok [OF assms(1,2)] assms(4) by (auto simp: adif_post_def)
  have "chan_wf d'" using assms(3) a by (simp add: map_ok_def chan_wf_def)
  with layout_empty [OF assms(6,7), of d'] a assms(5) show ?thesis by (simp add: Channelconfig_def)
qed

lemma adif_layout_unused_witness:
  "\<exists>d' d''. ParseADIFHeader (dec_example adif_stream) = Some (0, d') \<and> channelNum d' = 6
     \<and> Channelconfig d' = Some d'' \<and> channel_position d'' = replicate 8 0"
proof -
  obtain d' where d': "ParseADIFHeader (dec_example adif_stream) = Some (0, d')" "channelNum d' = 6"
    using adif_stream_parsed by blast
  have "pce_counts (pce (dec_example adif_stream))" "pce_slots (pce (dec_example adif_stream)) = 0"
      "channel_position (dec_example adif_stream) = replicate 8 0"
    by (simp_all add: dec_example_def pce_counts_def pce_slots_def front_slots_def pce_example_def)
  then show ?thesis
    using adif_layout_unused [of "dec_example adif_stream" d'] d' by (auto simp: adif_stream_def)
qed

section \<open>The channel map\<close>

text \<open>C21. The order of the channels: without a program configuration, \<open>Channelconfig\<close> maps the channels of the
  configurations 3 to 7, in the order in which the standard transmits them, to their positions, whether the
  stream begins with the center or with the front pair.\<close>

theorem channel_order:
  assumes "chan_wf d" "2 < channelNum d" "pce_set d = 0"
    and "config = (if frametype d = TTAAC_ADTS then channel_configuration (adts d) else channelNum d)" "config \<in> {3..7}"
  shows "\<exists>d'. Channelconfig d = Some d'
    \<and> mapped_order d' (length (decode_order config (first_id_syn_ele d))) = decode_order config (first_id_syn_ele d)"
  using config_layout_order [OF assms(1,5)] assms(2-4) by (simp add: Channelconfig_def)

lemma channel_order_witness:
  "\<exists>d'. Channelconfig ((dec_example dry_stream)\<lparr>frametype := 0, channelNum := 6\<rparr>) = Some d'
     \<and> mapped_order d' 6 = [CH_CENTER, CH_FRONT_LEFT, CH_FRONT_RIGHT, CH_BACK_LEFT, CH_BACK_RIGHT, CH_LFE_BASS]"
proof -
  let ?d = "(dec_example dry_stream)\<lparr>frametype := 0, channelNum := 6\<rparr>"
  have "chan_wf ?d" "pce_set ?d = 0" "first_id_syn_ele ?d = ID_SCE" "frametype ?d \<noteq> TTAAC_ADTS"
    by (simp_all add: dec_example_def chan_wf_def TTAAC_ADTS_def ID_SCE_def)
  with channel_order [of ?d 6] show ?thesis by (simp add: decode_order_def eval_nat_numeral)
qed

text \<open>C22. The layout of a program configuration overruns the channel arrays exactly when it takes more than
  eight slots; side and back channels take slots in pairs, so eight channels can take nine.\<close>

theorem channel_layout_bound:
  assumes "chan_wf d" "2 < channelNum d" "pce_set d \<noteq> 0" "pce_counts (pce d)"
  shows "Channelconfig d = None \<longleftrightarrow> 8 < pce_slots (pce d)"
  using assms by (rule Channelconfig_overrun)

lemma channel_layout_bound_witness:
  "Channelconfig ((dec_example dry_stream)\<lparr>channelNum := 8, pce_set := 1,
     pce := pce_example\<lparr>num_front_channels := 1, num_side_channels := 7, channels := 8\<rparr>\<rparr>) = None"
  using channel_layout_bound [of "(dec_example dry_stream)\<lparr>channelNum := 8, pce_set := 1,
     pce := pce_example\<lparr>num_front_channels := 1, num_side_channels := 7, channels := 8\<rparr>\<rparr>"]
  by (simp add: dec_example_def chan_wf_def pce_counts_def pce_slots_def front_slots_def pce_example_def)

text \<open>The sample rate is set exactly when it is one of the table, and then to the index of the table
  that holds it.\<close>

lemma sample_rate_update:
  "\<exists>ret d'. updateSampleRate d sr = Some (ret, d') \<and> (ret = 0 \<longleftrightarrow> sr \<in> set sampRateTab)
    \<and> (sr \<in> set sampRateTab \<longrightarrow> sampRateIdx d' \<in> {0..<12} \<and> sampRateTab ! nat (sampRateIdx d') = sr \<and> sampleRate d' = sr)
    \<and> (sr \<notin> set sampRateTab \<longrightarrow> d' = d)"
  by (rule updateSampleRate_spec)

lemma sample_rate_update_witness: "\<exists>d'. updateSampleRate (dec_example dry_stream) 44100 = Some (0, d') \<and> sampleRate d' = 44100"
  using sample_rate_update [of "dec_example dry_stream" 44100] by (auto simp: sampRateTab_def)

section \<open>The low-overhead transport\<close>

text \<open>C23. The payload length round trip: a length below 65536 in the coding of the standard (255 while more
  follows) is read back, whatever follows it, and exactly its bytes are consumed.\<close>

theorem payload_length_roundtrip:
  assumes "all_same_framing h \<noteq> 0" "frameLengthTypes h = 0 # ts" "muxSlotLengthBytes h = l # ls"
    and "0 \<le> n" "n < 65536" "at s (slot_bits n @ r)"
  shows "\<exists>s'. PayloadLengthInfo h s = Some (0, h\<lparr>muxSlotLengthBytes := n # ls\<rparr>, s') \<and> at s' r"
  using assms by (rule payload_enc)

lemma payload_length_roundtrip_witness:
  "\<exists>h' s'. PayloadLengthInfo latm_example (stream_of (slot_bits 600)) = Some (0, h', s') \<and> muxSlotLengthBytes h' ! 0 = 600"
proof -
  have "at (stream_of (slot_bits 600)) (slot_bits 600 @ [])"
    by (simp add: at_def stream_of_whole slot_bits_def length_concat sum_list_replicate)
  from payload_length_roundtrip [of latm_example "[0, 0, 0]" 0 "[0, 0, 0]", OF _ _ _ _ _ this] show ?thesis
    by (auto simp: latm_example_def eval_nat_numeral)
qed

text \<open>C24. The audio configuration: \<open>ReadAudioSpecConfig\<close> reads back object type (with its escape), rate (as an
  index or explicit) and channels, and the number it returns is the number of bits it has consumed, whatever
  the extensions behind them hold.\<close>

theorem audio_config_roundtrip:
  assumes "at s (asc_bits p rate chans @ r)" "profile_fits p" "rate_fits rate" "fits 4 chans"
  shows "\<exists>ret d' s'. ReadAudioSpecConfig d s = Some (ret, d', s')
    \<and> d' = d\<lparr>sampleRate := rate_value rate, profile := p, channelNum := chans\<rparr>
    \<and> bs_inv s' \<and> 0 \<le> ret \<and> bsbits s' = drop (nat ret) (bsbits s)"
  using assms by (rule asc_enc)

lemma audio_config_roundtrip_witness:
  "\<exists>ret d' s'. ReadAudioSpecConfig (dec_example dry_stream) (stream_of (asc_bits 42 (Inr 96001) 6)) = Some (ret, d', s')
     \<and> profile d' = 42 \<and> sampleRate d' = 96001 \<and> channelNum d' = 6"
proof -
  let ?x = "asc_bits 42 (Inr 96001) 6"
  have "at (stream_of ?x) (?x @ pad_bits ?x)" by (simp add: at_def stream_of_bits)
  from audio_config_roundtrip [OF this, of "dec_example dry_stream"] show ?thesis
    by (auto simp: profile_fits_def fits_def)
qed



section \<open>The output channels\<close>

text \<open>C26. The down mix works in place: although it writes into the buffer it reads from, \<open>DownMixto2Chs\<close> turns
  every original frame of six samples into the two samples of the mix, computed without wrap-around and never
  clipped, and leaves the rest of the buffer as it was.\<close>

theorem down_mix_in_place:
  assumes "list_all short_range buf" "6 * n \<le> length buf" "n = nat (frame_samples d)"
  shows "DownMixto2Chs d 6 buf = Some (1, concat (map (\<lambda>j. mix_ref (frame_at 6 buf j)) [0..<n]) @ drop (2 * n) buf)"
  using assms by (rule down_mix)

lemma down_mix_in_place_witness:
  "let n = nat (frame_samples (dec_example dry_stream)) in
     DownMixto2Chs (dec_example dry_stream) 6 (replicate (6 * n) 1000) = Some (1, replicate (2 * n) 775 @ replicate (4 * n) 1000)"
proof -
  have r: "concat (map (\<lambda>j. mix_ref (frame_at 6 (replicate (6 * n) 1000) j)) [0..<n]) = replicate (2 * n) 775" for n
  proof -
    have "map (\<lambda>j. mix_ref (frame_at 6 (replicate (6 * n) 1000) j)) [0..<n] = map (\<lambda>j. [775, 775]) [0..<n]"
      by (intro map_cong refl) (auto simp: frame_at_def mix_ref_def signed_divide_int_def min_def)
    also have "concat \<dots> = replicate (2 * n) 775" by (induction n) (simp_all flip: replicate_append_same)
    finally show ?thesis .
  qed
  show ?thesis
    using down_mix_in_place [of "replicate (6 * nat (frame_samples (dec_example dry_stream))) 1000" _ "dec_example dry_stream", OF _ _ refl]
    by (simp add: r short_range_def list_all_iff Let_def)
qed

text \<open>The selection of two channels starts with the second frame: the samples 0 and 2 of every frame but the
  first are selected, while the first frame keeps its samples 0 and 1, so that the first right sample of a
  block is the sample of the center.\<close>

lemma select_skips_first:
  assumes "3 \<le> chans" "chans * n \<le> length buf" "n = nat (frame_samples d)"
  shows "Selectto2Chs d (int chans) buf
    = Some (1, take 2 buf @ concat (map (\<lambda>j. [buf ! (chans * j), buf ! (chans * j + 2)]) [1..<n]) @ drop (2 * n) buf)"
proof -
  have "0 < n" using assms(3) by (simp add: frame_samples_def MAX_SAMPLES_def)
  have "map (\<lambda>j. [frame_at chans buf j ! 0, frame_at chans buf j ! 2]) [1..<n] = map (\<lambda>j. [buf ! (chans * j), buf ! (chans * j + 2)]) [1..<n]"
  proof (intro map_cong refl)
    fix j assume "j \<in> set [1..<n]"
    then have "chans * Suc j \<le> chans * n" by (intro mult_le_mono2) simp
    then show "[frame_at chans buf j ! 0, frame_at chans buf j ! 2] = [buf ! (chans * j), buf ! (chans * j + 2)]"
      using assms(1,2) by simp
  qed
  with selected [OF assms \<open>0 < n\<close>] show ?thesis by (simp only:)
qed

lemma select_skips_first_witness:
  "let n = nat (frame_samples (dec_example dry_stream)) in
   \<exists>buf. Selectto2Chs (dec_example dry_stream) 5 ([1, 2, 3, 4, 5] @ replicate (5 * n) 0) = Some (1, buf) \<and> buf ! 1 = 2"
  using select_skips_first [of 5 _ "[1, 2, 3, 4, 5] @ replicate (5 * nat (frame_samples (dec_example dry_stream))) 0"
      "dec_example dry_stream", OF _ _ refl]
  by (simp add: Let_def eval_nat_numeral)

section \<open>Frames\<close>





section \<open>Reconstruction of the spectrum\<close>

text \<open>C29. The table of the inverse quantisation: each of its first 1024 entries is the integer nearest to the
  power \<open>4/3\<close> of its index, in units of \<open>2\<^sup>-\<^sup>1\<^sup>1\<close>.\<close>

theorem power_table:
  assumes "0 \<le> q" "q < 1024"
  shows "nearest_power q (IQ_Table ! nat q)"
  using assms by (rule IQ_nearest)

lemma power_table_witness: "nearest_power 1000 (IQ_Table ! 1000)"
  using power_table [of 1000] by simp







text \<open>C33. The filter of temporal noise shaping is the recurrence: each new line is its old value less the weighted
  lines before it, in the direction of the filter, as \<open>ar_sample\<close> rounds it, and no line outside its range changes.\<close>

theorem tns_recurrence:
  assumes "length a = 48" "1 \<le> order" "order \<le> 20" "in_range spec pos inc sz"
  shows "\<exists>spec' a'. tns_ar_filter spec pos sz inc a order = Some (spec', a') \<and> length spec' = length spec
    \<and> (\<forall>i < nat sz. seg spec' pos inc (nat sz) ! i
         = ar_sample a (nat order) (seg spec' pos inc (nat sz)) i (seg spec pos inc (nat sz) ! i))
    \<and> (\<forall>p < length spec. (\<forall>i < nat sz. int p \<noteq> pos + inc * int i) \<longrightarrow> spec' ! p = spec ! p)"
  using assms by (rule ar_filter_run)

lemma tns_recurrence_witness:
  "\<exists>spec' a'. tns_ar_filter [1, 2, 3, 4000] 3 3 (- 1) (replicate 48 7) 2 = Some (spec', a') \<and> spec' ! 0 = 1"
proof -
  have r: "in_range [1, 2, 3, 4000] 3 (- 1) 3" by (simp add: in_range_def)
  obtain spec' a' where "tns_ar_filter [1, 2, 3, 4000] 3 3 (- 1) (replicate 48 7) 2 = Some (spec', a')"
      "\<forall>p < 4. (\<forall>i < nat 3. int p \<noteq> 3 + (- 1) * int i) \<longrightarrow> spec' ! p = [1, 2, 3, 4000] ! p"
    using tns_recurrence [OF _ _ _ r, of "replicate 48 7" 2] by auto
  then show ?thesis by (intro exI conjI) (auto dest!: spec [of _ 0])
qed

text \<open>C34. The coefficients of the filter are exact up to order seven: for every transmitted index, \<open>tns_decode_coef\<close>
  leaves the coefficients of the step-up recursion computed without wrap-around, and their bound grows by one
  bit with each order. For twelve the recursion can wrap (\<open>lpc_wraps\<close>).\<close>

theorem filter_coefficients_exact:
  assumes "length a = 48" "0 \<le> order" "order \<le> 7" "order \<le> int (length cs)"
  shows "\<exists>a'. tns_decode_coef order res compress cs a = Some a'
    \<and> holds_lpc a' (fold step_exact (reflections (tns_table res compress) (take (nat order) cs)) [])
    \<and> (\<forall>i \<in> {1..nat order}. \<bar>a' ! i\<bar> \<le> 2 ^ (nat order + 23) + 2 ^ nat order - 1)"
  using assms by (rule tns_coef_exact)

lemma filter_coefficients_exact_witness:
  "\<exists>a'. tns_decode_coef 3 4 0 [8, 3, 5] (replicate 48 0) = Some a' \<and> \<bar>a' ! 2\<bar> \<le> 2 ^ 26 + 7"
  using filter_coefficients_exact [of "replicate 48 0" 3 "[8, 3, 5]" 4 0] by auto

section \<open>The filter bank\<close>

text \<open>C35. The windows preserve power: in both shapes, long and short, the squares of the two window values that meet in an
  overlap add up to one (\<open>2 ^ 62\<close> for values with 31 fraction bits), up to \<open>2 ^ - 30\<close> of it. This is the condition
  under which the aliasing of neighbouring blocks cancels.\<close>

theorem windows_power:
  "i < 576 \<Longrightarrow> \<bar>(window_of shape ! (2 * i))\<^sup>2 + (window_of shape ! (2 * i + 1))\<^sup>2 - 2 ^ 62\<bar> < 2 ^ 32"
  using complementary_nth [OF windows_complementary(1), of i] complementary_nth [OF windows_complementary(2), of i]
  by (simp add: window_of_def power2_eq_square)

lemma windows_power_witness: "\<bar>(window_of 1 ! 130)\<^sup>2 + (window_of 1 ! 131)\<^sup>2 - 2 ^ 62\<bar> < 2 ^ 32"
  using windows_power [of 65 1] by simp

text \<open>C36. The permutation in front of the FFT is the bit reversal: \<open>Shuffle\<close>, driven by its table of exchanges, puts at
  complex number \<open>k\<close> the number whose index is \<open>k\<close> with its bits reversed (six bits for the short transform, nine for
  the long one), for every content of the block.\<close>

theorem shuffle_bit_reversal:
  assumes "idx = 0 \<or> idx = 1" "even p" "p + (if idx = 0 then 128 else 1024) \<le> length x"
  shows "\<exists>y. Shuffle (int p) idx x = Some y \<and> (\<forall>k < (if idx = 0 then 64 else 512).
     y ! (p + 2 * k) = x ! (p + 2 * nat (bitrev (if idx = 0 then 6 else 9) (int k)))
     \<and> y ! (p + 2 * k + 1) = x ! (p + 2 * nat (bitrev (if idx = 0 then 6 else 9) (int k)) + 1))"
  using Shuffle_places [OF assms] by blast

lemma shuffle_bit_reversal_witness: "\<exists>y. Shuffle 0 0 [0..127] = Some y \<and> y ! 2 = 64"
proof -
  obtain y where y: "Shuffle (int 0) 0 [0..127 :: int] = Some y" "\<forall>k < 64. y ! (0 + 2 * k) = [0..127] ! (0 + 2 * nat (bitrev 6 (int k)))"
    using shuffle_bit_reversal [of 0 0 "[0..127 :: int]"] by auto
  have "bitrev 6 1 = 32" by code_simp
  then show ?thesis using y spec [OF y(2), of 1] by (simp add: numeral_2_eq_2)
qed

text \<open>C37. The transform is safe: for both sizes and guard bits down to \<open>- 26\<close>, \<open>ttIMDCT\<close> returns, reads its tables in
  bounds, shifts by less than a word, and changes nothing outside its block.\<close>

theorem imdct_safe:
  assumes "idx = 0 \<or> idx = 1" "0 \<le> p" "p + (if idx = 0 then 128 else 1024) \<le> int (length xs)" "- 26 \<le> gb"
  shows "\<exists>ys. ttIMDCT idx p gb xs = Some ys \<and> length ys = length xs
     \<and> (\<forall>i < length xs. int i < p \<or> p + (if idx = 0 then 128 else 1024) \<le> int i \<longrightarrow> ys ! i = xs ! i)"
proof -
  have "wp (ttIMDCT idx p gb xs) (region p (if idx = 0 then 128 else 1024) xs)"
    by (rule ttIMDCT_region) (use assms in \<open>auto simp: fft_ok_def intro!: region_refl\<close>)
  then show ?thesis by (auto simp: wp_iff region_def)
qed

lemma imdct_safe_witness: "\<exists>ys. ttIMDCT 0 128 4 (replicate 1024 1) = Some ys \<and> ys ! 0 = 1"
  using imdct_safe [of 0 128 "replicate 1024 1" 4] by force

text \<open>C38. All four windows are the same overlap-add: on 32-bit values, whichever of the four window sequences is decoded
  with whichever shapes, the samples are the sums of the old overlap and the first half of the windowed block, and the
  new overlap is its second half (\<open>block_time\<close>: one long block, with long or short slopes, or the sum of eight short
  blocks 128 entries apart); nothing else is written.\<close>

theorem window_overlap_add:
  assumes "length inBuf = 1024" "length overl = 1024" "dst + 1024 \<le> length tmpBuf" "0 \<le> wseq" "wseq < 4"
    and "list_all (\<lambda>x. s32 x = x) inBuf" "list_all (\<lambda>x. s32 x = x) overl"
  shows "\<exists>overl' tmpBuf'. window_block wseq inBuf overl (int dst) tmpBuf shape prevShape = Some (overl', tmpBuf')
    \<and> (\<forall>i < 1024. tmpBuf' ! (dst + i) = s32 (block_time wseq (window_of prevShape) (window_of shape) inBuf overl i)
         \<and> overl' ! i = s32 (block_time wseq (window_of prevShape) (window_of shape) inBuf overl (1024 + i)))
    \<and> (\<forall>i < length tmpBuf. i < dst \<or> dst + 1024 \<le> i \<longrightarrow> tmpBuf' ! i = tmpBuf ! i)"
  using window_block_sums [OF assms] by (auto simp: wp_iff)

lemma window_overlap_add_witness:
  "\<exists>overl' tmpBuf'. window_block 2 (replicate 1024 9) (replicate 1024 7) 0 (replicate 4096 0) 1 0 = Some (overl', tmpBuf')
    \<and> tmpBuf' ! 100 = 7"
proof -
  have v: "list_all (\<lambda>x. s32 x = x) (replicate 1024 (9 :: int))" "list_all (\<lambda>x. s32 x = x) (replicate 1024 (7 :: int))"
    by (simp_all add: list_all_iff s32_id)
  obtain a b where "window_block 2 (replicate 1024 9) (replicate 1024 7) (int 0) (replicate 4096 0) 1 0 = Some (a, b)"
      "\<forall>i<1024. b ! (0 + i) = s32 (block_time 2 (window_of 0) (window_of 1) (replicate 1024 9) (replicate 1024 7) i)"
    using window_overlap_add [of "replicate 1024 9" "replicate 1024 7" 0 "replicate 4096 0" 2 1 0, OF _ _ _ _ _ v] by auto
  moreover have "block_time 2 (window_of 0) (window_of 1) (replicate 1024 9) (replicate 1024 7) 100 = 7"
    by (simp add: block_time_def EIGHT_SHORT_SEQUENCE_def short_time_low)
  ultimately show ?thesis by (auto simp: s32_id)
qed

text \<open>C39. The filter bank is safe: when the channels of the element have slots in the channel map and places in the
  output, \<open>filter_bank\<close> returns, keeps its buffers well formed and the length of the output, and its only error is
  a failed allocation of an overlap buffer.\<close>

theorem filter_bank_safe:
  assumes "fb_ok d" "fb_slots d pcm"
  shows "\<exists>err d' pcm'. filter_bank malloc d pcm = Some (err, d', pcm') \<and> (err = 0 \<or> err = TTKErrNoMemory)
     \<and> fb_ok d' \<and> fb_changed d d' \<and> length pcm' = length pcm"
  using filter_bank_ok [OF assms, of malloc] by (auto simp: wp_iff)

lemma filter_bank_safe_witness: "\<exists>err d' pcm'. filter_bank (\<lambda>_. True) filter_example (replicate 2048 0) = Some (err, d', pcm') \<and> length pcm' = 2048"
  using filter_bank_safe [OF filter_example_ok, of "\<lambda>_. True"] by auto

text \<open>C40. What is played: sample \<open>k\<close> of a channel is the overlap-add at \<open>k\<close>, divided by eight, rounded to the nearest
  integer and clipped to 16 bits, at its place in the interleaved output, as long as the sum leaves room to round.\<close>

theorem channel_samples:
  fixes ics :: ICS_Data
  assumes "fb_ok d" "ch = 0 \<or> ch = 1" "0 \<le> co" "co < 8" "0 \<le> ob" "0 < st" "ob + 1023 * st < int (length pcm)"
    and "length v = 1024" "list_all (\<lambda>x. s32 x = x) v" "0 \<le> window_sequence ics" "window_sequence ics < 4"
  defines "T \<equiv> block_time (window_sequence ics) (window_of (prevWinShape d ! nat co)) (window_of (window_shape ics)) (coef d ! nat ch) v"
  shows "\<exists>d' pcm'. fb_windowed d ics ch co ob st v pcm = Some (d', pcm') \<and> (\<forall>k < 1024. - (2 ^ 31) \<le> T k \<and> T k < 2 ^ 31 - 4 \<longrightarrow>
     pcm' ! nat (ob + int k * st) = max (- 32768) (min 32767 ((T k + 4) div 8)))"
proof -
  obtain d' pcm' where r: "fb_windowed d ics ch co ob st v pcm = Some (d', pcm')" "\<forall>k<1024. pcm' ! nat (ob + int k * st) = pcm_of (s32 (T k))"
    using fb_windowed_samples [OF assms(1-8,10,11,9)] by (auto simp: wp_iff T_def)
  have "pcm_of (s32 (T k)) = max (- 32768) (min 32767 ((T k + 4) div 8))" if "- (2 ^ 31) \<le> T k \<and> T k < 2 ^ 31 - 4" for k
    using pcm_of_rounds [of "T k"] that by (simp add: s32_id)
  then show ?thesis using r by auto
qed

lemma channel_samples_witness:
  "\<exists>d' pcm'. fb_windowed filter_example (ics_example\<lparr>window_sequence := 2\<rparr>) 0 1 1 2 (replicate 1024 100) (replicate 2048 0) = Some (d', pcm')
    \<and> pcm' ! 201 = 13"
proof -
  have v: "list_all (\<lambda>x. s32 x = x) (replicate 1024 (100 :: int))" by (simp add: list_all_iff s32_id)
  let ?T = "block_time 2 (window_of (prevWinShape filter_example ! 1)) (window_of (window_shape ics_example)) (coef filter_example ! 0) (replicate 1024 100)"
  obtain d' pcm' where r: "fb_windowed filter_example (ics_example\<lparr>window_sequence := 2\<rparr>) 0 1 1 2 (replicate 1024 100) (replicate 2048 0) = Some (d', pcm')"
      "\<forall>k < 1024. - (2 ^ 31) \<le> ?T k \<and> ?T k < 2 ^ 31 - 4 \<longrightarrow> pcm' ! nat (1 + int k * 2) = max (- 32768) (min 32767 ((?T k + 4) div 8))"
    using channel_samples [OF filter_example_ok(1), of 0 1 1 2 "replicate 2048 0" "replicate 1024 100" "ics_example\<lparr>window_sequence := 2\<rparr>"] v by auto
  have "?T 100 = 100" by (simp add: block_time_def EIGHT_SHORT_SEQUENCE_def short_time_low)
  then show ?thesis using r spec [OF r(2), of 100] by simp
qed

end
